(* ===== verification/Prelude.thy ===== *)
theory Prelude
  imports Complex_Main
begin

text \<open>
  Shared vocabulary of the development: the exceptions the code raises, Python's numbers and
  strings as far as the code uses them, JSON values, and the generic lemmas the component
  theories share.

  Numbers. Python's \<open>int\<close> is \<^typ>\<open>int\<close>; \<open>fractions.Fraction\<close> is \<^typ>\<open>rat\<close>, exactly. A
  finite \<open>float\<close> is the rational it denotes; \<open>pyfloat\<close> adds the infinities and NaN where the
  code tests for them. Comparisons of floats are exact in Python and here. Arithmetic on floats
  is computed exactly here, without the rounding of each intermediate result to 53 bits.
  Where a float is printed, \<open>fl\<close> (rounding to binary64) and \<open>float_repr\<close> follow Python.

  Strings. A \<open>str\<close> is a list of characters (code points below 256).
\<close>

named_theorems handler_simps \<open>definitions unfolded to run a handler\<close>
named_theorems eval_simps \<open>equations that evaluate a closed term\<close>

section \<open>Exceptions\<close>

datatype exn =
    MediaRuleError string
  | ValueError string
  | KeyError string
  | LookupError string
  | TypeError string
  | ZeroDivisionError
  | ObjectStoreError (diagnostic: string) (user_message: string)
  | TimeoutExpired
  | Interrupted string
  | IntegrityError
  | JobNotFound
  | InvalidJobTransition string
  | S3Error (s3_code: string)
  | RedisError
  | HTTPException (status_code: nat) (detail: string)
  | ApiNotFound string
  | ApiUnauthorized string
  | ApiForbidden string
  | UploadLimitReached
  | EmailAlreadyRegistered
  | OtherError string

section \<open>Rounding\<close>

definition round_half_even :: "rat \<Rightarrow> int" where
  "round_half_even x =
     (let f = \<lfloor>x\<rfloor>; d = x - of_int f
      in if d < 1/2 then f else if 1/2 < d then f + 1 else if even f then f else f + 1)"

lemma round_half_even_of_int [simp]: "round_half_even (of_int k) = k"
  by (simp add: round_half_even_def)

lemma round_half_even_numeral [simp]: "round_half_even (numeral k) = numeral k"
  using round_half_even_of_int [of "numeral k"] by simp

lemma round_half_even_bounds:
  "of_int (round_half_even x) - 1/2 \<le> x \<and> x \<le> of_int (round_half_even x) + 1/2"
proof -
  define f where "f = \<lfloor>x\<rfloor>"
  have "of_int f \<le> x" "x < of_int f + 1"
    unfolding f_def by linarith+
  then show ?thesis
    unfolding round_half_even_def Let_def f_def [symmetric] by (simp split: if_splits)
qed

lemma round_half_even_nonneg: "0 \<le> x \<Longrightarrow> 0 \<le> round_half_even x"
  by (auto simp: round_half_even_def Let_def)

definition trunc_int :: "rat \<Rightarrow> int" where
  \<comment> \<open>\<open>int(x)\<close> of a finite float: towards zero\<close>
  "trunc_int x = (if 0 \<le> x then \<lfloor>x\<rfloor> else \<lceil>x\<rceil>)"

section \<open>Decimal text\<close>

definition digit :: "nat \<Rightarrow> char" where
  "digit d = ''0123456789'' ! d"

fun dec :: "nat \<Rightarrow> string" where
  "dec n = (if n < 10 then [digit n] else dec (n div 10) @ [digit (n mod 10)])"

declare dec.simps [simp del, eval_simps]
declare digit_def [eval_simps]

definition dec_int :: "int \<Rightarrow> string" where
  "dec_int i = (if i < 0 then CHR ''-'' # dec (nat (- i)) else dec (nat i))"

declare dec_int_def [eval_simps]

definition digit_val :: "char \<Rightarrow> nat" where
  \<comment> \<open>\<open>ord(c) - ord("0")\<close>\<close>
  "digit_val c = of_char c - 48"

definition is_digit :: "char \<Rightarrow> bool" where
  "is_digit c \<longleftrightarrow> c \<in> set ''0123456789''"

fun undec_acc :: "nat \<Rightarrow> string \<Rightarrow> nat" where
  "undec_acc a [] = a"
| "undec_acc a (c # cs) = undec_acc (10 * a + digit_val c) cs"

definition undec :: "string \<Rightarrow> nat" where
  "undec s = undec_acc 0 s"

lemma less_10_cases:
  "(d::nat) < 10 \<Longrightarrow> d = 0 \<or> d = 1 \<or> d = 2 \<or> d = 3 \<or> d = 4 \<or> d = 5 \<or> d = 6 \<or> d = 7 \<or> d = 8 \<or> d = 9"
  by arith

lemma digit_val_digit [simp]: "d < 10 \<Longrightarrow> digit_val (digit d) = d"
  by (drule less_10_cases) (auto simp: digit_def digit_val_def)

lemma is_digit_digit [simp]: "d < 10 \<Longrightarrow> is_digit (digit d)"
  by (drule less_10_cases) (auto simp: digit_def is_digit_def)

lemma undec_acc_append: "undec_acc a (s @ t) = undec_acc (undec_acc a s) t"
  by (induction s arbitrary: a) auto

lemma undec_dec [simp]: "undec (dec n) = n"
proof (induction n rule: dec.induct)
  case (1 n)
  show ?case
  proof (cases "n < 10")
    case True
    then show ?thesis by (simp add: dec.simps [of n] undec_def)
  next
    case False
    with "1" have "undec_acc 0 (dec (n div 10)) = n div 10"
      by (simp add: undec_def)
    with False show ?thesis
      by (simp add: dec.simps [of n] undec_def undec_acc_append)
  qed
qed

lemma dec_inject [simp]: "dec m = dec n \<longleftrightarrow> m = n"
  by (metis undec_dec)

lemma dec_digits: "c \<in> set (dec n) \<Longrightarrow> is_digit c"
proof (induction n rule: dec.induct)
  case (1 n)
  then show ?case
    by (cases "n < 10") (auto simp: dec.simps [of n])
qed

lemma dec_nonempty [simp]: "dec n \<noteq> []"
  by (subst dec.simps) simp

lemma dec_notin: "\<not> is_digit c \<Longrightarrow> c \<notin> set (dec n)"
  using dec_digits by blast

lemma slash_notin_dec [simp]: "CHR ''/'' \<notin> set (dec n)"
  by (rule dec_notin) (simp add: is_digit_def)

lemma colon_notin_dec [simp]: "CHR '':'' \<notin> set (dec n)"
  by (rule dec_notin) (simp add: is_digit_def)

definition pad0 :: "nat \<Rightarrow> string \<Rightarrow> string" where
  \<comment> \<open>the zero padding of \<open>{x:02d}\<close> and \<open>{x:04d}\<close>\<close>
  "pad0 w s = replicate (w - length s) CHR ''0'' @ s"

declare pad0_def [eval_simps]

lemma undec_acc_zeros: "undec_acc 0 (replicate k CHR ''0'') = 0"
  by (induction k) (auto simp: digit_val_def)

lemma undec_pad0 [simp]: "undec (pad0 w s) = undec s"
  by (simp add: pad0_def undec_def undec_acc_append undec_acc_zeros)

lemma pad0_dec_inject [simp]: "pad0 w (dec m) = pad0 w (dec n) \<longleftrightarrow> m = n"
  by (metis undec_dec undec_pad0)

section \<open>Python string operations\<close>

definition join :: "string \<Rightarrow> string list \<Rightarrow> string" where
  "join sep xs = (case xs of [] \<Rightarrow> [] | y # ys \<Rightarrow> y @ concat (map (\<lambda>s. sep @ s) ys))"

declare join_def [eval_simps]

definition quote :: string where "quote = [CHR 0x22]"
definition apostrophe :: string where "apostrophe = [CHR 0x27]"
definition newline :: string where "newline = [CHR 0x0A]"
definition backslash :: string where "backslash = [CHR 0x5C]"

declare quote_def [eval_simps] apostrophe_def [eval_simps] newline_def [eval_simps]
  backslash_def [eval_simps]

definition py_space :: "char \<Rightarrow> bool" where
  \<comment> \<open>\<open>str.isspace\<close> below code point 256\<close>
  "py_space c \<longleftrightarrow> (let n = of_char c :: nat
     in (9 \<le> n \<and> n \<le> 13) \<or> (28 \<le> n \<and> n \<le> 32) \<or> n = 133 \<or> n = 160)"

definition lstrip :: "string \<Rightarrow> string" where
  "lstrip s = dropWhile py_space s"

definition rstrip :: "string \<Rightarrow> string" where
  "rstrip s = rev (dropWhile py_space (rev s))"

definition strip :: "string \<Rightarrow> string" where
  "strip s = rstrip (lstrip s)"

definition strip_chars :: "char \<Rightarrow> string \<Rightarrow> string" where
  \<comment> \<open>\<open>s.strip(c)\<close> for a one-character argument\<close>
  "strip_chars c s = rev (dropWhile ((=) c) (rev (dropWhile ((=) c) s)))"

definition lower_char :: "char \<Rightarrow> char" where
  "lower_char c =
     (let n = of_char c :: nat
      in if 65 \<le> n \<and> n \<le> 90 \<or> 192 \<le> n \<and> n \<le> 222 \<and> n \<noteq> 215 then char_of (n + 32) else c)"

definition lower :: "string \<Rightarrow> string" where
  \<comment> \<open>\<open>str.lower\<close>\<close>
  "lower s = map lower_char s"

definition starts_with :: "string \<Rightarrow> string \<Rightarrow> bool" where
  "starts_with s p \<longleftrightarrow> take (length p) s = p"

definition ends_with :: "string \<Rightarrow> string \<Rightarrow> bool" where
  "ends_with s p \<longleftrightarrow> starts_with (rev s) (rev p)"

fun contains :: "string \<Rightarrow> string \<Rightarrow> bool" where
  \<comment> \<open>\<open>p in s\<close>\<close>
  "contains [] p = (p = [])"
| "contains (c # cs) p = (starts_with (c # cs) p \<or> contains cs p)"

definition before_last :: "char \<Rightarrow> string \<Rightarrow> string" where
  \<comment> \<open>\<open>s.rsplit(c, 1)[0]\<close>\<close>
  "before_last c s =
     (if c \<in> set s then rev (tl (dropWhile (\<lambda>x. x \<noteq> c) (rev s))) else s)"

definition after_last :: "char \<Rightarrow> string \<Rightarrow> string" where
  \<comment> \<open>\<open>s.rsplit(c, 1)[-1]\<close>\<close>
  "after_last c s = rev (takeWhile (\<lambda>x. x \<noteq> c) (rev s))"

lemma after_last_notin: "c \<notin> set (after_last c s)"
  by (auto simp: after_last_def dest: set_takeWhileD)

lemma before_last_append [simp]:
  "c \<notin> set t \<Longrightarrow> before_last c (s @ c # t) = s"
proof -
  assume "c \<notin> set t"
  then have "dropWhile (\<lambda>x. x \<noteq> c) (rev t @ c # rev s) = c # rev s"
    by (subst dropWhile_append2) auto
  then show ?thesis by (simp add: before_last_def)
qed

lemma after_last_append [simp]:
  "c \<notin> set t \<Longrightarrow> after_last c (s @ c # t) = t"
proof -
  assume "c \<notin> set t"
  then have "takeWhile (\<lambda>x. x \<noteq> c) (rev t @ c # rev s) = rev t"
    by (subst takeWhile_append2) auto
  then show ?thesis by (simp add: after_last_def)
qed

fun split_lines_acc :: "string \<Rightarrow> string \<Rightarrow> string list" where
  "split_lines_acc acc [] = (if acc = [] then [] else [rev acc])"
| "split_lines_acc acc (c # cs) =
     (if c = CHR 0x0A then rev acc # split_lines_acc [] cs else split_lines_acc (c # acc) cs)"

definition split_lines :: "string \<Rightarrow> string list" where
  \<comment> \<open>\<open>str.splitlines\<close> on text whose only line break is the newline\<close>
  "split_lines s = split_lines_acc [] s"

definition unlines :: "string list \<Rightarrow> string" where
  \<comment> \<open>newline-joined, with a final newline\<close>
  "unlines ls = concat (map (\<lambda>l. l @ newline) ls)"

lemma split_lines_acc_line:
  "CHR 0x0A \<notin> set l \<Longrightarrow>
   split_lines_acc acc (l @ CHR 0x0A # rest) = (rev acc @ l) # split_lines_acc [] rest"
  by (induction l arbitrary: acc) auto

lemma split_lines_unlines:
  "(\<And>l. l \<in> set ls \<Longrightarrow> CHR 0x0A \<notin> set l) \<Longrightarrow> split_lines (unlines ls) = ls"
proof (induction ls)
  case Nil
  then show ?case by (simp add: split_lines_def unlines_def)
next
  case (Cons l ls)
  then show ?case
    by (simp add: split_lines_def unlines_def newline_def split_lines_acc_line)
qed

lemma starts_with_append [simp]: "starts_with (p @ s) p"
  by (simp add: starts_with_def)

lemma starts_withD: "starts_with s p \<Longrightarrow> \<exists>t. s = p @ t"
  unfolding starts_with_def by (metis append_take_drop_id)

lemma dropWhile_Nil_imp: "dropWhile P s = [] \<Longrightarrow> x \<in> set s \<Longrightarrow> P x"
  by (metis dropWhile_eq_Nil_conv)

fun split_on :: "char \<Rightarrow> string \<Rightarrow> string list" where
  \<comment> \<open>\<open>s.split(c)\<close>\<close>
  "split_on c [] = [[]]"
| "split_on c (x # xs) =
     (if x = c then [] # split_on c xs
      else (x # hd (split_on c xs)) # tl (split_on c xs))"

lemma split_on_nonempty [simp]: "split_on c s \<noteq> []"
  by (induction s) auto

lemma split_on_notin: "c \<notin> set s \<Longrightarrow> split_on c s = [s]"
  by (induction s) auto

lemma split_on_append: "c \<notin> set s \<Longrightarrow> split_on c (s @ c # t) = s # split_on c t"
  by (induction s) auto

section \<open>JSON values and floats with infinities\<close>

datatype pyfloat = Fin rat | PInf | NInf | NaN

datatype json =
    JNull
  | JBool bool
  | JInt int
  | JFloat pyfloat
  | JStr string
  | JList "json list"
  | JObj "(string \<times> json) list"

type_synonym params = "(string \<times> json) list"

fun isfinite :: "pyfloat \<Rightarrow> bool" where
  "isfinite (Fin _) = True"
| "isfinite _ = False"

fun float_less :: "pyfloat \<Rightarrow> pyfloat \<Rightarrow> bool" where
  "float_less (Fin a) (Fin b) = (a < b)"
| "float_less (Fin _) PInf = True"
| "float_less NInf (Fin _) = True"
| "float_less NInf PInf = True"
| "float_less _ _ = False"

fun float_le :: "pyfloat \<Rightarrow> pyfloat \<Rightarrow> bool" where
  "float_le (Fin a) (Fin b) = (a \<le> b)"
| "float_le (Fin _) PInf = True"
| "float_le PInf PInf = True"
| "float_le NInf NInf = True"
| "float_le NInf (Fin _) = True"
| "float_le NInf PInf = True"
| "float_le _ _ = False"

section \<open>Generic lemmas\<close>

lemma map_of_eq_set:
  "distinct (map fst xs) \<Longrightarrow> distinct (map fst ys) \<Longrightarrow> set xs = set ys \<Longrightarrow> map_of xs = map_of ys"
  by (simp add: map_of_inject_set)

lemma map_of_rev_distinct: "distinct (map fst xs) \<Longrightarrow> map_of (rev xs) = map_of xs"
  by (rule map_of_eq_set) (simp_all add: rev_map [symmetric])

end
