(* ===== verification/Media_Rules.thy ===== *)
theory Media_Rules
  imports Prelude
begin

text \<open>
  \<open>app/services/media_rules.py\<close>: what a source may be, and which edits make sense for it.
  The API applies these rules to the dimensions stored on a job, the worker applies the same
  rules to the file it downloaded. A refusal is \<open>Inl\<close> of the exception, with its message.
\<close>

section \<open>Constants and data\<close>

definition SCALE_HEIGHTS :: "int list" where
  "SCALE_HEIGHTS = [240, 360, 480, 720, 1080, 1440, 2160]"

definition MAX_SCALE_HEIGHT :: int where
  "MAX_SCALE_HEIGHT = last SCALE_HEIGHTS"

definition OPERATION_ORDER :: "string list" where
  "OPERATION_ORDER =
     [''clip'', ''crop'', ''rotate'', ''flip'', ''downscale'', ''upscale'', ''adjust'',
      ''preset'', ''speed'', ''convert'']"

record frame =
  frame_width :: "int option"
  frame_height :: "int option"

record operation_rule =
  rule_label :: string
  rule_check :: "params \<Rightarrow> frame \<Rightarrow> exn + frame"
  changes_picture :: bool

type_synonym rules = "(string \<times> operation_rule) list"

definition register_rule :: "string \<Rightarrow> operation_rule \<Rightarrow> rules \<Rightarrow> exn + rules" where
  "register_rule name rule rs =
     (if name \<notin> set OPERATION_ORDER
      then Inl (ValueError (apostrophe @ name @ apostrophe @ '' has no place in OPERATION_ORDER''))
      else if map_of rs name \<noteq> None
      then Inl (ValueError (apostrophe @ name @ apostrophe @ '' is registered twice''))
      else Inr (rs @ [(name, rule)]))"

definition ordered :: "string set \<Rightarrow> string list" where
  "ordered names = filter (\<lambda>name. name \<in> names) OPERATION_ORDER"

section \<open>Messages\<close>

definition join_labels :: "string list \<Rightarrow> string" where
  "join_labels labels =
     (if length labels = 1 then hd labels
      else join '', '' (butlast labels) @ '' and '' @ last labels)"

definition format_duration :: "rat \<Rightarrow> string" where
  "format_duration seconds =
     (let total = max 0 \<lceil>seconds\<rceil>;
          hours = total div 3600; remainder = total mod 3600;
          minutes = remainder div 60; secs = remainder mod 60
      in if hours \<noteq> 0
         then dec_int hours @ '':'' @ pad0 2 (dec_int minutes) @ '':'' @ pad0 2 (dec_int secs)
         else dec_int minutes @ '':'' @ pad0 2 (dec_int secs))"

definition describe_limit :: "int \<Rightarrow> string" where
  "describe_limit seconds =
     (if seconds mod 60 = 0
      then let minutes = seconds div 60
           in dec_int minutes @ '' minute'' @ (if minutes = 1 then [] else ''s'')
      else dec_int seconds @ '' seconds'')"

section \<open>The source and the scale\<close>

definition check_source_duration :: "pyfloat \<Rightarrow> int \<Rightarrow> exn + unit" where
  "check_source_duration duration_seconds max_duration_seconds =
     (if max_duration_seconds \<le> 0 then Inr ()
      else case duration_seconds of
        Fin d \<Rightarrow>
          if d \<le> 0 then Inl (MediaRuleError ''the video's length could not be determined'')
          else if of_int max_duration_seconds < d
          then Inl (MediaRuleError (''this video is '' @ format_duration d @ '' long; ''
                 @ ''the limit is '' @ describe_limit max_duration_seconds @ ''. ''
                 @ ''Trim it and upload it again''))
          else Inr ()
      | _ \<Rightarrow> Inl (MediaRuleError ''the video's length could not be determined''))"

definition editable_height :: "int option \<Rightarrow> bool \<Rightarrow> int \<Rightarrow> int option" where
  "editable_height h is_edit mp4_max_height =
     (case h of
        None \<Rightarrow> None
      | Some height \<Rightarrow>
          if height \<le> 0 then None
          else if is_edit then Some height
          else Some (if 0 < mp4_max_height then min height mp4_max_height else height))"

definition scale_options :: "int option \<Rightarrow> (int list \<times> int list) option" where
  \<comment> \<open>the pair \<open>downscale\<close>, \<open>upscale\<close>\<close>
  "scale_options input_height =
     (case input_height of
        None \<Rightarrow> None
      | Some ih \<Rightarrow>
          if ih \<le> 0 then None
          else Some (rev (sort (filter (\<lambda>h. h < ih) SCALE_HEIGHTS)),
                     filter (\<lambda>h. ih < h) SCALE_HEIGHTS))"

definition check_scale :: "string \<Rightarrow> int \<Rightarrow> int option \<Rightarrow> exn + unit" where
  "check_scale operation target_height input_height =
     (if target_height \<notin> set SCALE_HEIGHTS
      then Inl (MediaRuleError (operation @ '' height must be one of ''
             @ join '', '' (map (\<lambda>h. dec_int h @ ''p'') SCALE_HEIGHTS)))
      else case input_height of
        None \<Rightarrow> Inr ()
      | Some ih \<Rightarrow>
          if operation = ''downscale'' \<and> ih \<le> target_height
          then Inl (MediaRuleError (''downscale must be to a height below the video's ''
                 @ dec_int ih @ ''p; '' @ dec_int target_height @ ''p is not smaller''))
          else if operation = ''upscale'' \<and> target_height \<le> ih
          then Inl (MediaRuleError (''upscale must be to a height above the video's ''
                 @ dec_int ih @ ''p; '' @ dec_int target_height @ ''p is not larger''))
          else Inr ())"

section \<open>The rules\<close>

definition known :: "json option \<Rightarrow> int option" where
  "known value = (case value of Some (JInt v) \<Rightarrow> if 0 < v then Some v else None | _ \<Rightarrow> None)"

definition crop_rule :: "params \<Rightarrow> frame \<Rightarrow> exn + frame" where
  "crop_rule params frame =
     Inr \<lparr>frame_width = known (map_of params ''w''), frame_height = known (map_of params ''h'')\<rparr>"

definition even_size :: "int \<Rightarrow> int \<Rightarrow> int \<Rightarrow> int" where
  \<comment> \<open>\<open>max(2, round(side * target / other / 2) * 2)\<close>\<close>
  "even_size side target other =
     max 2 (round_half_even (of_int side * of_int target / of_int other / 2) * 2)"

definition scale_rule :: "string \<Rightarrow> params \<Rightarrow> frame \<Rightarrow> exn + frame" where
  "scale_rule operation params frame =
     (case map_of params ''height'' of
        Some (JInt target) \<Rightarrow>
          (case check_scale operation target (frame_height frame) of
             Inl e \<Rightarrow> Inl e
           | Inr _ \<Rightarrow>
               Inr \<lparr>frame_width =
                      (case (frame_width frame, frame_height frame) of
                         (Some w, Some h) \<Rightarrow>
                           if w \<noteq> 0 \<and> h \<noteq> 0 then Some (even_size w target h) else None
                       | _ \<Rightarrow> None),
                    frame_height = Some target\<rparr>)
      | _ \<Rightarrow> Inl (MediaRuleError (operation @ '' height must be a whole number of pixels'')))"

definition unchanged :: "params \<Rightarrow> frame \<Rightarrow> exn + frame" where
  "unchanged params frame = Inr frame"

fun num_eq :: "json \<Rightarrow> int \<Rightarrow> bool" where
  \<comment> \<open>Python's \<open>==\<close> against an integer: \<open>90.0 == 90\<close>, \<open>True == 1\<close>\<close>
  "num_eq (JInt i) k = (i = k)"
| "num_eq (JFloat (Fin r)) k = (r = of_int k)"
| "num_eq (JBool b) k = (k = (if b then 1 else 0))"
| "num_eq _ k = False"

definition rotate_rule :: "params \<Rightarrow> frame \<Rightarrow> exn + frame" where
  "rotate_rule params frame =
     (case map_of params ''degrees'' of
        None \<Rightarrow> Inl (KeyError ''degrees'')
      | Some d \<Rightarrow>
          if num_eq d 90 \<or> num_eq d 270
          then Inr \<lparr>frame_width = frame_height frame, frame_height = frame_width frame\<rparr>
          else Inr frame)"

definition registrations :: "(string \<times> operation_rule) list" where
  \<comment> \<open>the \<open>register_rule\<close> calls at the bottom of the module, in order\<close>
  "registrations =
     [(''rotate'', \<lparr>rule_label = ''rotate'', rule_check = rotate_rule, changes_picture = True\<rparr>),
      (''flip'', \<lparr>rule_label = ''flip'', rule_check = unchanged, changes_picture = True\<rparr>),
      (''speed'', \<lparr>rule_label = ''speed'', rule_check = unchanged, changes_picture = False\<rparr>),
      (''clip'', \<lparr>rule_label = ''clip'', rule_check = unchanged, changes_picture = False\<rparr>),
      (''crop'', \<lparr>rule_label = ''crop'', rule_check = crop_rule, changes_picture = True\<rparr>),
      (''downscale'', \<lparr>rule_label = ''scale'', rule_check = scale_rule ''downscale'', changes_picture = True\<rparr>),
      (''upscale'', \<lparr>rule_label = ''scale'', rule_check = scale_rule ''upscale'', changes_picture = True\<rparr>),
      (''adjust'', \<lparr>rule_label = ''colour'', rule_check = unchanged, changes_picture = True\<rparr>),
      (''preset'', \<lparr>rule_label = ''preset'', rule_check = unchanged, changes_picture = True\<rparr>),
      (''convert'', \<lparr>rule_label = ''convert'', rule_check = unchanged, changes_picture = False\<rparr>)]"

fun register_all :: "(string \<times> operation_rule) list \<Rightarrow> rules \<Rightarrow> exn + rules" where
  "register_all [] rs = Inr rs"
| "register_all ((name, rule) # todo) rs =
     (case register_rule name rule rs of Inl e \<Rightarrow> Inl e | Inr rs' \<Rightarrow> register_all todo rs')"

definition OPERATION_RULES :: rules where
  "OPERATION_RULES = (case register_all registrations [] of Inr rs \<Rightarrow> rs | Inl _ \<Rightarrow> [])"

section \<open>One edit request\<close>

fun picture_labels :: "string list \<Rightarrow> string list \<Rightarrow> string list" where
  "picture_labels [] labels = labels"
| "picture_labels (name # names) labels =
     (case map_of OPERATION_RULES name of
        Some rule \<Rightarrow>
          picture_labels names
            (if changes_picture rule \<and> rule_label rule \<notin> set labels then labels @ [rule_label rule]
             else labels)
      | None \<Rightarrow> picture_labels names labels)"

fun run_checks :: "(string \<Rightarrow> params) \<Rightarrow> string list \<Rightarrow> frame \<Rightarrow> exn + frame" where
  "run_checks named [] frame = Inr frame"
| "run_checks named (name # names) frame =
     (case map_of OPERATION_RULES name of
        None \<Rightarrow> run_checks named names frame
      | Some rule \<Rightarrow>
          (case rule_check rule (named name) frame of
             Inl e \<Rightarrow> Inl e
           | Inr frame' \<Rightarrow> run_checks named names frame'))"

definition named_of :: "(string \<times> params) list \<Rightarrow> string \<Rightarrow> params" where
  \<comment> \<open>\<open>{name: params for name, params in operations}\<close>: a later pair wins\<close>
  "named_of operations name = (case map_of (rev operations) name of Some p \<Rightarrow> p | None \<Rightarrow> [])"

definition check_edit_operations ::
  "(string \<times> params) list \<Rightarrow> int option \<Rightarrow> int option \<Rightarrow> exn + unit" where
  "check_edit_operations operations input_height input_width =
     (let names = ordered (set (map fst operations));
          named = named_of operations;
          labels =
            (if ''convert'' \<in> set (map fst operations)
                \<and> map_of (named ''convert'') ''format'' = Some (JStr ''mp3'')
             then picture_labels names [] else [])
      in if labels \<noteq> []
         then Inl (MediaRuleError (join_labels labels @ '' cannot be combined with MP3 conversion''))
         else case run_checks named names \<lparr>frame_width = input_width, frame_height = input_height\<rparr> of
                Inl e \<Rightarrow> Inl e
              | Inr _ \<Rightarrow> Inr ())"

section \<open>The registry\<close>

lemma OPERATION_RULES_registrations: "OPERATION_RULES = registrations"
  by (simp add: OPERATION_RULES_def registrations_def register_rule_def OPERATION_ORDER_def)

lemma registrations_accepted: "register_all registrations [] = Inr OPERATION_RULES"
  by (simp add: OPERATION_RULES_def registrations_def register_rule_def OPERATION_ORDER_def)

lemma map_of_OPERATION_RULES [simp]:
  "map_of OPERATION_RULES ''rotate'' = Some \<lparr>rule_label = ''rotate'', rule_check = rotate_rule, changes_picture = True\<rparr>"
  "map_of OPERATION_RULES ''flip'' = Some \<lparr>rule_label = ''flip'', rule_check = unchanged, changes_picture = True\<rparr>"
  "map_of OPERATION_RULES ''speed'' = Some \<lparr>rule_label = ''speed'', rule_check = unchanged, changes_picture = False\<rparr>"
  "map_of OPERATION_RULES ''clip'' = Some \<lparr>rule_label = ''clip'', rule_check = unchanged, changes_picture = False\<rparr>"
  "map_of OPERATION_RULES ''crop'' = Some \<lparr>rule_label = ''crop'', rule_check = crop_rule, changes_picture = True\<rparr>"
  "map_of OPERATION_RULES ''downscale'' = Some \<lparr>rule_label = ''scale'', rule_check = scale_rule ''downscale'', changes_picture = True\<rparr>"
  "map_of OPERATION_RULES ''upscale'' = Some \<lparr>rule_label = ''scale'', rule_check = scale_rule ''upscale'', changes_picture = True\<rparr>"
  "map_of OPERATION_RULES ''adjust'' = Some \<lparr>rule_label = ''colour'', rule_check = unchanged, changes_picture = True\<rparr>"
  "map_of OPERATION_RULES ''preset'' = Some \<lparr>rule_label = ''preset'', rule_check = unchanged, changes_picture = True\<rparr>"
  "map_of OPERATION_RULES ''convert'' = Some \<lparr>rule_label = ''convert'', rule_check = unchanged, changes_picture = False\<rparr>"
  by (simp_all add: OPERATION_RULES_registrations registrations_def)

lemma dom_OPERATION_RULES: "dom (map_of OPERATION_RULES) = set OPERATION_ORDER"
  by (auto simp: OPERATION_RULES_registrations registrations_def OPERATION_ORDER_def dom_def
      split: if_splits)

lemma rule_registered: "name \<in> set OPERATION_ORDER \<Longrightarrow> \<exists>r. map_of OPERATION_RULES name = Some r"
  using dom_OPERATION_RULES by blast

lemma distinct_OPERATION_ORDER [simp]: "distinct OPERATION_ORDER"
  by (simp add: OPERATION_ORDER_def)

lemma set_ordered: "set (ordered names) = set OPERATION_ORDER \<inter> names"
  by (auto simp: ordered_def)

lemma distinct_ordered [simp]: "distinct (ordered names)"
  by (simp add: ordered_def)

section \<open>A known size only ever adds refusals\<close>

text \<open>\<open>vaguer f g\<close>: what \<open>f\<close> knows of the frame, \<open>g\<close> knows as well.\<close>

definition vaguer :: "frame \<Rightarrow> frame \<Rightarrow> bool" where
  "vaguer f g \<longleftrightarrow> (frame_width f = None \<or> frame_width f = frame_width g) \<and> (frame_height f = None \<or> frame_height f = frame_height g)"

lemma vaguer_refl [simp]: "vaguer f f"
  by (simp add: vaguer_def)

lemma check_scale_vaguer:
  "check_scale op t h = Inr () \<Longrightarrow> k = None \<or> k = h \<Longrightarrow> check_scale op t k = Inr ()"
  by (auto simp: check_scale_def split: if_splits option.splits)

lemma scale_rule_vaguer:
  assumes "scale_rule op p g = Inr g'" and "vaguer f g"
  shows "\<exists>f'. scale_rule op p f = Inr f' \<and> vaguer f' g'"
proof -
  from assms(1) obtain t where t: "map_of p ''height'' = Some (JInt t)"
    and ok: "check_scale op t (frame_height g) = Inr ()"
    and g': "g' = \<lparr>frame_width = (case (frame_width g, frame_height g) of
                     (Some w, Some h) \<Rightarrow> if w \<noteq> 0 \<and> h \<noteq> 0 then Some (even_size w t h) else None
                   | _ \<Rightarrow> None), frame_height = Some t\<rparr>"
    by (auto simp: scale_rule_def split: option.splits json.splits sum.splits)
  from ok assms(2) have "check_scale op t (frame_height f) = Inr ()"
    by (auto simp: vaguer_def intro: check_scale_vaguer)
  with t g' assms(2) show ?thesis
    by (auto simp: scale_rule_def vaguer_def split: option.splits)
qed

lemma rule_check_cases:
  assumes "map_of OPERATION_RULES name = Some rule"
  obtains (rotate) "rule_check rule = rotate_rule" | (unchanged) "rule_check rule = unchanged"
    | (crop) "rule_check rule = crop_rule" | (scale) op where "rule_check rule = scale_rule op"
  using assms
  by (auto simp: OPERATION_RULES_registrations registrations_def split: if_splits)

lemma rule_vaguer:
  assumes rule: "map_of OPERATION_RULES name = Some rule"
    and ok: "rule_check rule p g = Inr g'" and f: "vaguer f g"
  shows "\<exists>f'. rule_check rule p f = Inr f' \<and> vaguer f' g'"
  using rule
proof (cases rule: rule_check_cases)
  case rotate
  with ok f show ?thesis
    by (auto simp: rotate_rule_def vaguer_def split: if_splits option.splits)
next
  case unchanged
  with ok f show ?thesis by (auto simp: unchanged_def)
next
  case crop
  with ok f show ?thesis by (auto simp: crop_rule_def)
next
  case (scale op)
  with ok f show ?thesis by (simp add: scale_rule_vaguer)
qed

lemma run_checks_vaguer:
  "run_checks named names g = Inr g' \<Longrightarrow> vaguer f g \<Longrightarrow>
   \<exists>f'. run_checks named names f = Inr f' \<and> vaguer f' g'"
proof (induction names arbitrary: f g)
  case Nil
  then show ?case by simp
next
  case (Cons name names)
  show ?case
  proof (cases "map_of OPERATION_RULES name")
    case None
    with Cons show ?thesis by simp
  next
    case (Some rule)
    with Cons.prems(1) obtain g1 where g1: "rule_check rule (named name) g = Inr g1"
      and rest: "run_checks named names g1 = Inr g'"
      by (auto split: sum.splits)
    from rule_vaguer [OF Some g1 Cons.prems(2)] obtain f1
      where "rule_check rule (named name) f = Inr f1" "vaguer f1 g1" by blast
    with Cons.IH [OF rest] Some show ?thesis by simp
  qed
qed

section \<open>Properties\<close>

definition duration_of :: "string \<Rightarrow> int" where
  \<comment> \<open>reading a displayed duration back: fields separated by colons, base 60\<close>
  "duration_of s = foldl (\<lambda>a f. 60 * a + int (undec f)) 0 (split_on CHR '':'' s)"

lemma colon_notin_pad0: "c \<noteq> CHR ''0'' \<Longrightarrow> c \<notin> set s \<Longrightarrow> c \<notin> set (pad0 w s)"
  by (auto simp: pad0_def)

lemma duration_of_minutes:
  "0 \<le> m \<Longrightarrow> 0 \<le> s \<Longrightarrow> duration_of (dec_int m @ '':'' @ pad0 2 (dec_int s)) = 60 * m + s"
  by (simp add: duration_of_def dec_int_def split_on_append split_on_notin colon_notin_pad0)

lemma duration_of_hours:
  "0 \<le> h \<Longrightarrow> 0 \<le> m \<Longrightarrow> 0 \<le> s \<Longrightarrow>
   duration_of (dec_int h @ '':'' @ pad0 2 (dec_int m) @ '':'' @ pad0 2 (dec_int s))
     = 60 * (60 * h + m) + s"
  by (simp add: duration_of_def dec_int_def split_on_append split_on_notin colon_notin_pad0)

lemma hms_sum:
  fixes t :: int
  shows "60 * (60 * (t div 3600) + t mod 3600 div 60) + t mod 3600 mod 60 = t"
  by presburger

text \<open>The duration shown to the uploader reads back as the real duration rounded up to whole
  seconds (and never below zero), so a video over the limit is never described as being exactly
  at the limit.\<close>

theorem format_duration_roundtrip: "duration_of (format_duration s) = max 0 \<lceil>s\<rceil>"
proof -
  define t where "t = max 0 \<lceil>s\<rceil>"
  have nn: "0 \<le> t div 3600" "0 \<le> t mod 3600 div 60" "0 \<le> t mod 3600 mod 60"
    by (simp_all add: t_def pos_imp_zdiv_nonneg_iff)
  show ?thesis
  proof (cases "t div 3600 = 0")
    case True
    then have "duration_of (format_duration s) = 60 * (t mod 3600 div 60) + t mod 3600 mod 60"
      unfolding format_duration_def t_def [symmetric] Let_def
      by (simp only: duration_of_minutes [OF nn(2,3)] if_False not_True_eq_False simp_thms)
    then have "duration_of (format_duration s) = t"
      using hms_sum [of t] True by (simp only: mult_zero_right add_0)
    then show ?thesis by (simp only: t_def)
  next
    case False
    then have "duration_of (format_duration s)
        = 60 * (60 * (t div 3600) + t mod 3600 div 60) + t mod 3600 mod 60"
      unfolding format_duration_def t_def [symmetric] Let_def
      by (simp only: duration_of_hours [OF nn] if_True simp_thms)
    then show ?thesis by (simp only: hms_sum t_def)
  qed
qed

text \<open>The heights the editor offers for a video are exactly the heights the edit rules accept
  for it, downscale and upscale alike; nothing is offered when the height is not known.\<close>

theorem scale_options_exact:
  "case scale_options h of
     None \<Rightarrow> (case h of None \<Rightarrow> True | Some ih \<Rightarrow> ih \<le> 0)
   | Some (down, up) \<Rightarrow>
       (\<forall>t. (t \<in> set down) = (check_scale ''downscale'' t h = Inr ()))
       \<and> (\<forall>t. (t \<in> set up) = (check_scale ''upscale'' t h = Inr ()))
       \<and> sorted (rev down) \<and> sorted up"
proof (cases h)
  case None
  then show ?thesis by (simp add: scale_options_def)
next
  case (Some ih)
  have "sorted (filter (\<lambda>h. ih < h) SCALE_HEIGHTS)"
    by (rule sorted_filter [where f = id, simplified]) (simp add: SCALE_HEIGHTS_def)
  with Some show ?thesis
    by (auto simp: scale_options_def check_scale_def not_le)
qed

text \<open>What the worker would accept against the real file, the API never refuses with less
  knowledge: if the rules accept an edit at a known size, they accept it when the width, the
  height or both are unknown.\<close>

theorem check_edit_operations_unknown:
  assumes "check_edit_operations ops (Some h) (Some w) = Inr ()"
  shows "check_edit_operations ops None None = Inr ()
    \<and> check_edit_operations ops (Some h) None = Inr ()
    \<and> check_edit_operations ops None (Some w) = Inr ()"
proof -
  have vague: "check_edit_operations ops h' w' = Inr ()"
    if "h' = None \<or> h' = Some h" "w' = None \<or> w' = Some w" for h' w'
  proof -
    let ?f = "\<lparr>frame_width = w', frame_height = h'\<rparr>"
    have "vaguer ?f \<lparr>frame_width = Some w, frame_height = Some h\<rparr>"
      using that by (auto simp: vaguer_def)
    with assms run_checks_vaguer show ?thesis
      by (fastforce simp: check_edit_operations_def Let_def split: if_splits sum.splits)
  qed
  show ?thesis by (simp add: vague)
qed

theorem check_edit_operations_unknown_witness:
  "check_edit_operations [(''downscale'', [(''height'', JInt 480)])] None None = Inr ()"
proof -
  have "check_edit_operations [(''downscale'', [(''height'', JInt 480)])] (Some 1080) (Some 1920)
      = Inr ()"
    by code_simp
  then show ?thesis by (blast dest: check_edit_operations_unknown)
qed

text \<open>The order in which a request lists its operations does not matter: two listings of the
  same operations, each named once, are checked alike.\<close>

theorem check_edit_operations_order:
  assumes "distinct (map fst ops)" and "distinct (map fst ops')" and "set ops' = set ops"
  shows "check_edit_operations ops' h w = check_edit_operations ops h w"
proof -
  have "map_of (rev ops') = map_of (rev ops)"
    using map_of_rev_distinct [OF assms(1)] map_of_rev_distinct [OF assms(2)]
      map_of_eq_set [OF assms(2,1,3)] by simp
  then have "named_of ops' = named_of ops"
    by (simp add: named_of_def fun_eq_iff)
  moreover have "set (map fst ops') = set (map fst ops)"
    using assms(3) by simp
  ultimately show ?thesis
    by (simp add: check_edit_operations_def)
qed

theorem check_edit_operations_order_witness:
  "check_edit_operations [(''flip'', []), (''crop'', [])] None None
     = check_edit_operations [(''crop'', []), (''flip'', [])] None None"
  by (rule check_edit_operations_order) (auto simp: insert_commute)

end
