(* ===== verification/Py_Format.thy ===== *)
theory Py_Format
  imports Prelude
begin

text \<open>
  How Python prints a float: \<open>repr\<close>, \<open>format(x, ".4g")\<close> and \<open>f"{x:.6f}"\<close>, as the FFmpeg
  command builders use them. \<open>fl\<close> is rounding to binary64 (to nearest, ties to even, no
  overflow): \<open>repr\<close> is the shortest decimal text that \<open>fl\<close> reads back as the same number.
\<close>

section \<open>Powers and digits\<close>

definition pow2 :: "int \<Rightarrow> rat" where
  "pow2 k = (if 0 \<le> k then 2 ^ nat k else 1 / 2 ^ nat (- k))"

definition pow10 :: "int \<Rightarrow> rat" where
  "pow10 k = (if 0 \<le> k then 10 ^ nat k else 1 / 10 ^ nat (- k))"

fun bits :: "int \<Rightarrow> int" where
  "bits n = (if n \<le> 0 then 0 else 1 + bits (n div 2))"

fun digits10 :: "int \<Rightarrow> int" where
  "digits10 n = (if n \<le> 0 then 0 else 1 + digits10 (n div 10))"

declare bits.simps [simp del] digits10.simps [simp del]

definition exponent2 :: "rat \<Rightarrow> int" where
  \<comment> \<open>the \<open>e\<close> with \<open>2 ^ e \<le> x < 2 ^ (e + 1)\<close>, for positive \<open>x\<close>\<close>
  "exponent2 x =
     (case quotient_of x of (p, q) \<Rightarrow>
        let e = bits p - bits q in if x < pow2 e then e - 1 else e)"

definition exponent10 :: "rat \<Rightarrow> int" where
  \<comment> \<open>the \<open>e\<close> with \<open>10 ^ e \<le> x < 10 ^ (e + 1)\<close>, for positive \<open>x\<close>\<close>
  "exponent10 x =
     (case quotient_of x of (p, q) \<Rightarrow>
        let e = digits10 p - digits10 q
        in if x < pow10 e then e - 1 else e)"

definition fl :: "rat \<Rightarrow> rat" where
  "fl x =
     (if x = 0 then 0
      else let ulp = pow2 (max (exponent2 \<bar>x\<bar>) (- 1022) - 52)
           in of_int (round_half_even (x / ulp)) * ulp)"

section \<open>Fixed point\<close>

definition fixed :: "nat \<Rightarrow> rat \<Rightarrow> string" where
  \<comment> \<open>\<open>f"{x:.{k}f}"\<close> for positive \<open>k\<close>\<close>
  "fixed k x =
     (let n = nat \<bar>round_half_even (x * 10 ^ k)\<bar>
      in (if x < 0 then ''-'' else []) @ dec (n div 10 ^ k) @ ''.'' @ pad0 k (dec (n mod 10 ^ k)))"

section \<open>Significant digits\<close>

definition round_sig :: "nat \<Rightarrow> rat \<Rightarrow> nat \<times> int" where
  \<comment> \<open>\<open>k\<close> significant digits of a positive \<open>x\<close>: the digits as a number, and the exponent of the
    first one\<close>
  "round_sig k x =
     (let e = exponent10 x; m = nat (round_half_even (x * pow10 (int k - 1 - e)))
      in if m = 10 ^ k then (10 ^ (k - 1), e + 1) else (m, e))"

definition strip_zeros :: "string \<Rightarrow> string" where
  "strip_zeros s = rev (dropWhile ((=) CHR ''0'') (rev s))"

definition point :: "string \<Rightarrow> int \<Rightarrow> string \<times> string" where
  \<comment> \<open>the digits \<open>d0 d1 ...\<close> with the first at exponent \<open>e\<close>, as integer part and fraction\<close>
  "point ds e =
     (if e < 0 then (''0'', replicate (nat (- e - 1)) CHR ''0'' @ ds)
      else let k = nat e + 1
           in (take k (ds @ replicate (k - length ds) CHR ''0''), drop k ds))"

definition exp_text :: "int \<Rightarrow> string" where
  "exp_text e = (if e < 0 then ''e-'' else ''e+'') @ pad0 2 (dec (nat \<bar>e\<bar>))"

definition format_g4 :: "rat \<Rightarrow> string" where
  \<comment> \<open>\<open>format(x, ".4g")\<close>\<close>
  "format_g4 x =
     (if x = 0 then ''0''
      else (if x < 0 then ''-'' else []) @
        (case round_sig 4 \<bar>x\<bar> of (m, e) \<Rightarrow>
          if - 4 \<le> e \<and> e < 4
          then (case point (dec m) e of (i, f) \<Rightarrow>
                  let f' = strip_zeros f in if f' = [] then i else i @ ''.'' @ f')
          else (let f' = strip_zeros (tl (dec m))
                in [hd (dec m)] @ (if f' = [] then [] else ''.'' @ f') @ exp_text e)))"

fun shortest :: "nat \<Rightarrow> nat \<Rightarrow> rat \<Rightarrow> nat \<times> int" where
  \<comment> \<open>the fewest digits, from \<open>k\<close> on, that read back as \<open>x\<close>; 17 always do\<close>
  "shortest k 0 x = round_sig 17 x"
| "shortest k (Suc left) x =
     (case round_sig k x of (m, e) \<Rightarrow>
        if fl (of_nat m * pow10 (e - int k + 1)) = x then (m, e) else shortest (Suc k) left x)"

definition float_repr :: "rat \<Rightarrow> string" where
  \<comment> \<open>\<open>str(x)\<close> of a finite float\<close>
  "float_repr x =
     (if x = 0 then ''0.0''
      else (if x < 0 then ''-'' else []) @
        (case shortest 1 16 \<bar>x\<bar> of (m, e) \<Rightarrow>
          let ds = (case strip_zeros (dec m) of [] \<Rightarrow> ''0'' | d \<Rightarrow> d)
          in if - 4 \<le> e \<and> e < 16
             then (case point ds e of (i, f) \<Rightarrow> i @ ''.'' @ (if f = [] then ''0'' else f))
             else [hd ds] @ (if tl ds = [] then [] else ''.'' @ tl ds) @ exp_text e))"

end
