(* ===== verification/Edit_Schema.thy ===== *)
theory Edit_Schema
  imports Media_Rules Py_Format
begin

text \<open>
  \<open>app/schemas/edit.py\<close>: the strict models an edit request is validated against, as parsers
  from JSON. \<open>None\<close> is pydantic's \<open>ValidationError\<close>. The worker validates the stored operations
  with the same models, so what \<open>stored_operations\<close> writes has to parse again.
\<close>

section \<open>Typed operations\<close>

datatype finite_number = FloatN rat | IntN int

datatype edit_operation =
    ClipOperation (clip_start: finite_number) (clip_end: finite_number)
  | CropOperation int int int int
  | DownscaleOperation int
  | UpscaleOperation int
  | RotateOperation int
  | FlipOperation string
  | SpeedOperation rat
  | ConvertOperation string
  | PresetOperation string
  | AdjustOperation "finite_number option" "finite_number option" "finite_number option"
      "finite_number option"

fun value_of :: "finite_number \<Rightarrow> rat" where
  "value_of (FloatN r) = r"
| "value_of (IntN i) = of_int i"

fun op_name :: "edit_operation \<Rightarrow> string" where
  "op_name (ClipOperation _ _) = ''clip''"
| "op_name (CropOperation _ _ _ _) = ''crop''"
| "op_name (DownscaleOperation _) = ''downscale''"
| "op_name (UpscaleOperation _) = ''upscale''"
| "op_name (RotateOperation _) = ''rotate''"
| "op_name (FlipOperation _) = ''flip''"
| "op_name (SpeedOperation _) = ''speed''"
| "op_name (ConvertOperation _) = ''convert''"
| "op_name (PresetOperation _) = ''preset''"
| "op_name (AdjustOperation _ _ _ _) = ''adjust''"

section \<open>Fields\<close>

definition has_fields :: "string list \<Rightarrow> string list \<Rightarrow> params \<Rightarrow> bool" where
  \<comment> \<open>every required field, and nothing but the declared ones (\<open>extra="forbid"\<close>)\<close>
  "has_fields required optional ps \<longleftrightarrow>
     set required \<subseteq> set (map fst ps) \<and> set (map fst ps) \<subseteq> set required \<union> set optional"

fun parse_finite :: "json \<Rightarrow> finite_number option" where
  "parse_finite (JInt i) = Some (IntN i)"
| "parse_finite (JFloat (Fin r)) = Some (FloatN r)"
| "parse_finite _ = None"

fun parse_strict_int :: "json \<Rightarrow> int option" where
  "parse_strict_int (JInt i) = Some i"
| "parse_strict_int _ = None"

fun parse_strict_float :: "json \<Rightarrow> rat option" where
  "parse_strict_float (JInt i) = Some (of_int i)"
| "parse_strict_float (JFloat (Fin r)) = Some r"
| "parse_strict_float _ = None"

fun parse_literal :: "string list \<Rightarrow> json \<Rightarrow> string option" where
  "parse_literal choices (JStr s) = (if s \<in> set choices then Some s else None)"
| "parse_literal choices _ = None"

definition field :: "params \<Rightarrow> string \<Rightarrow> (json \<Rightarrow> 'a option) \<Rightarrow> 'a option" where
  "field ps key parse = Option.bind (map_of ps key) parse"

definition optional_number :: "params \<Rightarrow> string \<Rightarrow> finite_number option option" where
  "optional_number ps key =
     (case map_of ps key of
        None \<Rightarrow> Some None
      | Some JNull \<Rightarrow> Some None
      | Some j \<Rightarrow> map_option Some (parse_finite j))"

definition multiple_of_quarter :: "rat \<Rightarrow> bool" where
  \<comment> \<open>\<open>multiple_of=0.25\<close>\<close>
  "multiple_of_quarter f \<longleftrightarrow> snd (quotient_of (4 * f)) = 1"

definition guard :: "bool \<Rightarrow> 'a \<Rightarrow> 'a option" where
  "guard b x = (if b then Some x else None)"

section \<open>The parameter models\<close>

definition ADJUST_RANGES :: "(string \<times> rat \<times> rat) list" where
  "ADJUST_RANGES =
     [(''brightness'', - fl (3/10), fl (3/10)), (''contrast'', 1/2, 2), (''saturation'', 0, 3),
      (''gamma'', 1/2, 2)]"

definition in_range :: "string \<Rightarrow> finite_number option \<Rightarrow> bool" where
  "in_range name v =
     (case (v, map_of ADJUST_RANGES name) of
        (Some x, Some (low, high)) \<Rightarrow> low \<le> value_of x \<and> value_of x \<le> high
      | _ \<Rightarrow> True)"

definition clip_params :: "params \<Rightarrow> edit_operation option" where
  "clip_params ps =
     (if has_fields [''start'', ''end''] [] ps
      then case (field ps ''start'' parse_finite, field ps ''end'' parse_finite) of
             (Some s, Some e) \<Rightarrow>
               guard (0 \<le> value_of s \<and> value_of s < value_of e) (ClipOperation s e)
           | _ \<Rightarrow> None
      else None)"

definition crop_params :: "params \<Rightarrow> edit_operation option" where
  "crop_params ps =
     (if has_fields [''x'', ''y'', ''w'', ''h''] [] ps
      then case (field ps ''x'' parse_strict_int, field ps ''y'' parse_strict_int,
                 field ps ''w'' parse_strict_int, field ps ''h'' parse_strict_int) of
             (Some x, Some y, Some w, Some h) \<Rightarrow>
               guard (0 \<le> x \<and> 0 \<le> y \<and> 0 < w \<and> 0 < h) (CropOperation x y w h)
           | _ \<Rightarrow> None
      else None)"

definition scale_params :: "(int \<Rightarrow> edit_operation) \<Rightarrow> params \<Rightarrow> edit_operation option" where
  "scale_params mk ps =
     (if has_fields [''height''] [] ps
      then case field ps ''height'' parse_strict_int of
             Some h \<Rightarrow> guard (0 < h) (mk h)
           | None \<Rightarrow> None
      else None)"

definition rotate_params :: "params \<Rightarrow> edit_operation option" where
  "rotate_params ps =
     (if has_fields [''degrees''] [] ps
      then case field ps ''degrees'' parse_strict_int of
             Some d \<Rightarrow> guard (90 \<le> d \<and> d \<le> 270 \<and> d mod 90 = 0) (RotateOperation d)
           | None \<Rightarrow> None
      else None)"

definition literal_params ::
  "string \<Rightarrow> string list \<Rightarrow> (string \<Rightarrow> edit_operation) \<Rightarrow> params \<Rightarrow> edit_operation option" where
  "literal_params key choices mk ps =
     (if has_fields [key] [] ps then map_option mk (field ps key (parse_literal choices)) else None)"

definition speed_params :: "params \<Rightarrow> edit_operation option" where
  "speed_params ps =
     (if has_fields [''factor''] [] ps
      then case field ps ''factor'' parse_strict_float of
             Some f \<Rightarrow> guard (1/2 \<le> f \<and> f \<le> 2 \<and> multiple_of_quarter f) (SpeedOperation f)
           | None \<Rightarrow> None
      else None)"

definition adjust_params :: "params \<Rightarrow> edit_operation option" where
  "adjust_params ps =
     (if has_fields [] [''brightness'', ''contrast'', ''saturation'', ''gamma''] ps
      then case (optional_number ps ''brightness'', optional_number ps ''contrast'',
                 optional_number ps ''saturation'', optional_number ps ''gamma'') of
             (Some b, Some c, Some s, Some g) \<Rightarrow>
               guard ((b \<noteq> None \<or> c \<noteq> None \<or> s \<noteq> None \<or> g \<noteq> None)
                      \<and> in_range ''brightness'' b \<and> in_range ''contrast'' c
                      \<and> in_range ''saturation'' s \<and> in_range ''gamma'' g)
                 (AdjustOperation b c s g)
           | _ \<Rightarrow> None
      else None)"

definition parse_params :: "string \<Rightarrow> params \<Rightarrow> edit_operation option" where
  \<comment> \<open>the discriminated union \<open>EditOperation\<close>\<close>
  "parse_params name ps =
     (if name = ''clip'' then clip_params ps
      else if name = ''crop'' then crop_params ps
      else if name = ''downscale'' then scale_params DownscaleOperation ps
      else if name = ''upscale'' then scale_params UpscaleOperation ps
      else if name = ''rotate'' then rotate_params ps
      else if name = ''flip'' then literal_params ''axis'' [''horizontal'', ''vertical''] FlipOperation ps
      else if name = ''speed'' then speed_params ps
      else if name = ''convert'' then literal_params ''format'' [''mkv'', ''mp3''] ConvertOperation ps
      else if name = ''preset''
      then literal_params ''name'' [''bw'', ''warm'', ''cool'', ''vintage'', ''vivid''] PresetOperation ps
      else if name = ''adjust'' then adjust_params ps
      else None)"

definition parse_operation :: "json \<Rightarrow> edit_operation option" where
  "parse_operation j =
     (case j of
        JObj flds \<Rightarrow>
          if has_fields [''operation'', ''params''] [] flds
          then case (map_of flds ''operation'', map_of flds ''params'') of
                 (Some (JStr name), Some (JObj ps)) \<Rightarrow> parse_params name ps
               | _ \<Rightarrow> None
          else None
      | _ \<Rightarrow> None)"

section \<open>The request\<close>

type_synonym edit_request = "edit_operation list"

fun parse_all :: "json list \<Rightarrow> edit_operation list option" where
  "parse_all [] = Some []"
| "parse_all (j # js) =
     (case (parse_operation j, parse_all js) of (Some x, Some xs) \<Rightarrow> Some (x # xs) | _ \<Rightarrow> None)"

definition operations_are_unambiguous :: "edit_request \<Rightarrow> bool" where
  "operations_are_unambiguous operations \<longleftrightarrow>
     distinct (map op_name operations)
     \<and> \<not> (''downscale'' \<in> set (map op_name operations) \<and> ''upscale'' \<in> set (map op_name operations))"

definition model_validate :: "json \<Rightarrow> edit_request option" where
  "model_validate j =
     (case j of
        JObj flds \<Rightarrow>
          if has_fields [''operations''] [] flds
          then case map_of flds ''operations'' of
                 Some (JList items) \<Rightarrow>
                   if 1 \<le> length items \<and> length items \<le> length OPERATION_ORDER
                   then case parse_all items of
                          Some operations \<Rightarrow> guard (operations_are_unambiguous operations) operations
                        | None \<Rightarrow> None
                   else None
               | _ \<Rightarrow> None
          else None
      | _ \<Rightarrow> None)"

fun dump_finite :: "finite_number \<Rightarrow> json" where
  "dump_finite (FloatN r) = JFloat (Fin r)"
| "dump_finite (IntN i) = JInt i"

fun dump_given :: "(string \<times> finite_number option) list \<Rightarrow> params" where
  \<comment> \<open>\<open>_leave_out_what_was_left_out\<close>\<close>
  "dump_given [] = []"
| "dump_given ((k, None) # xs) = dump_given xs"
| "dump_given ((k, Some v) # xs) = (k, dump_finite v) # dump_given xs"

fun op_params :: "edit_operation \<Rightarrow> params" where
  \<comment> \<open>\<open>item.params.model_dump()\<close>\<close>
  "op_params (ClipOperation s e) = [(''start'', dump_finite s), (''end'', dump_finite e)]"
| "op_params (CropOperation x y w h) =
     [(''x'', JInt x), (''y'', JInt y), (''w'', JInt w), (''h'', JInt h)]"
| "op_params (DownscaleOperation h) = [(''height'', JInt h)]"
| "op_params (UpscaleOperation h) = [(''height'', JInt h)]"
| "op_params (RotateOperation d) = [(''degrees'', JInt d)]"
| "op_params (FlipOperation a) = [(''axis'', JStr a)]"
| "op_params (SpeedOperation f) = [(''factor'', JFloat (Fin f))]"
| "op_params (ConvertOperation f) = [(''format'', JStr f)]"
| "op_params (PresetOperation n) = [(''name'', JStr n)]"
| "op_params (AdjustOperation b c s g) =
     dump_given [(''brightness'', b), (''contrast'', c), (''saturation'', s), (''gamma'', g)]"

definition stored_operations :: "edit_request \<Rightarrow> json list" where
  "stored_operations operations =
     map (\<lambda>item. JObj [(''operation'', JStr (op_name item)), (''params'', JObj (op_params item))])
       operations"

definition operation_named :: "edit_request \<Rightarrow> string \<Rightarrow> edit_operation option" where
  "operation_named operations name = find (\<lambda>item. op_name item = name) operations"

section \<open>What the models guarantee\<close>

fun op_valid :: "edit_operation \<Rightarrow> bool" where
  "op_valid (ClipOperation s e) = (0 \<le> value_of s \<and> value_of s < value_of e)"
| "op_valid (CropOperation x y w h) = (0 \<le> x \<and> 0 \<le> y \<and> 0 < w \<and> 0 < h)"
| "op_valid (DownscaleOperation h) = (0 < h)"
| "op_valid (UpscaleOperation h) = (0 < h)"
| "op_valid (RotateOperation d) = (d = 90 \<or> d = 180 \<or> d = 270)"
| "op_valid (FlipOperation a) = (a \<in> {''horizontal'', ''vertical''})"
| "op_valid (SpeedOperation f) = (f \<in> {1/2, 3/4, 1, 5/4, 3/2, 7/4, 2})"
| "op_valid (ConvertOperation f) = (f \<in> {''mkv'', ''mp3''})"
| "op_valid (PresetOperation n) = (n \<in> {''bw'', ''warm'', ''cool'', ''vintage'', ''vivid''})"
| "op_valid (AdjustOperation b c s g) =
     ((b \<noteq> None \<or> c \<noteq> None \<or> s \<noteq> None \<or> g \<noteq> None)
      \<and> in_range ''brightness'' b \<and> in_range ''contrast'' c \<and> in_range ''saturation'' s
      \<and> in_range ''gamma'' g)"

lemma guard_Some [simp]: "guard b x = Some y \<longleftrightarrow> b \<and> x = y"
  by (simp add: guard_def)

lemma parse_literal_Some: "parse_literal cs j = Some s \<Longrightarrow> j = JStr s \<and> s \<in> set cs"
  by (cases j) (auto split: if_splits)

lemma quarter_steps:
  assumes "multiple_of_quarter f" and "1/2 \<le> f" and "f \<le> 2"
  shows "f \<in> {1/2, 3/4, 1, 5/4, 3/2, 7/4, 2}"
proof -
  obtain k d where q: "quotient_of (4 * f) = (k, d)" by (cases "quotient_of (4 * f)")
  with assms(1) have "d = 1" by (simp add: multiple_of_quarter_def)
  with quotient_of_div [OF q] have f: "f = of_int k / 4" by simp
  with assms(2,3) have "(2 :: rat) \<le> of_int k" "of_int k \<le> (8 :: rat)" by simp_all
  then have "2 \<le> k" "k \<le> 8" by linarith+
  then have "k = 2 \<or> k = 3 \<or> k = 4 \<or> k = 5 \<or> k = 6 \<or> k = 7 \<or> k = 8" by arith
  with f show ?thesis by auto
qed

lemma quarter_all:
  "list_all multiple_of_quarter [1/2, 3/4, 1, 5/4, 3/2, 7/4, 2]"
  by code_simp

lemma quarter_floor: "f \<in> {1/2, 3/4, 1, 5/4, 3/2, 7/4, 2} \<Longrightarrow> multiple_of_quarter f"
  using quarter_all by (simp only: list_all_iff list.set)

lemma rotate_steps: "90 \<le> (d::int) \<Longrightarrow> d \<le> 270 \<Longrightarrow> d mod 90 = 0 \<Longrightarrow> d = 90 \<or> d = 180 \<or> d = 270"
  by presburger

lemmas params_defs = clip_params_def crop_params_def scale_params_def rotate_params_def
  literal_params_def speed_params_def adjust_params_def

lemma parse_params_valid:
  "parse_params name ps = Some x \<Longrightarrow> op_valid x \<and> op_name x = name"
  unfolding parse_params_def
  by (auto simp: params_defs field_def bind_eq_Some_conv
      dest!: parse_literal_Some rotate_steps quarter_steps
      split: if_splits option.splits)

lemma parse_operation_valid: "parse_operation j = Some x \<Longrightarrow> op_valid x"
  by (auto simp: parse_operation_def dest: parse_params_valid split: json.splits if_splits option.splits)

lemma parse_all_valid: "parse_all js = Some xs \<Longrightarrow> (\<forall>x\<in>set xs. op_valid x) \<and> length xs = length js"
  by (induction js arbitrary: xs) (auto dest: parse_operation_valid split: option.splits)

definition request_valid :: "edit_request \<Rightarrow> bool" where
  "request_valid operations \<longleftrightarrow>
     1 \<le> length operations \<and> length operations \<le> length OPERATION_ORDER
     \<and> (\<forall>x\<in>set operations. op_valid x) \<and> operations_are_unambiguous operations"

lemma model_validate_valid: "model_validate j = Some r \<Longrightarrow> request_valid r"
  by (auto simp: model_validate_def request_valid_def dest: parse_all_valid
      split: json.splits if_splits option.splits)

section \<open>Round trip\<close>

lemma parse_finite_dump [simp]: "parse_finite (dump_finite v) = Some v"
  by (cases v) auto

lemma dump_finite_not_null [simp]: "dump_finite v \<noteq> JNull"
  by (cases v) auto

lemma optional_number_eq:
  "optional_number ps k =
     (case map_of ps k of
        None \<Rightarrow> Some None
      | Some j \<Rightarrow> if j = JNull then Some None else map_option Some (parse_finite j))"
  by (auto simp: optional_number_def split: option.splits json.splits)

lemma adjust_roundtrip:
  assumes "op_valid (AdjustOperation b c s g)"
  shows "adjust_params (op_params (AdjustOperation b c s g)) = Some (AdjustOperation b c s g)"
  using assms
  by (cases b; cases c; cases s; cases g)
    (simp_all add: adjust_params_def has_fields_def optional_number_eq)

lemma speed_roundtrip:
  assumes "op_valid (SpeedOperation f)"
  shows "speed_params (op_params (SpeedOperation f)) = Some (SpeedOperation f)"
proof -
  from assms have "multiple_of_quarter f" by (intro quarter_floor) simp
  moreover from assms have "1/2 \<le> f" "f \<le> 2" by auto
  ultimately show ?thesis
    by (simp only: speed_params_def) (simp add: has_fields_def field_def)
qed

lemma parse_params_dump: "op_valid x \<Longrightarrow> parse_params (op_name x) (op_params x) = Some x"
proof (cases x)
  case (AdjustOperation b c s g)
  assume "op_valid x"
  with AdjustOperation adjust_roundtrip show ?thesis by (simp add: parse_params_def)
next
  case (SpeedOperation f)
  assume "op_valid x"
  with SpeedOperation speed_roundtrip show ?thesis by (simp add: parse_params_def)
qed (auto simp: parse_params_def params_defs has_fields_def field_def)

lemma parse_all_dump: "(\<forall>x\<in>set xs. op_valid x) \<Longrightarrow> parse_all (stored_operations xs) = Some xs"
  by (induction xs)
    (auto simp: stored_operations_def parse_operation_def has_fields_def parse_params_dump)

text \<open>C34. Whatever edit request the API accepts, the operations it stores on the job validate again
  in the worker, to the same request.\<close>

theorem stored_operations_roundtrip:
  assumes "model_validate j = Some r"
  shows "model_validate (JObj [(''operations'', JList (stored_operations r))]) = Some r"
proof -
  from assms have r: "request_valid r" by (rule model_validate_valid)
  then have "parse_all (stored_operations r) = Some r"
    by (simp add: request_valid_def parse_all_dump)
  moreover have "length (stored_operations r) = length r"
    by (simp add: stored_operations_def)
  ultimately show ?thesis
    using r by (simp add: model_validate_def has_fields_def request_valid_def)
qed

theorem stored_operations_roundtrip_witness:
  "model_validate (JObj [(''operations'',
     JList (stored_operations [RotateOperation 90, SpeedOperation (3/2)]))])
     = Some [RotateOperation 90, SpeedOperation (3/2)]"
proof (rule stored_operations_roundtrip)
  show "model_validate (JObj [(''operations'', JList
      [JObj [(''operation'', JStr ''rotate''), (''params'', JObj [(''degrees'', JInt 90)])],
       JObj [(''operation'', JStr ''speed''), (''params'', JObj [(''factor'', JFloat (Fin (3/2)))])]])])
     = Some [RotateOperation 90, SpeedOperation (3/2)]"
    by code_simp
qed

end
