(* ===== verification/Probe.thy ===== *)
theory Probe
  imports Py_Format
begin

text \<open>
  \<open>app/worker/probe.py\<close>: what ffprobe says the source is, as \<open>source_probe\<close>. The external
  program is a parameter: \<open>run_outcome\<close> is what running it came to, with its standard output
  already decoded (\<open>None\<close> when the text is not JSON). User messages are the code's; diagnostics,
  which only reach the log, are shortened.
\<close>

section \<open>Reading numbers out of JSON\<close>

fun py_bool :: "json \<Rightarrow> bool" where
  \<comment> \<open>truth value\<close>
  "py_bool JNull = False"
| "py_bool (JBool b) = b"
| "py_bool (JInt i) = (i \<noteq> 0)"
| "py_bool (JFloat f) = (f \<noteq> Fin 0)"
| "py_bool (JStr s) = (s \<noteq> [])"
| "py_bool (JList xs) = (xs \<noteq> [])"
| "py_bool (JObj xs) = (xs \<noteq> [])"

definition all_digits :: "string \<Rightarrow> bool" where
  "all_digits s \<longleftrightarrow> s \<noteq> [] \<and> list_all is_digit s"

definition unsigned :: "string \<Rightarrow> int \<times> string" where
  "unsigned s =
     (case s of
        c # cs \<Rightarrow> if c = CHR ''-'' then (- 1, cs) else if c = CHR ''+'' then (1, cs) else (1, s)
      | [] \<Rightarrow> (1, s))"

definition parse_int :: "string \<Rightarrow> int option" where
  "parse_int t =
     (case unsigned (strip t) of (sg, s) \<Rightarrow>
        if all_digits s then Some (sg * int (undec s)) else None)"

definition split_exponent :: "string \<Rightarrow> string \<times> string option" where
  "split_exponent s =
     (let m = takeWhile (\<lambda>c. c \<noteq> CHR ''e'' \<and> c \<noteq> CHR ''E'') s
      in (m, if length m < length s then Some (drop (length m + 1) s) else None))"

definition parse_float :: "string \<Rightarrow> pyfloat option" where
  \<comment> \<open>\<open>float(text)\<close> for decimal text\<close>
  "parse_float t =
     (case unsigned (strip t) of (sg, s) \<Rightarrow>
      if s = ''inf'' \<or> s = ''infinity'' then Some (if sg = 1 then PInf else NInf)
      else if s = ''nan'' then Some NaN
      else case split_exponent s of (m, ex) \<Rightarrow>
        let i = takeWhile (\<lambda>c. c \<noteq> CHR ''.'') m; f = drop (length i + 1) m;
            e = (case ex of None \<Rightarrow> Some 0 | Some x \<Rightarrow> parse_int x)
        in if list_all is_digit i \<and> list_all is_digit f \<and> i @ f \<noteq> [] \<and> e \<noteq> None
           then Some (Fin (fl (of_int sg * of_nat (undec (i @ f))
                  * pow10 (the e - int (length f)))))
           else None)"

fun py_int :: "json \<Rightarrow> exn + int" where
  "py_int (JInt i) = Inr i"
| "py_int (JBool b) = Inr (if b then 1 else 0)"
| "py_int (JFloat (Fin r)) = Inr (trunc_int r)"
| "py_int (JFloat NaN) = Inl (ValueError ''cannot convert float NaN to integer'')"
| "py_int (JFloat _) = Inl (OtherError ''OverflowError'')"
| "py_int (JStr s) =
     (case parse_int s of Some i \<Rightarrow> Inr i | None \<Rightarrow> Inl (ValueError ''invalid literal for int()''))"
| "py_int _ = Inl (TypeError ''int() argument'')"

fun py_float :: "json \<Rightarrow> exn + pyfloat" where
  "py_float (JInt i) = Inr (Fin (fl (of_int i)))"
| "py_float (JBool b) = Inr (Fin (if b then 1 else 0))"
| "py_float (JFloat f) = Inr f"
| "py_float (JStr s) =
     (case parse_float s of
        Some f \<Rightarrow> Inr f
      | None \<Rightarrow> Inl (ValueError ''could not convert string to float''))"
| "py_float _ = Inl (TypeError ''float() argument'')"

fun int_of_float :: "pyfloat \<Rightarrow> exn + int" where
  "int_of_float f = py_int (JFloat f)"

section \<open>The result\<close>

definition UNPROCESSABLE_VIDEO :: string where
  "UNPROCESSABLE_VIDEO =
     ''the video could not be processed; it may be corrupt or in a format we cannot read''"

definition NO_VIDEO_STREAM :: string where
  "NO_VIDEO_STREAM = ''this file has no video track; please upload a video file''"

definition HDR_TRANSFERS :: "string set" where
  "HDR_TRANSFERS = {''smpte2084'', ''arib-std-b67''}"

record source_probe =
  probe_width :: int
  probe_height :: int
  duration_seconds :: pyfloat
  hdr :: bool
  frame_rate :: "pyfloat option"
  color_transfer :: "json option"

datatype run_outcome =
    RunTimeout
  | RunInterrupted
  | Ran (returncode: int) (stdout_json: "json option") (stderr: string)

definition unprocessable :: "string \<Rightarrow> exn" where
  "unprocessable diag = ObjectStoreError diag UNPROCESSABLE_VIDEO"

section \<open>Size and rate\<close>

definition float_div :: "pyfloat \<Rightarrow> pyfloat \<Rightarrow> pyfloat option" where
  \<comment> \<open>\<open>None\<close> is ZeroDivisionError\<close>
  "float_div a b =
     (case b of
        Fin y \<Rightarrow>
          if y = 0 then None
          else (case a of
                  Fin x \<Rightarrow> Some (Fin (fl (x / y)))
                | PInf \<Rightarrow> Some (if 0 < y then PInf else NInf)
                | NInf \<Rightarrow> Some (if 0 < y then NInf else PInf)
                | NaN \<Rightarrow> Some NaN)
      | NaN \<Rightarrow> Some NaN
      | _ \<Rightarrow> (case a of Fin _ \<Rightarrow> Some (Fin 0) | _ \<Rightarrow> Some NaN))"

definition rate_text :: "string \<Rightarrow> pyfloat option" where
  "rate_text s =
     (let numerator = takeWhile (\<lambda>c. c \<noteq> CHR ''/'') s;
          denominator = drop (length numerator + 1) s
      in case (parse_float numerator,
               if denominator = [] then Some (Fin 1) else parse_float denominator) of
           (Some n, Some d) \<Rightarrow>
             (case float_div n d of
                Some rate \<Rightarrow> if float_less (Fin 0) rate then Some rate else None
              | None \<Rightarrow> None)
         | _ \<Rightarrow> None)"

fun read_rate :: "json option \<Rightarrow> pyfloat option" where
  \<comment> \<open>\<open>_frame_rate\<close>: of a list, an object, a truth value or nothing, \<open>str\<close> is no number\<close>
  "read_rate (Some (JStr s)) = rate_text s"
| "read_rate (Some (JInt i)) = rate_text (dec_int i)"
| "read_rate (Some (JFloat (Fin r))) = rate_text (float_repr r)"
| "read_rate (Some (JFloat PInf)) = Some PInf"
| "read_rate _ = None"

definition rotation_value :: "json \<Rightarrow> exn + int" where
  \<comment> \<open>\<open>int(float(x))\<close>, or 0 where that raises TypeError or ValueError\<close>
  "rotation_value x =
     (case py_float x of
        Inl _ \<Rightarrow> Inr 0
      | Inr f \<Rightarrow> (case int_of_float f of Inr i \<Rightarrow> Inr i
                   | Inl (OtherError m) \<Rightarrow> Inl (OtherError m) | Inl _ \<Rightarrow> Inr 0))"

fun first_rotation :: "json list \<Rightarrow> json option" where
  "first_rotation [] = None"
| "first_rotation (JObj ps # xs) =
     (case map_of ps ''rotation'' of Some r \<Rightarrow> Some r | None \<Rightarrow> first_rotation xs)"
| "first_rotation (_ # xs) = first_rotation xs"

definition rotation_degrees :: "params \<Rightarrow> exn + int" where
  "rotation_degrees stream =
     (let tags =
        (case map_of stream ''tags'' of
           Some (JObj ts) \<Rightarrow>
             rotation_value (case map_of ts ''rotate'' of Some r \<Rightarrow> r | None \<Rightarrow> JInt 0)
         | Some t \<Rightarrow> if py_bool t then Inl (OtherError ''AttributeError'') else Inr 0
         | None \<Rightarrow> Inr 0)
      in case map_of stream ''side_data_list'' of
           Some (JList xs) \<Rightarrow>
             (case first_rotation xs of Some r \<Rightarrow> rotation_value r | None \<Rightarrow> tags)
         | Some (JInt i) \<Rightarrow> if i \<noteq> 0 then Inl (TypeError ''not iterable'') else tags
         | Some (JFloat f) \<Rightarrow> if f \<noteq> Fin 0 then Inl (TypeError ''not iterable'') else tags
         | Some (JBool b) \<Rightarrow> if b then Inl (TypeError ''not iterable'') else tags
         | _ \<Rightarrow> tags)"

definition display_size :: "json \<Rightarrow> exn + (int \<times> int)" where
  "display_size stream =
     (case stream of
        JObj ps \<Rightarrow>
          (case (map_of ps ''width'', map_of ps ''height'') of
             (None, _) \<Rightarrow> Inl (KeyError ''width'')
           | (Some w, h) \<Rightarrow>
               (case py_int w of
                  Inl e \<Rightarrow> Inl e
                | Inr width \<Rightarrow>
                    (case h of
                       None \<Rightarrow> Inl (KeyError ''height'')
                     | Some h' \<Rightarrow>
                         (case py_int h' of
                            Inl e \<Rightarrow> Inl e
                          | Inr height \<Rightarrow>
                              (case rotation_degrees ps of
                                 Inl e \<Rightarrow> Inl e
                               | Inr deg \<Rightarrow>
                                   if deg mod 180 \<noteq> 0 then Inr (height, width)
                                   else Inr (width, height))))))
      | _ \<Rightarrow> Inl (TypeError ''not a mapping''))"

section \<open>probe_source\<close>

fun caught :: "exn \<Rightarrow> exn" where
  \<comment> \<open>the \<open>except (KeyError, TypeError, ValueError)\<close> clause\<close>
  "caught (KeyError _) = unprocessable ''ffprobe output missing width, height or duration''"
| "caught (TypeError _) = unprocessable ''ffprobe output missing width, height or duration''"
| "caught (ValueError _) = unprocessable ''ffprobe output missing width, height or duration''"
| "caught e = e"

definition size_and_duration :: "json \<Rightarrow> params \<Rightarrow> exn + (int \<times> int \<times> pyfloat)" where
  "size_and_duration stream payload =
     (case display_size stream of
        Inl e \<Rightarrow> Inl e
      | Inr (w, h) \<Rightarrow>
          (case map_of payload ''format'' of
             None \<Rightarrow> Inl (KeyError ''format'')
           | Some (JObj fs) \<Rightarrow>
               (case map_of fs ''duration'' of
                  None \<Rightarrow> Inl (KeyError ''duration'')
                | Some d \<Rightarrow> (case py_float d of Inl e \<Rightarrow> Inl e | Inr f \<Rightarrow> Inr (w, h, f)))
           | Some _ \<Rightarrow> Inl (TypeError ''format'')))"

definition first_stream :: "params \<Rightarrow> json option" where
  \<comment> \<open>\<open>streams[0]\<close> of \<open>payload.get("streams") or []\<close>; \<open>None\<close> when the list is empty. What is
    not a list but true is left to fail as a stream.\<close>
  "first_stream payload =
     (case map_of payload ''streams'' of
        Some (JList (s # _)) \<Rightarrow> Some s
      | Some j \<Rightarrow> if py_bool j then Some JNull else None
      | None \<Rightarrow> None)"

definition stream_field :: "json \<Rightarrow> string \<Rightarrow> json option" where
  "stream_field stream key = (case stream of JObj ps \<Rightarrow> map_of ps key | _ \<Rightarrow> None)"

definition is_hdr :: "json option \<Rightarrow> bool" where
  "is_hdr transfer = (case transfer of Some (JStr s) \<Rightarrow> s \<in> HDR_TRANSFERS | _ \<Rightarrow> False)"

definition or_else :: "string \<Rightarrow> string \<Rightarrow> string" where
  "or_else s t = (if s = [] then t else s)"

definition probe_source :: "run_outcome \<Rightarrow> exn + source_probe" where
  "probe_source outcome =
     (case outcome of
        RunTimeout \<Rightarrow> Inl (unprocessable ''ffprobe timed out'')
      | RunInterrupted \<Rightarrow> Inl (Interrupted ''not starting ffprobe: the worker is stopping'')
      | Ran code out err \<Rightarrow>
          if code \<noteq> 0
          then Inl (unprocessable (''ffprobe failed: ''
                 @ or_else (take 500 (strip err)) ''no ffprobe error output''))
          else case out of
            None \<Rightarrow> Inl (unprocessable ''ffprobe returned output that is not JSON'')
          | Some (JObj payload) \<Rightarrow>
              (case first_stream payload of
                 None \<Rightarrow> Inl (ObjectStoreError ''ffprobe found no video stream'' NO_VIDEO_STREAM)
               | Some stream \<Rightarrow>
                   (case size_and_duration stream payload of
                      Inl e \<Rightarrow> Inl (caught e)
                    | Inr (w, h, d) \<Rightarrow>
                        if w \<le> 0 \<or> h \<le> 0 \<or> float_le d (Fin 0)
                        then Inl (unprocessable
                               ''ffprobe reported a non-positive dimension or duration'')
                        else Inr \<lparr>probe_width = w, probe_height = h, duration_seconds = d,
                               hdr = is_hdr (stream_field stream ''color_transfer''),
                               frame_rate = read_rate (stream_field stream ''avg_frame_rate''),
                               color_transfer = stream_field stream ''color_transfer''\<rparr>))
          | Some _ \<Rightarrow> Inl (OtherError ''AttributeError''))"

section \<open>Properties\<close>

lemma probe_source_Inr:
  assumes "probe_source outcome = Inr p"
  obtains out err payload stream where
    "outcome = Ran 0 (Some (JObj payload)) err" "first_stream payload = Some stream"
    "size_and_duration stream payload = Inr (probe_width p, probe_height p, duration_seconds p)"
    "0 < probe_width p" "0 < probe_height p" "\<not> float_le (duration_seconds p) (Fin 0)"
  using assms
  by (auto simp: probe_source_def split: run_outcome.splits if_splits option.splits json.splits
      sum.splits)

lemma py_int_error: "py_int j = Inl e \<Longrightarrow> (\<exists>m. e = ValueError m \<or> e = TypeError m \<or> e = OtherError m)"
  by (cases j rule: py_int.cases) (auto split: option.splits)

lemma py_float_error: "py_float j = Inl e \<Longrightarrow> (\<exists>m. e = ValueError m \<or> e = TypeError m)"
  by (cases j rule: py_float.cases) (auto split: option.splits)

lemma rotation_value_error: "rotation_value j = Inl e \<Longrightarrow> \<exists>m. e = OtherError m"
  by (auto simp: rotation_value_def split: sum.splits exn.splits)

lemma rotation_degrees_error:
  "rotation_degrees ps = Inl e \<Longrightarrow> (\<exists>m. e = TypeError m \<or> e = OtherError m)"
  by (auto simp: rotation_degrees_def Let_def dest!: rotation_value_error
      split: option.splits json.splits if_splits)

lemma display_size_error:
  "display_size s = Inl e \<Longrightarrow>
   (\<exists>m. e = KeyError m \<or> e = ValueError m \<or> e = TypeError m \<or> e = OtherError m)"
  by (fastforce simp: display_size_def dest: py_int_error rotation_degrees_error
      split: option.splits json.splits sum.splits if_splits)

lemma size_and_duration_error:
  "size_and_duration s p = Inl e \<Longrightarrow>
   (\<exists>m. e = KeyError m \<or> e = ValueError m \<or> e = TypeError m \<or> e = OtherError m)"
  by (fastforce simp: size_and_duration_def dest: display_size_error py_float_error
      split: option.splits json.splits sum.splits prod.splits)

text \<open>A probe that succeeds reports a picture with positive sides and a duration that is not
  zero or negative. A probe that fails does so with one of the two messages written for the
  uploader, unless the worker is being stopped or ffprobe printed something other than a JSON
  object of numbers it can represent.\<close>

theorem probe_source_outcome:
  "case probe_source outcome of
     Inr p \<Rightarrow> 0 < probe_width p \<and> 0 < probe_height p \<and> \<not> float_le (duration_seconds p) (Fin 0)
   | Inl (ObjectStoreError diag msg) \<Rightarrow> msg \<in> {UNPROCESSABLE_VIDEO, NO_VIDEO_STREAM}
   | Inl (Interrupted _) \<Rightarrow> outcome = RunInterrupted
   | Inl e \<Rightarrow> \<exists>m. e = OtherError m"
proof -
  have "\<exists>m. caught e = OtherError m \<or> (\<exists>d. caught e = ObjectStoreError d UNPROCESSABLE_VIDEO)"
    if "size_and_duration s p = Inl e" for s p e
    using size_and_duration_error [OF that] by (auto simp: unprocessable_def)
  then show ?thesis
    by (fastforce simp: probe_source_def unprocessable_def
        split: run_outcome.splits option.splits json.splits sum.splits exn.splits)
qed

text \<open>Sizes are sizes as shown: a stream recorded with a rotation flag of 90 or 270 degrees
  either way is reported with its sides exchanged, and one with no turn or a half turn as it is
  stored.\<close>

theorem display_size_rotation:
  "display_size (JObj [(''width'', JInt w), (''height'', JInt h),
       (''side_data_list'', JList [JObj [(''rotation'', JInt (90 * k))]])])
     = Inr (if even k then (w, h) else (h, w))"
  if "\<bar>k\<bar> \<le> 4" for k :: int
proof -
  have "k = - 4 \<or> k = - 3 \<or> k = - 2 \<or> k = - 1 \<or> k = 0 \<or> k = 1 \<or> k = 2 \<or> k = 3 \<or> k = 4"
    using that by arith
  then show ?thesis
    by (elim disjE) (simp_all, code_simp+)
qed

theorem display_size_rotation_witness:
  "display_size (JObj [(''width'', JInt 3840), (''height'', JInt 2160),
       (''side_data_list'', JList [JObj [(''rotation'', JInt (90 * (- 1)))]])]) = Inr (2160, 3840)"
  using display_size_rotation [of "- 1" 3840 2160] by simp

end
