(* ===== verification/Validation.thy ===== *)
theory Validation
  imports Edit_Schema Probe
begin

text \<open>
  \<open>app/worker/validation.py\<close>: the checks of an edit against the file the worker downloaded.
  The parameters arrive as stored JSON; nothing is coerced. A refusal is \<open>Inl\<close> of a
  \<open>ValueError\<close> (or of the \<open>MediaRuleError\<close> of the shared rules) with its message.
\<close>

section \<open>Source and rules\<close>

definition validate_source :: "source_probe \<Rightarrow> int \<Rightarrow> exn + unit" where
  "validate_source probe max_duration_seconds =
     check_source_duration (duration_seconds probe) max_duration_seconds"

definition validate_edit_rules :: "(string \<times> params) list \<Rightarrow> source_probe \<Rightarrow> exn + unit" where
  "validate_edit_rules operations probe =
     check_edit_operations operations (Some (probe_height probe)) (Some (probe_width probe))"

section \<open>Crop\<close>

definition has_keys :: "json \<Rightarrow> string list \<Rightarrow> bool" where
  "has_keys j keys = (case j of JObj ps \<Rightarrow> set (map fst ps) = set keys | _ \<Rightarrow> False)"

fun lookup :: "json \<Rightarrow> string \<Rightarrow> json" where
  "lookup (JObj ps) key = (case map_of ps key of Some v \<Rightarrow> v | None \<Rightarrow> JNull)"
| "lookup _ key = JNull"

definition validate_crop :: "json \<Rightarrow> source_probe \<Rightarrow> exn + unit" where
  "validate_crop params probe =
     (if \<not> has_keys params [''x'', ''y'', ''w'', ''h'']
      then Inl (ValueError ''crop requires x, y, w and h in source pixels'')
      else case (lookup params ''x'', lookup params ''y'', lookup params ''w'', lookup params ''h'') of
        (JInt x, JInt y, JInt w, JInt h) \<Rightarrow>
          if x < 0 \<or> y < 0 then Inl (ValueError ''crop x and y must be zero or greater'')
          else if w \<le> 0 \<or> h \<le> 0
          then Inl (ValueError ''crop width and height must be greater than zero'')
          else if probe_width probe \<le> 0 \<or> probe_height probe \<le> 0
          then Inl (ValueError ''the source video's dimensions could not be determined'')
          else if probe_width probe < x + w \<or> probe_height probe < y + h
          then Inl (ValueError ''crop must fit within the source video's frame'')
          else Inr ()
      | _ \<Rightarrow> Inl (ValueError ''crop coordinates and dimensions must be whole numbers''))"

section \<open>Clip\<close>

fun finite_value :: "json \<Rightarrow> rat option" where
  \<comment> \<open>\<open>_finite_number\<close>, and the number itself. \<open>math.isfinite\<close> of an integer that rounds beyond
    the largest float raises \<open>OverflowError\<close>\<close>
  "finite_value (JInt i) = (if \<bar>i\<bar> < 2 ^ 1024 - 2 ^ 970 then Some (of_int i) else None)"
| "finite_value (JFloat (Fin r)) = Some r"
| "finite_value _ = None"

definition validate_clip :: "json \<Rightarrow> source_probe \<Rightarrow> exn + unit" where
  "validate_clip params probe =
     (if \<not> has_keys params [''start'', ''end'']
      then Inl (ValueError ''clip requires start and end in seconds'')
      else case (finite_value (lookup params ''start''), finite_value (lookup params ''end'')) of
        (Some start, Some end) \<Rightarrow>
          if start < 0 then Inl (ValueError ''clip start must be zero or greater'')
          else if end \<le> start then Inl (ValueError ''clip end must be greater than start'')
          else (case duration_seconds probe of
                  Fin d \<Rightarrow>
                    if d \<le> 0
                    then Inl (ValueError ''the source video's duration could not be determined'')
                    else if d < end
                    then Inl (ValueError ''clip end must not exceed the source video's duration'')
                    else Inr ()
                | _ \<Rightarrow> Inl (ValueError ''the source video's duration could not be determined''))
      | _ \<Rightarrow> Inl (ValueError ''clip start and end must be finite numbers''))"

section \<open>What the checks accept\<close>

lemma lookup_keys: "has_keys j keys \<Longrightarrow> key \<in> set keys \<Longrightarrow>
    \<exists>ps v. j = JObj ps \<and> map_of ps key = Some v \<and> lookup j key = v"
  by (cases j) (auto simp: has_keys_def map_of_eq_None_iff split: option.splits)

lemma lookup_other: "has_keys j keys \<Longrightarrow> key \<notin> set keys \<Longrightarrow> lookup j key = JNull"
proof (cases j)
  case (JObj ps)
  assume "has_keys j keys" "key \<notin> set keys"
  with JObj have "key \<notin> fst ` set ps" by (simp add: has_keys_def)
  then have "map_of ps key = None" by (simp only: map_of_eq_None_iff not_False_eq_True)
  with JObj show ?thesis by simp
qed (simp_all add: has_keys_def)

lemma validate_crop_Inr:
  "validate_crop j probe = Inr () \<longleftrightarrow>
     has_keys j [''x'', ''y'', ''w'', ''h''] \<and>
     (\<exists>x y w h. lookup j ''x'' = JInt x \<and> lookup j ''y'' = JInt y
        \<and> lookup j ''w'' = JInt w \<and> lookup j ''h'' = JInt h
        \<and> 0 \<le> x \<and> 0 \<le> y \<and> 0 < w \<and> 0 < h
        \<and> x + w \<le> probe_width probe \<and> y + h \<le> probe_height probe)"
  unfolding validate_crop_def
  by (auto split: json.split if_splits)

lemma validate_clip_Inr:
  "validate_clip j probe = Inr () \<longleftrightarrow>
     has_keys j [''start'', ''end''] \<and>
     (\<exists>s e d. finite_value (lookup j ''start'') = Some s \<and> finite_value (lookup j ''end'') = Some e
        \<and> duration_seconds probe = Fin d \<and> 0 \<le> s \<and> s < e \<and> e \<le> d)"
  unfolding validate_clip_def
  by (auto split: option.split pyfloat.split if_splits)

lemma crop_lookup [simp]:
  "has_keys (JObj (op_params (CropOperation x y w h))) [''x'', ''y'', ''w'', ''h'']"
  "lookup (JObj (op_params (CropOperation x y w h))) ''x'' = JInt x"
  "lookup (JObj (op_params (CropOperation x y w h))) ''y'' = JInt y"
  "lookup (JObj (op_params (CropOperation x y w h))) ''w'' = JInt w"
  "lookup (JObj (op_params (CropOperation x y w h))) ''h'' = JInt h"
  by (auto simp: has_keys_def)

lemma clip_lookup [simp]:
  "has_keys (JObj (op_params (ClipOperation s e))) [''start'', ''end'']"
  "lookup (JObj (op_params (ClipOperation s e))) ''start'' = dump_finite s"
  "lookup (JObj (op_params (ClipOperation s e))) ''end'' = dump_finite e"
  by (auto simp: has_keys_def)

lemma finite_value_dump: "finite_value (dump_finite v) = Some r \<Longrightarrow> r = value_of v"
  by (cases v) (auto split: if_splits)

lemma finite_value_dump_small:
  "\<bar>value_of v\<bar> < 2 ^ 1024 - 2 ^ 970 \<Longrightarrow> finite_value (dump_finite v) = Some (value_of v)"
proof (cases v)
  case (IntN i)
  assume "\<bar>value_of v\<bar> < 2 ^ 1024 - 2 ^ 970"
  with IntN have "of_int \<bar>i\<bar> < (of_int (2 ^ 1024 - 2 ^ 970) :: rat)" by simp
  then have "\<bar>i\<bar> < 2 ^ 1024 - 2 ^ 970" by (simp only: of_int_less_iff)
  with IntN show ?thesis by simp
qed simp

text \<open>A crop that the request schema accepted passes the worker's check exactly when its
  rectangle lies inside the decoded frame, which is then not empty; and whatever stored parameters
  the check accepts, they are such a rectangle, of whole numbers.\<close>

theorem validate_crop_fits:
  "(op_valid (CropOperation x y w h) \<longrightarrow>
      (validate_crop (JObj (op_params (CropOperation x y w h))) probe = Inr () \<longleftrightarrow>
         x + w \<le> probe_width probe \<and> y + h \<le> probe_height probe)) \<and>
   (validate_crop j probe = Inr () \<longrightarrow>
      (\<exists>x y w h. op_valid (CropOperation x y w h)
         \<and> (\<forall>key. lookup j key = lookup (JObj (op_params (CropOperation x y w h))) key)
         \<and> x + w \<le> probe_width probe \<and> y + h \<le> probe_height probe))"
proof (intro conjI impI)
  assume "op_valid (CropOperation x y w h)"
  then show "validate_crop (JObj (op_params (CropOperation x y w h))) probe = Inr () \<longleftrightarrow>
      x + w \<le> probe_width probe \<and> y + h \<le> probe_height probe"
    using crop_lookup(1) [of x y w h] by (simp add: validate_crop_Inr)
next
  assume "validate_crop j probe = Inr ()"
  then obtain x y w h where k: "has_keys j [''x'', ''y'', ''w'', ''h'']"
    and v: "lookup j ''x'' = JInt x" "lookup j ''y'' = JInt y"
      "lookup j ''w'' = JInt w" "lookup j ''h'' = JInt h"
    and b: "0 \<le> x" "0 \<le> y" "0 < w" "0 < h"
      "x + w \<le> probe_width probe" "y + h \<le> probe_height probe"
    by (auto simp: validate_crop_Inr)
  from k have others: "lookup j key = JNull" if "key \<notin> {''x'', ''y'', ''w'', ''h''}" for key
    by (rule lookup_other) (use that in simp)
  have "lookup j key = lookup (JObj (op_params (CropOperation x y w h))) key" for key
    using v others [of key] by (cases "key = ''x'' \<or> key = ''y'' \<or> key = ''w'' \<or> key = ''h''") auto
  with b show "\<exists>x y w h. op_valid (CropOperation x y w h)
       \<and> (\<forall>key. lookup j key = lookup (JObj (op_params (CropOperation x y w h))) key)
       \<and> x + w \<le> probe_width probe \<and> y + h \<le> probe_height probe"
    by (intro exI [of _ x] exI [of _ y] exI [of _ w] exI [of _ h]) simp
qed

theorem validate_crop_fits_witness:
  "validate_crop (JObj (op_params (CropOperation 0 0 640 360)))
     \<lparr>probe_width = 640, probe_height = 360, duration_seconds = Fin 10, hdr = False,
      frame_rate = None, color_transfer = None\<rparr> = Inr ()"
  by (rule validate_crop_fits [THEN conjunct1, THEN mp, THEN iffD2]) simp_all

text \<open>A clip that the request schema accepted passes the worker's check exactly when the source
  has a finite length and the clip ends within it (whole numbers too large for a float aside).\<close>

theorem validate_clip_fits:
  assumes "op_valid (ClipOperation s e)" and "value_of e < 2 ^ 1024 - 2 ^ 970"
  shows "validate_clip (JObj (op_params (ClipOperation s e))) probe = Inr () \<longleftrightarrow>
    (\<exists>d. duration_seconds probe = Fin d \<and> value_of e \<le> d)"
proof -
  from assms have se: "0 \<le> value_of s" "value_of s < value_of e" by simp_all
  with assms(2) have "finite_value (dump_finite s) = Some (value_of s)"
    "finite_value (dump_finite e) = Some (value_of e)"
    by (simp_all add: finite_value_dump_small)
  with se show ?thesis
    using clip_lookup(1) [of s e] by (simp add: validate_clip_Inr)
qed

theorem validate_clip_fits_witness:
  "validate_clip (JObj (op_params (ClipOperation (IntN 1) (FloatN (5/2)))))
     \<lparr>probe_width = 640, probe_height = 360, duration_seconds = Fin 10, hdr = False,
      frame_rate = None, color_transfer = None\<rparr> = Inr ()"
  by (rule validate_clip_fits [THEN iffD2]) simp_all

end
