(* ===== verification/Database.thy ===== *)
theory Database
  imports Prelude
begin

text \<open>
  SQL statements as the repositories issue them. A table is the list of its rows in insertion
  order; a statement runs atomically and returns the table after it. A statement whose rows would
  break a \<open>CHECK\<close> constraint or a unique key is an \<open>IntegrityError\<close> and changes nothing. The
  locales state what a conditional \<open>UPDATE ... WHERE id = ... AND guard\<close> promises its callers;
  each repository function is an interpretation of one of them.
\<close>

section \<open>Identifiers and instants\<close>

type_synonym uuid = nat
type_synonym instant = int

definition hex_digit :: "nat \<Rightarrow> char" where
  "hex_digit d = ''0123456789abcdef'' ! d"

fun hex_digits :: "nat \<Rightarrow> nat \<Rightarrow> string" where
  \<comment> \<open>the last \<open>k\<close> hexadecimal digits\<close>
  "hex_digits 0 n = []"
| "hex_digits (Suc k) n = hex_digits k (n div 16) @ [hex_digit (n mod 16)]"

definition uuid_text :: "uuid \<Rightarrow> string" where
  \<comment> \<open>\<open>str(uuid)\<close>\<close>
  "uuid_text u =
     (let h = hex_digits 32 u
      in take 8 h @ ''-'' @ take 4 (drop 8 h) @ ''-'' @ take 4 (drop 12 h) @ ''-''
         @ take 4 (drop 16 h) @ ''-'' @ drop 20 h)"

datatype page_key = Page_Key (page_time: instant) (page_id: uuid)
  \<comment> \<open>\<open>ORDER BY t DESC, id\<close>\<close>

instantiation page_key :: linorder
begin

definition less_eq_page_key :: "page_key \<Rightarrow> page_key \<Rightarrow> bool" where
  "less_eq_page_key a b \<longleftrightarrow>
     page_time b < page_time a \<or> (page_time a = page_time b \<and> page_id a \<le> page_id b)"

definition less_page_key :: "page_key \<Rightarrow> page_key \<Rightarrow> bool" where
  "less_page_key a b \<longleftrightarrow>
     page_time b < page_time a \<or> (page_time a = page_time b \<and> page_id a < page_id b)"

instance
  by standard (auto simp: less_eq_page_key_def less_page_key_def intro: page_key.expand)

end

section \<open>Statements\<close>

definition find_row :: "('r \<Rightarrow> 'k) \<Rightarrow> 'k \<Rightarrow> 'r list \<Rightarrow> 'r option" where
  "find_row key k t = find (\<lambda>r. key r = k) t"

definition limit_offset :: "nat \<Rightarrow> nat \<Rightarrow> 'r list \<Rightarrow> 'r list" where
  "limit_offset n off rows = take n (drop off rows)"

definition insert_row :: "('r \<Rightarrow> 'k) \<Rightarrow> ('r \<Rightarrow> bool) \<Rightarrow> 'r \<Rightarrow> 'r list \<Rightarrow> exn + 'r list" where
  "insert_row key check r t =
     (if check r \<and> key r \<notin> key ` set t then Inr (t @ [r]) else Inl IntegrityError)"

definition update_row ::
  "('r \<Rightarrow> 'k) \<Rightarrow> ('r \<Rightarrow> bool) \<Rightarrow> ('r \<Rightarrow> bool) \<Rightarrow> ('r \<Rightarrow> 'r) \<Rightarrow> 'k \<Rightarrow> 'r list \<Rightarrow> exn + ('r list \<times> 'r option)"
where
  \<comment> \<open>\<open>UPDATE ... WHERE key = k AND guard ... RETURNING\<close>, read by \<open>scalar_one_or_none\<close>\<close>
  "update_row key check guard change k t =
     (let hit = (\<lambda>r. key r = k \<and> guard r)
      in if \<not> list_all check (map change (filter hit t)) then Inl IntegrityError
         else case map change (filter hit t) of
                [] \<Rightarrow> Inr (t, None)
              | [r] \<Rightarrow> Inr (map (\<lambda>r. if hit r then change r else r) t, Some r)
              | _ \<Rightarrow> Inl (OtherError ''MultipleResultsFound''))"

definition table_ok :: "('r \<Rightarrow> 'k) \<Rightarrow> ('r \<Rightarrow> bool) \<Rightarrow> 'r list \<Rightarrow> bool" where
  "table_ok key check t \<longleftrightarrow> distinct (map key t) \<and> list_all check t"

section \<open>UUID texts\<close>

lemma length_hex_digits [simp]: "length (hex_digits k n) = k"
  by (induction k n rule: hex_digits.induct) simp_all

lemma hex_digit_inject:
  assumes "a < 16" and "b < 16" and "hex_digit a = hex_digit b"
  shows "a = b"
proof -
  have "distinct ''0123456789abcdef''" by simp
  with assms nth_eq_iff_index_eq [of "''0123456789abcdef''" a b] show ?thesis
    by (simp add: hex_digit_def)
qed

lemma hex_digits_inject:
  "m < 16 ^ k \<Longrightarrow> n < 16 ^ k \<Longrightarrow> hex_digits k m = hex_digits k n \<Longrightarrow> m = n"
proof (induction k arbitrary: m n)
  case (Suc k)
  from Suc.prems(3) have "hex_digits k (m div 16) = hex_digits k (n div 16)"
    and "hex_digit (m mod 16) = hex_digit (n mod 16)" by simp_all
  with Suc have "m div 16 = n div 16" "m mod 16 = n mod 16"
    by (simp_all add: hex_digit_inject less_mult_imp_div_less mult.commute)
  then show ?case by (metis div_mult_mod_eq)
qed simp

lemma hex_digit_set: "d < 16 \<Longrightarrow> hex_digit d \<in> set ''0123456789abcdef''"
  unfolding hex_digit_def by (rule nth_mem) simp

lemma hex_digits_set: "set (hex_digits k n) \<subseteq> set ''0123456789abcdef''"
proof (induction k arbitrary: n)
  case (Suc k)
  with hex_digit_set [of "n mod 16"] show ?case by simp
qed simp

lemma length_uuid_text [simp]: "length (uuid_text u) = 36"
  by (simp add: uuid_text_def Let_def)

lemma uuid_text_inject:
  assumes "a < 2 ^ 128" and "b < 2 ^ 128" and "uuid_text a = uuid_text b"
  shows "a = b"
proof -
  have split: "h = take 8 h @ take 4 (drop 8 h) @ take 4 (drop 12 h) @ take 4 (drop 16 h) @ drop 20 h"
    for h :: string
    using append_take_drop_id [of 8 h] append_take_drop_id [of 4 "drop 8 h"]
      append_take_drop_id [of 4 "drop 12 h"] append_take_drop_id [of 4 "drop 16 h"] by simp
  from assms(3) have "hex_digits 32 a = hex_digits 32 b"
    unfolding uuid_text_def Let_def by (subst (1 2) split) simp
  with assms(1,2) show ?thesis by (intro hex_digits_inject [of a 32 b]) simp_all
qed

lemma slash_notin_uuid_text [simp]: "CHR ''/'' \<notin> set (uuid_text u)"
proof -
  have "CHR ''/'' \<notin> set (hex_digits 32 u)" using hex_digits_set [of 32 u] by auto
  then show ?thesis
    by (auto simp: uuid_text_def Let_def dest: in_set_takeD in_set_dropD)
qed

section \<open>Rows\<close>

lemma table_okI: "distinct (map key t) \<Longrightarrow> list_all check t \<Longrightarrow> table_ok key check t"
  by (simp add: table_ok_def)

lemma find_row_Some: "find_row key k t = Some r \<Longrightarrow> r \<in> set t \<and> key r = k"
  by (auto simp: find_row_def find_Some_iff)

lemma find_row_None: "find_row key k t = None \<longleftrightarrow> k \<notin> key ` set t"
  by (auto simp: find_row_def find_None_iff)

lemma find_row_append:
  "find_row key k (t @ u) = (case find_row key k t of Some r \<Rightarrow> Some r | None \<Rightarrow> find_row key k u)"
  by (induction t) (auto simp: find_row_def)

lemma find_row_mem:
  "distinct (map key t) \<Longrightarrow> r \<in> set t \<Longrightarrow> find_row key (key r) t = Some r"
  by (induction t) (auto simp: find_row_def)

lemma find_row_iff:
  "distinct (map key t) \<Longrightarrow> find_row key k t = Some r \<longleftrightarrow> r \<in> set t \<and> key r = k"
  by (metis find_row_Some find_row_mem)

lemma filter_key:
  "distinct (map key t) \<Longrightarrow>
   filter (\<lambda>r. key r = k \<and> P r) t = (case find_row key k t of
       None \<Rightarrow> [] | Some r \<Rightarrow> if P r then [r] else [])"
proof (induction t)
  case Nil
  then show ?case by (simp add: find_row_def)
next
  case (Cons x t)
  show ?case
  proof (cases "key x = k")
    case True
    with Cons.prems have "filter (\<lambda>r. key r = k \<and> P r) t = []"
      by (auto simp: filter_empty_conv dest: image_eqI [OF sym])
    with True show ?thesis by (simp add: find_row_def)
  next
    case False
    with Cons show ?thesis by (simp add: find_row_def)
  qed
qed

lemma insert_row_ok:
  "insert_row key check r t = Inr t' \<Longrightarrow> table_ok key check t \<Longrightarrow> table_ok key check t'"
  by (auto simp: insert_row_def table_ok_def split: if_splits)

lemma delete_rows_ok: "table_ok key check t \<Longrightarrow> table_ok key check (filter P t)"
  by (auto simp: table_ok_def distinct_map list_all_iff intro: inj_on_subset)

section \<open>Conditional updates\<close>

locale keyed_update =
  fixes key :: "'r \<Rightarrow> 'k" and check :: "'r \<Rightarrow> bool"
    and guard :: "'r \<Rightarrow> bool" and change :: "'r \<Rightarrow> 'r"
  assumes key_change: "key (change r) = key r"
begin

lemma update_eq:
  assumes "distinct (map key t)"
  shows "update_row key check guard change k t =
    (case find_row key k t of
       None \<Rightarrow> Inr (t, None)
     | Some r \<Rightarrow>
         if \<not> guard r then Inr (t, None)
         else if \<not> check (change r) then Inl IntegrityError
         else Inr (map (\<lambda>r. if key r = k \<and> guard r then change r else r) t, Some (change r)))"
  unfolding update_row_def Let_def filter_key [OF assms]
  by (simp split: option.split)

lemma map_key: "map key (map (\<lambda>r. if key r = k \<and> guard r then change r else r) t) = map key t"
  by (simp add: key_change)

lemma find_changed:
  "find_row key k' (map (\<lambda>r. if key r = k \<and> guard r then change r else r) t) =
     (case find_row key k' t of
        None \<Rightarrow> None
      | Some r \<Rightarrow> Some (if k' = k \<and> guard r then change r else r))"
  by (induction t) (auto simp: find_row_def key_change)

lemma update_cases:
  assumes "distinct (map key t)" and "update_row key check guard change k t = Inr (t', res)"
  obtains (none) "res = None" and "t' = t" and "\<And>r. find_row key k t = Some r \<Longrightarrow> \<not> guard r"
  | (hit) r where "find_row key k t = Some r" and "guard r" and "check (change r)"
      and "res = Some (change r)"
      and "t' = map (\<lambda>r. if key r = k \<and> guard r then change r else r) t"
  using assms(2) unfolding update_eq [OF assms(1)]
  by (auto split: option.splits if_splits)

lemma update_ok:
  assumes "table_ok key check t" and "update_row key check guard change k t = Inr (t', res)"
  shows "table_ok key check t'"
proof -
  from assms(1) have dist: "distinct (map key t)" and rows: "list_all check t"
    by (simp_all add: table_ok_def)
  from dist assms(2) show ?thesis
  proof (cases rule: update_cases)
    case none
    with assms(1) show ?thesis by simp
  next
    case (hit r)
    have "list_all check t'"
      unfolding hit(5) list_all_iff
    proof
      fix x assume "x \<in> set (map (\<lambda>r. if key r = k \<and> guard r then change r else r) t)"
      then obtain y where y: "y \<in> set t" "x = (if key y = k \<and> guard y then change y else y)"
        by auto
      show "check x"
      proof (cases "key y = k")
        case True
        with y(1) dist hit(1) have "y = r" by (metis find_row_mem option.inject)
        with y hit rows show ?thesis by (auto simp: list_all_iff)
      qed (use y rows in \<open>auto simp: list_all_iff\<close>)
    qed
    moreover have "map key t' = map key t" unfolding hit(5) by (rule map_key)
    ultimately show ?thesis using dist by (simp add: table_ok_def)
  qed
qed

lemma update_keys:
  assumes "distinct (map key t)" and "update_row key check guard change k t = Inr (t', res)"
  shows "map key t' = map key t"
  using assms by (cases rule: update_cases) (simp_all only: map_key)

lemma update_others:
  assumes "distinct (map key t)" and "update_row key check guard change k t = Inr (t', res)"
    and "k' \<noteq> k"
  shows "find_row key k' t' = find_row key k' t"
  using assms(1,2)
  by (cases rule: update_cases) (use assms(3) in \<open>simp_all add: find_changed split: option.split\<close>)

lemma update_found:
  assumes "distinct (map key t)" and "update_row key check guard change k t = Inr (t', Some r')"
  shows "find_row key k t' = Some r' \<and> (\<exists>r. find_row key k t = Some r \<and> guard r \<and> r' = change r)"
  using assms(1,2)
  by (cases rule: update_cases) (auto simp: find_changed)

end

locale claim = keyed_update +
  assumes guard_change: "guard r \<Longrightarrow> \<not> guard (change r)"
begin

text \<open>Of two callers of the same conditional update, at most one gets the row.\<close>

lemma claimed_once:
  assumes "distinct (map key t)" and "update_row key check guard change k t = Inr (t', Some r)"
  shows "update_row key check guard change k t' = Inr (t', None)"
proof -
  from assms update_found guard_change
  have row: "find_row key k t' = Some r" and "\<not> guard r" by blast+
  moreover have "distinct (map key t')"
    using update_keys [OF assms] assms(1) by simp
  ultimately show ?thesis by (simp add: update_eq)
qed

end

end
