(* ===== verification/Models.thy ===== *)
theory Models
  imports Database
begin

text \<open>
  \<open>app/models/\<close>: the three tables, their \<open>CHECK\<close> constraints and defaults. \<open>db\<close> is the
  database: the users, the jobs and the upload sessions. Instants are microseconds; identifiers
  are the 128-bit numbers of their UUIDs.
\<close>

section \<open>Jobs\<close>

datatype job_status = Queued | Processing | Done | Failed

datatype hls_status = HlsPending | HlsReady | HlsUnavailable

record job =
  job_id :: uuid
  job_owner_id :: uuid
  job_filename :: string
  job_status :: job_status
  job_source_key :: string
  job_output_key :: "string option"
  job_hls_key :: "string option"
  job_operations :: "json list option"
  job_hls_status :: hls_status
  job_width :: "int option"
  job_height :: "int option"
  job_duration :: "pyfloat option"
  job_thumbnail_key :: "string option"
  job_preview_key :: "string option"
  job_max_fps :: int
  job_error :: "string option"
  job_deleted_at :: "instant option"
  job_created_at :: instant
  job_updated_at :: instant

definition btrim :: "string \<Rightarrow> string" where
  \<comment> \<open>PostgreSQL's \<open>btrim\<close>: spaces only\<close>
  "btrim s = strip_chars CHR '' '' s"

fun sql_positive :: "pyfloat \<Rightarrow> bool" where
  \<comment> \<open>\<open>x > 0\<close> on \<open>double precision\<close>, where \<open>NaN\<close> is the greatest value\<close>
  "sql_positive (Fin r) = (0 < r)"
| "sql_positive PInf = True"
| "sql_positive NaN = True"
| "sql_positive NInf = False"

definition ck_jobs_output_key :: "job \<Rightarrow> bool" where
  "ck_jobs_output_key j \<longleftrightarrow> (job_status j = Done) = (job_output_key j \<noteq> None)"

definition ck_jobs_error :: "job \<Rightarrow> bool" where
  "ck_jobs_error j \<longleftrightarrow>
     (case job_error j of
        Some e \<Rightarrow> job_status j = Failed \<and> btrim e \<noteq> []
      | None \<Rightarrow> job_status j \<noteq> Failed)"

definition ck_jobs_operations_nonempty_array :: "job \<Rightarrow> bool" where
  "ck_jobs_operations_nonempty_array j \<longleftrightarrow> job_operations j \<noteq> Some []"

definition ck_jobs_hls_ready_has_key :: "job \<Rightarrow> bool" where
  "ck_jobs_hls_ready_has_key j \<longleftrightarrow> (job_hls_status j = HlsReady) = (job_hls_key j \<noteq> None)"

definition ck_jobs_media_dimensions_positive :: "job \<Rightarrow> bool" where
  "ck_jobs_media_dimensions_positive j \<longleftrightarrow>
     (case job_width j of None \<Rightarrow> True | Some w \<Rightarrow> 0 < w)
     \<and> (case job_height j of None \<Rightarrow> True | Some h \<Rightarrow> 0 < h)
     \<and> (case job_duration j of None \<Rightarrow> True | Some d \<Rightarrow> sql_positive d)"

definition ck_jobs_max_fps :: "job \<Rightarrow> bool" where
  "ck_jobs_max_fps j \<longleftrightarrow> job_max_fps j = 30 \<or> job_max_fps j = 60"

definition ck_jobs_preview_needs_ladder :: "job \<Rightarrow> bool" where
  "ck_jobs_preview_needs_ladder j \<longleftrightarrow> job_preview_key j = None \<or> job_hls_key j \<noteq> None"

definition job_check :: "job \<Rightarrow> bool" where
  "job_check j \<longleftrightarrow> ck_jobs_output_key j \<and> ck_jobs_error j \<and> ck_jobs_operations_nonempty_array j
     \<and> ck_jobs_hls_ready_has_key j \<and> ck_jobs_media_dimensions_positive j \<and> ck_jobs_max_fps j
     \<and> ck_jobs_preview_needs_ladder j"

lemmas job_check_defs = job_check_def ck_jobs_output_key_def ck_jobs_error_def
  ck_jobs_operations_nonempty_array_def ck_jobs_hls_ready_has_key_def
  ck_jobs_media_dimensions_positive_def ck_jobs_max_fps_def ck_jobs_preview_needs_ladder_def

definition new_job ::
  "instant \<Rightarrow> uuid \<Rightarrow> uuid \<Rightarrow> string \<Rightarrow> string \<Rightarrow> json list option \<Rightarrow> int \<Rightarrow> job"
where
  \<comment> \<open>the columns an insert names, and the defaults of the others\<close>
  "new_job now k own name source ops fps =
     \<lparr>job_id = k, job_owner_id = own, job_filename = name, job_status = Queued,
      job_source_key = source, job_output_key = None, job_hls_key = None, job_operations = ops,
      job_hls_status = HlsPending, job_width = None, job_height = None, job_duration = None,
      job_thumbnail_key = None, job_preview_key = None, job_max_fps = fps, job_error = None,
      job_deleted_at = None, job_created_at = now, job_updated_at = now\<rparr>"

section \<open>Users\<close>

datatype user_role = UserRole | OperatorRole

record user =
  user_id :: uuid
  user_email :: string
  user_password_hash :: string
  user_role :: user_role
  user_created_at :: instant

section \<open>Upload sessions\<close>

datatype upload_state = UOpen | UCompleting | UReady | UCompleted | UAborting | UAborted

record uploaded_part =
  part_n :: int
  part_etag :: string

record upload =
  upload_id :: uuid
  upload_owner_id :: uuid
  upload_filename :: string
  upload_source_key :: string
  upload_storage_id :: "string option"
  upload_size :: int
  upload_part_size :: int
  upload_state :: upload_state
  upload_max_fps :: int
  upload_manifest :: "uploaded_part list option"
  upload_job_id :: uuid
  upload_created_at :: instant
  upload_expires_at :: instant

definition part_count :: "upload \<Rightarrow> int" where
  "part_count u = (upload_size u + upload_part_size u - 1) div upload_part_size u"

definition upload_check :: "upload \<Rightarrow> bool" where
  "upload_check u \<longleftrightarrow> 0 < upload_size u \<and> 0 < upload_part_size u
     \<and> (upload_max_fps u = 30 \<or> upload_max_fps u = 60)"

section \<open>The database\<close>

record db =
  db_users :: "user list"
  db_jobs :: "job list"
  db_uploads :: "upload list"

definition jobs_ok :: "job list \<Rightarrow> bool" where
  "jobs_ok js \<longleftrightarrow> table_ok job_id job_check js"

lemma part_count_bounds:
  assumes "upload_check u"
  shows "1 \<le> part_count u \<and> (part_count u - 1) * upload_part_size u < upload_size u
    \<and> upload_size u \<le> part_count u * upload_part_size u"
proof -
  define p where "p = upload_part_size u"
  define s where "s = upload_size u"
  from assms have p: "0 < p" and s: "0 < s" by (simp_all add: upload_check_def p_def s_def)
  define q where "q = (s + p - 1) div p"
  have e: "s + p - 1 = q * p + (s + p - 1) mod p" by (simp add: q_def)
  have m: "0 \<le> (s + p - 1) mod p" "(s + p - 1) mod p < p" using p by simp_all
  have "q * p < s + p" "s \<le> q * p" using e m by linarith+
  moreover from this(1) have "(q - 1) * p < s" by (simp add: left_diff_distrib)
  moreover have "1 \<le> q"
  proof (rule ccontr)
    assume "\<not> 1 \<le> q"
    then have "q * p \<le> 0" using p by (simp add: mult_nonpos_nonneg)
    with \<open>s \<le> q * p\<close> s show False by simp
  qed
  ultimately show ?thesis by (simp add: part_count_def q_def p_def s_def)
qed

end
