(* ===== verification/Job_Store.thy ===== *)
theory Job_Store
  imports Models
begin

text \<open>
  \<open>app/repositories/jobs.py\<close>: every query and transition of the jobs table. A function that
  writes is one committed transaction, from the database before it to the database after it and
  its result; \<open>Inl\<close> is the exception it raises, after which nothing has changed. \<open>now\<close> is what
  \<open>func.now()\<close> returns in the transaction; a fresh identifier is an argument.
\<close>

section \<open>Inserts and reads\<close>

type_synonym 'a tx = "exn + (db \<times> 'a)"

definition insert_job :: "job \<Rightarrow> db \<Rightarrow> job tx" where
  "insert_job j d =
     (if job_owner_id j \<notin> user_id ` set (db_users d) then Inl IntegrityError
      else case insert_row job_id job_check j (db_jobs d) of
             Inl e \<Rightarrow> Inl e
           | Inr js \<Rightarrow> Inr (d\<lparr>db_jobs := js\<rparr>, j))"

definition create_job ::
  "instant \<Rightarrow> uuid \<Rightarrow> uuid \<Rightarrow> string \<Rightarrow> string \<Rightarrow> int \<Rightarrow> db \<Rightarrow> job tx"
where
  "create_job now own k name source fps d = insert_job (new_job now k own name source None fps) d"

definition create_edit_job ::
  "instant \<Rightarrow> uuid \<Rightarrow> uuid \<Rightarrow> string \<Rightarrow> string \<Rightarrow> json list \<Rightarrow> int \<Rightarrow> db \<Rightarrow> job tx"
where
  "create_edit_job now own k name source ops fps d =
     (if ops = [] then Inl (ValueError ''an edit job requires at least one operation'')
      else insert_job (new_job now k own name source (Some ops) fps) d)"

definition get_job :: "db \<Rightarrow> uuid \<Rightarrow> uuid option \<Rightarrow> bool \<Rightarrow> job option" where
  "get_job d k own include_trashed =
     (case find_row job_id k (db_jobs d) of
        None \<Rightarrow> None
      | Some j \<Rightarrow>
          if (own \<noteq> None \<and> own \<noteq> Some (job_owner_id j))
             \<or> (own \<noteq> None \<and> job_deleted_at j \<noteq> None \<and> \<not> include_trashed)
          then None else Some j)"

definition list_jobs :: "db \<Rightarrow> uuid option \<Rightarrow> nat \<Rightarrow> nat \<Rightarrow> job list" where
  "list_jobs d own n off =
     limit_offset n off (sort_key (\<lambda>j. Page_Key (job_created_at j) (job_id j))
       (filter (\<lambda>j. job_deleted_at j = None \<and> (own = None \<or> own = Some (job_owner_id j)))
          (db_jobs d)))"

definition trashed_at :: "job \<Rightarrow> instant" where
  "trashed_at j = (case job_deleted_at j of Some t \<Rightarrow> t | None \<Rightarrow> 0)"

definition list_trash :: "db \<Rightarrow> uuid \<Rightarrow> nat \<Rightarrow> nat \<Rightarrow> job list" where
  "list_trash d own n off =
     limit_offset n off (sort_key (\<lambda>j. Page_Key (trashed_at j) (job_id j))
       (filter (\<lambda>j. job_owner_id j = own \<and> job_deleted_at j \<noteq> None) (db_jobs d)))"

definition list_expired_trash :: "db \<Rightarrow> instant \<Rightarrow> job list" where
  "list_expired_trash d before =
     sort_key trashed_at
       (filter (\<lambda>j. job_deleted_at j \<noteq> None \<and> trashed_at j < before) (db_jobs d))"

definition list_stale_ladders :: "db \<Rightarrow> instant \<Rightarrow> job list" where
  "list_stale_ladders d before =
     sort_key job_updated_at
       (filter (\<lambda>j. job_status j = Done \<and> job_hls_status j = HlsPending \<and> job_updated_at j < before)
         (db_jobs d))"

definition list_stale :: "db \<Rightarrow> job_status \<Rightarrow> instant \<Rightarrow> job list" where
  "list_stale d st before =
     sort_key job_updated_at (filter (\<lambda>j. job_status j = st \<and> job_updated_at j < before) (db_jobs d))"

definition list_source_keys :: "db \<Rightarrow> string set" where
  "list_source_keys d =
     job_source_key ` set (db_jobs d)
     \<union> upload_source_key ` {u \<in> set (db_uploads d). upload_state u \<in> {UOpen, UCompleting, UAborting}}"

section \<open>Conditional updates\<close>

definition update_job :: "(job \<Rightarrow> bool) \<Rightarrow> (job \<Rightarrow> job) \<Rightarrow> uuid \<Rightarrow> db \<Rightarrow> job option tx" where
  "update_job guard change k d =
     (case update_row job_id job_check guard change k (db_jobs d) of
        Inl e \<Rightarrow> Inl e
      | Inr (js, r) \<Rightarrow> Inr (d\<lparr>db_jobs := js\<rparr>, r))"

definition trash_guard :: "uuid \<Rightarrow> job \<Rightarrow> bool" where
  "trash_guard own j \<longleftrightarrow> job_owner_id j = own \<and> job_deleted_at j = None"

definition trash_job :: "instant \<Rightarrow> uuid \<Rightarrow> uuid \<Rightarrow> db \<Rightarrow> job option tx" where
  "trash_job now k own = update_job (trash_guard own) (\<lambda>j. j\<lparr>job_deleted_at := Some now\<rparr>) k"

definition restore_guard :: "uuid \<Rightarrow> job \<Rightarrow> bool" where
  "restore_guard own j \<longleftrightarrow> job_owner_id j = own \<and> job_deleted_at j \<noteq> None"

definition restore_job :: "uuid \<Rightarrow> uuid \<Rightarrow> db \<Rightarrow> job option tx" where
  "restore_job k own = update_job (restore_guard own) (\<lambda>j. j\<lparr>job_deleted_at := None\<rparr>) k"

definition derived_hls_status :: "job_status \<Rightarrow> string option \<Rightarrow> hls_status" where
  "derived_hls_status next hls_key =
     (if hls_key \<noteq> None then HlsReady
      else if next = Done \<or> next = Failed then HlsUnavailable
      else HlsPending)"

record job_values =
  v_output_key :: "string option"
  v_hls_key :: "string option"
  v_hls_status :: "hls_status option"
  v_width :: "int option"
  v_height :: "int option"
  v_duration :: "pyfloat option"
  v_thumbnail_key :: "string option"
  v_error :: "string option"

definition no_values :: job_values where
  "no_values = \<lparr>v_output_key = None, v_hls_key = None, v_hls_status = None, v_width = None,
     v_height = None, v_duration = None, v_thumbnail_key = None, v_error = None\<rparr>"

definition transition_values :: "instant \<Rightarrow> job_status \<Rightarrow> job_values \<Rightarrow> job \<Rightarrow> job" where
  "transition_values now next v j =
     j\<lparr>job_status := next, job_output_key := v_output_key v, job_hls_key := v_hls_key v,
       job_hls_status := (case v_hls_status v of
                            Some h \<Rightarrow> h | None \<Rightarrow> derived_hls_status next (v_hls_key v)),
       job_width := v_width v, job_height := v_height v, job_duration := v_duration v,
       job_thumbnail_key := v_thumbnail_key v, job_error := v_error v, job_updated_at := now\<rparr>"

fun status_text :: "job_status \<Rightarrow> string" where
  "status_text Queued = ''queued''"
| "status_text Processing = ''processing''"
| "status_text Done = ''done''"
| "status_text Failed = ''failed''"

definition transition ::
  "instant \<Rightarrow> uuid \<Rightarrow> job_status \<Rightarrow> job_status \<Rightarrow> job_values \<Rightarrow> db \<Rightarrow> job tx"
where
  "transition now k expected next v d =
     (case update_job (\<lambda>j. job_status j = expected) (transition_values now next v) k d of
        Inl e \<Rightarrow> Inl e
      | Inr (d', Some j) \<Rightarrow> Inr (d', j)
      | Inr (d', None) \<Rightarrow>
          (case get_job d k None False of
             None \<Rightarrow> Inl JobNotFound
           | Some j \<Rightarrow>
               Inl (InvalidJobTransition (''cannot transition job '' @ uuid_text k @ '' from ''
                      @ status_text (job_status j) @ '' to '' @ status_text next))))"

definition mark_processing :: "instant \<Rightarrow> uuid \<Rightarrow> db \<Rightarrow> job tx" where
  "mark_processing now k = transition now k Queued Processing no_values"

definition mark_done :: "instant \<Rightarrow> uuid \<Rightarrow> string \<Rightarrow> job_values \<Rightarrow> db \<Rightarrow> job tx" where
  \<comment> \<open>the other keyword arguments are in \<open>v\<close>; \<open>output_key\<close> is required, there is no \<open>error\<close>\<close>
  "mark_done now k output_key v d =
     (if strip output_key = [] then Inl (ValueError ''output_key must not be empty'')
      else if v_thumbnail_key v \<noteq> None \<and> strip (the (v_thumbnail_key v)) = []
      then Inl (ValueError ''thumbnail_key must not be empty when given'')
      else transition now k Processing Done
             (v\<lparr>v_output_key := Some output_key, v_error := None\<rparr>) d)"

definition mark_interrupted :: "instant \<Rightarrow> uuid \<Rightarrow> db \<Rightarrow> job tx" where
  "mark_interrupted now k = transition now k Processing Queued no_values"

definition mark_failed :: "instant \<Rightarrow> uuid \<Rightarrow> string \<Rightarrow> db \<Rightarrow> job tx" where
  "mark_failed now k err d =
     (if strip err = [] then Inl (ValueError ''failed jobs require a readable error'')
      else transition now k Processing Failed (no_values\<lparr>v_error := Some (strip err)\<rparr>) d)"

definition waits_for_ladder :: "job \<Rightarrow> bool" where
  "waits_for_ladder j \<longleftrightarrow> job_status j = Done \<and> job_hls_status j = HlsPending"

definition settle_ladder ::
  "instant \<Rightarrow> uuid \<Rightarrow> hls_status \<Rightarrow> string option \<Rightarrow> db \<Rightarrow> job option tx"
where
  "settle_ladder now k st key =
     update_job waits_for_ladder
       (\<lambda>j. j\<lparr>job_hls_status := st, job_hls_key := key, job_updated_at := now\<rparr>) k"

definition mark_ladder_ready :: "instant \<Rightarrow> uuid \<Rightarrow> string \<Rightarrow> db \<Rightarrow> job option tx" where
  "mark_ladder_ready now k key d =
     (if strip key = [] then Inl (ValueError ''hls_key must not be empty'')
      else settle_ladder now k HlsReady (Some key) d)"

definition mark_ladder_unavailable :: "instant \<Rightarrow> uuid \<Rightarrow> db \<Rightarrow> job option tx" where
  "mark_ladder_unavailable now k = settle_ladder now k HlsUnavailable None"

definition has_ladder :: "job \<Rightarrow> bool" where
  "has_ladder j \<longleftrightarrow> job_status j = Done \<and> job_hls_status j = HlsReady"

definition mark_preview_ready :: "instant \<Rightarrow> uuid \<Rightarrow> string \<Rightarrow> db \<Rightarrow> job option tx" where
  "mark_preview_ready now k key d =
     (if strip key = [] then Inl (ValueError ''preview_key must not be empty'')
      else update_job has_ladder (\<lambda>j. j\<lparr>job_preview_key := Some key, job_updated_at := now\<rparr>) k d)"

definition retry_guard :: "uuid \<Rightarrow> job \<Rightarrow> bool" where
  "retry_guard own j \<longleftrightarrow> job_owner_id j = own \<and> job_status j = Failed"

definition retry_values :: "instant \<Rightarrow> job \<Rightarrow> job" where
  "retry_values now j =
     j\<lparr>job_status := Queued, job_error := None, job_output_key := None, job_hls_key := None,
       job_hls_status := HlsPending, job_updated_at := now\<rparr>"

definition prepare_retry :: "instant \<Rightarrow> uuid \<Rightarrow> uuid \<Rightarrow> db \<Rightarrow> job tx" where
  "prepare_retry now k own d =
     (case update_job (retry_guard own) (retry_values now) k d of
        Inl e \<Rightarrow> Inl e
      | Inr (d', Some j) \<Rightarrow> Inr (d', j)
      | Inr (d', None) \<Rightarrow>
          (case get_job d k (Some own) False of
             None \<Rightarrow> Inl JobNotFound
           | Some j \<Rightarrow> Inl (InvalidJobTransition ''only failed jobs can be retried'')))"

definition stale_values :: "instant \<Rightarrow> job \<Rightarrow> job" where
  "stale_values now j =
     j\<lparr>job_status := Failed,
       job_error := Some ''worker stopped responding; job was not completed'',
       job_hls_status := HlsUnavailable, job_updated_at := now\<rparr>"

definition mark_stale_failed :: "instant \<Rightarrow> uuid \<Rightarrow> db \<Rightarrow> job option tx" where
  "mark_stale_failed now k = update_job (\<lambda>j. job_status j = Processing) (stale_values now) k"

definition delete_job :: "uuid \<Rightarrow> uuid option \<Rightarrow> db \<Rightarrow> db \<times> job option" where
  "delete_job k own d =
     (let hit = (\<lambda>j. job_id j = k \<and> (own = None \<or> own = Some (job_owner_id j)))
      in (d\<lparr>db_jobs := filter (\<lambda>j. \<not> hit j) (db_jobs d)\<rparr>, find hit (db_jobs d)))"

section \<open>Edit roots\<close>

definition MAX_EDIT_CHAIN :: nat where
  "MAX_EDIT_CHAIN = 8"

definition later_wins :: "('a \<times> 'b) list \<Rightarrow> 'a \<Rightarrow> 'b option" where
  \<comment> \<open>a dict comprehension: the last pair of a key stays\<close>
  "later_wins ps = map_of (rev ps)"

definition hop_rows :: "job list \<Rightarrow> db \<Rightarrow> job list" where
  \<comment> \<open>the query of one hop\<close>
  "hop_rows current d =
     (let keys = job_source_key ` set current; owners = job_owner_id ` set current
      in filter (\<lambda>r. job_owner_id r \<in> owners
           \<and> ((job_operations r = None \<and> job_source_key r \<in> keys)
              \<or> (case job_output_key r of Some k \<Rightarrow> k \<in> keys | None \<Rightarrow> False)))
         (db_jobs d))"

definition edit_parent :: "job list \<Rightarrow> job \<Rightarrow> job option" where
  "edit_parent rows current =
     (let uploads = later_wins (map (\<lambda>r. (job_source_key r, r)) (filter (\<lambda>r. job_operations r = None) rows));
          outputs = later_wins (map (\<lambda>r. (the (job_output_key r), r))
                      (filter (\<lambda>r. job_output_key r \<noteq> None \<and> job_output_key r \<noteq> Some []) rows))
      in case (case uploads (job_source_key current) of
                 Some p \<Rightarrow> Some p
               | None \<Rightarrow> outputs (job_source_key current)) of
           None \<Rightarrow> None
         | Some p \<Rightarrow>
             if job_owner_id p \<noteq> job_owner_id current \<or> job_id p = job_id current then None else Some p)"

fun hop :: "job list \<Rightarrow> (uuid \<times> job) list \<Rightarrow> (uuid \<rightharpoonup> job) \<Rightarrow> (uuid \<times> job) list \<times> (uuid \<rightharpoonup> job)" where
  "hop rows [] roots = ([], roots)"
| "hop rows ((k, current) # pending) roots =
     (case edit_parent rows current of
        None \<Rightarrow> hop rows pending roots
      | Some p \<Rightarrow>
          (case hop rows pending (roots(k \<mapsto> p)) of (still, roots') \<Rightarrow>
             (if job_operations p \<noteq> None then (k, p) # still else still, roots')))"

fun hops :: "nat \<Rightarrow> db \<Rightarrow> (uuid \<times> job) list \<Rightarrow> (uuid \<rightharpoonup> job) \<Rightarrow> (uuid \<rightharpoonup> job)" where
  "hops 0 d pending roots = roots"
| "hops (Suc n) d pending roots =
     (if pending = [] then roots
      else case hop (hop_rows (map snd pending) d) pending roots of
             (still, roots') \<Rightarrow> hops n d still roots')"

definition resolve_edit_roots :: "db \<Rightarrow> job list \<Rightarrow> (uuid \<rightharpoonup> job)" where
  "resolve_edit_roots d js =
     hops MAX_EDIT_CHAIN d
       (map (\<lambda>j. (job_id j, j)) (filter (\<lambda>j. job_operations j \<noteq> None) js))
       (later_wins (map (\<lambda>j. (job_id j, j)) js))"

section \<open>What a job's life allows\<close>

definition lifecycle :: "job \<Rightarrow> bool" where
  "lifecycle j \<longleftrightarrow> job_check j \<and>
     (job_status j \<noteq> Done \<longrightarrow>
        job_hls_key j = None \<and> job_preview_key j = None \<and> job_thumbnail_key j = None
        \<and> job_width j = None \<and> job_height j = None \<and> job_duration j = None
        \<and> job_hls_status j = (if job_status j = Failed then HlsUnavailable else HlsPending))"

definition jobs_inv :: "job list \<Rightarrow> bool" where
  "jobs_inv js \<longleftrightarrow> table_ok job_id lifecycle js"

definition identity_of :: "job \<Rightarrow> uuid \<times> uuid \<times> string \<times> string \<times> json list option \<times> int \<times> instant" where
  "identity_of j = (job_id j, job_owner_id j, job_filename j, job_source_key j, job_operations j,
     job_max_fps j, job_created_at j)"

definition evolves :: "job \<Rightarrow> job \<Rightarrow> bool" where
  "evolves j j' \<longleftrightarrow> identity_of j' = identity_of j
     \<and> (job_status j = Done \<longrightarrow>
          job_status j' = Done \<and> job_output_key j' = job_output_key j
          \<and> job_width j' = job_width j \<and> job_height j' = job_height j
          \<and> job_thumbnail_key j' = job_thumbnail_key j
          \<and> (job_hls_status j \<noteq> HlsPending \<longrightarrow>
               job_hls_status j' = job_hls_status j \<and> job_hls_key j' = job_hls_key j))"

lemma evolves_refl [simp]: "evolves j j"
  by (simp add: evolves_def)

lemma evolves_trans: "evolves a b \<Longrightarrow> evolves b c \<Longrightarrow> evolves a c"
  by (auto simp: evolves_def)

lemma jobs_inv_ok: "jobs_inv js \<Longrightarrow> table_ok job_id job_check js"
  by (auto simp: jobs_inv_def table_ok_def lifecycle_def list_all_iff)

lemma jobs_inv_distinct: "jobs_inv js \<Longrightarrow> distinct (map job_id js)"
  by (simp add: jobs_inv_def table_ok_def)

lemma jobs_inv_lifecycle: "jobs_inv js \<Longrightarrow> j \<in> set js \<Longrightarrow> lifecycle j"
  by (simp add: jobs_inv_def table_ok_def list_all_iff)

locale job_update = keyed_update job_id job_check guard change
  for guard :: "job \<Rightarrow> bool" and change :: "job \<Rightarrow> job" +
  assumes change_lifecycle: "guard j \<Longrightarrow> lifecycle j \<Longrightarrow> job_check (change j) \<Longrightarrow> lifecycle (change j)"
    and change_evolves: "guard j \<Longrightarrow> evolves j (change j)"
begin

lemma job_update_cases:
  assumes "jobs_inv (db_jobs d)" and "update_job guard change k d = Inr (d', res)"
  obtains (none) "res = None" and "d' = d" and "\<And>j. find_row job_id k (db_jobs d) = Some j \<Longrightarrow> \<not> guard j"
  | (hit) j where "find_row job_id k (db_jobs d) = Some j" and "guard j" and "job_check (change j)"
      and "res = Some (change j)"
      and "d' = d\<lparr>db_jobs := map (\<lambda>r. if job_id r = k \<and> guard r then change r else r) (db_jobs d)\<rparr>"
proof -
  from assms(2) obtain js where
    u: "update_row job_id job_check guard change k (db_jobs d) = Inr (js, res)" and
    d': "d' = d\<lparr>db_jobs := js\<rparr>"
    by (auto simp: update_job_def split: sum.splits)
  from jobs_inv_distinct [OF assms(1)] u show thesis
    by (cases rule: update_cases) (use d' none hit in auto)
qed

lemma job_update_inv:
  assumes "jobs_inv (db_jobs d)" and "update_job guard change k d = Inr (d', res)"
  shows "jobs_inv (db_jobs d')"
  using assms
proof (cases rule: job_update_cases)
  case none
  with assms show ?thesis by simp
next
  case (hit j)
  let ?js = "map (\<lambda>r. if job_id r = k \<and> guard r then change r else r) (db_jobs d)"
  have "lifecycle (if job_id r = k \<and> guard r then change r else r)" if "r \<in> set (db_jobs d)" for r
  proof (cases "job_id r = k")
    case True
    with that hit(1) have "r = j"
      by (metis find_row_mem jobs_inv_distinct [OF assms(1)] option.inject)
    with hit change_lifecycle that assms(1) show ?thesis by (simp add: jobs_inv_lifecycle)
  qed (use that assms(1) in \<open>simp add: jobs_inv_lifecycle\<close>)
  then have "list_all lifecycle ?js" by (simp only: list_all_iff set_map) blast
  moreover have "distinct (map job_id ?js)"
    using jobs_inv_distinct [OF assms(1)] by (simp only: map_key)
  ultimately have "jobs_inv ?js" by (simp only: jobs_inv_def table_ok_def)
  with hit(5) show ?thesis by simp
qed

lemma job_update_evolves:
  assumes "jobs_inv (db_jobs d)" and "update_job guard change k d = Inr (d', res)"
    and "find_row job_id i (db_jobs d) = Some j"
  shows "\<exists>j'. find_row job_id i (db_jobs d') = Some j' \<and> evolves j j'"
  using assms(1,2)
  by (cases rule: job_update_cases)
    (use assms(3) change_evolves in \<open>auto simp: find_changed\<close>)

lemma job_update_frame:
  assumes "jobs_inv (db_jobs d)" and "update_job guard change k d = Inr (d', res)"
  shows "db_users d' = db_users d \<and> db_uploads d' = db_uploads d"
  using assms by (cases rule: job_update_cases) simp_all

lemma job_update_no_integrity_error:
  assumes "jobs_inv (db_jobs d)"
    and "\<And>j. lifecycle j \<Longrightarrow> guard j \<Longrightarrow> job_check (change j)"
  shows "\<exists>d' res. update_job guard change k d = Inr (d', res)"
proof (cases "find_row job_id k (db_jobs d)")
  case None
  then show ?thesis
    by (simp add: update_job_def update_eq [OF jobs_inv_distinct [OF assms(1)]])
next
  case (Some j)
  with assms have "guard j \<Longrightarrow> job_check (change j)"
    by (metis find_row_Some jobs_inv_lifecycle)
  with Some show ?thesis
    by (simp add: update_job_def update_eq [OF jobs_inv_distinct [OF assms(1)]])
qed

end

locale job_claim = job_update guard change + claim job_id job_check guard change
  for guard :: "job \<Rightarrow> bool" and change :: "job \<Rightarrow> job"
begin

lemma job_claimed_once:
  assumes "jobs_inv (db_jobs d)" and "update_job guard change k d = Inr (d', Some j)"
  shows "update_job guard change k d' = Inr (d', None)"
proof -
  from assms(2) obtain js where
    u: "update_row job_id job_check guard change k (db_jobs d) = Inr (js, Some j)" and
    d': "d' = d\<lparr>db_jobs := js\<rparr>"
    by (auto simp: update_job_def split: sum.splits)
  from claimed_once [OF jobs_inv_distinct [OF assms(1)] u] d' show ?thesis
    by (simp add: update_job_def)
qed

end

section \<open>Every update keeps to it\<close>

lemmas update_simps = transition_values_def no_values_def retry_values_def stale_values_def
  derived_hls_status_def lifecycle_def evolves_def identity_of_def

interpretation processing: job_claim "\<lambda>j. job_status j = Queued"
    "transition_values now Processing no_values" for now
  by unfold_locales (auto simp: update_simps)

interpretation finished: job_claim "\<lambda>j. job_status j = Processing" "transition_values now Done v" for now v
  by unfold_locales (auto simp: update_simps)

interpretation interrupted: job_claim "\<lambda>j. job_status j = Processing"
    "transition_values now Queued no_values" for now
  by unfold_locales (auto simp: update_simps)

interpretation failed: job_claim "\<lambda>j. job_status j = Processing"
    "transition_values now Failed (no_values\<lparr>v_error := e\<rparr>)" for now e
  by unfold_locales (auto simp: update_simps)

interpretation stale: job_claim "\<lambda>j. job_status j = Processing" "stale_values now" for now
  by unfold_locales (auto simp: update_simps)

interpretation retry: job_claim "retry_guard own" "retry_values now" for own now
  by unfold_locales (auto simp: update_simps retry_guard_def)

interpretation trash: job_claim "trash_guard own" "\<lambda>j. j\<lparr>job_deleted_at := Some now\<rparr>" for own now
  by unfold_locales (auto simp: update_simps trash_guard_def job_check_defs)

interpretation restore: job_claim "restore_guard own" "\<lambda>j. j\<lparr>job_deleted_at := None\<rparr>" for own
  by unfold_locales (auto simp: update_simps restore_guard_def job_check_defs)

interpretation ladder: job_update waits_for_ladder
    "\<lambda>j. j\<lparr>job_hls_status := st, job_hls_key := key, job_updated_at := now\<rparr>" for st key now
  by unfold_locales (auto simp: update_simps waits_for_ladder_def)

interpretation ladder_ready: job_claim waits_for_ladder
    "\<lambda>j. j\<lparr>job_hls_status := HlsReady, job_hls_key := Some key, job_updated_at := now\<rparr>" for key now
  by unfold_locales (auto simp: waits_for_ladder_def)

interpretation ladder_unavailable: job_claim waits_for_ladder
    "\<lambda>j. j\<lparr>job_hls_status := HlsUnavailable, job_hls_key := None, job_updated_at := now\<rparr>" for now
  by unfold_locales (auto simp: waits_for_ladder_def)

interpretation preview: job_update has_ladder
    "\<lambda>j. j\<lparr>job_preview_key := Some key, job_updated_at := now\<rparr>" for key now
  by unfold_locales (auto simp: update_simps has_ladder_def)

lemma insert_job_inv:
  assumes "jobs_inv (db_jobs d)" and "insert_job (new_job now k own name src ops fps) d = Inr (d', j)"
  shows "jobs_inv (db_jobs d') \<and> (\<forall>i r. find_row job_id i (db_jobs d) = Some r \<longrightarrow>
     find_row job_id i (db_jobs d') = Some r)"
proof -
  let ?n = "new_job now k own name src ops fps"
  from assms(2) have ok: "job_check ?n" "job_id ?n \<notin> job_id ` set (db_jobs d)"
    and js: "db_jobs d' = db_jobs d @ [?n]"
    by (auto simp: insert_job_def insert_row_def split: if_splits)
  from ok(1) have "lifecycle ?n" by (simp add: lifecycle_def new_job_def)
  with assms(1) ok(2) have "jobs_inv (db_jobs d')"
    by (auto simp: jobs_inv_def table_ok_def js)
  then show ?thesis by (simp add: js find_row_append)
qed

lemma delete_job_inv:
  assumes "jobs_inv (db_jobs d)"
  shows "jobs_inv (db_jobs (fst (delete_job k own d)))"
  using assms delete_rows_ok by (simp add: delete_job_def jobs_inv_def Let_def)

lemma delete_job_others:
  assumes "jobs_inv (db_jobs d)" and "find_row job_id i (db_jobs d) = Some j"
  shows "find_row job_id i (db_jobs (fst (delete_job k own d))) \<in> {None, Some j}"
proof -
  let ?js = "db_jobs (fst (delete_job k own d))"
  have sub: "set ?js \<subseteq> set (db_jobs d)" by (auto simp: delete_job_def)
  show ?thesis
  proof (cases "find_row job_id i ?js")
    case (Some r)
    then have r: "r \<in> set ?js" "job_id r = i" by (auto dest: find_row_Some)
    with sub assms have "r = j" by (metis find_row_iff jobs_inv_distinct option.inject subsetD)
    with Some show ?thesis by simp
  qed simp
qed

section \<open>Runs of the table\<close>

text \<open>One committed transaction on the jobs, by whichever process: the API, a worker, the reaper.\<close>

inductive job_step :: "db \<Rightarrow> db \<Rightarrow> bool" where
  create: "create_job now own k name src fps d = Inr (d', j) \<Longrightarrow> job_step d d'"
| create_edit: "create_edit_job now own k name src ops fps d = Inr (d', j) \<Longrightarrow> job_step d d'"
| processing: "mark_processing now k d = Inr (d', j) \<Longrightarrow> job_step d d'"
| finished: "mark_done now k out v d = Inr (d', j) \<Longrightarrow> job_step d d'"
| interrupted: "mark_interrupted now k d = Inr (d', j) \<Longrightarrow> job_step d d'"
| failed: "mark_failed now k err d = Inr (d', j) \<Longrightarrow> job_step d d'"
| stale: "mark_stale_failed now k d = Inr (d', r) \<Longrightarrow> job_step d d'"
| retry: "prepare_retry now k own d = Inr (d', j) \<Longrightarrow> job_step d d'"
| ladder_ready: "mark_ladder_ready now k key d = Inr (d', r) \<Longrightarrow> job_step d d'"
| ladder_unavailable: "mark_ladder_unavailable now k d = Inr (d', r) \<Longrightarrow> job_step d d'"
| preview: "mark_preview_ready now k key d = Inr (d', r) \<Longrightarrow> job_step d d'"
| trash: "trash_job now k own d = Inr (d', r) \<Longrightarrow> job_step d d'"
| restore: "restore_job k own d = Inr (d', r) \<Longrightarrow> job_step d d'"
| delete: "delete_job k own d = (d', r) \<Longrightarrow> job_step d d'"

lemma transition_update:
  "transition now k e n v d = Inr (d', j) \<Longrightarrow>
     update_job (\<lambda>j. job_status j = e) (transition_values now n v) k d = Inr (d', Some j)"
  by (auto simp: transition_def split: sum.splits option.splits prod.splits)

lemma retry_update:
  "prepare_retry now k own d = Inr (d', j) \<Longrightarrow>
     update_job (retry_guard own) (retry_values now) k d = Inr (d', Some j)"
  by (auto simp: prepare_retry_def split: sum.splits option.splits prod.splits)

text \<open>Every step is one of the updates above, an insert or a delete.\<close>

lemma job_step_cases:
  assumes "job_step d d'"
  obtains (insert) now own k name src ops fps j where
      "insert_job (new_job now k own name src ops fps) d = Inr (d', j)"
    | (update) guard change k r where "job_update guard change" "update_job guard change k d = Inr (d', r)"
    | (delete) k own r where "delete_job k own d = (d', r)"
  using assms
proof cases
  case (create now own k name src fps j)
  then show thesis by (auto simp: create_job_def intro: insert)
next
  case (create_edit now own k name src ops fps j)
  then show thesis by (auto simp: create_edit_job_def split: if_splits intro: insert)
next
  case (processing now k j)
  then show thesis
    unfolding mark_processing_def by (blast dest: transition_update intro: update processing.job_update_axioms)
next
  case (finished now k out v j)
  then show thesis
    unfolding mark_done_def
    by (auto split: if_splits dest!: transition_update intro: update finished.job_update_axioms)
next
  case (interrupted now k j)
  then show thesis
    unfolding mark_interrupted_def
    by (blast dest: transition_update intro: update interrupted.job_update_axioms)
next
  case (failed now k err j)
  then show thesis
    unfolding mark_failed_def
    by (auto split: if_splits dest!: transition_update intro: update failed.job_update_axioms)
next
  case (stale now k r)
  then show thesis
    unfolding mark_stale_failed_def by (blast intro: update stale.job_update_axioms)
next
  case (retry now k own j)
  then show thesis by (blast dest: retry_update intro: update retry.job_update_axioms)
next
  case (ladder_ready now k key r)
  then show thesis
    unfolding mark_ladder_ready_def settle_ladder_def
    by (auto split: if_splits intro: update ladder.job_update_axioms)
next
  case (ladder_unavailable now k r)
  then show thesis
    unfolding mark_ladder_unavailable_def settle_ladder_def
    by (blast intro: update ladder.job_update_axioms)
next
  case (preview now k key r)
  then show thesis
    unfolding mark_preview_ready_def by (auto split: if_splits intro: update preview.job_update_axioms)
next
  case (trash now k own r)
  then show thesis unfolding trash_job_def by (blast intro: update trash.job_update_axioms)
next
  case (restore k own r)
  then show thesis unfolding restore_job_def by (blast intro: update restore.job_update_axioms)
next
  case (delete k own r)
  then show thesis by (rule that(3))
qed

lemma job_step_inv: "job_step d d' \<Longrightarrow> jobs_inv (db_jobs d) \<Longrightarrow> jobs_inv (db_jobs d')"
proof (erule job_step_cases)
  fix k own r
  assume "jobs_inv (db_jobs d)" "delete_job k own d = (d', r)"
  with delete_job_inv [of d k own] show "jobs_inv (db_jobs d')" by simp
qed (auto dest: insert_job_inv job_update.job_update_inv)

lemma job_step_evolves:
  assumes "job_step d d'" and "jobs_inv (db_jobs d)" and "find_row job_id i (db_jobs d) = Some j"
    and "find_row job_id i (db_jobs d') = Some j'"
  shows "evolves j j'"
  using assms(1)
proof (cases rule: job_step_cases)
  case (insert now own k name src ops fps n)
  with insert_job_inv [OF assms(2) insert] assms(3,4) show ?thesis by simp
next
  case (update guard change k r)
  with job_update.job_update_evolves [OF update(1) assms(2) update(2) assms(3)] assms(4)
  show ?thesis by auto
next
  case (delete k own r)
  with delete_job_others [OF assms(2,3), of k own] assms(4) show ?thesis by simp
qed

lemma job_steps_inv: "job_step\<^sup>*\<^sup>* d d' \<Longrightarrow> jobs_inv (db_jobs d) \<Longrightarrow> jobs_inv (db_jobs d')"
  by (induction rule: rtranclp_induct) (auto dest: job_step_inv)

section \<open>No update can break a constraint\<close>

lemma strip_first: "strip s \<noteq> [] \<Longrightarrow> \<not> py_space (hd (strip s))"
proof -
  define t where "t = lstrip s"
  define u where "u = rev (takeWhile py_space (rev t))"
  have t: "t = rstrip t @ u"
    using takeWhile_dropWhile_id [of py_space "rev t"]
    unfolding rstrip_def u_def by (metis rev_append rev_rev_ident)
  assume ne: "strip s \<noteq> []"
  then have "rstrip t \<noteq> []" by (simp add: strip_def t_def)
  with t have "hd (rstrip t) = hd t" and "t \<noteq> []" by (metis hd_append2, auto)
  moreover have "t \<noteq> [] \<Longrightarrow> \<not> py_space (hd t)"
    unfolding t_def lstrip_def by (rule hd_dropWhile)
  ultimately show ?thesis by (simp add: strip_def t_def)
qed

lemma btrim_strip:
  assumes "strip s \<noteq> []"
  shows "btrim (strip s) \<noteq> []"
proof -
  obtain c cs where t: "strip s = c # cs" using assms by (cases "strip s") auto
  with strip_first [OF assms] have c: "c \<noteq> CHR '' ''" by (auto simp: py_space_def)
  then have "dropWhile ((=) CHR '' '') (strip s) = c # cs" by (simp add: t)
  moreover have "dropWhile ((=) CHR '' '') (rev (c # cs)) \<noteq> []"
    using c by (simp only: dropWhile_eq_Nil_conv) simp
  ultimately show ?thesis by (simp add: btrim_def strip_chars_def)
qed

lemma get_job_any: "get_job d k None t = find_row job_id k (db_jobs d)"
  by (simp add: get_job_def split: option.split)

text \<open>What a transition answers: it depends on the status of the row alone.\<close>

lemma transition_outcome:
  assumes upd: "job_update (\<lambda>j. job_status j = e) (transition_values now n v)"
    and inv: "jobs_inv (db_jobs d)"
    and ok: "\<And>j. lifecycle j \<Longrightarrow> job_status j = e \<Longrightarrow> job_check (transition_values now n v j)"
  obtains (gone) "find_row job_id k (db_jobs d) = None" and "transition now k e n v d = Inl JobNotFound"
  | (refused) j t where "find_row job_id k (db_jobs d) = Some j" and "job_status j \<noteq> e"
      and "transition now k e n v d = Inl (InvalidJobTransition t)"
  | (moved) j d' where "find_row job_id k (db_jobs d) = Some j" and "job_status j = e"
      and "transition now k e n v d = Inr (d', transition_values now n v j)"
      and "find_row job_id k (db_jobs d') = Some (transition_values now n v j)"
proof -
  obtain d' res where u: "update_job (\<lambda>j. job_status j = e) (transition_values now n v) k d = Inr (d', res)"
    using job_update.job_update_no_integrity_error [OF upd inv ok] by blast
  show thesis
  proof (rule job_update.job_update_cases [OF upd inv u], goal_cases none hit)
    case none
    show thesis
    proof (cases "find_row job_id k (db_jobs d)")
      case None
      with u none show thesis by (intro gone) (simp_all add: transition_def get_job_any)
    next
      case (Some j)
      with none(3) have "job_status j \<noteq> e" by blast
      with Some u none show thesis by (intro refused) (simp_all add: transition_def get_job_any)
    qed
  next
    case (hit j)
    show thesis
    proof (rule moved [OF hit(1,2)])
      show "transition now k e n v d = Inr (d', transition_values now n v j)"
        using u hit(4) by (simp add: transition_def)
      show "find_row job_id k (db_jobs d') = Some (transition_values now n v j)"
        using hit(1,2) by (simp add: hit(5) keyed_update.find_changed [OF job_update.axioms(1) [OF upd]])
    qed
  qed
qed

lemma stale_text: "btrim ''worker stopped responding; job was not completed'' \<noteq> []"
  by code_simp

lemmas row_simps = lifecycle_def job_check_defs update_simps

lemma processing_check: "lifecycle j \<Longrightarrow> job_status j = Queued \<Longrightarrow> job_check (transition_values now Processing no_values j)"
  by (auto simp: row_simps)

lemma interrupted_check: "lifecycle j \<Longrightarrow> job_status j = Processing \<Longrightarrow> job_check (transition_values now Queued no_values j)"
  by (auto simp: row_simps)

lemma failed_check:
  "strip err \<noteq> [] \<Longrightarrow> lifecycle j \<Longrightarrow> job_status j = Processing \<Longrightarrow>
     job_check (transition_values now Failed (no_values\<lparr>v_error := Some (strip err)\<rparr>) j)"
  using btrim_strip [of err] by (auto simp: row_simps)

lemma stale_check: "lifecycle j \<Longrightarrow> job_status j = Processing \<Longrightarrow> job_check (stale_values now j)"
  using stale_text by (auto simp: row_simps)

lemma retry_check: "lifecycle j \<Longrightarrow> retry_guard own j \<Longrightarrow> job_check (retry_values now j)"
  by (auto simp: row_simps retry_guard_def)

lemma ladder_check:
  "lifecycle j \<Longrightarrow> waits_for_ladder j \<Longrightarrow> (st = HlsReady) = (key \<noteq> None) \<Longrightarrow>
     job_check (j\<lparr>job_hls_status := st, job_hls_key := key, job_updated_at := now\<rparr>)"
  by (auto simp: row_simps waits_for_ladder_def split: option.splits)

lemma preview_check:
  "lifecycle j \<Longrightarrow> has_ladder j \<Longrightarrow> job_check (j\<lparr>job_preview_key := Some key, job_updated_at := now\<rparr>)"
  by (auto simp: row_simps has_ladder_def split: option.splits)

lemmas mark_processing_outcome =
  transition_outcome [OF processing.job_update_axioms [where now = now] _ processing_check, where k = k, folded mark_processing_def] for now k
lemmas mark_interrupted_outcome =
  transition_outcome [OF interrupted.job_update_axioms [where now = now] _ interrupted_check, where k = k, folded mark_interrupted_def] for now k
lemmas mark_failed_outcome =
  transition_outcome [OF failed.job_update_axioms [where now = now] _ failed_check, where k = k] for now k

lemma settle_ladder_ok:
  assumes "jobs_inv (db_jobs d)" and "(st = HlsReady) = (key \<noteq> None)"
  shows "\<exists>d' r. settle_ladder now k st key d = Inr (d', r)"
  unfolding settle_ladder_def
  by (rule job_update.job_update_no_integrity_error [OF ladder.job_update_axioms assms(1)])
    (rule ladder_check [OF _ _ assms(2)])

lemma preview_ok:
  assumes "jobs_inv (db_jobs d)"
  shows "\<exists>d' r. update_job has_ladder (\<lambda>j. j\<lparr>job_preview_key := Some key, job_updated_at := now\<rparr>) k d = Inr (d', r)"
  by (rule job_update.job_update_no_integrity_error [OF preview.job_update_axioms assms]) (rule preview_check)

lemma mark_stale_failed_ok:
  assumes "jobs_inv (db_jobs d)"
  shows "\<exists>d' r. mark_stale_failed now k d = Inr (d', r)"
  unfolding mark_stale_failed_def
  by (rule job_update.job_update_no_integrity_error [OF stale.job_update_axioms assms]) (rule stale_check)

lemma prepare_retry_ok:
  assumes "jobs_inv (db_jobs d)"
  shows "\<exists>d' r. update_job (retry_guard own) (retry_values now) k d = Inr (d', r)"
  by (rule job_update.job_update_no_integrity_error [OF retry.job_update_axioms assms]) (rule retry_check)



section \<open>Claims\<close>

context job_update
begin

lemma job_update_find:
  assumes "jobs_inv (db_jobs d)" and "update_job guard change k d = Inr (d', r)"
  shows "find_row job_id i (db_jobs d') =
    (case find_row job_id i (db_jobs d) of
       None \<Rightarrow> None
     | Some j \<Rightarrow> Some (if i = k \<and> guard j then change j else j))"
  using assms
  by (cases rule: job_update_cases) (auto simp: find_changed split: option.split)

end

text \<open>The transactions that put a job back in the queue: an interrupted worker's, an owner's retry, and
  the insert of a new job under the same identifier.\<close>

definition requeues :: "uuid \<Rightarrow> db \<Rightarrow> db \<Rightarrow> bool" where
  "requeues k d d' \<longleftrightarrow>
     (\<exists>now j. mark_interrupted now k d = Inr (d', j))
     \<or> (\<exists>now own j. prepare_retry now k own d = Inr (d', j))
     \<or> (\<exists>now own name src ops fps j. insert_job (new_job now k own name src ops fps) d = Inr (d', j))"

definition in_queue :: "uuid \<Rightarrow> db \<Rightarrow> bool" where
  "in_queue k d \<longleftrightarrow> (\<exists>j. find_row job_id k (db_jobs d) = Some j \<and> job_status j = Queued)"

lemma insert_not_queued:
  assumes "insert_job (new_job now i own name src ops fps) d = Inr (d', j)" and "i \<noteq> k"
    and "\<not> in_queue k d"
  shows "\<not> in_queue k d'"
proof -
  from assms(1) have "db_jobs d' = db_jobs d @ [new_job now i own name src ops fps]"
    by (auto simp: insert_job_def insert_row_def split: if_splits)
  moreover have "find_row job_id k [new_job now i own name src ops fps] = None"
    using assms(2) by (simp add: find_row_def new_job_def)
  ultimately show ?thesis
    using assms(3) by (auto simp: in_queue_def find_row_append split: option.splits)
qed

lemma update_not_queued:
  assumes "job_update guard change" and "jobs_inv (db_jobs d)"
    and "update_job guard change i d = Inr (d', r)" and "\<not> in_queue k d"
    and "\<And>j. i = k \<Longrightarrow> guard j \<Longrightarrow> job_status j \<noteq> Queued \<Longrightarrow> job_status (change j) \<noteq> Queued"
  shows "\<not> in_queue k d'"
  using assms(4,5)
  by (auto simp: in_queue_def job_update.job_update_find [OF assms(1-3)] split: option.splits)

lemma step_not_queued:
  assumes "job_step d d'" and "\<not> requeues k d d'" and inv: "jobs_inv (db_jobs d)" and q: "\<not> in_queue k d"
  shows "\<not> in_queue k d'"
  using assms(1)
proof cases
  case (create now own i name src fps j)
  then have ins: "insert_job (new_job now i own name src None fps) d = Inr (d', j)"
    by (simp add: create_job_def)
  with assms(2) have "i \<noteq> k" by (auto simp: requeues_def)
  with insert_not_queued [OF ins] q show ?thesis by blast
next
  case (create_edit now own i name src ops fps j)
  then have ins: "insert_job (new_job now i own name src (Some ops) fps) d = Inr (d', j)"
    by (auto simp: create_edit_job_def split: if_splits)
  with assms(2) have "i \<noteq> k" by (auto simp: requeues_def)
  with insert_not_queued [OF ins] q show ?thesis by blast
next
  case (processing now i j)
  then show ?thesis
    unfolding mark_processing_def
    by (intro update_not_queued [OF processing.job_update_axioms inv transition_update q])
      (auto simp: transition_values_def)
next
  case (finished now i out v j)
  then have "transition now i Processing Done (v\<lparr>v_output_key := Some out, v_error := None\<rparr>) d = Inr (d', j)"
    by (auto simp: mark_done_def split: if_splits)
  then show ?thesis
    by (intro update_not_queued [OF finished.job_update_axioms inv transition_update q])
      (auto simp: transition_values_def)
next
  case (interrupted now i j)
  with assms(2) have "i \<noteq> k" by (auto simp: requeues_def)
  with interrupted show ?thesis
    unfolding mark_interrupted_def
    by (intro update_not_queued [OF interrupted.job_update_axioms inv transition_update q]) auto
next
  case (failed now i err j)
  then have "transition now i Processing Failed (no_values\<lparr>v_error := Some (strip err)\<rparr>) d = Inr (d', j)"
    by (auto simp: mark_failed_def split: if_splits)
  then show ?thesis
    by (intro update_not_queued [OF failed.job_update_axioms inv transition_update q])
      (auto simp: transition_values_def)
next
  case (stale now i r)
  then show ?thesis
    unfolding mark_stale_failed_def
    by (intro update_not_queued [OF stale.job_update_axioms inv _ q]) (auto simp: stale_values_def)
next
  case (retry now i own j)
  with assms(2) have "i \<noteq> k" by (auto simp: requeues_def)
  with retry_update [OF retry] show ?thesis
    by (intro update_not_queued [OF retry.job_update_axioms inv _ q]) auto
next
  case (ladder_ready now i key r)
  then have "update_job waits_for_ladder
      (\<lambda>j. j\<lparr>job_hls_status := HlsReady, job_hls_key := Some key, job_updated_at := now\<rparr>) i d = Inr (d', r)"
    by (auto simp: mark_ladder_ready_def settle_ladder_def split: if_splits)
  from update_not_queued [OF ladder.job_update_axioms inv this q] show ?thesis by auto
next
  case (ladder_unavailable now i r)
  then show ?thesis
    unfolding mark_ladder_unavailable_def settle_ladder_def
    by (intro update_not_queued [OF ladder.job_update_axioms inv _ q]) auto
next
  case (preview now i key r)
  then have "update_job has_ladder (\<lambda>j. j\<lparr>job_preview_key := Some key, job_updated_at := now\<rparr>) i d = Inr (d', r)"
    by (auto simp: mark_preview_ready_def split: if_splits)
  from update_not_queued [OF preview.job_update_axioms inv this q] show ?thesis by auto
next
  case (trash now i own r)
  then show ?thesis
    unfolding trash_job_def by (intro update_not_queued [OF trash.job_update_axioms inv _ q]) auto
next
  case (restore i own r)
  then show ?thesis
    unfolding restore_job_def by (intro update_not_queued [OF restore.job_update_axioms inv _ q]) auto
next
  case (delete i own r)
  then have d': "db_jobs d' = filter (\<lambda>j. \<not> (job_id j = i \<and> (own = None \<or> own = Some (job_owner_id j)))) (db_jobs d)"
    by (auto simp: delete_job_def Let_def)
  show ?thesis
  proof
    assume "in_queue k d'"
    then obtain j where "find_row job_id k (db_jobs d') = Some j" "job_status j = Queued"
      by (auto simp: in_queue_def)
    moreover from find_row_Some [OF this(1)] d' have "j \<in> set (db_jobs d)" "job_id j = k" by auto
    ultimately have "in_queue k d"
      using find_row_mem [OF jobs_inv_distinct [OF inv]] by (auto simp: in_queue_def)
    with q show False ..
  qed
qed

text \<open>C3. Exactly one worker runs a job: once a claim has succeeded, no later claim of that job
  succeeds, whatever other transactions are committed in between, until one of them puts the job
  back in the queue.\<close>

theorem claim_is_exclusive:
  assumes inv: "jobs_inv (db_jobs d)" and claim: "mark_processing now k d = Inr (d1, j)"
    and run: "(\<lambda>x y. job_step x y \<and> \<not> requeues k x y)\<^sup>*\<^sup>* d1 d2"
  shows "\<exists>e. mark_processing now' k d2 = Inl e"
proof -
  have inv1: "jobs_inv (db_jobs d1)"
    using inv claim by (blast intro: job_step_inv job_step.processing)
  have "find_row job_id k (db_jobs d1) = Some (transition_values now Processing no_values j0)"
    if "find_row job_id k (db_jobs d) = Some j0" "job_status j0 = Queued" for j0
    using processing.job_update_find [OF inv transition_update [OF claim [unfolded mark_processing_def]], of k] that
    by simp
  moreover have "\<exists>j0. find_row job_id k (db_jobs d) = Some j0 \<and> job_status j0 = Queued"
    using transition_update [OF claim [unfolded mark_processing_def]]
    by (rule processing.job_update_cases [OF inv]) auto
  ultimately have "\<not> in_queue k d1"
    by (auto simp: in_queue_def transition_values_def)
  with inv1 have base: "jobs_inv (db_jobs d1) \<and> \<not> in_queue k d1" by blast
  from run have "jobs_inv (db_jobs d2) \<and> \<not> in_queue k d2"
    by (induction rule: rtranclp_induct) (use base in \<open>auto dest: step_not_queued job_step_inv\<close>)
  then have inv2: "jobs_inv (db_jobs d2)" and q2: "\<not> in_queue k d2" by blast+
  show ?thesis
  proof (cases "mark_processing now' k d2")
    case (Inr p)
    then obtain d3 j3 where "mark_processing now' k d2 = Inr (d3, j3)" by (cases p) simp
    from transition_update [OF this [unfolded mark_processing_def]] q2 have False
      by (rule_tac processing.job_update_cases [OF inv2]) (auto simp: in_queue_def)
    then show ?thesis ..
  qed simp
qed

theorem claim_is_exclusive_witness:
  "\<exists>e. mark_processing 6 7
     \<lparr>db_users = [], db_jobs = [transition_values 5 Processing no_values (new_job 3 7 1 ''f'' ''k'' None 30)],
      db_uploads = []\<rparr> = Inl e"
proof (rule claim_is_exclusive [OF _ _ rtranclp.rtrancl_refl])
  show "jobs_inv (db_jobs \<lparr>db_users = [], db_jobs = [new_job 3 7 1 ''f'' ''k'' None 30], db_uploads = []\<rparr>)"
    by code_simp
  show "mark_processing 5 7 \<lparr>db_users = [], db_jobs = [new_job 3 7 1 ''f'' ''k'' None 30], db_uploads = []\<rparr>
    = Inr (\<lparr>db_users = [], db_jobs = [transition_values 5 Processing no_values (new_job 3 7 1 ''f'' ''k'' None 30)],
        db_uploads = []\<rparr>, transition_values 5 Processing no_values (new_job 3 7 1 ''f'' ''k'' None 30))"
    by code_simp
qed



end
