(* ===== verification/Job_Queries.thy ===== *)
theory Job_Queries
  imports Job_Store
begin

text \<open>
  What the reads and the owner-scoped writes of \<open>app/repositories/jobs.py\<close> promise the API:
  another owner's job answers exactly like a job that does not exist, pages neither skip nor repeat
  a job, a restore undoes a trash, and an edit is only ever attributed to its own owner's upload.
\<close>

section \<open>Owners\<close>

lemma update_job_unowned:
  assumes "job_update guard change" and "jobs_inv (db_jobs d)"
    and "\<And>j. find_row job_id k (db_jobs d) = Some j \<Longrightarrow> \<not> guard j"
  shows "update_job guard change k d = Inr (d, None)"
  using assms(3) keyed_update.update_eq
    [OF job_update.axioms(1) [OF assms(1)] jobs_inv_distinct [OF assms(2)], where k = k]
  by (auto simp: update_job_def split: option.splits)

text \<open>To every owner-scoped read and write, a job of another owner is a job that does not exist:
  the answers are the same, and nothing changes.\<close>

theorem other_owner_sees_nothing:
  assumes inv: "jobs_inv (db_jobs d)"
    and other: "\<forall>j. find_row job_id k (db_jobs d) = Some j \<longrightarrow> job_owner_id j \<noteq> own"
  shows "get_job d k (Some own) t = None
    \<and> k \<notin> job_id ` set (list_jobs d (Some own) n off)
    \<and> k \<notin> job_id ` set (list_trash d own n off)
    \<and> trash_job now k own d = Inr (d, None)
    \<and> restore_job k own d = Inr (d, None)
    \<and> prepare_retry now k own d = Inl JobNotFound
    \<and> delete_job k (Some own) d = (d, None)"
proof -
  have mem: "job_owner_id j \<noteq> own" if "j \<in> set (db_jobs d)" "job_id j = k" for j
    using other that find_row_mem [OF jobs_inv_distinct [OF inv]] by blast
  have get: "get_job d k (Some own) u = None" for u
    using other by (auto simp: get_job_def split: option.split)
  have "update_job (trash_guard own) (\<lambda>j. j\<lparr>job_deleted_at := Some now\<rparr>) k d = Inr (d, None)"
    by (rule update_job_unowned [OF trash.job_update_axioms inv]) (use other in \<open>simp add: trash_guard_def\<close>)
  moreover have "update_job (restore_guard own) (\<lambda>j. j\<lparr>job_deleted_at := None\<rparr>) k d = Inr (d, None)"
    by (rule update_job_unowned [OF restore.job_update_axioms inv]) (use other in \<open>simp add: restore_guard_def\<close>)
  moreover have "update_job (retry_guard own) (retry_values now) k d = Inr (d, None)"
    by (rule update_job_unowned [OF retry.job_update_axioms inv]) (use other in \<open>simp add: retry_guard_def\<close>)
  moreover have "find (\<lambda>j. job_id j = k \<and> own = job_owner_id j) (db_jobs d) = None"
    using mem by (auto simp: find_None_iff)
  moreover have "filter (\<lambda>j. job_id j = k \<longrightarrow> own \<noteq> job_owner_id j) (db_jobs d) = db_jobs d"
    using mem by (auto simp: filter_id_conv)
  moreover have "k \<notin> job_id ` set (list_jobs d (Some own) n off)"
    by (auto simp: list_jobs_def limit_offset_def dest!: in_set_takeD in_set_dropD dest: mem)
  moreover have "k \<notin> job_id ` set (list_trash d own n off)"
    by (auto simp: list_trash_def limit_offset_def dest!: in_set_takeD in_set_dropD dest: mem)
  ultimately show ?thesis
    by (simp add: get trash_job_def restore_job_def prepare_retry_def delete_job_def Let_def)
qed

theorem other_owner_sees_nothing_witness:
  "prepare_retry 9 7 2 \<lparr>db_users = [], db_jobs = [new_job 3 7 1 ''f'' ''k'' None 30], db_uploads = []\<rparr>
     = Inl JobNotFound"
proof -
  let ?d = "\<lparr>db_users = [], db_jobs = [new_job 3 7 1 ''f'' ''k'' None 30], db_uploads = []\<rparr>"
  have "jobs_inv (db_jobs ?d)" by code_simp
  moreover have "\<forall>j. find_row job_id 7 (db_jobs ?d) = Some j \<longrightarrow> job_owner_id j \<noteq> 2"
    by (simp add: find_row_def new_job_def)
  ultimately show ?thesis by (blast dest: other_owner_sees_nothing)
qed

section \<open>Pages\<close>

definition listed :: "db \<Rightarrow> uuid option \<Rightarrow> job list" where
  \<comment> \<open>the whole ordered library\<close>
  "listed d own =
     sort_key (\<lambda>j. Page_Key (job_created_at j) (job_id j))
       (filter (\<lambda>j. job_deleted_at j = None \<and> (own = None \<or> own = Some (job_owner_id j))) (db_jobs d))"

lemma concat_pages:
  "concat (map (\<lambda>i. limit_offset n (i * n) xs) [0..<m]) = take (m * n) xs"
proof (induction m)
  case (Suc m)
  have "take (m * n) xs @ take n (drop (m * n) xs) = take (m * n + n) xs"
    by (simp add: take_add)
  with Suc show ?case by (simp add: limit_offset_def add.commute)
qed simp

text \<open>Consecutive pages of a library partition it: put together they are the newest jobs first,
  ties broken by identifier, with no job repeated and none left out; the library holds exactly the
  owner's jobs that are not in the trash.\<close>

theorem list_jobs_pages:
  assumes "jobs_inv (db_jobs d)"
  shows "concat (map (\<lambda>i. list_jobs d own n (i * n)) [0..<m]) = take (m * n) (listed d own)
    \<and> distinct (listed d own)
    \<and> sorted_wrt (\<lambda>a b. job_created_at b < job_created_at a
          \<or> (job_created_at a = job_created_at b \<and> job_id a < job_id b)) (listed d own)
    \<and> set (listed d own) = {j \<in> set (db_jobs d). job_deleted_at j = None
          \<and> (own = None \<or> own = Some (job_owner_id j))}"
proof -
  let ?key = "\<lambda>j. Page_Key (job_created_at j) (job_id j)"
  have ids: "distinct (map job_id (filter P (db_jobs d)))" for P
    using jobs_inv_distinct [OF assms] by (rule distinct_map_filter)
  then have dist: "distinct (listed d own)"
    by (auto simp: listed_def distinct_map)
  have inj: "inj_on job_id (set (listed d own))"
    using ids by (auto simp: listed_def distinct_map)
  have "sorted_wrt (\<lambda>a b. ?key a \<le> ?key b) (listed d own)"
    unfolding listed_def using sorted_sort_key [of ?key] by (simp only: sorted_map)
  moreover have "sorted_wrt (\<noteq>) (listed d own)"
    using dist by (simp add: distinct_conv_nth sorted_wrt_iff_nth_less)
  ultimately have "sorted_wrt (\<lambda>a b. ?key a \<le> ?key b \<and> a \<noteq> b) (listed d own)"
    by (simp add: sorted_wrt_iff_nth_less)
  then have "sorted_wrt (\<lambda>a b. job_created_at b < job_created_at a
        \<or> (job_created_at a = job_created_at b \<and> job_id a < job_id b)) (listed d own)"
    by (rule sorted_wrt_mono_rel [rotated])
      (use inj in \<open>auto simp: less_eq_page_key_def inj_on_def le_less\<close>)
  with dist concat_pages [of n "listed d own" m] show ?thesis
    by (auto simp: list_jobs_def listed_def)
qed

theorem list_jobs_pages_witness:
  "concat (map (\<lambda>i. list_jobs \<lparr>db_users = [], db_jobs = [new_job 3 7 1 ''f'' ''k'' None 30,
       new_job 4 8 1 ''g'' ''l'' None 30], db_uploads = []\<rparr> (Some 1) 1 (i * 1)) [0..<2])
     = [new_job 4 8 1 ''g'' ''l'' None 30, new_job 3 7 1 ''f'' ''k'' None 30]"
proof -
  let ?d = "\<lparr>db_users = [], db_jobs = [new_job 3 7 1 ''f'' ''k'' None 30,
       new_job 4 8 1 ''g'' ''l'' None 30], db_uploads = []\<rparr>"
  have "jobs_inv (db_jobs ?d)" by code_simp
  from list_jobs_pages [OF this, of "Some 1" 1 2]
  have "concat (map (\<lambda>i. list_jobs ?d (Some 1) 1 (i * 1)) [0..<2]) = take (2 * 1) (listed ?d (Some 1))"
    by blast
  also have "\<dots> = [new_job 4 8 1 ''g'' ''l'' None 30, new_job 3 7 1 ''f'' ''k'' None 30]"
    by code_simp
  finally show ?thesis .
qed

section \<open>Trash\<close>

text \<open>Moving a job to the trash hides it from its owner and from nobody else, and restoring it
  gives back exactly the database before.\<close>

theorem trash_restore_roundtrip:
  assumes inv: "jobs_inv (db_jobs d)" and trash: "trash_job now k own d = Inr (d', Some j)"
  shows "get_job d' k (Some own) False = None
    \<and> get_job d' k None False = Some j
    \<and> get_job d' k (Some own) True = Some j
    \<and> (\<exists>j0. restore_job k own d' = Inr (d, Some j0))"
proof -
  from trash obtain j0 where j0: "find_row job_id k (db_jobs d) = Some j0" "trash_guard own j0"
    and j: "j = j0\<lparr>job_deleted_at := Some now\<rparr>"
    and d': "d' = d\<lparr>db_jobs := map (\<lambda>r. if job_id r = k \<and> trash_guard own r
               then r\<lparr>job_deleted_at := Some now\<rparr> else r) (db_jobs d)\<rparr>"
    unfolding trash_job_def by (rule trash.job_update_cases [OF inv]) auto
  have row: "find_row job_id k (db_jobs d') = Some j"
    using j0 by (simp add: d' trash.find_changed j)
  have own: "job_owner_id j = own" "job_deleted_at j = Some now"
    using j0(2) by (simp_all add: j trash_guard_def)
  have inv': "jobs_inv (db_jobs d')"
    using trash.job_update_inv [OF inv trash [unfolded trash_job_def]] .
  have only: "r = j0" if "r \<in> set (db_jobs d)" "job_id r = k" for r
    using that j0(1) find_row_mem [OF jobs_inv_distinct [OF inv]] by (metis option.inject)
  have undo: "(if job_id r' = k \<and> restore_guard own r' then r'\<lparr>job_deleted_at := None\<rparr> else r') = r"
    if "r \<in> set (db_jobs d)" "r' = (if job_id r = k \<and> trash_guard own r then r\<lparr>job_deleted_at := Some now\<rparr> else r)"
    for r r'
    using that only j0(2) by (cases "job_id r = k") (auto simp: trash_guard_def restore_guard_def)
  have "job_check j0" using inv j0(1) by (metis find_row_Some jobs_inv_lifecycle lifecycle_def)
  moreover have "restore_guard own j" using own by (simp add: restore_guard_def)
  moreover have "j\<lparr>job_deleted_at := None\<rparr> = j0" using j0(2) by (simp add: j trash_guard_def)
  ultimately have "restore_job k own d' = Inr (d'\<lparr>db_jobs :=
      map (\<lambda>r. if job_id r = k \<and> restore_guard own r then r\<lparr>job_deleted_at := None\<rparr> else r) (db_jobs d')\<rparr>, Some j0)"
    by (simp add: restore_job_def update_job_def restore.update_eq [OF jobs_inv_distinct [OF inv']] row)
  moreover have "map (\<lambda>r. if job_id r = k \<and> restore_guard own r then r\<lparr>job_deleted_at := None\<rparr> else r) (db_jobs d')
      = db_jobs d"
    unfolding d' by (simp add: map_idI undo)
  ultimately have "restore_job k own d' = Inr (d, Some j0)" by (simp add: d')
  with row own show ?thesis by (auto simp: get_job_def)
qed

theorem trash_restore_roundtrip_witness:
  "\<exists>j0. restore_job 7 1 \<lparr>db_users = [],
      db_jobs = [(new_job 3 7 1 ''f'' ''k'' None 30)\<lparr>job_deleted_at := Some 9\<rparr>], db_uploads = []\<rparr>
    = Inr (\<lparr>db_users = [], db_jobs = [new_job 3 7 1 ''f'' ''k'' None 30], db_uploads = []\<rparr>, Some j0)"
proof -
  let ?d = "\<lparr>db_users = [], db_jobs = [new_job 3 7 1 ''f'' ''k'' None 30], db_uploads = []\<rparr>"
  let ?d' = "\<lparr>db_users = [], db_jobs = [(new_job 3 7 1 ''f'' ''k'' None 30)\<lparr>job_deleted_at := Some 9\<rparr>], db_uploads = []\<rparr>"
  have "jobs_inv (db_jobs ?d)" by code_simp
  moreover have "trash_job 9 7 1 ?d = Inr (?d', Some ((new_job 3 7 1 ''f'' ''k'' None 30)\<lparr>job_deleted_at := Some 9\<rparr>))"
    by code_simp
  ultimately show ?thesis by (blast dest: trash_restore_roundtrip)
qed

section \<open>Edit roots\<close>

lemma edit_parent_owner:
  "edit_parent rows c = Some p \<Longrightarrow> job_owner_id p = job_owner_id c \<and> job_id p \<noteq> job_id c"
  by (auto simp: edit_parent_def Let_def split: option.splits if_splits)

lemma later_wins_mem: "later_wins ps k = Some v \<Longrightarrow> (k, v) \<in> set ps"
  unfolding later_wins_def by (metis map_of_SomeD set_rev)

lemma edit_parent_mem: "edit_parent rows c = Some p \<Longrightarrow> p \<in> set rows"
  by (auto simp: edit_parent_def Let_def split: option.splits if_splits dest!: later_wins_mem)

definition owned_by :: "(uuid \<Rightarrow> uuid) \<Rightarrow> (uuid \<rightharpoonup> job) \<Rightarrow> bool" where
  "owned_by owner_of roots \<longleftrightarrow> (\<forall>k r. roots k = Some r \<longrightarrow> job_owner_id r = owner_of k)"

lemma hop_owned:
  assumes "hop rows pending roots = (still, roots')"
    and "\<forall>(k, c) \<in> set pending. job_owner_id c = owner_of k" and "owned_by owner_of roots"
  shows "owned_by owner_of roots' \<and> (\<forall>(k, c) \<in> set still. job_owner_id c = owner_of k)
    \<and> dom roots \<subseteq> dom roots'"
  using assms
proof (induction rows pending roots arbitrary: still roots' rule: hop.induct)
  case (2 rows k current pending roots)
  show ?case
  proof (cases "edit_parent rows current")
    case None
    with 2 show ?thesis by auto
  next
    case (Some p)
    obtain still1 roots1 where h: "hop rows pending (roots(k \<mapsto> p)) = (still1, roots1)" by fastforce
    have p: "job_owner_id p = owner_of k" using edit_parent_owner [OF Some] "2.prems"(2) by auto
    then have "owned_by owner_of (roots(k \<mapsto> p))"
      using "2.prems"(3) by (simp add: owned_by_def)
    moreover have "\<forall>(k, c) \<in> set pending. job_owner_id c = owner_of k" using "2.prems"(2) by simp
    ultimately have ih: "owned_by owner_of roots1 \<and> (\<forall>(k, c) \<in> set still1. job_owner_id c = owner_of k)
        \<and> dom (roots(k \<mapsto> p)) \<subseteq> dom roots1"
      by (intro "2.IH"(2) [OF Some h])
    have "roots' = roots1" and "still = (if job_operations p \<noteq> None then (k, p) # still1 else still1)"
      using "2.prems"(1) Some h by auto
    with ih p show ?thesis by auto
  qed
qed simp

lemma hops_owned:
  assumes "\<forall>(k, c) \<in> set pending. job_owner_id c = owner_of k" and "owned_by owner_of roots"
  shows "owned_by owner_of (hops n d pending roots) \<and> dom roots \<subseteq> dom (hops n d pending roots)"
  using assms
proof (induction n arbitrary: pending roots)
  case (Suc n)
  obtain still roots' where h: "hop (hop_rows (map snd pending) d) pending roots = (still, roots')"
    by fastforce
  from hop_owned [OF h Suc.prems] Suc.IH [of still roots']
  have "owned_by owner_of (hops n d still roots') \<and> dom roots \<subseteq> dom (hops n d still roots')" by blast
  with Suc.prems h show ?case by simp
qed simp

lemma hop_untouched:
  "hop rows pending roots = (still, roots') \<Longrightarrow> k \<notin> fst ` set pending \<Longrightarrow>
     roots' k = roots k \<and> k \<notin> fst ` set still"
proof (induction rows pending roots arbitrary: still roots' rule: hop.induct)
  case (2 rows k' current pending roots)
  show ?case
  proof (cases "edit_parent rows current")
    case None
    with 2 show ?thesis by auto
  next
    case (Some p)
    obtain still1 roots1 where h: "hop rows pending (roots(k' \<mapsto> p)) = (still1, roots1)" by fastforce
    from "2.IH"(2) [OF Some h] "2.prems" Some h show ?thesis by (auto split: if_splits)
  qed
qed simp

lemma hops_untouched: "k \<notin> fst ` set pending \<Longrightarrow> hops n d pending roots k = roots k"
proof (induction n arbitrary: pending roots)
  case (Suc n)
  obtain still roots' where h: "hop (hop_rows (map snd pending) d) pending roots = (still, roots')"
    by fastforce
  from hop_untouched [OF h Suc.prems] Suc.IH [of still roots'] h show ?case by simp
qed simp

text \<open>An edit is only ever attributed to a video of its own owner: every listed job has a root,
  each root has the job's owner, and an upload is its own root.\<close>

theorem edit_roots_same_owner:
  assumes "distinct (map job_id js)" and "j \<in> set js"
  shows "(\<exists>r. resolve_edit_roots d js (job_id j) = Some r \<and> job_owner_id r = job_owner_id j)
    \<and> (job_operations j = None \<longrightarrow> resolve_edit_roots d js (job_id j) = Some j)"
proof -
  let ?pairs = "map (\<lambda>j. (job_id j, j)) js"
  let ?edits = "map (\<lambda>j. (job_id j, j)) (filter (\<lambda>j. job_operations j \<noteq> None) js)"
  define owner_of where "owner_of k = job_owner_id (the (find_row job_id k js))" for k
  have row: "find_row job_id (job_id x) js = Some x" if "x \<in> set js" for x
    using that by (rule find_row_mem [OF assms(1)])
  have "distinct (map fst ?pairs)" using assms(1) by (simp add: comp_def)
  then have start: "later_wins ?pairs (job_id j) = Some j"
    using assms(2) by (simp add: later_wins_def map_of_rev_distinct)
  have owned: "owned_by owner_of (later_wins ?pairs)"
    using row by (auto simp: owned_by_def owner_of_def dest!: later_wins_mem)
  have "\<forall>(k, c) \<in> set ?edits. job_owner_id c = owner_of k"
    using row by (auto simp: owner_of_def)
  note result = hops_owned [OF this owned, of MAX_EDIT_CHAIN d]
  have "job_id j \<in> dom (resolve_edit_roots d js)"
    using result start by (auto simp: resolve_edit_roots_def)
  moreover have "owner_of (job_id j) = job_owner_id j" using row [OF assms(2)] by (simp add: owner_of_def)
  ultimately have "\<exists>r. resolve_edit_roots d js (job_id j) = Some r \<and> job_owner_id r = job_owner_id j"
    using result by (auto simp: resolve_edit_roots_def owned_by_def)
  moreover have "resolve_edit_roots d js (job_id j) = Some j" if "job_operations j = None"
  proof -
    have "job_id j \<notin> fst ` set ?edits"
    proof
      assume "job_id j \<in> fst ` set ?edits"
      then obtain x where "x \<in> set js" "job_operations x \<noteq> None" "job_id x = job_id j" by auto
      with that show False using row [OF assms(2)] row [of x] by simp
    qed
    then show ?thesis by (simp add: resolve_edit_roots_def hops_untouched start)
  qed
  ultimately show ?thesis by blast
qed

theorem edit_roots_same_owner_witness:
  "resolve_edit_roots \<lparr>db_users = [], db_jobs = [new_job 3 7 1 ''f'' ''k'' None 30], db_uploads = []\<rparr>
     [new_job 3 7 1 ''f'' ''k'' None 30] 7 = Some (new_job 3 7 1 ''f'' ''k'' None 30)"
  using edit_roots_same_owner [of "[new_job 3 7 1 ''f'' ''k'' None 30]" "new_job 3 7 1 ''f'' ''k'' None 30"
      "\<lparr>db_users = [], db_jobs = [new_job 3 7 1 ''f'' ''k'' None 30], db_uploads = []\<rparr>"]
  by (simp add: new_job_def)

end
