(* ===== verification/Piece_Board.thy ===== *)
theory Piece_Board
  imports Prelude "HOL-Library.AList"
begin

text \<open>
  \<open>PieceBoard\<close> of \<open>app/worker/chunked.py\<close>: the pieces of one job in Redis, to do, in progress (with
  when) and done, and the two plans that are put on one. A board is its four keys; a command is
  what one round trip (or one MULTI/EXEC pipeline) does to them, so that a method of several round
  trips is several commands and others may come in between. The expiry of the keys, three hours, is
  longer than any job may take and is left out.
\<close>

section \<open>Plans\<close>

record piece_plan =
  pp_job_id :: string
  pp_source_key :: string
  pp_starts :: "rat list"
  pp_max_fps :: int
  pp_hdr :: bool
  pp_max_height :: int
  pp_preset :: string
  pp_crf :: int
  pp_output_rate :: string
  pp_start_ticks :: "int list"
  pp_frames :: "int list"

record ladder_plan =
  lp_job_id :: string
  lp_source_key :: string
  lp_heights :: "int list"
  lp_hdr :: bool
  lp_max_fps :: int
  lp_preset :: string
  lp_output_rate :: string
  lp_starts :: "rat list"
  lp_start_ticks :: "int list"
  lp_first_frames :: "int list"
  lp_frames :: "int list"

datatype plan = Mp4_Plan piece_plan | Ladder_Plan ladder_plan

definition plan_count :: "plan \<Rightarrow> nat" where
  "plan_count p = (case p of Mp4_Plan q \<Rightarrow> length (pp_starts q) | Ladder_Plan q \<Rightarrow> length (lp_starts q))"

section \<open>The board\<close>

record board =
  b_plan :: "plan option"
  b_todo :: "nat list"
  b_inflight :: "(nat \<times> rat) list"
  b_done :: "nat list"

datatype board_command =
    OpenBoard plan
  | PopPiece
  | NoteInflight nat rat
  | FinishPiece nat
  | GiveBack nat
  | DropStale "nat list"
  | CloseBoard

definition no_board :: board where
  "no_board = \<lparr>b_plan = None, b_todo = [], b_inflight = [], b_done = []\<rparr>"

definition open_board :: "plan \<Rightarrow> board" where
  "open_board p = \<lparr>b_plan = Some p, b_todo = [0..<plan_count p], b_inflight = [], b_done = []\<rparr>"

definition popped :: "board \<Rightarrow> nat option" where
  \<comment> \<open>what \<open>LPOP\<close> answers\<close>
  "popped b = (case b_todo b of [] \<Rightarrow> None | i # _ \<Rightarrow> Some i)"

definition finish_piece :: "nat \<Rightarrow> board \<Rightarrow> board" where
  "finish_piece i b = b\<lparr>b_done := List.insert i (b_done b), b_inflight := AList.delete i (b_inflight b)\<rparr>"

definition give_back :: "nat \<Rightarrow> board \<Rightarrow> board" where
  "give_back i b = b\<lparr>b_inflight := AList.delete i (b_inflight b), b_todo := i # b_todo b\<rparr>"

fun run_command :: "board_command \<Rightarrow> board \<Rightarrow> board" where
  "run_command (OpenBoard p) b = open_board p"
| "run_command PopPiece b = b\<lparr>b_todo := tl (b_todo b)\<rparr>"
| "run_command (NoteInflight i now) b = b\<lparr>b_inflight := AList.update i now (b_inflight b)\<rparr>"
| "run_command (FinishPiece i) b = finish_piece i b"
| "run_command (GiveBack i) b = give_back i b"
| "run_command (DropStale st) b = b\<lparr>b_inflight := filter (\<lambda>p. fst p \<notin> set st) (b_inflight b)\<rparr>"
| "run_command CloseBoard b = no_board"

definition stale_pieces :: "rat \<Rightarrow> rat \<Rightarrow> (nat \<times> rat) list \<Rightarrow> nat list" where
  "stale_pieces now stale_after inflight = map fst (filter (\<lambda>p. stale_after < now - snd p) inflight)"

definition orphans :: "nat \<Rightarrow> nat list \<Rightarrow> (nat \<times> rat) list \<Rightarrow> nat list \<Rightarrow> nat list \<Rightarrow> nat list" where
  \<comment> \<open>of \<open>count\<close> pieces, those not done, not busy (in flight and not stale) and not queued\<close>
  "orphans n stale inflight queued finished =
     filter (\<lambda>i. i \<notin> set finished \<and> \<not> (i \<in> fst ` set inflight \<and> i \<notin> set stale) \<and> i \<notin> set queued) [0..<n]"

section \<open>Methods in one go\<close>

text \<open>The methods as they act when no other process comes in between: the reference for the steps.\<close>

definition take_piece :: "rat \<Rightarrow> board \<Rightarrow> nat option \<times> board" where
  "take_piece now b =
     (case popped b of
        None \<Rightarrow> (None, b)
      | Some i \<Rightarrow> (Some i, run_command (NoteInflight i now) (run_command PopPiece b)))"

definition unclaimed :: "nat \<Rightarrow> rat \<Rightarrow> rat \<Rightarrow> board \<Rightarrow> nat list \<times> board" where
  "unclaimed n stale_after now b =
     (let stale = stale_pieces now stale_after (b_inflight b)
      in (orphans n stale (b_inflight b) (b_todo b) (b_done b), run_command (DropStale stale) b))"

definition board_ok :: "nat \<Rightarrow> board \<Rightarrow> bool" where
  \<comment> \<open>the well-formedness of a board of \<open>n\<close> pieces\<close>
  "board_ok n b \<longleftrightarrow>
     set (b_todo b) \<subseteq> {..<n} \<and> fst ` set (b_inflight b) \<subseteq> {..<n} \<and> set (b_done b) \<subseteq> {..<n}
     \<and> distinct (map fst (b_inflight b)) \<and> distinct (b_done b)"

named_theorems board_simps \<open>the fields of a board after a command\<close>

lemmas [board_simps] = no_board_def open_board_def finish_piece_def give_back_def popped_def

lemma set_delete: "set (AList.delete k xs) = {p \<in> set xs. fst p \<noteq> k}"
  by (auto simp: AList.delete_eq)

lemma keys_update: "fst ` set (AList.update k v xs) = insert k (fst ` set xs)"
  by (simp add: dom_update)

lemma board_ok_open: "board_ok (plan_count p) (open_board p)"
  by (auto simp: board_ok_def open_board_def)

lemma board_ok_command:
  assumes "board_ok n b" and "\<And>i t. c = NoteInflight i t \<Longrightarrow> i < n" and "\<And>i. c = FinishPiece i \<Longrightarrow> i < n"
    and "\<And>i. c = GiveBack i \<Longrightarrow> i < n" and "\<And>p. c = OpenBoard p \<Longrightarrow> plan_count p = n"
  shows "board_ok n (run_command c b)"
proof (cases c)
  case PopPiece
  with assms(1) show ?thesis by (cases "b_todo b") (auto simp: board_ok_def)
next
  case (NoteInflight i t)
  with assms(1,2) show ?thesis by (auto simp: board_ok_def keys_update distinct_update)
next
  case (FinishPiece i)
  with assms(1,3) show ?thesis
    by (auto simp: board_ok_def finish_piece_def set_delete distinct_delete)
next
  case (GiveBack i)
  with assms(1,4) show ?thesis by (auto simp: board_ok_def give_back_def set_delete distinct_delete)
next
  case (DropStale st)
  with assms(1) show ?thesis by (auto simp: board_ok_def distinct_map_filter)
qed (use assms(1,5) in \<open>auto simp: board_ok_def open_board_def no_board_def\<close>)

lemma orphans_less: "i \<in> set (orphans n st m q d) \<Longrightarrow> i < n"
  by (auto simp: orphans_def)

lemma all_done_iff:
  "board_ok n b \<Longrightarrow> n \<le> length (b_done b) \<longleftrightarrow> set (b_done b) = {..<n}"
  by (metis board_ok_def card_lessThan card_mono card_subset_eq distinct_card finite_lessThan
      le_antisym order_refl)

end
