(* ===== verification/Piece_Race.thy ===== *)
theory Piece_Race
  imports Piece_Board
begin

text \<open>
  The coordinator (\<open>ChunkedMp4._encode_until_all_done\<close>) and any number of helpers
  (\<open>help_encode\<close>) of \<open>app/worker/chunked.py\<close> on one board, every interleaving of their round trips:
  one event is one round trip to Redis or to storage, or the encoding in between. A helper may fail or
  die anywhere; the coordinator may fail anywhere. The ladder's pair of \<open>app/worker/ladder_pieces.py\<close> makes the
  same round trips in the same order.
\<close>

section \<open>Processes\<close>

datatype helper =
    Away
  | Ready
  | Popped nat
  | Working nat
  | Checked nat
  | Sent nat

datatype coordinator =
    Looking
  | Took nat
  | Saw_Empty
  | Saw_Inflight "(nat \<times> rat) list"
  | Saw_Queue "(nat \<times> rat) list" "nat list"
  | Purged "(nat \<times> rat) list" "nat list" "nat list"
  | Encoding nat
  | Encoded nat
  | Counting
  | Returned
  | Closing
  | Gone
  | Clearing

record pool =
  p_board :: board
  p_stored :: "nat set"
  p_mine :: "nat set"
  p_coord :: coordinator
  p_helpers :: "nat \<Rightarrow> helper"

datatype helper_act = HJoin | HPop | HNote rat | HCheck | HUpload | HFinish | HFail | HDie

datatype coord_act =
    CPop
  | CNote rat
  | CReadInflight
  | CReadQueue
  | CPurge rat
  | CReadDone
  | CEncode
  | CFinish
  | CCount
  | CFail

datatype between = BClose | BDiscard | BClear | BOpen

datatype event = H nat helper_act | C coord_act | B between

definition on_board :: "board_command \<Rightarrow> pool \<Rightarrow> pool" where
  "on_board c s = s\<lparr>p_board := run_command c (p_board s)\<rparr>"

definition helper_at :: "nat \<Rightarrow> helper \<Rightarrow> pool \<Rightarrow> pool" where
  "helper_at w x s = s\<lparr>p_helpers := (p_helpers s)(w := x)\<rparr>"

definition coord_at :: "coordinator \<Rightarrow> pool \<Rightarrow> pool" where
  "coord_at x s = s\<lparr>p_coord := x\<rparr>"

section \<open>Events\<close>

fun helper_event :: "nat \<Rightarrow> helper_act \<Rightarrow> pool \<Rightarrow> pool option" where
  "helper_event w HJoin s =
     (if p_helpers s w = Away \<and> b_plan (p_board s) \<noteq> None then Some (helper_at w Ready s) else None)"
| "helper_event w HPop s =
     (if p_helpers s w = Ready
      then case popped (p_board s) of
             None \<Rightarrow> Some (helper_at w Away s)
           | Some i \<Rightarrow> Some (helper_at w (Popped i) (on_board PopPiece s))
      else None)"
| "helper_event w (HNote now) s =
     (case p_helpers s w of
        Popped i \<Rightarrow> Some (helper_at w (Working i) (on_board (NoteInflight i now) s)) | _ \<Rightarrow> None)"
| "helper_event w HCheck s =
     (case p_helpers s w of
        Working i \<Rightarrow> Some (helper_at w (if b_plan (p_board s) = None then Away else Checked i) s) | _ \<Rightarrow> None)"
| "helper_event w HUpload s =
     (case p_helpers s w of
        Checked i \<Rightarrow> Some (helper_at w (Sent i) (s\<lparr>p_stored := insert i (p_stored s)\<rparr>)) | _ \<Rightarrow> None)"
| "helper_event w HFinish s =
     (case p_helpers s w of
        Sent i \<Rightarrow> Some (helper_at w Ready (on_board (FinishPiece i) s)) | _ \<Rightarrow> None)"
| "helper_event w HFail s =
     (case p_helpers s w of
        Working i \<Rightarrow> Some (helper_at w Away (on_board (GiveBack i) s))
      | Checked i \<Rightarrow> Some (helper_at w Away (on_board (GiveBack i) s))
      | Sent i \<Rightarrow> Some (helper_at w Away (on_board (GiveBack i) s))
      | _ \<Rightarrow> None)"
| "helper_event w HDie s = Some (helper_at w Away s)"

fun coord_event :: "plan \<Rightarrow> rat \<Rightarrow> coord_act \<Rightarrow> pool \<Rightarrow> pool option" where
  "coord_event p sa CPop s =
     (if p_coord s = Looking
      then case popped (p_board s) of
             None \<Rightarrow> Some (coord_at Saw_Empty s)
           | Some i \<Rightarrow> Some (coord_at (Took i) (on_board PopPiece s))
      else None)"
| "coord_event p sa (CNote now) s =
     (case p_coord s of
        Took i \<Rightarrow> Some (coord_at (Encoding i) (on_board (NoteInflight i now) s)) | _ \<Rightarrow> None)"
| "coord_event p sa CReadInflight s =
     (if p_coord s = Saw_Empty then Some (coord_at (Saw_Inflight (b_inflight (p_board s))) s) else None)"
| "coord_event p sa CReadQueue s =
     (case p_coord s of
        Saw_Inflight m \<Rightarrow> Some (coord_at (Saw_Queue m (b_todo (p_board s))) s) | _ \<Rightarrow> None)"
| "coord_event p sa (CPurge now) s =
     (case p_coord s of
        Saw_Queue m q \<Rightarrow>
          Some (coord_at (Purged m q (stale_pieces now sa m)) (on_board (DropStale (stale_pieces now sa m)) s))
      | _ \<Rightarrow> None)"
| "coord_event p sa CReadDone s =
     (case p_coord s of
        Purged m q st \<Rightarrow>
          (case orphans (plan_count p) st m q (b_done (p_board s)) of
             i # _ \<Rightarrow> Some (coord_at (Encoding i) s)
           | [] \<Rightarrow> Some (coord_at Counting s))
      | _ \<Rightarrow> None)"
| "coord_event p sa CCount s =
     (if p_coord s = Counting
      then Some (coord_at (if plan_count p \<le> length (b_done (p_board s)) then Returned else Looking) s)
      else None)"
| "coord_event p sa CEncode s =
     (case p_coord s of
        Encoding i \<Rightarrow> Some (coord_at (Encoded i) (s\<lparr>p_mine := insert i (p_mine s)\<rparr>)) | _ \<Rightarrow> None)"
| "coord_event p sa CFinish s =
     (case p_coord s of
        Encoded i \<Rightarrow> Some (coord_at Looking (on_board (FinishPiece i) s)) | _ \<Rightarrow> None)"
| "coord_event p sa CFail s =
     (if p_coord s \<in> {Returned, Closing, Gone, Clearing} then None else Some (coord_at Closing s))"

fun between_event :: "plan \<Rightarrow> between \<Rightarrow> pool \<Rightarrow> pool option" where
  \<comment> \<open>the end of one attempt (\<open>finally: board.close(); delete_prefix\<close>) and the start of the next
    (\<open>delete_prefix; board.open\<close>), whatever helpers are still at work\<close>
  "between_event p BClose s =
     (if p_coord s \<in> {Returned, Closing} then Some (coord_at Gone (on_board CloseBoard s)) else None)"
| "between_event p BDiscard s =
     (if p_coord s = Gone then Some (coord_at Clearing (s\<lparr>p_stored := {}, p_mine := {}\<rparr>)) else None)"
| "between_event p BClear s = (if p_coord s = Clearing then Some (s\<lparr>p_stored := {}\<rparr>) else None)"
| "between_event p BOpen s =
     (if p_coord s = Clearing then Some (coord_at Looking (on_board (OpenBoard p) s)) else None)"

fun fire :: "plan \<Rightarrow> rat \<Rightarrow> event \<Rightarrow> pool \<Rightarrow> pool option" where
  \<comment> \<open>\<open>None\<close> where the event cannot happen\<close>
  "fire p sa (H w a) s = helper_event w a s"
| "fire p sa (C a) s = coord_event p sa a s"
| "fire p sa (B a) s = between_event p a s"

fun of_one_attempt :: "event \<Rightarrow> bool" where
  "of_one_attempt (B _) = False"
| "of_one_attempt _ = True"

definition opened :: "plan \<Rightarrow> pool" where
  "opened p = \<lparr>p_board = open_board p, p_stored = {}, p_mine = {}, p_coord = Looking, p_helpers = (\<lambda>w. Away)\<rparr>"

inductive attempt :: "plan \<Rightarrow> rat \<Rightarrow> pool \<Rightarrow> bool" for p sa where
  opened: "attempt p sa (opened p)"
| event: "attempt p sa s \<Longrightarrow> of_one_attempt ev \<Longrightarrow> fire p sa ev s = Some s' \<Longrightarrow> attempt p sa s'"

fun run_events :: "plan \<Rightarrow> rat \<Rightarrow> event list \<Rightarrow> pool \<Rightarrow> pool option" where
  "run_events p sa [] s = Some s"
| "run_events p sa (ev # evs) s =
     (case fire p sa ev s of Some s' \<Rightarrow> run_events p sa evs s' | None \<Rightarrow> None)"

section \<open>The invariant of one attempt\<close>

fun held :: "helper \<Rightarrow> nat option" where
  "held Away = None" | "held Ready = None" | "held (Popped i) = Some i" | "held (Working i) = Some i"
| "held (Checked i) = Some i" | "held (Sent i) = Some i"

fun coord_held :: "coordinator \<Rightarrow> nat option" where
  "coord_held (Took i) = Some i" | "coord_held (Encoding i) = Some i" | "coord_held (Encoded i) = Some i"
| "coord_held _ = None"

definition pool_inv :: "nat \<Rightarrow> pool \<Rightarrow> bool" where
  "pool_inv n s \<longleftrightarrow>
     board_ok n (p_board s)
     \<and> set (b_done (p_board s)) \<subseteq> p_stored s \<union> p_mine s
     \<and> (\<forall>w i. held (p_helpers s w) = Some i \<longrightarrow> i < n)
     \<and> (\<forall>w i. p_helpers s w = Sent i \<longrightarrow> i \<in> p_stored s)
     \<and> (\<forall>i. coord_held (p_coord s) = Some i \<longrightarrow> i < n)
     \<and> (\<forall>i. p_coord s = Encoded i \<longrightarrow> i \<in> p_mine s)
     \<and> (p_coord s = Returned \<longrightarrow> {..<n} \<subseteq> p_stored s \<union> p_mine s)"

lemmas pool_simps = on_board_def helper_at_def coord_at_def

lemma popped_less: "board_ok n b \<Longrightarrow> popped b = Some i \<Longrightarrow> i < n"
  by (auto simp: popped_def board_ok_def split: list.splits)

lemma done_simps [simp]:
  "b_done (run_command PopPiece b) = b_done b" "b_done (run_command (NoteInflight i t) b) = b_done b"
  "b_done (run_command (GiveBack i) b) = b_done b" "b_done (run_command (DropStale st) b) = b_done b"
  "set (b_done (run_command (FinishPiece i) b)) = insert i (set (b_done b))"
  by (auto simp: give_back_def finish_piece_def)

declare run_command.simps [simp del]

lemma orphans_first: "orphans n st m q d = i # xs \<Longrightarrow> i < n"
  by (rule orphans_less [of i n st m q d]) simp

lemma pool_inv_opened: "pool_inv (plan_count p) (opened p)"
  using board_ok_open [of p] by (simp add: pool_inv_def opened_def open_board_def)

lemma pool_inv_commands [intro]:
  "pool_inv n s \<Longrightarrow> pool_inv n (on_board PopPiece s)"
  "pool_inv n s \<Longrightarrow> i < n \<Longrightarrow> pool_inv n (on_board (NoteInflight i t) s)"
  "pool_inv n s \<Longrightarrow> i < n \<Longrightarrow> pool_inv n (on_board (GiveBack i) s)"
  "pool_inv n s \<Longrightarrow> pool_inv n (on_board (DropStale st) s)"
  "pool_inv n s \<Longrightarrow> i < n \<Longrightarrow> i \<in> p_stored s \<union> p_mine s \<Longrightarrow> pool_inv n (on_board (FinishPiece i) s)"
  unfolding pool_inv_def on_board_def
  by (auto intro!: board_ok_command)

lemma pool_inv_helper_at [intro]:
  "pool_inv n s \<Longrightarrow> (\<And>i. held x = Some i \<Longrightarrow> i < n) \<Longrightarrow> (\<And>i. x = Sent i \<Longrightarrow> i \<in> p_stored s)
   \<Longrightarrow> pool_inv n (helper_at w x s)"
  unfolding pool_inv_def helper_at_def by simp

lemma pool_inv_coord_at [intro]:
  "pool_inv n s \<Longrightarrow> (\<And>i. coord_held x = Some i \<Longrightarrow> i < n) \<Longrightarrow> (\<And>i. x = Encoded i \<Longrightarrow> i \<in> p_mine s)
   \<Longrightarrow> (x = Returned \<Longrightarrow> {..<n} \<subseteq> p_stored s \<union> p_mine s) \<Longrightarrow> pool_inv n (coord_at x s)"
  unfolding pool_inv_def coord_at_def by simp

lemma pool_inv_pieces [intro]:
  "pool_inv n s \<Longrightarrow> pool_inv n (s\<lparr>p_stored := insert i (p_stored s)\<rparr>)"
  "pool_inv n s \<Longrightarrow> pool_inv n (s\<lparr>p_mine := insert i (p_mine s)\<rparr>)"
  unfolding pool_inv_def by auto

lemma pool_invD:
  assumes "pool_inv n s"
  shows "held (p_helpers s w) = Some i \<Longrightarrow> i < n" "p_helpers s w = Sent i \<Longrightarrow> i \<in> p_stored s"
    "coord_held (p_coord s) = Some i \<Longrightarrow> i < n" "p_coord s = Encoded i \<Longrightarrow> i \<in> p_mine s"
    "popped (p_board s) = Some i \<Longrightarrow> i < n" "set (b_done (p_board s)) \<subseteq> p_stored s \<union> p_mine s"
    "n \<le> length (b_done (p_board s)) \<Longrightarrow> set (b_done (p_board s)) = {..<n}"
  using assms all_done_iff popped_less unfolding pool_inv_def by blast+

lemma board_fields [simp]:
  "p_stored (on_board c s) = p_stored s" "p_mine (on_board c s) = p_mine s"
  "p_coord (on_board c s) = p_coord s" "p_helpers (on_board c s) = p_helpers s"
  by (simp_all add: on_board_def)

lemma pool_inv_helper:
  assumes inv: "pool_inv n s" and "helper_event w a s = Some s'"
  shows "pool_inv n s'"
  using assms(2) pool_invD(1,2,5) [OF inv, of w] pool_invD(5) [OF inv] inv
  by (cases a; cases "p_helpers s w") (auto split: if_splits option.splits)

lemma pool_inv_coord:
  assumes inv: "pool_inv (plan_count p) s" and "coord_event p sa a s = Some s'"
  shows "pool_inv (plan_count p) s'"
  using assms(2) pool_invD(3-7) [OF inv] inv
  by (cases a; cases "p_coord s") (auto split: if_splits option.splits list.splits dest!: orphans_first)

lemma pool_inv_attempt: "attempt p sa s \<Longrightarrow> pool_inv (plan_count p) s"
proof (induction rule: attempt.induct)
  case opened
  then show ?case by (rule pool_inv_opened)
next
  case (event s ev s')
  then show ?case by (cases ev) (auto intro: pool_inv_helper pool_inv_coord)
qed

lemma run_events_attempt:
  "run_events p sa evs s = Some s' \<Longrightarrow> list_all of_one_attempt evs \<Longrightarrow> attempt p sa s \<Longrightarrow> attempt p sa s'"
  by (induction evs arbitrary: s) (auto intro: attempt.event split: option.splits)

section \<open>Properties\<close>

text \<open>C36. However the coordinator and the helpers of one attempt interleave, and whichever of the
  helpers fail or die, when the coordinator stops waiting every piece of the video is on its own disk
  or in storage: the join never lacks one.\<close>

theorem returned_has_every_piece:
  assumes "attempt p stale_after s" and "p_coord s = Returned" and "i < plan_count p"
  shows "i \<in> p_mine s \<or> i \<in> p_stored s"
  using pool_inv_attempt [OF assms(1)] assms(2,3) by (auto simp: pool_inv_def)

definition two_pieces :: plan where
  "two_pieces = Mp4_Plan \<lparr>pp_job_id = ''j'', pp_source_key = ''u'', pp_starts = [0, 10], pp_max_fps = 30, pp_hdr = False,
     pp_max_height = 720, pp_preset = ''veryfast'', pp_crf = 23, pp_output_rate = ''30/1'',
     pp_start_ticks = [0, 300], pp_frames = [300, 0]\<rparr>"

definition coordinator_turn :: "rat \<Rightarrow> event list" where
  \<comment> \<open>a piece from the queue, encoded\<close>
  "coordinator_turn now = [C CPop, C (CNote now), C CEncode, C CFinish]"

definition coordinator_looks :: "rat \<Rightarrow> event list" where
  "coordinator_looks now = [C CPop, C CReadInflight, C CReadQueue, C (CPurge now), C CReadDone]"

definition helper_dies_run :: "event list" where
  \<comment> \<open>a helper takes piece 0 and dies; the coordinator encodes piece 1, waits until piece 0 is stale
    and encodes it itself\<close>
  "helper_dies_run = [H 1 HJoin, H 1 HPop, H 1 (HNote 0), H 1 HDie] @ coordinator_turn 5
     @ coordinator_looks 100 @ [C CCount] @ coordinator_looks 400 @ [C CEncode, C CFinish]
     @ coordinator_looks 401 @ [C CCount]"

lemma helper_dies_eval:
  "case run_events two_pieces 300 helper_dies_run (opened two_pieces) of
     Some s \<Rightarrow> p_coord s = Returned \<and> p_stored s = {} \<and> 0 \<in> p_mine s | None \<Rightarrow> False"
  by code_simp

theorem returned_has_every_piece_witness:
  "case run_events two_pieces 300 helper_dies_run (opened two_pieces) of
     Some s \<Rightarrow> 1 \<in> p_mine s \<or> 1 \<in> p_stored s | None \<Rightarrow> False"
proof -
  obtain s where s: "run_events two_pieces 300 helper_dies_run (opened two_pieces) = Some s" "p_coord s = Returned"
    using helper_dies_eval by (auto split: option.splits)
  have "list_all of_one_attempt helper_dies_run" by code_simp
  then have "attempt two_pieces 300 s" using run_events_attempt [OF s(1)] attempt.opened by blast
  moreover have "1 < plan_count two_pieces" by (simp add: plan_count_def two_pieces_def)
  ultimately have "1 \<in> p_mine s \<or> 1 \<in> p_stored s" using s(2) returned_has_every_piece by blast
  with s(1) show ?thesis by simp
qed

definition late_helper_run :: "event list" where
  \<comment> \<open>helper 1 has uploaded piece 0 when its attempt ends; in the next, helper 2 takes piece 0, helper 1
    reports it done, and the coordinator encodes piece 1\<close>
  "late_helper_run = [H 1 HJoin, H 1 HPop, H 1 (HNote 0), H 1 HCheck, H 1 HUpload, C CFail, B BClose, B BDiscard,
     B BClear, B BOpen, H 2 HJoin, H 2 HPop, H 2 (HNote 5), H 1 HFinish] @ coordinator_turn 6
     @ coordinator_looks 7 @ [C CCount]"


end
