(* ===== verification/Effects.thy ===== *)
theory Effects
  imports Probe Database Piece_Board
begin

text \<open>
  How the worker's steps act on the outside: an operation is run against an environment and the
  calls made so far, and yields its result, or the exception it raises, and the calls after it.
  \<open>env\<close> is everything that is not under \<open>app/\<close>: what the storage client, FFmpeg and ffprobe, the
  file system, Redis, the clock and the queue answer, each free to depend on all earlier calls. A theorem over an
  arbitrary \<open>env\<close> holds whatever those answer.
\<close>

section \<open>Calls and their answers\<close>

datatype call =
    Stat string
  | CopyObject string string
  | Get string string
  | Put (put_key: string) (put_source: string) (put_type: string)
  | ListObjects string
  | RemoveObject string
  | Run "string list" int
  | Mkdtemp string
  | Rmtree string
  | Mkdir string
  | WriteText string string
  | MoveFile string string
  | Unlink string
  | SetProgress uuid int
  | Board string board_command
  | Enqueue string uuid
  | Wake int
  | Sleep int
  | Pack string string
  | Unpack string string
  | CreateMultipart string
  | ListParts string string
  | HeadObject string
  | CompleteMultipart string string "(int \<times> string) list"
  | GetRange string nat
  | AbortMultipart string string
  | PutStream (put_key: string) int string
  | ReadObject string
  | CountPlay uuid

record env =
  e_stat :: "call list \<Rightarrow> string \<Rightarrow> exn + unit"
  e_copy :: "call list \<Rightarrow> string \<Rightarrow> string \<Rightarrow> exn + unit"
  e_get :: "call list \<Rightarrow> string \<Rightarrow> string \<Rightarrow> exn + unit"
  e_put :: "call list \<Rightarrow> string \<Rightarrow> string \<Rightarrow> string \<Rightarrow> exn + unit"
  e_list :: "call list \<Rightarrow> string \<Rightarrow> exn + string list"
  e_remove :: "call list \<Rightarrow> string \<Rightarrow> exn + unit"
  e_run :: "call list \<Rightarrow> string list \<Rightarrow> int \<Rightarrow> run_outcome"
  e_mkdtemp :: "call list \<Rightarrow> string \<Rightarrow> string"
  e_is_file :: "call list \<Rightarrow> string \<Rightarrow> bool"
  e_file_size :: "call list \<Rightarrow> string \<Rightarrow> int"
  e_read_text :: "call list \<Rightarrow> string \<Rightarrow> exn + string"
  e_files :: "call list \<Rightarrow> string \<Rightarrow> string list"
  e_set_progress :: "call list \<Rightarrow> uuid \<Rightarrow> int \<Rightarrow> exn + unit"
  e_redis :: "call list \<Rightarrow> exn + unit"
  e_board :: "call list \<Rightarrow> string \<Rightarrow> board"
  e_clock :: "call list \<Rightarrow> rat"
  e_time :: "call list \<Rightarrow> rat"
  e_enqueue :: "call list \<Rightarrow> string \<Rightarrow> uuid \<Rightarrow> exn + unit"
  e_unpack :: "call list \<Rightarrow> string \<Rightarrow> string \<Rightarrow> exn + unit"

type_synonym 'a io = "env \<Rightarrow> call list \<Rightarrow> (exn + 'a) \<times> call list"

section \<open>Sequencing\<close>

definition ret :: "'a \<Rightarrow> 'a io" where
  "ret x = (\<lambda>e h. (Inr x, h))"

definition raise :: "exn \<Rightarrow> 'a io" where
  "raise x = (\<lambda>e h. (Inl x, h))"

definition lift :: "exn + 'a \<Rightarrow> 'a io" where
  "lift r = (\<lambda>e h. (r, h))"

definition bind_io :: "'a io \<Rightarrow> ('a \<Rightarrow> 'b io) \<Rightarrow> 'b io" where
  "bind_io m k =
     (\<lambda>e h. case m e h of (Inl x, h') \<Rightarrow> (Inl x, h') | (Inr a, h') \<Rightarrow> k a e h')"

definition catch_io :: "'a io \<Rightarrow> (exn \<Rightarrow> 'a io) \<Rightarrow> 'a io" where
  \<comment> \<open>\<open>try: m except Exception as x: handler x\<close>\<close>
  "catch_io m handler =
     (\<lambda>e h. case m e h of (Inl x, h') \<Rightarrow> handler x e h' | (Inr a, h') \<Rightarrow> (Inr a, h'))"

definition finally_io :: "'a io \<Rightarrow> unit io \<Rightarrow> 'a io" where
  "finally_io m f =
     (\<lambda>e h. case m e h of (r, h') \<Rightarrow>
        (case f e h' of (Inl x, h'') \<Rightarrow> (Inl x, h'') | (Inr _, h'') \<Rightarrow> (r, h'')))"

definition ask :: "(env \<Rightarrow> call list \<Rightarrow> 'a) \<Rightarrow> 'a io" where
  \<comment> \<open>a question to the environment that changes nothing\<close>
  "ask q = (\<lambda>e h. (Inr (q e h), h))"

definition do_call :: "call \<Rightarrow> (env \<Rightarrow> call list \<Rightarrow> exn + 'a) \<Rightarrow> 'a io" where
  \<comment> \<open>a call, recorded, and what it answers\<close>
  "do_call c answer = (\<lambda>e h. (answer e h, h @ [c]))"

fun for_io :: "'a list \<Rightarrow> ('a \<Rightarrow> unit io) \<Rightarrow> unit io" where
  "for_io [] f = ret ()"
| "for_io (x # xs) f = bind_io (f x) (\<lambda>_. for_io xs f)"

fun map_io :: "'a list \<Rightarrow> ('a \<Rightarrow> 'b io) \<Rightarrow> 'b list io" where
  "map_io [] f = ret []"
| "map_io (x # xs) f = bind_io (f x) (\<lambda>y. bind_io (map_io xs f) (\<lambda>ys. ret (y # ys)))"

definition attempt :: "'a io \<Rightarrow> 'a option io" where
  \<comment> \<open>\<open>try: return m except Exception: return None\<close>\<close>
  "attempt m = catch_io (bind_io m (\<lambda>x. ret (Some x))) (\<lambda>_. ret None)"

lemmas io_defs = ret_def raise_def lift_def bind_io_def catch_io_def finally_io_def ask_def
  do_call_def attempt_def

lemma bind_io_Inr:
  "bind_io m k e h = (Inr b, h') \<longleftrightarrow> (\<exists>a h1. m e h = (Inr a, h1) \<and> k a e h1 = (Inr b, h'))"
  by (auto simp: bind_io_def split: prod.splits sum.splits)

lemma bind_io_Inl:
  "bind_io m k e h = (Inl x, h') \<longleftrightarrow>
     m e h = (Inl x, h') \<or> (\<exists>a h1. m e h = (Inr a, h1) \<and> k a e h1 = (Inl x, h'))"
  by (auto simp: bind_io_def split: prod.splits sum.splits)

lemma ret_eq [simp]: "ret x e h = (Inr x, h)"
  by (simp add: ret_def)

lemma raise_eq [simp]: "raise x e h = (Inl x, h)"
  by (simp add: raise_def)

lemma lift_eq [simp]: "lift r e h = (r, h)"
  by (simp add: lift_def)

lemma finally_io_Inr:
  "finally_io m f e h = (Inr b, h') \<longleftrightarrow>
     (\<exists>h1 u. m e h = (Inr b, h1) \<and> f e h1 = (Inr u, h'))"
  by (auto simp: finally_io_def split: prod.splits sum.splits)

lemma catch_io_Inr:
  "catch_io m f e h = (Inr b, h') \<longleftrightarrow>
     m e h = (Inr b, h') \<or> (\<exists>x h1. m e h = (Inl x, h1) \<and> f x e h1 = (Inr b, h'))"
  by (auto simp: catch_io_def split: prod.splits sum.splits)

lemma catch_io_Inl:
  "catch_io m f e h = (Inl y, h') \<longleftrightarrow>
     (\<exists>x h1. m e h = (Inl x, h1) \<and> f x e h1 = (Inl y, h'))"
  by (auto simp: catch_io_def split: prod.splits sum.splits)

lemma attempt_cases:
  assumes "attempt m e h = (r, h')"
  obtains (some) a where "r = Inr (Some a)" and "m e h = (Inr a, h')"
    | (none) x where "r = Inr None" and "m e h = (Inl x, h')"
  using assms
  by (auto simp: attempt_def catch_io_def bind_io_def split: prod.splits sum.splits)

section \<open>The file system and processes\<close>

definition run_process :: "string list \<Rightarrow> int \<Rightarrow> run_outcome io" where
  "run_process command timeout =
     do_call (Run command timeout) (\<lambda>e h. Inr (e_run e h command timeout))"

definition mkdtemp :: "string \<Rightarrow> string io" where
  "mkdtemp prefix = do_call (Mkdtemp prefix) (\<lambda>e h. Inr (e_mkdtemp e h prefix))"

definition rmtree :: "string \<Rightarrow> unit io" where
  \<comment> \<open>\<open>shutil.rmtree(path, ignore_errors=True)\<close>\<close>
  "rmtree path = do_call (Rmtree path) (\<lambda>e h. Inr ())"

definition mkdir :: "string \<Rightarrow> unit io" where
  "mkdir path = do_call (Mkdir path) (\<lambda>e h. Inr ())"

definition write_text :: "string \<Rightarrow> string \<Rightarrow> unit io" where
  "write_text path text = do_call (WriteText path text) (\<lambda>e h. Inr ())"

definition move_file :: "string \<Rightarrow> string \<Rightarrow> unit io" where
  "move_file src dst = do_call (MoveFile src dst) (\<lambda>e h. Inr ())"

definition unlink :: "string \<Rightarrow> unit io" where
  "unlink path = do_call (Unlink path) (\<lambda>e h. Inr ())"

definition is_file :: "string \<Rightarrow> bool io" where
  "is_file path = ask (\<lambda>e h. e_is_file e h path)"

definition file_size :: "string \<Rightarrow> int io" where
  "file_size path = ask (\<lambda>e h. e_file_size e h path)"

definition read_text :: "string \<Rightarrow> string io" where
  "read_text path = (\<lambda>e h. (e_read_text e h path, h))"

definition enqueue :: "string \<Rightarrow> uuid \<Rightarrow> unit io" where
  "enqueue task k = do_call (Enqueue task k) (\<lambda>e h. e_enqueue e h task k)"

definition wake_workers :: "int \<Rightarrow> unit io" where
  \<comment> \<open>never raises\<close>
  "wake_workers at_least = do_call (Wake at_least) (\<lambda>e h. Inr ())"

definition sleep :: "int \<Rightarrow> unit io" where
  "sleep seconds = do_call (Sleep seconds) (\<lambda>e h. Inr ())"

definition pack :: "string \<Rightarrow> string \<Rightarrow> unit io" where
  \<comment> \<open>a directory into a tar archive\<close>
  "pack dir archive = do_call (Pack dir archive) (\<lambda>e h. Inr ())"

definition unpack :: "string \<Rightarrow> string \<Rightarrow> unit io" where
  "unpack archive dir = do_call (Unpack archive dir) (\<lambda>e h. e_unpack e h archive dir)"

text \<open>A command on a board of Redis, and what is read of it: whatever other processes have made of
  the board by then.\<close>

definition board_do :: "string \<Rightarrow> board_command \<Rightarrow> unit io" where
  "board_do name c = do_call (Board name c) (\<lambda>e h. e_redis e h)"

definition board_read :: "string \<Rightarrow> (board \<Rightarrow> 'a) \<Rightarrow> 'a io" where
  "board_read name f =
     (\<lambda>e h. (case e_redis e h of Inl x \<Rightarrow> Inl x | Inr _ \<Rightarrow> Inr (f (e_board e h name)), h))"

definition board_pop :: "string \<Rightarrow> nat option io" where
  "board_pop name =
     do_call (Board name PopPiece)
       (\<lambda>e h. case e_redis e h of Inl x \<Rightarrow> Inl x | Inr _ \<Rightarrow> Inr (popped (e_board e h name)))"

definition in_dir :: "string \<Rightarrow> string \<Rightarrow> string" where
  \<comment> \<open>\<open>directory / name\<close>\<close>
  "in_dir d name = d @ ''/'' @ name"

lemma mkdtemp_eq [simp]: "mkdtemp q e h = (Inr (e_mkdtemp e h q), h @ [Mkdtemp q])"
  by (simp add: mkdtemp_def do_call_def)

lemma finally_rmtree:
  "finally_io m (rmtree d) e h = (r, h') \<longleftrightarrow> (\<exists>h1. m e h = (r, h1) \<and> h' = h1 @ [Rmtree d])"
  by (auto simp: finally_io_def rmtree_def do_call_def split: prod.splits)

section \<open>Reasoning about calls\<close>

text \<open>\<open>puts h\<close>: the keys written to storage, in order. \<open>writes_only K m\<close>: \<open>m\<close> only ever adds
  calls, and every key it writes satisfies \<open>K\<close>, whatever the environment answers.\<close>

definition puts :: "call list \<Rightarrow> string list" where
  "puts h = concat (map (\<lambda>c. case c of Put k _ _ \<Rightarrow> [k] | CopyObject _ k \<Rightarrow> [k]
     | CompleteMultipart k _ _ \<Rightarrow> [k] | PutStream k _ _ \<Rightarrow> [k] | _ \<Rightarrow> []) h)"

lemma puts_append [simp]: "puts (h @ h') = puts h @ puts h'"
  by (simp add: puts_def)

lemma puts_Nil [simp]: "puts [] = []"
  by (simp add: puts_def)

lemma puts_call [simp]:
  "puts [Stat k] = []" "puts [CopyObject a k] = [k]" "puts [Get k p] = []" "puts [Put k p t] = [k]"
  "puts [ListObjects p] = []" "puts [RemoveObject k] = []" "puts [Run c n] = []"
  "puts [Mkdtemp p] = []" "puts [Rmtree p] = []" "puts [Mkdir p] = []" "puts [WriteText p t] = []"
  "puts [MoveFile p q] = []" "puts [Unlink p] = []" "puts [SetProgress u n] = []"
  "puts [Board b bc] = []" "puts [Enqueue t u] = []" "puts [Wake n] = []" "puts [Sleep n] = []"
  "puts [Pack p q] = []" "puts [Unpack p q] = []" "puts [CreateMultipart k] = []"
  "puts [ListParts k p] = []" "puts [HeadObject k] = []" "puts [CompleteMultipart k p ps] = [k]"
  "puts [GetRange k i] = []" "puts [AbortMultipart k p] = []" "puts [PutStream k n t] = [k]"
  "puts [ReadObject k] = []" "puts [CountPlay u] = []"
  by (simp_all add: puts_def)

definition writes_only :: "(string \<Rightarrow> bool) \<Rightarrow> 'a io \<Rightarrow> bool" where
  "writes_only K m \<longleftrightarrow>
     (\<forall>e h. \<exists>t. snd (m e h) = h @ t \<and> (\<forall>k\<in>set (puts t). K k))"

lemma writes_onlyD:
  "writes_only K m \<Longrightarrow> m e h = (r, h') \<Longrightarrow> \<exists>t. h' = h @ t \<and> (\<forall>k\<in>set (puts t). K k)"
  unfolding writes_only_def by (metis snd_conv)

named_theorems writes \<open>what an operation writes\<close>

lemma writes_ret [writes]: "writes_only K (ret x)"
  by (simp add: writes_only_def ret_def)

lemma writes_raise [writes]: "writes_only K (raise x)"
  by (simp add: writes_only_def raise_def)

lemma writes_lift [writes]: "writes_only K (lift x)"
  by (simp add: writes_only_def lift_def)

lemma writes_ask [writes]: "writes_only K (ask q)"
  by (simp add: writes_only_def ask_def)

lemma writes_call: "(\<forall>k\<in>set (puts [c]). K k) \<Longrightarrow> writes_only K (do_call c f)"
  by (auto simp: writes_only_def do_call_def)

lemma writes_bind [writes]:
  assumes "writes_only K m" and "\<And>x. writes_only K (k x)"
  shows "writes_only K (bind_io m k)"
  unfolding writes_only_def
proof (intro allI)
  fix e h
  obtain r h1 where m: "m e h = (r, h1)" by fastforce
  then obtain t1 where t1: "h1 = h @ t1" "\<forall>k\<in>set (puts t1). K k"
    using writes_onlyD [OF assms(1)] by blast
  show "\<exists>t. snd (bind_io m k e h) = h @ t \<and> (\<forall>k\<in>set (puts t). K k)"
  proof (cases r)
    case (Inl x)
    with m t1 show ?thesis by (auto simp: bind_io_def)
  next
    case (Inr a)
    obtain r2 h2 where k: "k a e h1 = (r2, h2)" by fastforce
    then obtain t2 where "h2 = h1 @ t2" "\<forall>k\<in>set (puts t2). K k"
      using writes_onlyD [OF assms(2)] by blast
    with Inr m k t1 show ?thesis by (auto simp: bind_io_def intro!: exI [of _ "t1 @ t2"])
  qed
qed

lemma writes_catch [writes]:
  assumes "writes_only K m" and "\<And>x. writes_only K (f x)"
  shows "writes_only K (catch_io m f)"
  unfolding writes_only_def
proof (intro allI)
  fix e h
  obtain r h1 where m: "m e h = (r, h1)" by fastforce
  then obtain t1 where t1: "h1 = h @ t1" "\<forall>k\<in>set (puts t1). K k"
    using writes_onlyD [OF assms(1)] by blast
  show "\<exists>t. snd (catch_io m f e h) = h @ t \<and> (\<forall>k\<in>set (puts t). K k)"
  proof (cases r)
    case (Inr x)
    with m t1 show ?thesis by (auto simp: catch_io_def)
  next
    case (Inl a)
    obtain r2 h2 where k: "f a e h1 = (r2, h2)" by fastforce
    then obtain t2 where "h2 = h1 @ t2" "\<forall>k\<in>set (puts t2). K k"
      using writes_onlyD [OF assms(2)] by blast
    with Inl m k t1 show ?thesis by (auto simp: catch_io_def intro!: exI [of _ "t1 @ t2"])
  qed
qed

lemma writes_finally [writes]:
  assumes "writes_only K m" and "writes_only K f"
  shows "writes_only K (finally_io m f)"
  unfolding writes_only_def
proof (intro allI)
  fix e h
  obtain r h1 where m: "m e h = (r, h1)" by fastforce
  then obtain t1 where t1: "h1 = h @ t1" "\<forall>k\<in>set (puts t1). K k"
    using writes_onlyD [OF assms(1)] by blast
  obtain r2 h2 where f: "f e h1 = (r2, h2)" by fastforce
  then obtain t2 where "h2 = h1 @ t2" "\<forall>k\<in>set (puts t2). K k"
    using writes_onlyD [OF assms(2)] by blast
  with m f t1 show "\<exists>t. snd (finally_io m f e h) = h @ t \<and> (\<forall>k\<in>set (puts t). K k)"
    by (auto simp: finally_io_def intro!: exI [of _ "t1 @ t2"] split: sum.split)
qed

lemma writes_attempt [writes]: "writes_only K m \<Longrightarrow> writes_only K (attempt m)"
  unfolding attempt_def by (intro writes)

lemma writes_for [writes]: "(\<And>x. x \<in> set xs \<Longrightarrow> writes_only K (f x)) \<Longrightarrow> writes_only K (for_io xs f)"
  by (induction xs) (auto intro: writes)

lemma writes_map [writes]: "(\<And>x. x \<in> set xs \<Longrightarrow> writes_only K (f x)) \<Longrightarrow> writes_only K (map_io xs f)"
  by (induction xs) (auto intro: writes)

lemma writes_local [writes]:
  "writes_only K (run_process c n)" "writes_only K (mkdtemp p)" "writes_only K (rmtree p)"
  "writes_only K (mkdir p)" "writes_only K (write_text p t)" "writes_only K (move_file p q)"
  "writes_only K (unlink p)" "writes_only K (is_file p)" "writes_only K (file_size p)"
  unfolding run_process_def mkdtemp_def rmtree_def mkdir_def write_text_def move_file_def
    unlink_def is_file_def file_size_def
  by (auto intro: writes_call writes)

lemma writes_read [writes]: "writes_only K (read_text p)"
  by (simp add: writes_only_def read_text_def)

lemma writes_others [writes]:
  "writes_only K (enqueue t u)" "writes_only K (wake_workers n)" "writes_only K (sleep n)"
  "writes_only K (pack p q)" "writes_only K (unpack p q)" "writes_only K (board_do b c)"
  "writes_only K (board_pop b)"
  unfolding enqueue_def wake_workers_def sleep_def pack_def unpack_def board_do_def board_pop_def
  by (auto intro: writes_call)

lemma writes_board_read [writes]: "writes_only K (board_read b f)"
  by (simp add: writes_only_def board_read_def)

lemma writes_mono: "writes_only K m \<Longrightarrow> (\<And>k. K k \<Longrightarrow> K' k) \<Longrightarrow> writes_only K' m"
  unfolding writes_only_def by blast

section \<open>Exactly what is written\<close>

text \<open>\<open>quiet m\<close>: \<open>m\<close> writes nothing to storage.\<close>

definition quiet :: "'a io \<Rightarrow> bool" where
  "quiet m \<longleftrightarrow> (\<forall>e h. puts (snd (m e h)) = puts h)"

lemma quietI: "writes_only (\<lambda>_. False) m \<Longrightarrow> quiet m"
  unfolding quiet_def
proof (intro allI)
  fix e h
  assume "writes_only (\<lambda>_. False) m"
  then obtain t where "snd (m e h) = h @ t" "\<forall>k\<in>set (puts t). False"
    unfolding writes_only_def by blast
  then have "puts t = []" by (cases "puts t") auto
  with \<open>snd (m e h) = h @ t\<close> show "puts (snd (m e h)) = puts h" by simp
qed

lemma quietD: "quiet m \<Longrightarrow> m e h = (r, h') \<Longrightarrow> puts h' = puts h"
  unfolding quiet_def by (metis snd_conv)

section \<open>What can be raised\<close>

text \<open>\<open>honest_client e\<close>: the storage client fails only with its own \<open>S3Error\<close>. \<open>curated x\<close>: \<open>x\<close>
  carries a message for the uploader, or is a stop of the worker, or is \<open>OtherError\<close>: ffprobe
  output or a poster frame nobody can read.\<close>

definition only_s3 :: "exn + 'a \<Rightarrow> bool" where
  "only_s3 r = (case r of Inl (S3Error _) \<Rightarrow> True | Inl _ \<Rightarrow> False | Inr _ \<Rightarrow> True)"

definition honest_client :: "env \<Rightarrow> bool" where
  "honest_client e \<longleftrightarrow>
     (\<forall>h k. only_s3 (e_stat e h k)) \<and> (\<forall>h a b. only_s3 (e_copy e h a b)) \<and> (\<forall>h k p. only_s3 (e_get e h k p))
     \<and> (\<forall>h k p t. only_s3 (e_put e h k p t)) \<and> (\<forall>h p. only_s3 (e_list e h p))
     \<and> (\<forall>h k. only_s3 (e_remove e h k))"

definition curated :: "exn \<Rightarrow> bool" where
  "curated x =
     (case x of ObjectStoreError _ _ \<Rightarrow> True | Interrupted _ \<Rightarrow> True | OtherError _ \<Rightarrow> True | _ \<Rightarrow> False)"

lemma curated_simps [simp]:
  "curated (ObjectStoreError d m)" "curated (Interrupted t)" "curated (OtherError t)"
  by (simp_all add: curated_def)

definition raises_only :: "'a io \<Rightarrow> bool" where
  "raises_only m \<longleftrightarrow> (\<forall>e h x h'. honest_client e \<longrightarrow> m e h = (Inl x, h') \<longrightarrow> curated x)"

named_theorems raises \<open>what an operation can raise\<close>

lemma raises_onlyD: "raises_only m \<Longrightarrow> honest_client e \<Longrightarrow> m e h = (Inl x, h') \<Longrightarrow> curated x"
  unfolding raises_only_def by blast

lemma raises_ret [raises]: "raises_only (ret x)"
  by (simp add: raises_only_def)

lemma raises_raise: "curated x \<Longrightarrow> raises_only (raise x)"
  by (simp add: raises_only_def)

lemma raises_lift: "(\<And>x. r = Inl x \<Longrightarrow> curated x) \<Longrightarrow> raises_only (lift r)"
  by (simp add: raises_only_def)

lemma raises_bind:
  assumes "raises_only m" and "\<And>e h a h'. m e h = (Inr a, h') \<Longrightarrow> raises_only (k a)"
  shows "raises_only (bind_io m k)"
  using assms unfolding raises_only_def by (auto simp: bind_io_Inl) blast

lemma raises_catch: "(\<And>x. raises_only (f x)) \<Longrightarrow> raises_only (catch_io m f)"
  unfolding raises_only_def by (simp add: catch_io_Inl) blast

lemma raises_attempt [raises]: "raises_only (attempt m)"
  unfolding attempt_def by (intro raises_catch raises_ret)

lemma raises_finally_rmtree [raises]: "raises_only m \<Longrightarrow> raises_only (finally_io m (rmtree d))"
  unfolding raises_only_def by (auto simp: finally_rmtree)

lemma raises_local [raises]:
  "raises_only (run_process c n)" "raises_only (mkdtemp p)" "raises_only (rmtree p)"
  "raises_only (is_file p)" "raises_only (file_size p)" "raises_only (write_text p t)"
  by (simp_all add: raises_only_def run_process_def rmtree_def is_file_def file_size_def ask_def
      do_call_def write_text_def)

end
