(* ===== verification/Thumbnail.thy ===== *)
theory Thumbnail
  imports Effects
begin

text \<open>
  \<open>app/worker/thumbnail.py\<close>, and the running of ffprobe from \<open>app/worker/probe.py\<close>: the two
  best-effort reads of a source file. \<open>HDR_TO_SDR\<close> is \<open>app/worker/storage.py\<close>'s.
\<close>

section \<open>Running ffprobe\<close>

definition PROBE_ENTRIES :: string where
  "PROBE_ENTRIES =
     ''stream=width,height,color_transfer,avg_frame_rate''
     @ '':stream_side_data=rotation:stream_tags=rotate:format=duration''"

definition probe_command :: "string \<Rightarrow> string \<Rightarrow> string list" where
  "probe_command ffprobe_binary source_path =
     [ffprobe_binary, ''-v'', ''error'', ''-select_streams'', ''v:0'', ''-show_entries'',
      PROBE_ENTRIES, ''-of'', ''json'', source_path]"

definition run_probe :: "string \<Rightarrow> int \<Rightarrow> string \<Rightarrow> source_probe io" where
  "run_probe ffprobe_binary timeout source_path =
     bind_io (run_process (probe_command ffprobe_binary source_path) timeout)
       (\<lambda>outcome. lift (probe_source outcome))"

section \<open>The offset\<close>

definition HDR_TO_SDR :: string where
  "HDR_TO_SDR =
     ''zscale=t=linear:npl=100,format=gbrpf32le,zscale=p=bt709,''
     @ ''tonemap=tonemap=hable:desat=0,zscale=t=bt709:m=bt709:r=tv''"

definition THUMBNAIL_CONTENT_TYPE :: string where
  "THUMBNAIL_CONTENT_TYPE = ''image/jpeg''"

definition THUMBNAIL_FILENAME :: string where
  "THUMBNAIL_FILENAME = ''thumbnail.jpg''"

definition PREFERRED_OFFSET_FRACTION :: rat where "PREFERRED_OFFSET_FRACTION = fl (1/10)"
definition MIN_OFFSET_SECONDS :: rat where "MIN_OFFSET_SECONDS = 1"
definition MAX_OFFSET_SECONDS :: rat where "MAX_OFFSET_SECONDS = 30"

definition py_min :: "pyfloat \<Rightarrow> pyfloat \<Rightarrow> pyfloat" where
  \<comment> \<open>\<open>min(a, b)\<close>: the first unless the second is smaller\<close>
  "py_min a b = (if float_less b a then b else a)"

definition py_max :: "pyfloat \<Rightarrow> pyfloat \<Rightarrow> pyfloat" where
  "py_max a b = (if float_less a b then b else a)"

fun scaled :: "pyfloat \<Rightarrow> rat \<Rightarrow> pyfloat" where
  \<comment> \<open>\<open>x * k\<close>, for a positive \<open>k\<close>\<close>
  "scaled (Fin x) k = Fin (fl (x * k))"
| "scaled f k = f"

definition thumbnail_offset :: "pyfloat \<Rightarrow> pyfloat" where
  "thumbnail_offset duration =
     (if float_le duration (Fin 0) then Fin 0
      else let preferred = py_min (py_max (scaled duration PREFERRED_OFFSET_FRACTION)
                                    (Fin MIN_OFFSET_SECONDS)) (Fin MAX_OFFSET_SECONDS)
           in py_min preferred (scaled duration (1/2)))"

fun fixed_text :: "nat \<Rightarrow> pyfloat \<Rightarrow> string" where
  "fixed_text k (Fin x) = fixed k x"
| "fixed_text k PInf = ''inf''"
| "fixed_text k NInf = ''-inf''"
| "fixed_text k NaN = ''nan''"

definition build_thumbnail_command ::
  "string \<Rightarrow> string \<Rightarrow> pyfloat \<Rightarrow> int \<Rightarrow> int \<Rightarrow> string \<Rightarrow> bool \<Rightarrow> string list"
where
  "build_thumbnail_command source_path output_path offset max_width max_height ffmpeg_binary is_hdr_source =
     (let scale = ''scale=w='' @ apostrophe @ ''min('' @ dec_int max_width @ '',iw)'' @ apostrophe
            @ '':h='' @ apostrophe @ ''min('' @ dec_int max_height @ '',ih)'' @ apostrophe
            @ '':force_original_aspect_ratio=decrease''
      in [ffmpeg_binary, ''-hide_banner'', ''-loglevel'', ''error'', ''-ss'', fixed_text 3 offset,
          ''-i'', source_path, ''-frames:v'', ''1'', ''-an'', ''-vf'',
          if is_hdr_source then scale @ '','' @ HDR_TO_SDR else scale,
          ''-q:v'', ''4'', ''-y'', output_path])"

section \<open>Taking the frame\<close>

definition tail :: "nat \<Rightarrow> string \<Rightarrow> string" where
  \<comment> \<open>\<open>s[-n:]\<close>\<close>
  "tail n s = drop (length s - n) s"

definition last_lines :: "nat \<Rightarrow> string \<Rightarrow> string" where
  \<comment> \<open>\<open>"\n".join(s.strip().splitlines()[-n:])\<close>\<close>
  "last_lines n s = (let ls = split_lines (strip s) in join newline (drop (length ls - n) ls))"

definition extract_thumbnail ::
  "string \<Rightarrow> int \<Rightarrow> int \<Rightarrow> int \<Rightarrow> string \<Rightarrow> string \<Rightarrow> source_probe \<Rightarrow> string io"
where
  "extract_thumbnail ffmpeg_binary max_width max_height timeout source_path output_path probe =
     bind_io
       (run_process
          (build_thumbnail_command source_path output_path (thumbnail_offset (duration_seconds probe))
             max_width max_height ffmpeg_binary (hdr probe)) timeout)
       (\<lambda>outcome. case outcome of
          RunTimeout \<Rightarrow> raise (OtherError (''ThumbnailError: thumbnail timed out after '' @ dec_int timeout @ ''s''))
        | RunInterrupted \<Rightarrow> raise (Interrupted ''the worker is stopping'')
        | Ran code out err \<Rightarrow>
            if code \<noteq> 0
            then raise (OtherError (''ThumbnailError: thumbnail extraction failed: ''
                   @ or_else (tail 500 (strip err)) ''no FFmpeg error output''))
            else bind_io (is_file output_path) (\<lambda>there.
                 bind_io (file_size output_path) (\<lambda>n.
                   if \<not> there \<or> n = 0
                   then raise (OtherError ''ThumbnailError: FFmpeg produced no thumbnail frame'')
                   else ret output_path)))"

lemma writes_run_probe [writes]: "writes_only K (run_probe b n p)"
  unfolding run_probe_def by (intro writes)

lemma writes_extract_thumbnail [writes]: "writes_only K (extract_thumbnail f w h n s p q)"
  unfolding extract_thumbnail_def
  by (intro writes; simp split: run_outcome.split; intro impI allI conjI writes; simp; intro impI conjI writes)

end
