(* ===== verification/Storage.thy ===== *)
theory Storage
  imports Thumbnail Validation Models
begin

text \<open>
  \<open>app/worker/storage.py\<close>: the object store as the worker sees it, over the storage client, and
  the processing step of an upload: download, probe, check, poster frame, one FFmpeg run (or the
  chunked encoder, when it takes the video), upload. \<open>progress_watch.py\<close> and the writing half of
  \<open>services/progress.py\<close> are here too: they are the encode's progress figure.
\<close>

section \<open>The object store\<close>

record store =
  st_exists :: "string \<Rightarrow> bool io"
  st_copy :: "string \<Rightarrow> string \<Rightarrow> unit io"
  st_download :: "string \<Rightarrow> string \<Rightarrow> unit io"
  st_upload :: "string \<Rightarrow> string \<Rightarrow> string \<Rightarrow> unit io"
  st_delete_prefix :: "string \<Rightarrow> unit io"

definition on_s3_error :: "'a io \<Rightarrow> (string \<Rightarrow> 'a io) \<Rightarrow> 'a io" where
  \<comment> \<open>\<open>except S3Error as exc\<close>, with its code; anything else passes\<close>
  "on_s3_error m handler = catch_io m (\<lambda>x. case x of S3Error code \<Rightarrow> handler code | _ \<Rightarrow> raise x)"

definition minio_object_exists :: "string \<Rightarrow> bool io" where
  "minio_object_exists key =
     on_s3_error (bind_io (do_call (Stat key) (\<lambda>e h. e_stat e h key)) (\<lambda>_. ret True))
       (\<lambda>code. if code = ''NoSuchKey'' \<or> code = ''NoSuchObject'' \<or> code = ''NotFound'' then ret False
         else raise (ObjectStoreError (''object store error checking '' @ key @ '': '' @ code)
                ''storage could not be reached; please try again''))"

definition minio_copy_object :: "string \<Rightarrow> string \<Rightarrow> unit io" where
  "minio_copy_object source_key output_key =
     on_s3_error (do_call (CopyObject source_key output_key) (\<lambda>e h. e_copy e h source_key output_key))
       (\<lambda>code. raise (ObjectStoreError
          (''copy failed from '' @ source_key @ '' to '' @ output_key @ '': '' @ code)
          ''the processed video could not be saved; please try again''))"

definition minio_download_file :: "string \<Rightarrow> string \<Rightarrow> unit io" where
  "minio_download_file key destination =
     on_s3_error (do_call (Get key destination) (\<lambda>e h. e_get e h key destination))
       (\<lambda>code. raise (ObjectStoreError (''download failed for '' @ key @ '': '' @ code)
          ''the uploaded file could not be read back; please try again''))"

definition minio_upload_file :: "string \<Rightarrow> string \<Rightarrow> string \<Rightarrow> unit io" where
  "minio_upload_file key source content_type =
     on_s3_error (do_call (Put key source content_type) (\<lambda>e h. e_put e h key source content_type))
       (\<lambda>code. raise (ObjectStoreError (''upload failed for '' @ key @ '': '' @ code)
          ''the processed video could not be saved; please try again''))"

definition minio_delete_prefix :: "string \<Rightarrow> unit io" where
  "minio_delete_prefix prefix =
     on_s3_error
       (bind_io (do_call (ListObjects prefix) (\<lambda>e h. e_list e h prefix))
          (\<lambda>names. for_io names (\<lambda>k. do_call (RemoveObject k) (\<lambda>e h. e_remove e h k))))
       (\<lambda>code. raise (ObjectStoreError (''cleanup failed under '' @ prefix @ '': '' @ code)
          ''storage could not be reached; please try again''))"

definition minio_object_store :: store where
  "minio_object_store =
     \<lparr>st_exists = minio_object_exists, st_copy = minio_copy_object,
      st_download = minio_download_file, st_upload = minio_upload_file,
      st_delete_prefix = minio_delete_prefix\<rparr>"

section \<open>Filters\<close>

definition DEFAULT_MAX_FPS :: int where "DEFAULT_MAX_FPS = 30"

definition SDR_PIXELS :: string where "SDR_PIXELS = ''format=yuv420p''"

definition BT709_TAGS :: "string list" where
  "BT709_TAGS = [''-colorspace'', ''bt709'', ''-color_primaries'', ''bt709'', ''-color_trc'', ''bt709'']"

definition sdr_filters :: "bool \<Rightarrow> string list" where
  "sdr_filters is_hdr_source = (if is_hdr_source then [HDR_TO_SDR, SDR_PIXELS] else [SDR_PIXELS])"

definition fps_cap_filter :: "int \<Rightarrow> string" where
  "fps_cap_filter max_fps = ''fps=fps=min('' @ dec_int max_fps @ backslash @ '',source_fps)''"

definition mp4_video_filters :: "int \<Rightarrow> int \<Rightarrow> bool \<Rightarrow> string list" where
  "mp4_video_filters max_fps max_height is_hdr_source =
     [fps_cap_filter max_fps, ''scale=-2:min('' @ dec_int max_height @ backslash @ '',ih)'']
     @ sdr_filters is_hdr_source"

section \<open>Progress\<close>

definition set_progress :: "uuid \<Rightarrow> rat \<Rightarrow> unit io" where
  \<comment> \<open>held to 0-99; a Redis that cannot be reached is ignored\<close>
  "set_progress k percent =
     (let n = max 0 (min 99 (trunc_int percent))
      in catch_io (do_call (SetProgress k n) (\<lambda>e h. e_set_progress e h k n)) (\<lambda>_. ret ()))"

fun last_out_time :: "string list \<Rightarrow> int option \<Rightarrow> int option" where
  "last_out_time [] found = found"
| "last_out_time (line # rest) found =
     (let key = takeWhile (\<lambda>c. c \<noteq> CHR ''='') line; value = strip (drop (length key + 1) line)
      in last_out_time rest
           (if key = ''out_time_us'' \<and> all_digits value then Some (int (undec value)) else found))"

definition percent_done :: "string \<Rightarrow> pyfloat \<Rightarrow> rat option" where
  \<comment> \<open>of an endless source the percentage is zero; of one of no known length there is none to report\<close>
  "percent_done text duration =
     (case duration of
        Fin d \<Rightarrow>
          if d \<le> 0 then None
          else (case last_out_time (split_lines text) None of
                  Some t \<Rightarrow> Some (100 * (of_int t / 1000000) / d)
                | None \<Rightarrow> None)
      | PInf \<Rightarrow> (case last_out_time (split_lines text) None of Some t \<Rightarrow> Some 0 | None \<Rightarrow> None)
      | _ \<Rightarrow> None)"

definition read_once :: "string \<Rightarrow> pyfloat \<Rightarrow> (rat \<Rightarrow> unit io) \<Rightarrow> unit io" where
  "read_once progress_file duration report =
     bind_io (attempt (read_text progress_file))
       (\<lambda>text. case text of
          None \<Rightarrow> ret ()
        | Some s \<Rightarrow> (case percent_done s duration of Some p \<Rightarrow> report p | None \<Rightarrow> ret ()))"

section \<open>The processing step\<close>

record processing_result =
  output_key :: string
  hls_key :: "string option"
  ladder_pending :: bool
  result_width :: "int option"
  result_height :: "int option"
  result_duration :: "pyfloat option"
  thumbnail_key :: "string option"

definition bare_result :: "string \<Rightarrow> processing_result" where
  "bare_result key = \<lparr>output_key = key, hls_key = None, ladder_pending = False, result_width = None,
     result_height = None, result_duration = None, thumbnail_key = None\<rparr>"

record chunked_encoder =
  ce_wants :: "source_probe option \<Rightarrow> bool"
  ce_encode :: "uuid \<Rightarrow> string \<Rightarrow> string \<Rightarrow> source_probe option \<Rightarrow> int \<Rightarrow> string \<Rightarrow> string \<Rightarrow> bool io"

record ffmpeg_processor =
  fp_store :: store
  fp_output_prefix :: string
  fp_ffmpeg_binary :: string
  fp_preset :: string
  fp_crf :: int
  fp_max_height :: int
  fp_timeout :: int
  fp_builds_ladder :: bool
  fp_prober :: "(string \<Rightarrow> source_probe io) option"
  fp_source_check :: "(source_probe \<Rightarrow> exn + unit) option"
  fp_thumbnailer :: "(string \<Rightarrow> string \<Rightarrow> source_probe \<Rightarrow> string io) option"
  fp_chunked :: "chunked_encoder option"
  fp_progress :: "(uuid \<Rightarrow> rat \<Rightarrow> unit io) option"

definition path_name :: "string \<Rightarrow> string" where
  "path_name s =
     (let parts = filter (\<lambda>p. p \<noteq> [] \<and> p \<noteq> ''.'') (split_on CHR ''/'' s)
      in if parts = [] then [] else last parts)"

definition path_stem :: "string \<Rightarrow> string" where
  "path_stem s =
     (let name = path_name s; i = length (before_last CHR ''.'' name)
      in if CHR ''.'' \<in> set name \<and> 0 < i \<and> i < length name - 1 then take i name else name)"

definition output_key_for :: "ffmpeg_processor \<Rightarrow> uuid \<Rightarrow> string \<Rightarrow> string" where
  "output_key_for p k source_key =
     fp_output_prefix p @ ''/'' @ uuid_text k @ ''/''
     @ or_else (path_stem source_key) (uuid_text k) @ ''.mp4''"

definition thumbnail_key_for :: "ffmpeg_processor \<Rightarrow> uuid \<Rightarrow> string" where
  "thumbnail_key_for p k = fp_output_prefix p @ ''/'' @ uuid_text k @ ''/'' @ THUMBNAIL_FILENAME"

definition refuse_source :: "exn \<Rightarrow> exn" where
  \<comment> \<open>\<open>except ValueError as exc\<close>: the rules' own class is one\<close>
  "refuse_source x =
     (case x of
        ValueError m \<Rightarrow> ObjectStoreError (''source refused by media rules: '' @ m) m
      | MediaRuleError m \<Rightarrow> ObjectStoreError (''source refused by media rules: '' @ m) m
      | _ \<Rightarrow> x)"

definition probe_step :: "ffmpeg_processor \<Rightarrow> string \<Rightarrow> source_probe option io" where
  "probe_step p source_path =
     (case fp_prober p of
        None \<Rightarrow> ret None
      | Some prober \<Rightarrow>
          (case fp_source_check p of
             None \<Rightarrow> attempt (prober source_path)
           | Some check \<Rightarrow>
               bind_io (prober source_path) (\<lambda>probe.
                 catch_io (bind_io (lift (check probe)) (\<lambda>_. ret (Some probe)))
                   (\<lambda>x. raise (refuse_source x)))))"

definition take_thumbnail ::
  "ffmpeg_processor \<Rightarrow> string \<Rightarrow> source_probe option \<Rightarrow> string \<Rightarrow> string option io"
where
  "take_thumbnail p source_path probe temp_dir =
     (case (fp_thumbnailer p, probe) of
        (Some thumbnailer, Some pr) \<Rightarrow>
          attempt (thumbnailer source_path (in_dir temp_dir ''thumbnail.jpg'') pr)
      | _ \<Rightarrow> ret None)"

definition store_thumbnail :: "ffmpeg_processor \<Rightarrow> uuid \<Rightarrow> string option \<Rightarrow> string option io" where
  "store_thumbnail p k thumbnail_path =
     (case thumbnail_path of
        None \<Rightarrow> ret None
      | Some path \<Rightarrow>
          attempt (bind_io (st_upload (fp_store p) (thumbnail_key_for p k) path THUMBNAIL_CONTENT_TYPE)
            (\<lambda>_. ret (thumbnail_key_for p k))))"

definition encode_command :: "ffmpeg_processor \<Rightarrow> string \<Rightarrow> string \<Rightarrow> int \<Rightarrow> bool \<Rightarrow> string option \<Rightarrow> string list"
where
  "encode_command p source_path output_path max_fps is_hdr_source progress_file =
     [fp_ffmpeg_binary p, ''-hide_banner'', ''-loglevel'', ''error'', ''-i'', source_path, ''-vf'',
      join '','' (mp4_video_filters max_fps (fp_max_height p) is_hdr_source)]
     @ (if is_hdr_source then BT709_TAGS else [])
     @ [''-c:v'', ''libx264'', ''-preset'', fp_preset p, ''-crf'', dec_int (fp_crf p),
        ''-c:a'', ''aac'', ''-movflags'', ''+faststart'']
     @ (case progress_file of Some f \<Rightarrow> [''-progress'', f, ''-nostats''] | None \<Rightarrow> [])
     @ [''-y'', output_path]"

definition too_long :: "int \<Rightarrow> exn" where
  "too_long timeout =
     ObjectStoreError (''transcoding timed out after '' @ dec_int timeout @ '' seconds'')
       (''processing took too long and was stopped after about '' @ dec_int (timeout div 60)
        @ '' minutes; try a shorter or smaller video'')"

definition encode_once ::
  "ffmpeg_processor \<Rightarrow> string \<Rightarrow> string \<Rightarrow> string \<Rightarrow> int \<Rightarrow> bool \<Rightarrow> uuid \<Rightarrow> pyfloat option \<Rightarrow> unit io"
where
  \<comment> \<open>the watching thread's one read of the progress file is placed before the run\<close>
  "encode_once p temp_dir source_path output_path max_fps is_hdr_source k duration =
     (let file = in_dir temp_dir ''progress.txt'';
          watching = fp_progress p \<noteq> None \<and> duration \<noteq> None \<and> duration \<noteq> Some (Fin 0)
      in bind_io
           (case (fp_progress p, duration) of
              (Some report, Some d) \<Rightarrow>
                if watching then attempt (read_once file d (report k)) else ret None
            | _ \<Rightarrow> ret None)
           (\<lambda>_. bind_io
              (run_process (encode_command p source_path output_path max_fps is_hdr_source
                 (if watching then Some file else None)) (fp_timeout p))
              (\<lambda>outcome. case outcome of
                 RunTimeout \<Rightarrow> raise (too_long (fp_timeout p))
               | RunInterrupted \<Rightarrow> raise (Interrupted ''the worker is stopping'')
               | Ran code out err \<Rightarrow>
                   if code \<noteq> 0
                   then raise (ObjectStoreError
                          (''FFmpeg failed: '' @ or_else (take 1000 (last_lines 5 err)) ''no FFmpeg error output'')
                          UNPROCESSABLE_VIDEO)
                   else ret ())))"

definition run_chunked ::
  "ffmpeg_processor \<Rightarrow> uuid \<Rightarrow> string \<Rightarrow> string \<Rightarrow> source_probe option \<Rightarrow> int \<Rightarrow> string \<Rightarrow> string \<Rightarrow> bool io"
where
  "run_chunked p k source_key source_path probe max_fps output_path temp_dir =
     (case fp_chunked p of
        None \<Rightarrow> ret False
      | Some c \<Rightarrow>
          if ce_wants c probe
          then ce_encode c k source_key source_path probe max_fps output_path temp_dir
          else ret False)"

definition process_source ::
  "ffmpeg_processor \<Rightarrow> uuid \<Rightarrow> string \<Rightarrow> int \<Rightarrow> string \<Rightarrow> processing_result io"
where
  \<comment> \<open>the body of the \<open>try\<close>\<close>
  "process_source p k source_key max_fps temp_dir =
     (let source_path = in_dir temp_dir ''source''; output_path = in_dir temp_dir ''output.mp4'' in
      bind_io (st_download (fp_store p) source_key source_path) (\<lambda>_.
      bind_io (probe_step p source_path) (\<lambda>probe.
      bind_io (take_thumbnail p source_path probe temp_dir) (\<lambda>thumbnail_path.
      bind_io (run_chunked p k source_key source_path probe max_fps output_path temp_dir) (\<lambda>chunked.
      bind_io (if chunked then ret ()
               else encode_once p temp_dir source_path output_path max_fps
                      (case probe of Some pr \<Rightarrow> hdr pr | None \<Rightarrow> False) k
                      (map_option duration_seconds probe)) (\<lambda>_.
      bind_io (is_file output_path) (\<lambda>there.
      if \<not> there
      then raise (ObjectStoreError ''FFmpeg completed without producing an output file'' UNPROCESSABLE_VIDEO)
      else
        bind_io (st_upload (fp_store p) (output_key_for p k source_key) output_path ''video/mp4'') (\<lambda>_.
        bind_io (store_thumbnail p k thumbnail_path) (\<lambda>thumb.
          ret \<lparr>output_key = output_key_for p k source_key, hls_key = None,
               ladder_pending = fp_builds_ladder p \<and> probe \<noteq> None,
               result_width = map_option probe_width probe,
               result_height = map_option probe_height probe,
               result_duration = map_option duration_seconds probe,
               thumbnail_key = thumb\<rparr>)))))))))"

definition ffmpeg_run :: "ffmpeg_processor \<Rightarrow> uuid \<Rightarrow> string \<Rightarrow> int \<Rightarrow> processing_result io" where
  "ffmpeg_run p k source_key max_fps =
     bind_io (st_exists (fp_store p) source_key) (\<lambda>there.
       if \<not> there
       then raise (ObjectStoreError (''source object missing from storage: '' @ source_key)
              ''the uploaded file is no longer in storage; please upload it again'')
       else bind_io (mkdtemp ''flickpond-transcode-'') (\<lambda>temp_dir.
              finally_io (process_source p k source_key max_fps temp_dir) (rmtree temp_dir)))"

section \<open>The copying step\<close>

definition copy_run :: "store \<Rightarrow> string \<Rightarrow> uuid \<Rightarrow> string \<Rightarrow> int \<Rightarrow> processing_result io" where
  "copy_run st prefix k source_key max_fps =
     bind_io (st_exists st source_key) (\<lambda>there.
       if \<not> there
       then raise (ObjectStoreError (''source object missing from storage: '' @ source_key)
              ''the uploaded file is no longer in storage; please upload it again'')
       else let key = strip_chars CHR ''/'' prefix @ ''/'' @ uuid_text k @ ''/''
                  @ or_else (path_name source_key) (uuid_text k @ ''.bin'')
            in bind_io (st_copy st source_key key) (\<lambda>_. ret (bare_result key)))"

section \<open>What the store promises\<close>

locale object_store =
  fixes st :: store
  assumes exists_writes: "writes_only (\<lambda>_. False) (st_exists st key)"
    and download_writes: "writes_only (\<lambda>_. False) (st_download st key path)"
    and delete_writes: "writes_only (\<lambda>_. False) (st_delete_prefix st prefix)"
    and upload_writes: "\<exists>t. snd (st_upload st key path ctype e h) = h @ t \<and> puts t = [key]"
begin

lemma upload_puts: "st_upload st key path ctype e h = (r, h') \<Longrightarrow> puts h' = puts h @ [key]"
  using upload_writes [of key path ctype e h] by auto

lemma upload_writes_only: "K key \<Longrightarrow> writes_only K (st_upload st key path ctype)"
  unfolding writes_only_def using upload_writes by fastforce

end

interpretation minio: object_store minio_object_store
proof
  fix key path prefix ctype :: string and e h
  have s3: "writes_only K (on_s3_error m f)" if "writes_only K m" "\<And>c. writes_only K (f c)" for K m f
    unfolding on_s3_error_def by (intro writes that) (auto split: exn.split intro: writes that)
  show "writes_only (\<lambda>_. False) (st_exists minio_object_store key)"
    by (simp add: minio_object_store_def minio_object_exists_def) (intro s3 writes writes_call; simp add: writes)
  show "writes_only (\<lambda>_. False) (st_download minio_object_store key path)"
    by (simp add: minio_object_store_def minio_download_file_def) (intro s3 writes writes_call; simp)
  show "writes_only (\<lambda>_. False) (st_delete_prefix minio_object_store prefix)"
    by (simp add: minio_object_store_def minio_delete_prefix_def) (intro s3 writes writes_call; simp)
  show "\<exists>t. snd (st_upload minio_object_store key path ctype e h) = h @ t \<and> puts t = [key]"
    by (auto simp: minio_object_store_def minio_upload_file_def on_s3_error_def io_defs
        split: sum.split exn.split)
qed

section \<open>What an upload's step leaves behind\<close>

definition quiet_parts :: "ffmpeg_processor \<Rightarrow> bool" where
  \<comment> \<open>the injected parts write nothing to storage\<close>
  "quiet_parts p \<longleftrightarrow>
     (\<forall>prober path. fp_prober p = Some prober \<longrightarrow> quiet (prober path))
     \<and> (\<forall>th a b c. fp_thumbnailer p = Some th \<longrightarrow> quiet (th a b c))
     \<and> (\<forall>ce k a b c d f g. fp_chunked p = Some ce \<longrightarrow> quiet (ce_encode ce k a b c d f g))
     \<and> (\<forall>report k r. fp_progress p = Some report \<longrightarrow> quiet (report k r))"

lemma quiet_bind: "quiet m \<Longrightarrow> (\<And>x. quiet (k x)) \<Longrightarrow> quiet (bind_io m k)"
  unfolding quiet_def bind_io_def by (auto split: prod.split sum.split) (metis snd_conv)+

lemma quiet_catch: "quiet m \<Longrightarrow> (\<And>x. quiet (f x)) \<Longrightarrow> quiet (catch_io m f)"
  unfolding quiet_def catch_io_def by (auto split: prod.split sum.split) (metis snd_conv)+

lemma quiet_attempt: "quiet m \<Longrightarrow> quiet (attempt m)"
  unfolding attempt_def by (intro quiet_catch quiet_bind) (auto simp: quiet_def)

lemma quiet_simps [simp]: "quiet (ret x)" "quiet (raise y)" "quiet (lift z)" "quiet (run_process c n)"
    "quiet (read_text f)" "quiet (is_file f)"
  by (auto intro!: quietI writes)

lemma quiet_probe_step: "quiet_parts p \<Longrightarrow> quiet (probe_step p s)"
  unfolding probe_step_def quiet_parts_def
  by (auto split: option.split intro!: quiet_attempt quiet_bind quiet_catch)

lemma quiet_take_thumbnail: "quiet_parts p \<Longrightarrow> quiet (take_thumbnail p s pr d)"
  unfolding take_thumbnail_def quiet_parts_def by (auto split: option.split intro!: quiet_attempt)

lemma quiet_run_chunked: "quiet_parts p \<Longrightarrow> quiet (run_chunked p k a b c d f g)"
  unfolding run_chunked_def quiet_parts_def by (auto split: option.split)

lemma quiet_encode_once: "quiet_parts p \<Longrightarrow> quiet (encode_once p t s f m b k d)"
  unfolding encode_once_def quiet_parts_def Let_def read_once_def
  by (auto split: option.split run_outcome.split intro!: quiet_bind quiet_attempt)

context object_store
begin

lemma quiet_store: "quiet (st_exists st key)" "quiet (st_download st key path)"
    "quiet (st_delete_prefix st prefix)"
  by (auto intro!: quietI exists_writes download_writes delete_writes)

lemma store_thumbnail_puts:
  assumes "store_thumbnail p k path e h = (r, h')" and "fp_store p = st"
  shows "(\<exists>x. r = Inr x \<and> x \<in> {None, Some (thumbnail_key_for p k)})
    \<and> (puts h' = puts h \<and> r = Inr None \<or> puts h' = puts h @ [thumbnail_key_for p k])"
proof (cases path)
  case None
  with assms show ?thesis by (auto simp: store_thumbnail_def)
next
  case (Some f)
  then have "attempt (bind_io (st_upload st (thumbnail_key_for p k) f THUMBNAIL_CONTENT_TYPE)
      (\<lambda>_. ret (thumbnail_key_for p k))) e h = (r, h')"
    using assms by (simp add: store_thumbnail_def)
  then show ?thesis
    by (cases rule: attempt_cases) (auto simp: bind_io_Inr bind_io_Inl dest!: upload_puts)
qed

lemma process_source_puts:
  assumes run: "process_source p k src fps tmp e h = (r, h')"
    and p: "fp_store p = st" "quiet_parts p"
  shows "case r of
      Inl x \<Rightarrow> puts h' \<in> {puts h, puts h @ [output_key_for p k src]}
    | Inr res \<Rightarrow> output_key res = output_key_for p k src
        \<and> thumbnail_key res \<in> {None, Some (thumbnail_key_for p k)}
        \<and> puts h' \<in> {puts h @ [output_key_for p k src],
             puts h @ [output_key_for p k src, thumbnail_key_for p k]}
        \<and> (thumbnail_key res \<noteq> None \<longrightarrow>
             puts h' = puts h @ [output_key_for p k src, thumbnail_key_for p k])"
proof -
  note steps = quietD [OF quiet_store(2)] quietD [OF quiet_probe_step [OF p(2)]]
    quietD [OF quiet_take_thumbnail [OF p(2)]] quietD [OF quiet_run_chunked [OF p(2)]]
    quietD [OF quiet_encode_once [OF p(2)]] quietD [OF quiet_simps(6)] upload_puts
  show ?thesis
  proof (cases r)
    case (Inl x)
    with run have "puts h' \<in> {puts h, puts h @ [output_key_for p k src]}"
      unfolding process_source_def Let_def p(1)
      by (auto simp: bind_io_Inl bind_io_Inr dest!: steps split: if_splits
          dest: store_thumbnail_puts [OF _ p(1)])
    with Inl show ?thesis by simp
  next
    case (Inr res)
    with run show ?thesis
      unfolding process_source_def Let_def p(1)
      by (auto simp: bind_io_Inl bind_io_Inr dest!: steps split: if_splits
          dest!: store_thumbnail_puts [OF _ p(1)])
  qed
qed

end

section \<open>The deployed step\<close>

record worker_settings =
  ws_output_prefix :: string
  ws_ffmpeg_binary :: string
  ws_ffprobe_binary :: string
  ws_preset :: string
  ws_crf :: int
  ws_max_height :: int
  ws_ffmpeg_timeout :: int
  ws_ffprobe_timeout :: int
  ws_max_duration :: int
  ws_thumbnail_width :: int
  ws_thumbnail_height :: int
  ws_chunked_mp4 :: bool

definition processing_step :: "worker_settings \<Rightarrow> chunked_encoder \<Rightarrow> ffmpeg_processor" where
  \<comment> \<open>\<open>get_processing_step\<close>; the chunked encoder it may be given is \<open>ce\<close>\<close>
  "processing_step ws ce =
     \<lparr>fp_store = minio_object_store, fp_output_prefix = strip_chars CHR ''/'' (ws_output_prefix ws),
      fp_ffmpeg_binary = ws_ffmpeg_binary ws, fp_preset = ws_preset ws, fp_crf = ws_crf ws,
      fp_max_height = ws_max_height ws, fp_timeout = ws_ffmpeg_timeout ws, fp_builds_ladder = True,
      fp_prober = Some (run_probe (ws_ffprobe_binary ws) (ws_ffprobe_timeout ws)),
      fp_source_check = Some (\<lambda>probe. validate_source probe (ws_max_duration ws)),
      fp_thumbnailer = Some (extract_thumbnail (ws_ffmpeg_binary ws) (ws_thumbnail_width ws)
        (ws_thumbnail_height ws) (ws_ffprobe_timeout ws)),
      fp_chunked = (if ws_chunked_mp4 ws then Some ce else None),
      fp_progress = Some set_progress\<rparr>"

definition quiet_encoder :: "chunked_encoder \<Rightarrow> bool" where
  "quiet_encoder ce \<longleftrightarrow> (\<forall>k a b c d f g. quiet (ce_encode ce k a b c d f g))"

lemma quiet_set_progress: "quiet (set_progress k r)"
  unfolding set_progress_def Let_def by (intro quietI writes writes_call) simp

lemma quiet_processing_step: "quiet_encoder ce \<Longrightarrow> quiet_parts (processing_step ws ce)"
  by (auto simp: quiet_parts_def processing_step_def quiet_encoder_def quiet_set_progress
      intro: quietI writes)

section \<open>A sample run\<close>

text \<open>An environment in which everything works, for the concrete instances of the properties.\<close>

definition sample_probe :: json where
  "sample_probe = JObj [(''streams'', JList [JObj [(''width'', JInt 640), (''height'', JInt 360)]]),
     (''format'', JObj [(''duration'', JStr ''12.5'')])]"

definition sample_env :: env where
  "sample_env = \<lparr>e_stat = (\<lambda>h k. Inr ()), e_copy = (\<lambda>h a b. Inr ()), e_get = (\<lambda>h k p. Inr ()),
     e_put = (\<lambda>h k p t. Inr ()), e_list = (\<lambda>h p. Inr []), e_remove = (\<lambda>h k. Inr ()),
     e_run = (\<lambda>h c n. Ran 0 (Some sample_probe) []), e_mkdtemp = (\<lambda>h p. ''/tmp/'' @ p),
     e_is_file = (\<lambda>h p. True), e_file_size = (\<lambda>h p. 1), e_read_text = (\<lambda>h p. Inr []),
     e_files = (\<lambda>h p. []), e_set_progress = (\<lambda>h k n. Inr ()), e_redis = (\<lambda>h. Inr ()),
     e_board = (\<lambda>h b. no_board), e_clock = (\<lambda>h. 0), e_time = (\<lambda>h. 0), e_enqueue = (\<lambda>h t k. Inr ()),
     e_unpack = (\<lambda>h p q. Inr ())\<rparr>"

lemma sample_env_honest: "honest_client sample_env"
  by (simp add: honest_client_def sample_env_def only_s3_def)

definition sample_settings :: worker_settings where
  "sample_settings = \<lparr>ws_output_prefix = ''outputs'', ws_ffmpeg_binary = ''ffmpeg'',
     ws_ffprobe_binary = ''ffprobe'', ws_preset = ''veryfast'', ws_crf = 23, ws_max_height = 720,
     ws_ffmpeg_timeout = 1770, ws_ffprobe_timeout = 30, ws_max_duration = 600, ws_thumbnail_width = 640,
     ws_thumbnail_height = 360, ws_chunked_mp4 = False\<rparr>"

definition sample_encoder :: chunked_encoder where
  "sample_encoder = \<lparr>ce_wants = (\<lambda>p. False), ce_encode = (\<lambda>k a b c d f g. ret False)\<rparr>"

lemma sample_encoder_quiet: "quiet_encoder sample_encoder"
  by (simp add: quiet_encoder_def sample_encoder_def)

text \<open>C21. Whatever storage, FFmpeg and the file system answer, an upload's step writes the finished
  MP4 first and the poster frame only after it, under the job's own prefix; a step that fails has
  written at most the MP4, so no picture is left that no row points at; and the keys it reports are
  keys it wrote.\<close>

theorem upload_step_writes:
  assumes "quiet_encoder ce" and "ffmpeg_run (processing_step ws ce) k src fps e h = (r, h')"
  shows "case r of
      Inl x \<Rightarrow> puts h' \<in> {puts h, puts h @ [output_key_for (processing_step ws ce) k src]}
    | Inr res \<Rightarrow> output_key res = output_key_for (processing_step ws ce) k src
        \<and> puts h' \<in> {puts h @ [output_key res],
             puts h @ [output_key res, thumbnail_key_for (processing_step ws ce) k]}
        \<and> (case thumbnail_key res of
             Some t \<Rightarrow> puts h' = puts h @ [output_key res, t] | None \<Rightarrow> True)"
proof -
  let ?p = "processing_step ws ce"
  have st: "fp_store ?p = minio_object_store" by (simp add: processing_step_def)
  note run_body = minio.process_source_puts [OF _ st quiet_processing_step [OF assms(1)]]
  obtain a h1 where ex: "st_exists minio_object_store src e h = (a, h1)" by fastforce
  then have h1: "puts h1 = puts h" by (rule quietD [OF minio.quiet_store(1)])
  let ?h2 = "h1 @ [Mkdtemp ''flickpond-transcode-'']"
  consider (missing) x where "r = Inl x" "puts h' = puts h"
    | (body) h3 tmp where "process_source ?p k src fps tmp e ?h2 = (r, h3)" "h' = h3 @ [Rmtree tmp]"
  proof (cases "a = Inr True")
    case True
    with assms(2) ex show thesis
      by (auto simp: ffmpeg_run_def st bind_io_def finally_rmtree intro: body)
  next
    case False
    with assms(2) ex h1 show thesis
      by (cases a) (auto simp: ffmpeg_run_def st bind_io_def intro: missing)
  qed
  then show ?thesis
  proof cases
    case missing
    then show ?thesis by simp
  next
    case body
    then show ?thesis using run_body [OF body(1)] h1 by (auto split: sum.splits option.splits)
  qed
qed

theorem upload_step_writes_witness:
  "case fst (ffmpeg_run (processing_step sample_settings sample_encoder) 1 ''uploads/a.mov'' 30 sample_env []) of
      Inl x \<Rightarrow> False
    | Inr res \<Rightarrow> output_key res = output_key_for (processing_step sample_settings sample_encoder) 1 ''uploads/a.mov''"
proof -
  let ?run = "ffmpeg_run (processing_step sample_settings sample_encoder) 1 ''uploads/a.mov'' 30 sample_env []"
  have "\<not> isl (fst ?run)" by code_simp
  with upload_step_writes [OF sample_encoder_quiet, OF prod.collapse [symmetric],
      of sample_settings 1 "''uploads/a.mov''" 30 sample_env "[]"]
  show ?thesis by (auto split: sum.splits)
qed

section \<open>A result that can be stored\<close>

definition result_storable :: "processing_result \<Rightarrow> bool" where
  "result_storable res \<longleftrightarrow>
     strip (output_key res) \<noteq> [] \<and> hls_key res = None
     \<and> (case thumbnail_key res of None \<Rightarrow> True | Some t \<Rightarrow> strip t \<noteq> [])
     \<and> (case result_width res of None \<Rightarrow> True | Some w \<Rightarrow> 0 < w)
     \<and> (case result_height res of None \<Rightarrow> True | Some w \<Rightarrow> 0 < w)
     \<and> (case result_duration res of None \<Rightarrow> True | Some d \<Rightarrow> sql_positive d)
     \<and> (ladder_pending res \<longrightarrow> result_width res \<noteq> None \<and> result_height res \<noteq> None)"

lemma dropWhile_keeps: "x \<in> set xs \<Longrightarrow> \<not> P x \<Longrightarrow> x \<in> set (dropWhile P xs)"
  by (induction xs) auto

lemma strip_visible: "x \<in> set s \<Longrightarrow> \<not> py_space x \<Longrightarrow> strip s \<noteq> []"
proof -
  assume "x \<in> set s" "\<not> py_space x"
  then have "x \<in> set (strip s)"
    by (simp add: strip_def rstrip_def lstrip_def dropWhile_keeps)
  then show ?thesis by auto
qed

lemma strip_path: "strip (a @ ''/'' @ b) \<noteq> []"
  by (rule strip_visible [of "CHR ''/''"]) (auto simp: py_space_def)

lemma not_le_zero: "\<not> float_le d (Fin 0) \<Longrightarrow> sql_positive d"
  by (cases d) auto

lemma run_probe_Inr:
  assumes "run_probe b n path e h = (Inr p, h')"
  shows "0 < probe_width p \<and> 0 < probe_height p \<and> sql_positive (duration_seconds p)"
proof -
  from assms obtain outcome where "probe_source outcome = Inr p"
    by (auto simp: run_probe_def bind_io_Inr)
  then show ?thesis by (rule probe_source_Inr) (auto intro: not_le_zero)
qed

lemma ffmpeg_run_storable:
  assumes "ffmpeg_run (processing_step ws ce) k src fps e h = (Inr res, h')"
  shows "result_storable res"
proof -
  let ?p = "processing_step ws ce"
  from assms obtain tmp h1 h2 where body: "process_source ?p k src fps tmp e h1 = (Inr res, h2)"
    unfolding ffmpeg_run_def by (auto simp: bind_io_Inr finally_io_Inr split: if_splits)
  then obtain probe path h3 h4 h5 h6 thumb where
    probe: "probe_step ?p path e h3 = (Inr probe, h4)" and
    thumb: "store_thumbnail ?p k thumb e h5 = (Inr (thumbnail_key res), h6)" and
    res: "res = \<lparr>output_key = output_key_for ?p k src, hls_key = None,
      ladder_pending = fp_builds_ladder ?p \<and> probe \<noteq> None, result_width = map_option probe_width probe,
      result_height = map_option probe_height probe, result_duration = map_option duration_seconds probe,
      thumbnail_key = thumbnail_key res\<rparr>"
    unfolding process_source_def Let_def by (auto simp: bind_io_Inr split: if_splits)
  have st: "fp_store ?p = minio_object_store" by (simp add: processing_step_def)
  have "\<exists>pr. probe = Some pr \<and> 0 < probe_width pr \<and> 0 < probe_height pr \<and> sql_positive (duration_seconds pr)"
    using probe by (auto simp: probe_step_def processing_step_def bind_io_Inr catch_io_Inr
        dest!: run_probe_Inr)
  moreover have "thumbnail_key res \<in> {None, Some (thumbnail_key_for ?p k)}"
    using minio.store_thumbnail_puts [OF thumb st] by auto
  moreover have "strip (output_key_for ?p k src) \<noteq> []" "strip (thumbnail_key_for ?p k) \<noteq> []"
    unfolding output_key_for_def thumbnail_key_for_def by (simp_all only: append_assoc strip_path not_False_eq_True)
  ultimately show ?thesis by (subst res) (auto simp: result_storable_def)
qed

text \<open>What a successful upload step reports can always be recorded: the output key is not blank,
  sizes and length are positive, and a ladder is only asked for when the size to cut it from is
  known.\<close>

theorem upload_step_storable:
  assumes "ffmpeg_run (processing_step ws ce) k src fps e h = (Inr res, h')"
  shows "result_storable res"
  using assms by (rule ffmpeg_run_storable)

theorem upload_step_storable_witness:
  "case fst (ffmpeg_run (processing_step sample_settings sample_encoder) 1 ''uploads/a.mov'' 30 sample_env []) of
      Inl x \<Rightarrow> False | Inr res \<Rightarrow> result_storable res"
proof -
  let ?run = "ffmpeg_run (processing_step sample_settings sample_encoder) 1 ''uploads/a.mov'' 30 sample_env []"
  have "\<not> isl (fst ?run)" by code_simp
  then obtain res where res: "fst ?run = Inr res" by (cases "fst ?run") auto
  then have "?run = (Inr res, snd ?run)" by (metis prod.collapse)
  then have "result_storable res" by (rule upload_step_storable)
  with res show ?thesis by simp
qed

section \<open>Curated failures\<close>

lemma raises_on_s3:
  assumes "\<And>e h x h'. honest_client e \<Longrightarrow> m e h = (Inl x, h') \<Longrightarrow> \<exists>c. x = S3Error c"
    and "\<And>c. raises_only (f c)"
  shows "raises_only (on_s3_error m f)"
  using assms unfolding raises_only_def on_s3_error_def by (auto simp: catch_io_Inl) fastforce

lemma only_s3_Inl: "only_s3 r \<Longrightarrow> r = Inl x \<Longrightarrow> \<exists>c. x = S3Error c"
  by (cases x) (auto simp: only_s3_def)

lemma client_s3:
  "honest_client e \<Longrightarrow> do_call (Stat k) (\<lambda>e h. e_stat e h k) e h = (Inl x, h') \<Longrightarrow> \<exists>c. x = S3Error c"
  "honest_client e \<Longrightarrow> do_call (Get k p) (\<lambda>e h. e_get e h k p) e h = (Inl x, h') \<Longrightarrow> \<exists>c. x = S3Error c"
  "honest_client e \<Longrightarrow> do_call (Put k p t) (\<lambda>e h. e_put e h k p t) e h = (Inl x, h') \<Longrightarrow> \<exists>c. x = S3Error c"
  unfolding honest_client_def do_call_def by (metis only_s3_Inl prod.inject)+

lemma raises_minio [raises]:
  "raises_only (st_exists minio_object_store key)"
  "raises_only (st_download minio_object_store key path)"
  "raises_only (st_upload minio_object_store key path ctype)"
proof -
  have "raises_only (minio_object_exists key)"
    unfolding minio_object_exists_def
    by (rule raises_on_s3) (auto simp: bind_io_Inl dest: client_s3(1) intro: raises raises_raise)
  then show "raises_only (st_exists minio_object_store key)" by (simp add: minio_object_store_def)
  have "raises_only (minio_download_file key path)"
    unfolding minio_download_file_def
    by (rule raises_on_s3) (auto dest: client_s3(2) intro: raises_raise)
  then show "raises_only (st_download minio_object_store key path)" by (simp add: minio_object_store_def)
  have "raises_only (minio_upload_file key path ctype)"
    unfolding minio_upload_file_def
    by (rule raises_on_s3) (auto dest: client_s3(3) intro: raises_raise)
  then show "raises_only (st_upload minio_object_store key path ctype)" by (simp add: minio_object_store_def)
qed

lemma curated_unprocessable [simp]: "curated (unprocessable d)"
  by (simp add: unprocessable_def)

lemma curated_caught: "size_and_duration s q = Inl y \<Longrightarrow> curated (caught y)"
  by (drule size_and_duration_error) auto

lemma curated_probe: "probe_source outcome = Inl x \<Longrightarrow> curated x"
  by (auto simp: probe_source_def curated_caught
      split: run_outcome.splits if_splits option.splits json.splits sum.splits)

lemma raises_run_probe [raises]: "raises_only (run_probe b n p)"
  unfolding run_probe_def by (intro raises_bind raises raises_lift curated_probe)

end
