(* ===== verification/Chunk_Plan.thy ===== *)
theory Chunk_Plan
  imports Storage
begin

text \<open>
  \<open>app/worker/chunked.py\<close>, the planning half: what ffprobe says of the frames of a source, where
  the pieces of a long video start, how many output frames each writes, and the FFmpeg command that
  encodes one. Frame times are exact (\<open>Fraction\<close>, here \<open>rat\<close>); where the code goes through a float
  the rounding is written out. The two loops of \<open>frame_starts\<close> are partial functions: \<open>None\<close> is a
  loop that never ends. A plan travels as JSON in Redis; here it is the record itself.
\<close>

section \<open>Frames, from ffprobe\<close>

definition bind_ok :: "exn + 'a \<Rightarrow> ('a \<Rightarrow> exn + 'b) \<Rightarrow> exn + 'b" where
  "bind_ok r k = (case r of Inl x \<Rightarrow> Inl x | Inr a \<Rightarrow> k a)"

fun map_ok :: "('a \<Rightarrow> exn + 'b) \<Rightarrow> 'a list \<Rightarrow> exn + 'b list" where
  "map_ok f [] = Inr []"
| "map_ok f (x # xs) = bind_ok (f x) (\<lambda>y. bind_ok (map_ok f xs) (\<lambda>ys. Inr (y # ys)))"

definition decimal_text :: "string \<Rightarrow> rat option" where
  \<comment> \<open>digits, a point, digits, an exponent: exactly\<close>
  "decimal_text s =
     (case split_exponent s of (m, ex) \<Rightarrow>
        let i = takeWhile (\<lambda>c. c \<noteq> CHR ''.'') m; f = drop (length i + 1) m;
            e = (case ex of None \<Rightarrow> Some 0 | Some x \<Rightarrow> parse_int x)
        in if list_all is_digit i \<and> list_all is_digit f \<and> i @ f \<noteq> [] \<and> e \<noteq> None
           then Some (of_nat (undec (i @ f)) * pow10 (the e - int (length f))) else None)"

definition fraction_text :: "string \<Rightarrow> exn + rat" where
  \<comment> \<open>\<open>Fraction(text)\<close>: a fraction or a decimal, without digit grouping\<close>
  "fraction_text t =
     (case unsigned (strip t) of (sg, s) \<Rightarrow>
        let n = takeWhile (\<lambda>c. c \<noteq> CHR ''/'') s; d = drop (length n + 1) s in
        if length n < length s
        then if all_digits n \<and> all_digits d
             then if undec d = 0 then Inl (OtherError ''ZeroDivisionError'')
                  else Inr (of_int sg * of_nat (undec n) / of_nat (undec d))
             else Inl (ValueError ''invalid literal for Fraction'')
        else case decimal_text s of
               Some r \<Rightarrow> Inr (of_int sg * r)
             | None \<Rightarrow> Inl (ValueError ''invalid literal for Fraction''))"

fun fraction_of :: "json \<Rightarrow> exn + rat" where
  "fraction_of (JStr s) = fraction_text s"
| "fraction_of (JInt i) = Inr (of_int i)"
| "fraction_of (JBool b) = Inr (if b then 1 else 0)"
| "fraction_of (JFloat (Fin r)) = Inr r"
| "fraction_of (JFloat NaN) = Inl (ValueError ''cannot convert NaN'')"
| "fraction_of (JFloat _) = Inl (OtherError ''OverflowError'')"
| "fraction_of _ = Inl (TypeError ''argument should be a string or a Rational'')"

definition item :: "json \<Rightarrow> string \<Rightarrow> exn + json" where
  \<comment> \<open>\<open>x[key]\<close>\<close>
  "item x key =
     (case x of
        JObj ps \<Rightarrow> (case map_of ps key of Some v \<Rightarrow> Inr v | None \<Rightarrow> Inl (KeyError key))
      | _ \<Rightarrow> Inl (TypeError ''not a mapping''))"

definition first_item :: "json \<Rightarrow> exn + json" where
  \<comment> \<open>\<open>x[0]\<close>\<close>
  "first_item x =
     (case x of
        JList (y # _) \<Rightarrow> Inr y
      | JList [] \<Rightarrow> Inl (OtherError ''IndexError'')
      | JStr (c # _) \<Rightarrow> Inr (JStr [c])
      | JStr [] \<Rightarrow> Inl (OtherError ''IndexError'')
      | JObj _ \<Rightarrow> Inl (KeyError ''0'')
      | _ \<Rightarrow> Inl (TypeError ''not subscriptable''))"

definition get_item :: "json \<Rightarrow> string \<Rightarrow> json \<Rightarrow> exn + json" where
  \<comment> \<open>\<open>x.get(key, missing)\<close>\<close>
  "get_item x key missing =
     (case x of
        JObj ps \<Rightarrow> Inr (case map_of ps key of Some v \<Rightarrow> v | None \<Rightarrow> missing)
      | _ \<Rightarrow> Inl (OtherError ''AttributeError''))"

definition frame_error :: "exn \<Rightarrow> bool" where
  \<comment> \<open>\<open>except (ValueError, KeyError, IndexError, TypeError, ZeroDivisionError)\<close>\<close>
  "frame_error x \<longleftrightarrow>
     (case x of
        ValueError _ \<Rightarrow> True | KeyError _ \<Rightarrow> True | TypeError _ \<Rightarrow> True
      | OtherError m \<Rightarrow> m = ''IndexError'' \<or> m = ''ZeroDivisionError''
      | _ \<Rightarrow> False)"

definition packet_tick :: "int \<Rightarrow> json \<Rightarrow> exn + int option" where
  \<comment> \<open>\<open>None\<close>: the packet is left out, its \<open>pts\<close> is no number\<close>
  "packet_tick origin packet =
     bind_ok (get_item packet ''pts'' (JStr ''N/A'')) (\<lambda>pts.
       case pts of
         JInt i \<Rightarrow> Inr (Some (i - origin))
       | JStr s \<Rightarrow>
           if all_digits (dropWhile ((=) CHR ''-'') s)
           then bind_ok (py_int (JStr s)) (\<lambda>i. Inr (Some (i - origin))) else Inr None
       | _ \<Rightarrow> Inr None)"

definition packets_of :: "json \<Rightarrow> exn + json list" where
  \<comment> \<open>what a loop over \<open>data.get("packets", [])\<close> goes through\<close>
  "packets_of x =
     (case x of
        JList xs \<Rightarrow> Inr xs
      | JStr s \<Rightarrow> Inr (map (\<lambda>c. JStr [c]) s)
      | JObj ps \<Rightarrow> Inr (map (\<lambda>p. JStr (fst p)) ps)
      | _ \<Rightarrow> Inl (TypeError ''not iterable''))"

definition ticks_of :: "json \<Rightarrow> exn + (int list \<times> rat)" where
  \<comment> \<open>the body of the \<open>try\<close>\<close>
  "ticks_of data =
     bind_ok (item data ''streams'') (\<lambda>streams.
     bind_ok (first_item streams) (\<lambda>stream.
     bind_ok (item stream ''time_base'') (\<lambda>tb.
     bind_ok (fraction_of tb) (\<lambda>time_base.
     bind_ok (get_item data ''format'' (JObj [])) (\<lambda>format.
     bind_ok (get_item format ''start_time'' JNull) (\<lambda>st.
     bind_ok (fraction_of (if py_bool st then st else JStr ''0'')) (\<lambda>start.
       if time_base = 0 then Inl (OtherError ''ZeroDivisionError'')
       else let origin = round_half_even (start / time_base) in
         bind_ok (get_item data ''packets'' (JList [])) (\<lambda>ps.
         bind_ok (packets_of ps) (\<lambda>packets.
         bind_ok (map_ok (packet_tick origin) packets) (\<lambda>ticks.
           Inr (sort (map the (filter (\<lambda>t. t \<noteq> None) ticks)), time_base)))))))))))"

definition or_empty :: "exn + 'a \<Rightarrow> 'a \<Rightarrow> exn + 'a" where
  "or_empty r x = (case r of Inl e \<Rightarrow> if frame_error e then Inr x else Inl e | Inr a \<Rightarrow> Inr a)"

definition read_frame_ticks :: "run_outcome \<Rightarrow> exn + (int list \<times> rat)" where
  \<comment> \<open>given what running ffprobe came to; a timeout is subprocess's own exception\<close>
  "read_frame_ticks outcome =
     (case outcome of
        RunTimeout \<Rightarrow> Inl (OtherError ''TimeoutExpired'')
      | RunInterrupted \<Rightarrow> Inl (Interrupted ''the worker is stopping'')
      | Ran code out err \<Rightarrow>
          if code \<noteq> 0 then Inr ([], 1)
          else case out of None \<Rightarrow> Inr ([], 1) | Some data \<Rightarrow> or_empty (ticks_of data) ([], 1))"

definition guess_rate :: "rat \<Rightarrow> rat \<Rightarrow> rat option" where
  "guess_rate base average =
     (if 0 < average \<and> average < 70 \<and> 210 < base then Some average
      else if 0 < base then Some base else None)"

definition rates_of :: "json \<Rightarrow> exn + (rat \<times> rat)" where
  "rates_of data =
     bind_ok (item data ''streams'') (\<lambda>streams.
     bind_ok (first_item streams) (\<lambda>stream.
     bind_ok (item stream ''r_frame_rate'') (\<lambda>r.
     bind_ok (fraction_of r) (\<lambda>base.
     bind_ok (get_item stream ''avg_frame_rate'' JNull) (\<lambda>a.
     bind_ok (fraction_of (if py_bool a then a else JStr ''0/1'')) (\<lambda>average. Inr (base, average)))))))"

definition read_frame_rate :: "run_outcome \<Rightarrow> exn + rat option" where
  "read_frame_rate outcome =
     (case outcome of
        RunTimeout \<Rightarrow> Inl (OtherError ''TimeoutExpired'')
      | RunInterrupted \<Rightarrow> Inl (Interrupted ''the worker is stopping'')
      | Ran code out err \<Rightarrow>
          if code \<noteq> 0 then Inr None
          else case out of
                 None \<Rightarrow> Inr None
               | Some data \<Rightarrow>
                   or_empty (bind_ok (rates_of data) (\<lambda>(base, average). Inr (guess_rate base average))) None)"

section \<open>Where pieces start\<close>

definition output_tick :: "rat \<Rightarrow> rat \<Rightarrow> int" where
  "output_tick seconds rate = \<lfloor>seconds * rate + 1 / 2\<rfloor>"

definition suitable :: "rat list \<Rightarrow> rat option \<Rightarrow> nat \<Rightarrow> bool" where
  "suitable ts rate i =
     (case rate of
        None \<Rightarrow> True
      | Some r \<Rightarrow> if i = 0 then True else output_tick (ts ! (i - 1)) r < output_tick (ts ! i) r)"

function skip_to :: "rat list \<Rightarrow> rat option \<Rightarrow> rat \<Rightarrow> nat \<Rightarrow> nat" where
  "skip_to ts rate limit index =
     (if index < length ts \<and> (ts ! index < limit \<or> \<not> suitable ts rate index)
      then skip_to ts rate limit (Suc index) else index)"
  by auto
termination
  by (relation "measure (\<lambda>(ts, rate, limit, index). length ts - index)") auto

declare skip_to.simps [simp del]

partial_function (option) next_mark :: "int \<Rightarrow> rat \<Rightarrow> int \<Rightarrow> int option" where
  "next_mark chunk start mark =
     (if of_int mark \<le> start then next_mark chunk start (mark + chunk) else Some mark)"

definition limit_of :: "int \<Rightarrow> rat" where
  \<comment> \<open>\<open>mark - 1e-6\<close>, in floats\<close>
  "limit_of mark = fl (of_int mark - fl (1 / 1000000))"

partial_function (option) frame_loop ::
  "rat list \<Rightarrow> int \<Rightarrow> rat option \<Rightarrow> int \<Rightarrow> nat \<Rightarrow> rat list \<Rightarrow> rat list option"
where
  "frame_loop ts chunk rate mark index starts =
     (if ts \<noteq> [] \<and> of_int mark \<le> last ts
      then let i = skip_to ts rate (limit_of mark) index in
        if i = length ts then Some starts
        else let starts' = (if starts = [] \<or> last starts < ts ! i then starts @ [ts ! i] else starts) in
          Option.bind (next_mark chunk (last starts') (mark + chunk))
            (\<lambda>mark'. frame_loop ts chunk rate mark' i starts')
      else Some starts)"

declare next_mark.simps [code] frame_loop.simps [code]

definition drop_sliver :: "rat list \<Rightarrow> int \<Rightarrow> rat list \<Rightarrow> rat list" where
  "drop_sliver ts chunk starts =
     (if 1 < length starts \<and> last ts - last starts < of_int chunk / 2 then butlast starts else starts)"

definition frame_starts :: "rat list \<Rightarrow> int \<Rightarrow> rat option \<Rightarrow> rat list option" where
  "frame_starts frame_times chunk_seconds rate =
     (let ts = sort frame_times
      in map_option (drop_sliver ts chunk_seconds) (frame_loop ts chunk_seconds rate 0 0 []))"

section \<open>The plan\<close>

definition exact :: "piece_plan \<Rightarrow> bool" where
  "exact plan \<longleftrightarrow> pp_output_rate plan \<noteq> [] \<and> pp_start_ticks plan \<noteq> [] \<and> pp_frames plan \<noteq> []"

definition piece_count :: "piece_plan \<Rightarrow> nat" where
  "piece_count plan = length (pp_starts plan)"

definition piece_bounds :: "piece_plan \<Rightarrow> nat \<Rightarrow> rat \<times> rat option" where
  "piece_bounds plan index =
     (let start = pp_starts plan ! index; seek = max 0 (fl (start - fl (1 / 1000)))
      in if Suc index = piece_count plan then (seek, None)
         else (seek, Some (fl (fl (pp_starts plan ! Suc index - seek) - fl (1 / 2000)))))"

definition rate_name :: "rat \<Rightarrow> string" where
  "rate_name rate = (case quotient_of rate of (p, q) \<Rightarrow> dec_int p @ ''/'' @ dec_int q)"

definition frame_counts :: "rat \<Rightarrow> rat list \<Rightarrow> int list" where
  "frame_counts rate starts =
     map (\<lambda>(start, after). output_tick after rate - output_tick start rate) (zip starts (tl starts)) @ [0]"

record chunk_settings =
  cs_chunk_seconds :: int
  cs_max_height :: int
  cs_preset :: string
  cs_crf :: int

definition plan_pieces ::
  "chunk_settings \<Rightarrow> uuid \<Rightarrow> string \<Rightarrow> int list \<Rightarrow> rat \<Rightarrow> rat option \<Rightarrow> source_probe \<Rightarrow> int
    \<Rightarrow> piece_plan option option"
where
  \<comment> \<open>the first half of \<open>ChunkedMp4.encode\<close>; \<open>Some None\<close> is its \<open>return False\<close>\<close>
  "plan_pieces c k source_key ticks time_base source_rate probe max_fps =
     (case source_rate of
        None \<Rightarrow> Some None
      | Some sr \<Rightarrow>
          let ts = map (\<lambda>t. of_int t * time_base) ticks; rate = min (of_int max_fps) sr in
          map_option (\<lambda>starts.
              if length starts < 2 then None
              else Some \<lparr>pp_job_id = uuid_text k, pp_source_key = source_key, pp_starts = map fl starts,
                     pp_max_fps = max_fps, pp_hdr = hdr probe, pp_max_height = cs_max_height c,
                     pp_preset = cs_preset c, pp_crf = cs_crf c, pp_output_rate = rate_name rate,
                     pp_start_ticks = map (\<lambda>s. trunc_int (s / time_base)) starts,
                     pp_frames = frame_counts rate starts\<rparr>)
            (frame_starts ts (cs_chunk_seconds c) (Some rate)))"

section \<open>The command\<close>

definition piece_command :: "piece_plan \<Rightarrow> nat \<Rightarrow> string \<Rightarrow> string \<Rightarrow> string \<Rightarrow> string list" where
  "piece_command plan index source_path output_path ffmpeg_binary =
     (case piece_bounds plan index of (start, len) \<Rightarrow>
       let filters = mp4_video_filters (pp_max_fps plan) (pp_max_height plan) (pp_hdr plan);
           filters' = (if exact plan
             then [''setpts=PTS-STARTPTS+'' @ dec_int (pp_start_ticks plan ! index),
                   ''fps=fps='' @ pp_output_rate plan] @ tl filters
             else filters)
       in [ffmpeg_binary, ''-hide_banner'', ''-loglevel'', ''error'', ''-ss'', fixed 6 start, ''-i'', source_path]
          @ (if exact plan
             then if pp_frames plan ! index \<noteq> 0 then [''-frames:v'', dec_int (pp_frames plan ! index)] else []
             else case len of Some l \<Rightarrow> [''-t'', fixed 6 l] | None \<Rightarrow> [])
          @ [''-an'', ''-vf'', join '','' (filters' @ [''setpts=PTS-STARTPTS''])]
          @ (if pp_hdr plan then BT709_TAGS else [])
          @ [''-c:v'', ''libx264'', ''-preset'', pp_preset plan, ''-crf'', dec_int (pp_crf plan), ''-y'', output_path])"

definition piece_key :: "string \<Rightarrow> uuid \<Rightarrow> nat \<Rightarrow> string" where
  "piece_key prefix k index =
     strip_chars CHR ''/'' prefix @ ''/'' @ uuid_text k @ ''/pieces/'' @ pad0 4 (dec index) @ ''.mp4''"

definition pieces_prefix :: "string \<Rightarrow> uuid \<Rightarrow> string" where
  "pieces_prefix prefix k = strip_chars CHR ''/'' prefix @ ''/'' @ uuid_text k @ ''/pieces/''"

section \<open>The loops end\<close>

lemma output_tick_mono: "0 \<le> r \<Longrightarrow> s \<le> t \<Longrightarrow> output_tick s r \<le> output_tick t r"
  unfolding output_tick_def by (intro floor_mono add_right_mono mult_right_mono)

lemma skip_to_spec:
  "index \<le> length ts \<Longrightarrow>
   index \<le> skip_to ts rate limit index \<and> skip_to ts rate limit index \<le> length ts
   \<and> (skip_to ts rate limit index < length ts \<longrightarrow>
        limit \<le> ts ! skip_to ts rate limit index \<and> suitable ts rate (skip_to ts rate limit index))"
proof (induction ts rate limit index rule: skip_to.induct)
  case (1 ts rate limit index)
  then show ?case
    by (subst (1 2 3 4 5) skip_to.simps) (auto simp: not_less)
qed

lemma next_mark_ends:
  assumes "0 < chunk"
  shows "\<exists>m. next_mark chunk start mark = Some m \<and> mark \<le> m \<and> start < of_int m"
  using assms
proof (induction "nat (\<lfloor>start\<rfloor> + 1 - mark)" arbitrary: mark rule: less_induct)
  case less
  show ?case
  proof (cases "of_int mark \<le> start")
    case True
    then have "mark \<le> \<lfloor>start\<rfloor>" by (simp add: le_floor_iff)
    with less.prems have "nat (\<lfloor>start\<rfloor> + 1 - (mark + chunk)) < nat (\<lfloor>start\<rfloor> + 1 - mark)" by linarith
    from less.hyps [OF this less.prems] obtain m where
      "next_mark chunk start (mark + chunk) = Some m" "mark + chunk \<le> m" "start < of_int m" by blast
    with True less.prems show ?thesis by (subst next_mark.simps) auto
  next
    case False
    then show ?thesis by (subst next_mark.simps) auto
  qed
qed

lemma next_mark_step:
  assumes "next_mark chunk start mark = Some m"
  shows "chunk \<le> 0 \<longrightarrow> \<not> of_int mark \<le> start"
proof (rule next_mark.raw_induct [where P = "\<lambda>c s k m. c \<le> 0 \<longrightarrow> \<not> of_int k \<le> s", OF _ assms])
  fix f :: "int \<Rightarrow> rat \<Rightarrow> int \<Rightarrow> int option" and c s k m'
  assume "\<And>c s k m. f c s k = Some m \<Longrightarrow> c \<le> 0 \<longrightarrow> \<not> of_int k \<le> s"
    and "(if of_int k \<le> s then f c s (k + c) else Some k) = Some m'"
  note step = this
  show "c \<le> 0 \<longrightarrow> \<not> of_int k \<le> s"
  proof (intro impI notI)
    assume "c \<le> 0" "of_int k \<le> s"
    with step(2) have "f c s (k + c) = Some m'" by simp
    with step(1) \<open>c \<le> 0\<close> have "\<not> of_int (k + c) \<le> s" by blast
    moreover have "rat_of_int (k + c) \<le> of_int k" using \<open>c \<le> 0\<close> by simp
    ultimately show False using \<open>of_int k \<le> s\<close> by (meson order.trans)
  qed
qed

lemma next_mark_stuck: "chunk \<le> 0 \<Longrightarrow> of_int mark \<le> start \<Longrightarrow> next_mark chunk start mark = None"
  by (cases "next_mark chunk start mark") (auto dest: next_mark_step)

section \<open>What the starts are\<close>

definition starts_ok :: "rat list \<Rightarrow> rat option \<Rightarrow> rat list \<Rightarrow> bool" where
  \<comment> \<open>rising, each a frame of the source that begins an output frame\<close>
  "starts_ok ts rate starts \<longleftrightarrow>
     sorted_wrt (<) starts \<and> (\<forall>s\<in>set starts. \<exists>i<length ts. s = ts ! i \<and> suitable ts rate i)"

lemma starts_ok_snoc:
  "starts_ok ts rate starts \<Longrightarrow> i < length ts \<Longrightarrow> suitable ts rate i \<Longrightarrow> starts = [] \<or> last starts < ts ! i
   \<Longrightarrow> starts_ok ts rate (starts @ [ts ! i])"
  unfolding starts_ok_def
  by (cases starts rule: rev_cases) (auto simp: sorted_wrt_append)

lemma frame_loop_ends:
  assumes "0 < chunk" "starts_ok ts rate starts" "index \<le> length ts"
  shows "\<exists>more. frame_loop ts chunk rate mark index starts = Some (starts @ more)
    \<and> starts_ok ts rate (starts @ more)"
  using assms(2,3)
proof (induction "nat (\<lfloor>last ts\<rfloor> + 1 - mark)" arbitrary: mark index starts rule: less_induct)
  case less
  let ?i = "skip_to ts rate (limit_of mark) index"
  let ?s = "if starts = [] \<or> last starts < ts ! ?i then starts @ [ts ! ?i] else starts"
  show ?case
  proof (cases "ts \<noteq> [] \<and> of_int mark \<le> last ts \<and> ?i \<noteq> length ts")
    case True
    from skip_to_spec [OF less.prems(2), of rate "limit_of mark"] True
    have i: "?i < length ts" "suitable ts rate ?i" by auto
    with less.prems(1) have ok: "starts_ok ts rate ?s" by (simp add: starts_ok_snoc)
    from next_mark_ends [OF assms(1)] obtain m where
      m: "next_mark chunk (last ?s) (mark + chunk) = Some m" "mark + chunk \<le> m" by blast
    from True have "mark \<le> \<lfloor>last ts\<rfloor>" by (simp add: le_floor_iff)
    with m(2) assms(1) have "nat (\<lfloor>last ts\<rfloor> + 1 - m) < nat (\<lfloor>last ts\<rfloor> + 1 - mark)" by linarith
    from less.hyps [OF this ok less_imp_le [OF i(1)]] obtain more where
      "frame_loop ts chunk rate m ?i ?s = Some (?s @ more)" "starts_ok ts rate (?s @ more)" by blast
    with True m(1) have "frame_loop ts chunk rate mark index starts = Some (?s @ more)"
      by (subst frame_loop.simps) (simp only: Let_def if_True if_False simp_thms bind.bind_lunit)
    with \<open>starts_ok ts rate (?s @ more)\<close> show ?thesis
      by (intro exI [of _ "if starts = [] \<or> last starts < ts ! ?i then ts ! ?i # more else more"])
        (auto split: if_splits)
  next
    case False
    then have "frame_loop ts chunk rate mark index starts = Some starts"
      by (subst frame_loop.simps) (auto simp: Let_def)
    with less.prems(1) show ?thesis by (intro exI [of _ "[]"]) simp
  qed
qed

lemma starts_ok_first_in_tick:
  assumes "starts_ok ts (Some r) starts" "sorted ts" "0 \<le> r" "s \<in> set starts" "t \<in> set ts" "t < s"
  shows "output_tick t r < output_tick s r"
proof -
  from assms(1,4) obtain i where i: "i < length ts" "s = ts ! i" "suitable ts (Some r) i"
    by (auto simp: starts_ok_def)
  from assms(5) obtain j where j: "j < length ts" "t = ts ! j" by (auto simp: in_set_conv_nth)
  have "j < i"
    using assms(2,6) i(1,2) j by (metis leD leI sorted_nth_mono)
  then have "ts ! j \<le> ts ! (i - 1)" using assms(2) i(1) by (intro sorted_nth_mono) auto
  then have "output_tick t r \<le> output_tick (ts ! (i - 1)) r"
    using assms(3) j(2) by (simp add: output_tick_mono)
  also have "\<dots> < output_tick s r"
    using i \<open>j < i\<close> by (simp add: suitable_def)
  finally show ?thesis .
qed

lemma starts_ok_butlast: "starts_ok ts rate starts \<Longrightarrow> starts_ok ts rate (butlast starts)"
  unfolding starts_ok_def
  by (cases starts rule: rev_cases) (auto simp: sorted_wrt_append)

lemma limit_0: "limit_of 0 \<le> 0"
  by code_simp

lemma frame_loop_first:
  assumes "0 < chunk" "ts \<noteq> []" "0 \<le> ts ! 0" "sorted ts"
  shows "\<exists>more. frame_loop ts chunk rate 0 0 [] = Some (ts ! 0 # more) \<and> starts_ok ts rate (ts ! 0 # more)"
proof -
  have "ts ! 0 \<le> last ts"
    unfolding last_conv_nth [OF assms(2)] using assms(2,4) by (intro sorted_nth_mono) auto
  with assms(3) have "0 \<le> last ts" by simp
  have skip: "skip_to ts rate (limit_of 0) 0 = 0"
    using assms(2,3) limit_0 by (subst skip_to.simps) (auto simp: suitable_def split: option.split)
  from next_mark_ends [OF assms(1)] obtain m where m: "next_mark chunk (ts ! 0) (0 + chunk) = Some m" by blast
  have "starts_ok ts rate [ts ! 0]"
    using assms(2) by (auto simp: starts_ok_def suitable_def split: option.split intro!: exI [of _ 0])
  from frame_loop_ends [OF assms(1) this, of 0 m] obtain more where
    "frame_loop ts chunk rate m 0 [ts ! 0] = Some (ts ! 0 # more)" "starts_ok ts rate (ts ! 0 # more)" by auto
  with assms(2) skip m \<open>0 \<le> last ts\<close> show ?thesis
    by (subst frame_loop.simps) (auto simp: Let_def)
qed

lemma sort_min: "fs \<noteq> [] \<Longrightarrow> sort fs ! 0 = Min (set fs)" for fs :: "rat list"
proof -
  assume "fs \<noteq> []"
  then have ne: "sort fs \<noteq> []" by (metis set_empty set_sort)
  have "sort fs ! 0 \<le> t" if "t \<in> set fs" for t
  proof -
    from that obtain i where "i < length (sort fs)" "t = sort fs ! i" by (metis in_set_conv_nth set_sort)
    then show ?thesis by (simp add: sorted_nth_mono)
  qed
  moreover have "sort fs ! 0 \<in> set fs" using ne by (metis length_greater_0_conv nth_mem set_sort)
  ultimately show ?thesis by (intro Min_eqI [symmetric]) auto
qed

lemma frame_starts_ok:
  assumes "0 < chunk"
  shows "\<exists>starts. frame_starts fs chunk rate = Some starts \<and> starts_ok (sort fs) rate starts
    \<and> (fs \<noteq> [] \<and> (\<forall>t\<in>set fs. 0 \<le> t) \<longrightarrow> starts \<noteq> [] \<and> hd starts = Min (set fs))"
proof (cases "fs \<noteq> [] \<and> (\<forall>t\<in>set fs. 0 \<le> t)")
  case True
  then have "0 \<le> sort fs ! 0" by (simp add: sort_min)
  with True frame_loop_first [OF assms, of "sort fs" rate] obtain more where
    "frame_loop (sort fs) chunk rate 0 0 [] = Some (Min (set fs) # more)"
    "starts_ok (sort fs) rate (Min (set fs) # more)" by (auto simp: sort_min simp flip: length_greater_0_conv)
  then show ?thesis
    using starts_ok_butlast [of "sort fs" rate "Min (set fs) # more"]
    by (auto simp: frame_starts_def drop_sliver_def)
next
  case False
  have "starts_ok (sort fs) rate []" by (simp add: starts_ok_def)
  from frame_loop_ends [OF assms this, of 0 0] obtain more where
    "frame_loop (sort fs) chunk rate 0 0 [] = Some more" "starts_ok (sort fs) rate more" by auto
  with False show ?thesis
    using starts_ok_butlast [of "sort fs" rate more] by (auto simp: frame_starts_def drop_sliver_def)
qed

lemma frame_starts_stuck:
  assumes "chunk \<le> 0" "fs \<noteq> []" "\<forall>t\<in>set fs. 0 \<le> t"
  shows "frame_starts fs chunk rate = None"
proof -
  let ?ts = "sort fs"
  have first: "0 \<le> ?ts ! 0" using assms(2,3) by (simp add: sort_min)
  then have skip: "skip_to ?ts rate (limit_of 0) 0 = 0"
    using assms(2) limit_0 by (subst skip_to.simps) (auto simp: suitable_def split: option.split)
  have "?ts \<noteq> []" using assms(2) by (metis set_empty set_sort)
  then have "0 \<le> last ?ts" using assms(3) by (metis last_in_set set_sort)
  moreover have "next_mark chunk (?ts ! 0) (0 + chunk) = None"
    using first assms(1) by (intro next_mark_stuck) (auto intro: order.trans)
  ultimately have "frame_loop ?ts chunk rate 0 0 [] = None"
    using skip \<open>?ts \<noteq> []\<close> by (subst frame_loop.simps) (auto simp: Let_def)
  then show ?thesis by (simp add: frame_starts_def)
qed

text \<open>Cutting a video at its own frames returns exactly when the piece length is positive. With
  the length 0, which the settings allow, or a negative one the loop over the marks never ends.\<close>

theorem frame_starts_returns:
  assumes "fs \<noteq> []" and "\<forall>t\<in>set fs. 0 \<le> t"
  shows "frame_starts fs chunk_seconds rate \<noteq> None \<longleftrightarrow> 0 < chunk_seconds"
proof (cases "0 < chunk_seconds")
  case True
  with frame_starts_ok [OF True, of fs rate] show ?thesis by auto
next
  case False
  with assms frame_starts_stuck [of chunk_seconds fs rate] show ?thesis by simp
qed

theorem frame_starts_returns_witness:
  "frame_starts [0, 1 / 30] 0 None = None \<and> frame_starts [0, 1 / 30] 10 None \<noteq> None"
  using frame_starts_returns [of "[0, 1 / 30]" 0 None] frame_starts_returns [of "[0, 1 / 30]" 10 None] by simp

section \<open>The pieces share out the output frames\<close>

definition output_frame :: "int \<Rightarrow> rat \<Rightarrow> rat \<Rightarrow> int \<Rightarrow> int" where
  \<comment> \<open>the output frame the rate filter of one whole encode rounds the frame at a tick to\<close>
  "output_frame max_fps source_rate time_base tick =
     output_tick (of_int tick * time_base) (min (of_int max_fps) source_rate)"

lemma frame_counts_nth:
  "length (frame_counts r starts) = (if starts = [] then 1 else length starts)"
  "Suc i < length starts \<Longrightarrow>
     frame_counts r starts ! i = output_tick (starts ! Suc i) r - output_tick (starts ! i) r"
  by (auto simp: frame_counts_def nth_append nth_tl)

lemma tick_back: "0 < tb \<Longrightarrow> trunc_int (of_int t * tb / tb) = t" for tb :: rat
  by (simp add: trunc_int_def)

definition cuts_exactly :: "int list \<Rightarrow> int \<Rightarrow> rat \<Rightarrow> rat \<Rightarrow> int list \<Rightarrow> int list \<Rightarrow> bool" where
  \<comment> \<open>pieces with these first ticks and frame counts share out the output frames of one whole encode\<close>
  "cuts_exactly ticks fps sr tb st fr \<longleftrightarrow>
     set st \<subseteq> set ticks \<and> sorted_wrt (<) st \<and> length fr = length st
     \<and> (\<forall>i. Suc i < length st \<longrightarrow>
          0 < fr ! i \<and> output_frame fps sr tb (st ! Suc i) = output_frame fps sr tb (st ! i) + fr ! i)
     \<and> (\<forall>i t. i < length st \<and> t \<in> set ticks \<longrightarrow>
          (st ! i \<le> t \<longrightarrow> output_frame fps sr tb (st ! i) \<le> output_frame fps sr tb t)
          \<and> (Suc i < length st \<and> t < st ! Suc i \<longrightarrow>
               output_frame fps sr tb t < output_frame fps sr tb (st ! i) + fr ! i))"

lemma starts_undo:
  assumes "starts_ok (sort (map (\<lambda>t. of_int t * tb) ticks)) rate starts" and "0 < tb" and "s \<in> set starts"
  shows "of_int (trunc_int (s / tb)) * tb = s \<and> trunc_int (s / tb) \<in> set ticks"
proof -
  from assms(1,3) have "s \<in> set (map (\<lambda>t. of_int t * tb) ticks)"
    by (metis nth_mem set_sort starts_ok_def)
  then obtain t where "t \<in> set ticks" "s = of_int t * tb" by auto
  then show ?thesis using tick_back [OF assms(2)] by simp
qed

lemma starts_cut_exactly:
  assumes ok: "starts_ok (sort (map (\<lambda>t. of_int t * tb) ticks)) (Some (min (of_int fps) sr)) starts"
    and "0 < tb" "0 \<le> sr" "0 \<le> fps" "starts \<noteq> []"
  shows "cuts_exactly ticks fps sr tb (map (\<lambda>s. trunc_int (s / tb)) starts) (frame_counts (min (of_int fps) sr) starts)"
proof -
  let ?r = "min (of_int fps) sr" and ?ts = "sort (map (\<lambda>t. of_int t * tb) ticks)"
  let ?f = "\<lambda>s. trunc_int (s / tb)" and ?fr = "frame_counts (min (of_int fps) sr) starts"
  note undo = starts_undo [OF ok assms(2)]
  have r: "0 \<le> ?r" using assms(3,4) by simp
  have less: "?f s < ?f s' \<longleftrightarrow> s < s'" if "s \<in> set starts" "s' \<in> set starts" for s s'
    using undo [OF that(1)] undo [OF that(2)] assms(2) by (metis mult_less_cancel_right_pos of_int_less_iff)
  have out: "output_frame fps sr tb (?f s) = output_tick s ?r" if "s \<in> set starts" for s
    using undo [OF that] by (simp add: output_frame_def)
  have mono: "output_frame fps sr tb t \<le> output_frame fps sr tb t'" if "t \<le> t'" for t t'
    using that r assms(2) by (simp add: output_frame_def output_tick_mono)
  have before: "output_frame fps sr tb t < output_tick s ?r"
    if "s \<in> set starts" "t \<in> set ticks" "t < ?f s" for s t
  proof -
    have "of_int t * tb < s"
      using that(3) undo [OF that(1)] assms(2) by (metis mult_less_cancel_right_pos of_int_less_iff)
    moreover have "of_int t * tb \<in> set ?ts" using imageI [OF that(2)] by simp
    ultimately show ?thesis
      using starts_ok_first_in_tick [OF ok sorted_sort r that(1)] by (simp add: output_frame_def)
  qed
  have "sorted_wrt (<) (map ?f starts)"
    using ok less by (auto simp: starts_ok_def sorted_wrt_iff_nth_less)
  moreover have "set (map ?f starts) \<subseteq> set ticks" using undo by auto
  moreover have "length ?fr = length (map ?f starts)"
    using assms(5) by (auto simp: frame_counts_nth)
  moreover have "0 < ?fr ! i" "output_frame fps sr tb (map ?f starts ! Suc i)
      = output_frame fps sr tb (map ?f starts ! i) + ?fr ! i" if "Suc i < length starts" for i
  proof -
    have mem: "starts ! i \<in> set starts" "starts ! Suc i \<in> set starts" using that by simp_all
    have "?f (starts ! i) < ?f (starts ! Suc i)"
      using less [OF mem] ok that by (auto simp: starts_ok_def sorted_wrt_iff_nth_less)
    with before [OF mem(2), of "?f (starts ! i)"] undo [OF mem(1)] out [OF mem(1)]
    show "0 < ?fr ! i" using that by (simp add: frame_counts_nth)
    show "output_frame fps sr tb (map ?f starts ! Suc i) = output_frame fps sr tb (map ?f starts ! i) + ?fr ! i"
      using that out [OF mem(1)] out [OF mem(2)] by (simp add: frame_counts_nth)
  qed
  moreover have "output_frame fps sr tb t < output_frame fps sr tb (map ?f starts ! i) + ?fr ! i"
    if "Suc i < length starts" "t \<in> set ticks" "t < map ?f starts ! Suc i" for i t
    using before [of "starts ! Suc i" t] out [of "starts ! i"] that by (simp add: frame_counts_nth)
  ultimately show ?thesis
    unfolding cuts_exactly_def using mono by (intro conjI allI impI; (elim conjE)?) simp_all
qed

lemma plan_starts:
  assumes "plan_pieces c k src ticks tb (Some sr) pr fps = Some (Some plan)" and "0 < cs_chunk_seconds c"
  obtains starts where
    "starts_ok (sort (map (\<lambda>t. of_int t * tb) ticks)) (Some (min (of_int fps) sr)) starts"
    "pp_start_ticks plan = map (\<lambda>s. trunc_int (s / tb)) starts" "1 < length starts"
    "pp_frames plan = frame_counts (min (of_int fps) sr) starts"
proof -
  from frame_starts_ok [OF assms(2)] obtain starts where starts:
    "frame_starts (map (\<lambda>t. of_int t * tb) ticks) (cs_chunk_seconds c) (Some (min (of_int fps) sr)) = Some starts"
    "starts_ok (sort (map (\<lambda>t. of_int t * tb) ticks)) (Some (min (of_int fps) sr)) starts" by blast
  show thesis
    by (rule that [of starts])
      (use assms(1) starts in \<open>auto simp: plan_pieces_def Let_def split: if_splits\<close>)
qed


definition sample_chunks :: chunk_settings where
  "sample_chunks = \<lparr>cs_chunk_seconds = 1, cs_max_height = 1080, cs_preset = ''veryfast'', cs_crf = 23\<rparr>"

definition sample_ticks :: "int list" where
  \<comment> \<open>two and a half seconds of four frames a second\<close>
  "sample_ticks = [0, 1, 2, 3, 4, 5, 6, 7, 8, 9]"

definition sample_source :: source_probe where
  "sample_source = \<lparr>probe_width = 640, probe_height = 360, duration_seconds = Fin 3, hdr = False,
     frame_rate = None, color_transfer = None\<rparr>"

definition sample_plan :: "piece_plan option option" where
  "sample_plan = plan_pieces sample_chunks 1 ''u'' sample_ticks (1 / 4) (Some 4) sample_source 2"

lemma sample_plan_eval:
  "map_option (map_option (\<lambda>p. (pp_start_ticks p, pp_frames p))) sample_plan = Some (Some ([0, 5], [3, 0]))"
  by code_simp


end
