(* ===== verification/Hls.thy ===== *)
theory Hls
  imports Storage "HOL-Library.Multiset" "HOL-Library.List_Lexorder" "HOL-Library.Char_ord"
begin

text \<open>
  \<open>app/worker/hls.py\<close>: the adaptive ladder. Which rungs a video gets, the FFmpeg filter graph that
  makes them (kept as a list of parts, rendered to text at the end), the command, the labelling of
  the master playlist, and the builder that uploads the result. The piecewise encoder
  (\<open>Ladder_Pieces\<close>) is a parameter of the builder, as it is in the code.
\<close>

section \<open>Rungs\<close>

definition LADDER_HEIGHTS :: "int list" where
  "LADDER_HEIGHTS = [360, 480, 720, 1080, 1440, 2160]"

definition ONLY_AS_TOP_RUNG :: "int set" where
  "ONLY_AS_TOP_RUNG = {480}"

definition CASCADE_FROM :: int where
  "CASCADE_FROM = 1080"

definition BITRATES :: "(int \<times> string) list" where
  "BITRATES = [(360, ''800k''), (480, ''1400k''), (720, ''2800k''), (1080, ''5000k''), (1440, ''8000k''),
     (2160, ''14000k'')]"

definition FALLBACK_BITRATE :: string where "FALLBACK_BITRATE = ''800k''"
definition LADDER_CRF :: int where "LADDER_CRF = 23"
definition PLAYLIST_CONTENT_TYPE :: string where "PLAYLIST_CONTENT_TYPE = ''application/vnd.apple.mpegurl''"
definition SEGMENT_CONTENT_TYPE :: string where "SEGMENT_CONTENT_TYPE = ''video/mp2t''"
definition MASTER_PLAYLIST_NAME :: string where "MASTER_PLAYLIST_NAME = ''master.m3u8''"
definition SEGMENT_SECONDS :: int where "SEGMENT_SECONDS = 6"
definition AUDIO_GROUP :: string where "AUDIO_GROUP = ''audio''"

definition variants_for :: "int \<Rightarrow> int \<Rightarrow> int list" where
  "variants_for height max_height =
     (let rungs = filter (\<lambda>r. r \<le> min height max_height) LADDER_HEIGHTS
      in if rungs = [] then [height]
         else let top = Max (set rungs)
              in sort (filter (\<lambda>r. r = top \<or> r \<notin> ONLY_AS_TOP_RUNG) rungs))"

definition content_type_for :: "string \<Rightarrow> string" where
  "content_type_for name =
     (if ends_with name ''.m3u8'' then PLAYLIST_CONTENT_TYPE
      else if ends_with name ''.m4s'' then ''video/iso.segment''
      else if ends_with name ''.mp4'' then ''video/mp4''
      else SEGMENT_CONTENT_TYPE)"

section \<open>The filter graph\<close>

datatype filter_part = Part (part_input: string) (part_body: string) (part_outputs: "string list")

definition bracket :: "string \<Rightarrow> string" where
  "bracket label = ''['' @ label @ '']''"

definition render_part :: "filter_part \<Rightarrow> string" where
  "render_part p = bracket (part_input p) @ part_body p @ concat (map bracket (part_outputs p))"

fun index_in :: "'a list \<Rightarrow> 'a \<Rightarrow> nat" where
  "index_in [] x = 0"
| "index_in (y # ys) x = (if x = y then 0 else Suc (index_in ys x))"

definition out_label :: "int list \<Rightarrow> int \<Rightarrow> string" where
  "out_label heights h = ''v'' @ dec (index_in heights h) @ ''out''"

definition source_label :: "int \<Rightarrow> string" where "source_label h = ''s'' @ dec_int h"
definition anchor_label :: "int \<Rightarrow> string" where "anchor_label h = ''a'' @ dec_int h"

definition from_source :: "int list \<Rightarrow> int list" where
  "from_source heights =
     (if CASCADE_FROM \<in> set heights then filter (\<lambda>h. CASCADE_FROM \<le> h) heights else heights)"

definition from_anchor :: "int list \<Rightarrow> int list" where
  "from_anchor heights =
     (if CASCADE_FROM \<in> set heights then filter (\<lambda>h. h < CASCADE_FROM) heights else [])"

definition scale_part :: "int list \<Rightarrow> int \<Rightarrow> filter_part" where
  "scale_part heights h =
     (if h = CASCADE_FROM \<and> from_anchor heights \<noteq> []
      then Part (source_label h)
             (''scale=-2:'' @ dec_int h @ '',split='' @ dec (Suc (length (from_anchor heights))))
             (out_label heights h # map anchor_label (from_anchor heights))
      else Part (source_label h) (''scale=-2:'' @ dec_int h) [out_label heights h])"

definition ladder_parts :: "int list \<Rightarrow> string \<Rightarrow> filter_part list" where
  "ladder_parts heights fps =
     Part ''0:v'' (fps @ '',split='' @ dec (length (from_source heights))) (map source_label (from_source heights))
     # map (scale_part heights) (from_source heights)
     @ map (\<lambda>h. Part (anchor_label h) (''scale=-2:'' @ dec_int h) [out_label heights h]) (from_anchor heights)"

definition ladder_filter :: "int list \<Rightarrow> int \<Rightarrow> bool \<Rightarrow> string option \<Rightarrow> string" where
  "ladder_filter heights max_fps is_hdr_source rate_filter =
     join '';'' (map render_part (ladder_parts heights
       (join '','' ((case rate_filter of Some f \<Rightarrow> f | None \<Rightarrow> fps_cap_filter max_fps)
                    # sdr_filters is_hdr_source))))"

definition double :: "string \<Rightarrow> string" where
  "double rate = dec (2 * undec (takeWhile (\<lambda>c. c \<noteq> CHR ''k'') rate)) @ ''k''"

section \<open>The command\<close>

definition ceiling_for :: "int \<Rightarrow> string" where
  "ceiling_for h = (case map_of BITRATES h of Some b \<Rightarrow> b | None \<Rightarrow> FALLBACK_BITRATE)"

definition rung_arguments :: "string \<Rightarrow> nat \<times> int \<Rightarrow> string list" where
  "rung_arguments preset ih =
     (case ih of (i, h) \<Rightarrow>
        [''-map'', ''[v'' @ dec i @ ''out]'', ''-c:v:'' @ dec i, ''libx264'', ''-preset'', preset,
         ''-crf:v:'' @ dec i, dec_int LADDER_CRF, ''-maxrate:v:'' @ dec i, ceiling_for h,
         ''-bufsize:v:'' @ dec i, double (ceiling_for h)])"

definition var_stream_map :: "nat \<Rightarrow> string" where
  "var_stream_map n =
     join '' '' (map (\<lambda>i. ''v:'' @ dec i @ '',agroup:'' @ AUDIO_GROUP) [0..<n])
     @ '' a:0,agroup:'' @ AUDIO_GROUP"

definition build_ladder_command ::
  "string \<Rightarrow> string \<Rightarrow> int list \<Rightarrow> string \<Rightarrow> string \<Rightarrow> int \<Rightarrow> bool \<Rightarrow> string list"
where
  "build_ladder_command source_path output_dir heights ffmpeg_binary preset max_fps is_hdr_source =
     [ffmpeg_binary, ''-hide_banner'', ''-loglevel'', ''error'', ''-i'', source_path, ''-filter_complex'',
      ladder_filter heights max_fps is_hdr_source None]
     @ concat (map (rung_arguments preset) (enumerate 0 heights))
     @ (if is_hdr_source then BT709_TAGS else [])
     @ [''-map'', ''a:0?'', ''-c:a'', ''aac'', ''-b:a'', ''128k'', ''-f'', ''hls'', ''-hls_time'',
        dec_int SEGMENT_SECONDS, ''-hls_playlist_type'', ''vod'', ''-hls_segment_filename'',
        in_dir (in_dir output_dir ''v%v'') ''seg%05d.ts'', ''-master_pl_name'', MASTER_PLAYLIST_NAME,
        ''-var_stream_map'', var_stream_map (length heights), ''-y'',
        in_dir (in_dir output_dir ''v%v'') ''index.m3u8'']"

section \<open>Frame rates in the master playlist\<close>

definition label_line :: "pyfloat \<Rightarrow> string \<Rightarrow> string" where
  "label_line rate line =
     (if starts_with line ''#EXT-X-STREAM-INF:'' \<and> contains line ''RESOLUTION=''
         \<and> \<not> contains line ''FRAME-RATE=''
      then line @ '',FRAME-RATE='' @ fixed_text 3 rate else line)"

definition label_frame_rates :: "string \<Rightarrow> pyfloat \<Rightarrow> string" where
  "label_frame_rates master rate = join newline (map (label_line rate) (split_lines master)) @ newline"

section \<open>The builder\<close>

record ladder_encoder =
  le_wants :: "source_probe \<Rightarrow> bool"
  le_encode :: "uuid \<Rightarrow> string \<Rightarrow> string \<Rightarrow> source_probe \<Rightarrow> int \<Rightarrow> int list \<Rightarrow> string \<Rightarrow> bool io"

record ladder_builder =
  lb_store :: store
  lb_output_prefix :: string
  lb_ffmpeg_binary :: string
  lb_preset :: string
  lb_timeout :: int
  lb_max_height :: int
  lb_prober :: "(string \<Rightarrow> source_probe io) option"
  lb_pieces :: "ladder_encoder option"

definition prefix_for :: "ladder_builder \<Rightarrow> uuid \<Rightarrow> string" where
  "prefix_for b k = lb_output_prefix b @ ''/'' @ uuid_text k @ ''/hls''"

definition with_file_facts :: "ladder_builder \<Rightarrow> string \<Rightarrow> source_probe \<Rightarrow> source_probe io" where
  "with_file_facts b source_path probe =
     (case lb_prober b of
        None \<Rightarrow> ret probe
      | Some prober \<Rightarrow>
          bind_io (attempt (prober source_path)) (\<lambda>found. ret
            (case found of
               None \<Rightarrow> probe
             | Some f \<Rightarrow> probe\<lparr>hdr := hdr probe \<or> hdr f, frame_rate := frame_rate f\<rparr>)))"

definition ladder_discard :: "ladder_builder \<Rightarrow> uuid \<Rightarrow> unit io" where
  "ladder_discard b k = st_delete_prefix (lb_store b) (prefix_for b k @ ''/'')"

definition encode_in_pieces ::
  "ladder_builder \<Rightarrow> uuid \<Rightarrow> string option \<Rightarrow> string \<Rightarrow> source_probe \<Rightarrow> int \<Rightarrow> int list \<Rightarrow> string \<Rightarrow> bool io"
where
  "encode_in_pieces b k source_key source_path probe max_fps heights work_dir =
     (case (lb_pieces b, source_key) of
        (Some pieces, Some key) \<Rightarrow>
          if le_wants pieces probe
          then le_encode pieces k key source_path probe max_fps heights work_dir else ret False
      | _ \<Rightarrow> ret False)"

definition encode_in_one_run ::
  "ladder_builder \<Rightarrow> string \<Rightarrow> source_probe \<Rightarrow> int \<Rightarrow> int list \<Rightarrow> string \<Rightarrow> unit io"
where
  "encode_in_one_run b source_path probe max_fps heights work_dir =
     bind_io
       (run_process (build_ladder_command source_path work_dir heights (lb_ffmpeg_binary b) (lb_preset b)
          max_fps (hdr probe)) (lb_timeout b))
       (\<lambda>outcome. case outcome of
          RunTimeout \<Rightarrow> raise (ObjectStoreError
            (''HLS ladder timed out after '' @ dec_int (lb_timeout b) @ ''s'') UNPROCESSABLE_VIDEO)
        | RunInterrupted \<Rightarrow> raise (Interrupted ''the worker is stopping'')
        | Ran code out err \<Rightarrow>
            if code \<noteq> 0
            then raise (ObjectStoreError
                   (''FFmpeg failed building the HLS ladder: '' @ take 1000 (last_lines 5 err)) UNPROCESSABLE_VIDEO)
            else ret ())"

definition upload_order :: "string list \<Rightarrow> string list" where
  \<comment> \<open>by path, then the master playlist last (both sorts are stable)\<close>
  "upload_order names =
     (let files = sort_key (split_on CHR ''/'') names
      in filter (\<lambda>n. n \<noteq> MASTER_PLAYLIST_NAME) files @ filter (\<lambda>n. n = MASTER_PLAYLIST_NAME) files)"

definition label_master :: "string \<Rightarrow> source_probe \<Rightarrow> int \<Rightarrow> unit io" where
  "label_master master probe max_fps =
     (case frame_rate probe of
        Some rate \<Rightarrow>
          if rate = Fin 0 then ret ()
          else bind_io (read_text master) (\<lambda>text.
                 write_text master (label_frame_rates text (py_min (Fin (of_int max_fps)) rate)))
      | None \<Rightarrow> ret ())"

definition upload_ladder :: "ladder_builder \<Rightarrow> uuid \<Rightarrow> string \<Rightarrow> unit io" where
  "upload_ladder b k work_dir =
     bind_io (ask (\<lambda>e h. e_files e h work_dir)) (\<lambda>names.
       for_io (upload_order names) (\<lambda>relative.
         st_upload (lb_store b) (prefix_for b k @ ''/'' @ relative) (in_dir work_dir relative)
           (content_type_for (after_last CHR ''/'' relative))))"

definition build_in ::
  "ladder_builder \<Rightarrow> uuid \<Rightarrow> string \<Rightarrow> source_probe \<Rightarrow> int \<Rightarrow> string option \<Rightarrow> string \<Rightarrow> string io"
where
  \<comment> \<open>the body of the \<open>try\<close>\<close>
  "build_in b k source_path probe max_fps source_key work_dir =
     (let heights = variants_for (probe_height probe) (lb_max_height b);
          master = in_dir work_dir MASTER_PLAYLIST_NAME in
      bind_io (for_io [0..<Suc (length heights)] (\<lambda>i. mkdir (in_dir work_dir (''v'' @ dec i)))) (\<lambda>_.
      bind_io (encode_in_pieces b k source_key source_path probe max_fps heights work_dir) (\<lambda>pieced.
      bind_io (if pieced then ret () else encode_in_one_run b source_path probe max_fps heights work_dir) (\<lambda>_.
      bind_io (is_file master) (\<lambda>there.
        if \<not> there
        then raise (ObjectStoreError ''FFmpeg produced no master playlist'' UNPROCESSABLE_VIDEO)
        else bind_io (label_master master probe max_fps) (\<lambda>_.
             bind_io (upload_ladder b k work_dir) (\<lambda>_.
               ret (prefix_for b k @ ''/'' @ MASTER_PLAYLIST_NAME))))))))"

definition build_ladder_files ::
  "ladder_builder \<Rightarrow> uuid \<Rightarrow> string \<Rightarrow> source_probe \<Rightarrow> int \<Rightarrow> string option \<Rightarrow> string io"
where
  "build_ladder_files b k source_path probe max_fps source_key =
     bind_io (mkdtemp ''flickpond-hls-'') (\<lambda>work_dir.
       finally_io (build_in b k source_path probe max_fps source_key work_dir) (rmtree work_dir))"

definition ladder_run :: "ladder_builder \<Rightarrow> uuid \<Rightarrow> string \<Rightarrow> source_probe \<Rightarrow> int \<Rightarrow> string io" where
  "ladder_run b k source_key probe max_fps =
     bind_io (mkdtemp ''flickpond-ladder-src-'') (\<lambda>temp_dir.
       finally_io
         (let source_path = in_dir temp_dir ''source'' in
          bind_io (st_download (lb_store b) source_key source_path) (\<lambda>_.
          bind_io (with_file_facts b source_path probe) (\<lambda>facts.
            build_ladder_files b k source_path facts max_fps (Some source_key))))
         (rmtree temp_dir))"

section \<open>The rungs\<close>

lemma variants_for_cases:
  "variants_for height cap =
     (if min height cap < 360 then [height]
      else if min height cap < 480 then [360]
      else if min height cap < 720 then [360, 480]
      else if min height cap < 1080 then [360, 720]
      else if min height cap < 1440 then [360, 720, 1080]
      else if min height cap < 2160 then [360, 720, 1080, 1440]
      else [360, 720, 1080, 1440, 2160])"
proof -
  define m where "m = min height cap"
  consider "m < 360" | "360 \<le> m" "m < 480" | "480 \<le> m" "m < 720" | "720 \<le> m" "m < 1080"
    | "1080 \<le> m" "m < 1440" | "1440 \<le> m" "m < 2160" | "2160 \<le> m" by linarith
  then show ?thesis
    unfolding variants_for_def LADDER_HEIGHTS_def ONLY_AS_TOP_RUNG_def Let_def m_def [symmetric]
    by cases simp_all
qed

text \<open>A ladder always has at least one rung; its rungs rise strictly, and none is taller than the
  source. Whenever the source and the cap allow the lowest rung, none is above the cap either, and
  480p appears only as the top rung.\<close>

theorem variants_for_rungs:
  "variants_for height cap \<noteq> []
   \<and> sorted_wrt (<) (variants_for height cap)
   \<and> (\<forall>r\<in>set (variants_for height cap). r \<le> height)
   \<and> (360 \<le> height \<and> 360 \<le> cap \<longrightarrow>
        (\<forall>r\<in>set (variants_for height cap). r \<in> set LADDER_HEIGHTS \<and> r \<le> cap
           \<and> (r = 480 \<longrightarrow> r = last (variants_for height cap)))
        \<and> (\<forall>r\<in>set LADDER_HEIGHTS. r \<le> height \<and> r \<le> cap \<longrightarrow> r \<le> last (variants_for height cap)))"
  unfolding variants_for_cases by (auto simp: LADDER_HEIGHTS_def)

theorem variants_for_rungs_witness:
  "variants_for 2160 1080 \<noteq> [] \<and> list_all (\<lambda>r. r \<le> 1080) (variants_for 2160 1080)"
  using variants_for_rungs [of 2160 1080] by (auto simp: list_all_iff)

text \<open>The exception: under a cap below the lowest rung, the source's own height is used, above the cap.\<close>

lemma variants_for_low_cap: "variants_for 1080 240 = [1080]"
  by (simp add: variants_for_cases)

section \<open>The graph\<close>

lemma mset_concat_map_Cons: "mset (concat (map (\<lambda>x. f x # g x) xs)) = mset (map f xs) + mset (concat (map g xs))"
  by (induction xs) auto

lemma scale_outputs:
  "concat (map (\<lambda>h. part_outputs (scale_part heights h)) hs)
     = concat (map (\<lambda>h. out_label heights h #
         (if h = CASCADE_FROM then map anchor_label (from_anchor heights) else [])) hs)"
  by (induction hs) (auto simp: scale_part_def)

lemma concat_once:
  "distinct hs \<Longrightarrow> c \<in> set hs \<Longrightarrow> concat (map (\<lambda>h. if h = c then ys else []) hs) = ys"
  by (induction hs) auto

lemma concat_never: "c \<notin> set hs \<Longrightarrow> concat (map (\<lambda>h. if h = c then ys else []) hs) = []"
  by (induction hs) auto

lemma mset_map_partition: "mset (map f xs) = mset (map f (filter P xs)) + mset (map f (filter (\<lambda>x. \<not> P x) xs))"
  by (induction xs) auto

lemma scale_input [simp]: "part_input (scale_part heights h) = source_label h"
  by (simp add: scale_part_def)

text \<open>The filter graph is closed: the labels its parts produce are exactly those its other parts
  consume, each once, together with one output for every rung.\<close>

theorem ladder_graph_closed:
  assumes "distinct heights"
  shows "add_mset ''0:v'' (mset (concat (map part_outputs (ladder_parts heights fps))))
    = mset (map part_input (ladder_parts heights fps)) + mset (map (out_label heights) heights)"
proof -
  let ?S = "from_source heights" and ?A = "from_anchor heights"
  have ins: "mset (map part_input (ladder_parts heights fps))
      = add_mset ''0:v'' (mset (map source_label ?S) + mset (map anchor_label ?A))"
    by (simp add: ladder_parts_def comp_def)
  have split: "mset (map (out_label heights) heights) = mset (map (out_label heights) ?S) + mset (map (out_label heights) ?A)"
    using mset_map_partition [of "out_label heights" heights "\<lambda>h. CASCADE_FROM \<le> h"]
    by (simp add: from_source_def from_anchor_def not_le)
  have anchors: "concat (map (\<lambda>h. if h = CASCADE_FROM then map anchor_label ?A else []) ?S) = map anchor_label ?A"
  proof (cases "CASCADE_FROM \<in> set heights")
    case True
    then show ?thesis using assms by (intro concat_once) (simp_all add: from_source_def)
  next
    case False
    then show ?thesis by (simp add: from_source_def from_anchor_def concat_never)
  qed
  have "mset (concat (map part_outputs (ladder_parts heights fps)))
      = mset (map source_label ?S) + (mset (map (out_label heights) ?S) + mset (map anchor_label ?A))
        + mset (map (out_label heights) ?A)"
    by (simp add: ladder_parts_def comp_def scale_outputs mset_concat_map_Cons anchors
        flip: mset_map)
  with ins split show ?thesis by simp
qed

theorem ladder_graph_closed_witness:
  "add_mset ''0:v'' (mset (concat (map part_outputs (ladder_parts [360, 720, 1080] ''f''))))
    = mset (map part_input (ladder_parts [360, 720, 1080] ''f'')) + mset (map (out_label [360, 720, 1080]) [360, 720, 1080])"
  by (rule ladder_graph_closed) simp

section \<open>The upload\<close>

definition files_listed :: "env \<Rightarrow> bool" where
  \<comment> \<open>the listing of a directory names each file once, and every file there is; writing a file
    removes none\<close>
  "files_listed e \<longleftrightarrow>
     (\<forall>h d. distinct (e_files e h d)) \<and> (\<forall>h d n. e_is_file e h (in_dir d n) \<longrightarrow> n \<in> set (e_files e h d))
     \<and> (\<forall>h f p t. e_is_file e h f \<longrightarrow> e_is_file e (h @ [WriteText p t]) f)"

lemma filter_eq_singleton: "distinct xs \<Longrightarrow> filter (\<lambda>n. n = x) xs = (if x \<in> set xs then [x] else [])"
  by (induction xs) (auto simp: filter_empty_conv)

lemma upload_order_split:
  assumes "distinct names"
  shows "\<exists>others. upload_order names = others @ (if MASTER_PLAYLIST_NAME \<in> set names then [MASTER_PLAYLIST_NAME] else [])
    \<and> MASTER_PLAYLIST_NAME \<notin> set others \<and> set others \<subseteq> set names"
proof -
  let ?s = "sort_key (split_on CHR ''/'') names"
  have "distinct ?s" using assms by simp
  then have "filter (\<lambda>n. n = MASTER_PLAYLIST_NAME) ?s
      = (if MASTER_PLAYLIST_NAME \<in> set names then [MASTER_PLAYLIST_NAME] else [])"
    using filter_eq_singleton [of ?s MASTER_PLAYLIST_NAME] by simp
  then show ?thesis
    by (intro exI [of _ "filter (\<lambda>n. n \<noteq> MASTER_PLAYLIST_NAME) ?s"]) (auto simp: upload_order_def Let_def)
qed

context object_store
begin

lemma upload_each:
  "for_io ns (\<lambda>n. st_upload st (key n) (path n) (ctype n)) e h = (r, h') \<Longrightarrow>
     \<exists>m. puts h' = puts h @ map key (take m ns) \<and> (r = Inr () \<longrightarrow> m = length ns)"
proof (induction ns arbitrary: h)
  case Nil
  then show ?case by (intro exI [of _ 0]) auto
next
  case (Cons n ns)
  obtain u h1 where up: "st_upload st (key n) (path n) (ctype n) e h = (u, h1)" by fastforce
  then have h1: "puts h1 = puts h @ [key n]" by (rule upload_puts)
  show ?case
  proof (cases u)
    case (Inl x)
    with Cons.prems up h1 show ?thesis by (intro exI [of _ 1]) (auto simp: bind_io_def)
  next
    case (Inr a)
    with Cons.prems up have "for_io ns (\<lambda>n. st_upload st (key n) (path n) (ctype n)) e h1 = (r, h')"
      by (simp add: bind_io_def)
    from Cons.IH [OF this] obtain m where
      "puts h' = puts h1 @ map key (take m ns)" "r = Inr () \<longrightarrow> m = length ns" by blast
    with h1 show ?thesis by (intro exI [of _ "Suc m"]) simp
  qed
qed

end

definition quiet_builder :: "ladder_builder \<Rightarrow> bool" where
  "quiet_builder b \<longleftrightarrow> lb_store b = minio_object_store
     \<and> (\<forall>prober path. lb_prober b = Some prober \<longrightarrow> quiet (prober path))
     \<and> (\<forall>le k a c d f g i. lb_pieces b = Some le \<longrightarrow> quiet (le_encode le k a c d f g i))"

lemma quiet_for: "(\<And>x. quiet (f x)) \<Longrightarrow> quiet (for_io xs f)"
  by (induction xs) (auto intro: quiet_bind)

lemma quiet_before_upload:
  assumes "quiet_builder b"
  shows "quiet (with_file_facts b path pr)" "quiet (encode_in_pieces b k sk path pr fps hs d)"
    "quiet (encode_in_one_run b path pr fps hs d)" "quiet (label_master m pr fps)"
    "quiet (for_io is (\<lambda>i. mkdir (dir i)))"
  using assms
  unfolding quiet_builder_def with_file_facts_def encode_in_pieces_def encode_in_one_run_def label_master_def
  by (auto intro!: quiet_bind quiet_attempt quiet_for quietI [OF writes_local(4)] quietI [OF writes_local(5)]
      split: option.split run_outcome.split)

definition master_last :: "ladder_builder \<Rightarrow> uuid \<Rightarrow> string list \<Rightarrow> bool" where
  \<comment> \<open>keys of the job's ladder, the master playlist at most at the end\<close>
  "master_last b k ks \<longleftrightarrow>
     (\<forall>x\<in>set ks. starts_with x (prefix_for b k @ ''/''))
     \<and> prefix_for b k @ ''/'' @ MASTER_PLAYLIST_NAME \<notin> set (butlast ks)"

lemma upload_ladder_puts:
  assumes "quiet_builder b" and "files_listed e" and "upload_ladder b k d e h = (r, h')"
  shows "\<exists>ks. puts h' = puts h @ ks \<and> master_last b k ks
    \<and> (r = Inr () \<and> MASTER_PLAYLIST_NAME \<in> set (e_files e h d) \<longrightarrow>
         ks \<noteq> [] \<and> last ks = prefix_for b k @ ''/'' @ MASTER_PLAYLIST_NAME)"
proof -
  let ?key = "\<lambda>n. prefix_for b k @ ''/'' @ n" and ?names = "e_files e h d"
  have "distinct ?names" using assms(2) by (simp add: files_listed_def)
  from upload_order_split [OF this] obtain others where
    order: "upload_order ?names = others @ (if MASTER_PLAYLIST_NAME \<in> set ?names then [MASTER_PLAYLIST_NAME] else [])"
    and no: "MASTER_PLAYLIST_NAME \<notin> set others" by blast
  from assms(1,3) have "for_io (upload_order ?names) (\<lambda>n. st_upload minio_object_store (?key n) (in_dir d n)
      (content_type_for (after_last CHR ''/'' n))) e h = (r, h')"
    by (simp add: upload_ladder_def bind_io_def ask_def quiet_builder_def)
  from minio.upload_each [OF this] obtain m where
    m: "puts h' = puts h @ map ?key (take m (upload_order ?names))" "r = Inr () \<longrightarrow> m = length (upload_order ?names)"
    by blast
  let ?ks = "map ?key (take m (upload_order ?names))"
  have "set (butlast (take m (upload_order ?names))) \<subseteq> set others"
    unfolding order
    by (cases "m \<le> length others")
      (auto dest: in_set_butlastD in_set_takeD simp: take_all_iff butlast_append split: if_splits)
  with no have "MASTER_PLAYLIST_NAME \<notin> set (butlast (take m (upload_order ?names)))" by blast
  then have "?key MASTER_PLAYLIST_NAME \<notin> set (butlast ?ks)" by (auto simp: map_butlast [symmetric])
  then have "master_last b k ?ks" by (auto simp: master_last_def starts_with_def)
  moreover have "?ks \<noteq> [] \<and> last ?ks = ?key MASTER_PLAYLIST_NAME"
    if "r = Inr ()" "MASTER_PLAYLIST_NAME \<in> set ?names"
    using m(2) that by (simp add: order)
  ultimately show ?thesis using m(1) by blast
qed

lemma label_master_history:
  "label_master m pr fps e h = (Inr (), h') \<Longrightarrow> h' = h \<or> (\<exists>t. h' = h @ [WriteText m t])"
  by (auto simp: label_master_def bind_io_Inr write_text_def do_call_def read_text_def
      split: option.splits if_splits)

definition ladder_outcome :: "ladder_builder \<Rightarrow> uuid \<Rightarrow> call list \<Rightarrow> exn + string \<Rightarrow> call list \<Rightarrow> bool" where
  "ladder_outcome b k h r h' \<longleftrightarrow> (\<exists>ks. puts h' = puts h @ ks \<and> master_last b k ks
     \<and> (\<forall>key. r = Inr key \<longrightarrow> key = prefix_for b k @ ''/'' @ MASTER_PLAYLIST_NAME \<and> ks \<noteq> [] \<and> last ks = key))"

definition writes_ladder :: "env \<Rightarrow> ladder_builder \<Rightarrow> uuid \<Rightarrow> string io \<Rightarrow> bool" where
  "writes_ladder e b k m \<longleftrightarrow> (\<forall>h r h'. m e h = (r, h') \<longrightarrow> ladder_outcome b k h r h')"

lemma ladder_outcome_nothing: "puts h' = puts h \<Longrightarrow> ladder_outcome b k h (Inl x) h'"
  by (simp add: ladder_outcome_def master_last_def)

lemma writes_ladder_raise: "writes_ladder e b k (raise x)"
  by (auto simp: writes_ladder_def raise_def ladder_outcome_nothing)

lemma writes_ladder_bind:
  assumes "quiet m" and "\<And>x. writes_ladder e b k (f x)"
  shows "writes_ladder e b k (bind_io m f)"
  unfolding writes_ladder_def
proof (intro allI impI)
  fix h r h' assume run: "bind_io m f e h = (r, h')"
  obtain q h1 where m: "m e h = (q, h1)" by fastforce
  with assms(1) have same: "puts h1 = puts h" by (rule quietD)
  show "ladder_outcome b k h r h'"
  proof (cases q)
    case (Inl x)
    with run m same show ?thesis by (auto simp: bind_io_def ladder_outcome_nothing)
  next
    case (Inr x)
    with run m have "f x e h1 = (r, h')" by (simp add: bind_io_def)
    with assms(2) [of x] have "ladder_outcome b k h1 r h'" unfolding writes_ladder_def by blast
    with same show ?thesis by (simp add: ladder_outcome_def)
  qed
qed

lemma writes_ladder_finally:
  "writes_ladder e b k m \<Longrightarrow> writes_ladder e b k (finally_io m (rmtree d))"
  unfolding writes_ladder_def finally_rmtree
  by (auto simp: ladder_outcome_def)

lemma label_then_upload:
  assumes q: "quiet_builder b" and f: "files_listed e"
  shows "writes_ladder e b k (bind_io (is_file (in_dir d MASTER_PLAYLIST_NAME)) (\<lambda>there.
        if \<not> there then raise x
        else bind_io (label_master (in_dir d MASTER_PLAYLIST_NAME) pr fps) (\<lambda>_.
             bind_io (upload_ladder b k d) (\<lambda>_. ret (prefix_for b k @ ''/'' @ MASTER_PLAYLIST_NAME)))))"
    (is "writes_ladder e b k ?m")
  unfolding writes_ladder_def
proof (intro allI impI)
  let ?file = "in_dir d MASTER_PLAYLIST_NAME"
  fix h r h' assume run: "?m e h = (r, h')"
  obtain u h1 where l: "label_master ?file pr fps e h = (u, h1)" by fastforce
  have same: "puts h1 = puts h" using l by (rule quietD [OF quiet_before_upload(4) [OF q]])
  obtain v h2 where up: "upload_ladder b k d e h1 = (v, h2)" by fastforce
  from upload_ladder_puts [OF q f up] obtain ks where ks: "puts h2 = puts h1 @ ks" "master_last b k ks"
    "v = Inr () \<and> MASTER_PLAYLIST_NAME \<in> set (e_files e h1 d) \<Longrightarrow>
       ks \<noteq> [] \<and> last ks = prefix_for b k @ ''/'' @ MASTER_PLAYLIST_NAME" by blast
  have there: "MASTER_PLAYLIST_NAME \<in> set (e_files e h1 d)" if "e_is_file e h ?file" "u = Inr ()"
  proof -
    from label_master_history [of ?file pr fps e h h1] l that(2)
    have "h1 = h \<or> (\<exists>t. h1 = h @ [WriteText ?file t])" by simp
    with that(1) f have "e_is_file e h1 ?file" unfolding files_listed_def by blast
    with f show ?thesis unfolding files_listed_def by blast
  qed
  have missing: "r = Inl x \<and> h' = h" if "\<not> e_is_file e h ?file"
    using run that by (simp add: bind_io_def is_file_def ask_def raise_def)
  have found: "bind_io (label_master ?file pr fps) (\<lambda>_. bind_io (upload_ladder b k d)
      (\<lambda>_. ret (prefix_for b k @ ''/'' @ MASTER_PLAYLIST_NAME))) e h = (r, h')" if "e_is_file e h ?file"
    using run that by (simp add: bind_io_def is_file_def ask_def)
  show "ladder_outcome b k h r h'"
  proof (cases "e_is_file e h ?file \<and> u = Inr ()")
    case True
    with found l up have "h' = h2 \<and> r = (case v of Inl y \<Rightarrow> Inl y | Inr _ \<Rightarrow> Inr (prefix_for b k @ ''/'' @ MASTER_PLAYLIST_NAME))"
      by (auto simp: bind_io_def ret_def split: sum.splits)
    with True there ks same show ?thesis
      unfolding ladder_outcome_def by (intro exI [of _ ks]) (auto split: sum.splits)
  next
    case False
    then show ?thesis
    proof (cases u)
      case (Inl y)
      with missing found l same show ?thesis
        by (cases "e_is_file e h ?file") (auto simp: bind_io_def ladder_outcome_nothing)
    next
      case (Inr y)
      with False missing show ?thesis by (auto simp: ladder_outcome_nothing)
    qed
  qed
qed

lemma build_in_writes:
  assumes q: "quiet_builder b" and f: "files_listed e"
  shows "writes_ladder e b k (build_in b k path pr fps sk d)"
  unfolding build_in_def Let_def
  by (intro writes_ladder_bind quiet_before_upload [OF q] label_then_upload [OF q f])
    (auto intro: quiet_before_upload [OF q])

text \<open>The master playlist is written last: until every segment and playlist of the ladder is in
  storage there is nothing that sends a player to them, also when an upload fails half way; and the
  key a ladder reports is the master's, written.\<close>

theorem ladder_master_last:
  assumes "quiet_builder b" and "files_listed e" and "ladder_run b k src probe fps e h = (r, h')"
  shows "\<exists>ks. puts h' = puts h @ ks \<and> master_last b k ks
    \<and> (\<forall>key. r = Inr key \<longrightarrow> key = prefix_for b k @ ''/'' @ MASTER_PLAYLIST_NAME \<and> ks \<noteq> [] \<and> last ks = key)"
proof -
  have st: "lb_store b = minio_object_store" using assms(1) by (simp add: quiet_builder_def)
  have "writes_ladder e b k (ladder_run b k src probe fps)"
    unfolding ladder_run_def build_ladder_files_def st Let_def
    by (intro writes_ladder_bind writes_ladder_finally build_in_writes [OF assms(1,2)]
        minio.quiet_store(2) quiet_before_upload(1) [OF assms(1)] quietI [OF writes_local(2)])
  with assms(3) show ?thesis by (auto simp: writes_ladder_def ladder_outcome_def)
qed

definition sample_builder :: ladder_builder where
  "sample_builder = \<lparr>lb_store = minio_object_store, lb_output_prefix = ''outputs'', lb_ffmpeg_binary = ''ffmpeg'',
     lb_preset = ''veryfast'', lb_timeout = 3570, lb_max_height = 1080, lb_prober = None, lb_pieces = None\<rparr>"

theorem ladder_master_last_witness:
  "\<exists>ks. puts (snd (ladder_run sample_builder 1 ''u'' \<lparr>probe_width = 640, probe_height = 360,
        duration_seconds = Fin 10, hdr = False, frame_rate = None, color_transfer = None\<rparr> 30
        (sample_env\<lparr>e_is_file := \<lambda>h p. False\<rparr>) [])) = puts [] @ ks \<and> master_last sample_builder 1 ks"
proof -
  let ?e = "sample_env\<lparr>e_is_file := \<lambda>h p. False\<rparr>"
  have "quiet_builder sample_builder" by (simp add: quiet_builder_def sample_builder_def)
  moreover have "files_listed ?e" by (simp add: files_listed_def sample_env_def)
  ultimately show ?thesis
    using ladder_master_last [OF _ _ prod.collapse [symmetric], of sample_builder ?e] by blast
qed

end
