(* ===== verification/Ladder_Plan.thy ===== *)
theory Ladder_Plan
  imports Chunk_Plan Hls
begin

text \<open>
  \<open>app/worker/ladder_pieces.py\<close>, the planning half: pieces of whole segments for an adaptive ladder,
  and the commands that encode a piece and the sound. As in \<open>Chunk_Plan\<close>, frame times are exact and a
  loop that never ends is \<open>None\<close>.
\<close>

section \<open>Where pieces start\<close>

fun begin_frames :: "rat \<Rightarrow> int option \<Rightarrow> (int \<times> rat) list \<Rightarrow> rat list \<Rightarrow> (int \<times> rat) list" where
  \<comment> \<open>each output frame and the source frame that begins it, in order of time\<close>
  "begin_frames r previous begins [] = begins"
| "begin_frames r previous begins (t # ts) =
     (let tick = output_tick t r;
          first = (case previous of None \<Rightarrow> True | Some p \<Rightarrow> p < tick)
      in begin_frames r (Some tick)
           (if first \<and> tick \<notin> fst ` set begins then begins @ [(tick, t)] else begins) ts)"

function skip_target :: "(int \<times> rat) list \<Rightarrow> int \<Rightarrow> int \<Rightarrow> int" where
  "skip_target begins final target =
     (if target \<notin> fst ` set begins \<and> target \<le> final then skip_target begins final (target + 1) else target)"
  by auto
termination
  by (relation "measure (\<lambda>(begins, final, target). nat (final + 1 - target))") auto

declare skip_target.simps [simp del]

partial_function (option) segment_loop ::
  "(int \<times> rat) list \<Rightarrow> int \<Rightarrow> int \<Rightarrow> int \<Rightarrow> rat list \<Rightarrow> rat list option"
where
  "segment_loop begins final len target starts =
     (if target \<le> final
      then let t = skip_target begins final target in
        if final < t then Some starts
        else segment_loop begins final len (t + len) (starts @ [the (map_of begins t)])
      else Some starts)"

declare segment_loop.simps [code]

definition piece_length :: "rat \<Rightarrow> int \<Rightarrow> int" where
  \<comment> \<open>in output frames\<close>
  "piece_length rate piece_seconds =
     (let segments = max 1 (round_half_even (fl (of_int piece_seconds / of_int SEGMENT_SECONDS)))
      in \<lceil>of_int (segments * SEGMENT_SECONDS) * rate\<rceil>)"

definition segment_aligned_starts :: "rat list \<Rightarrow> rat \<Rightarrow> int \<Rightarrow> rat list option" where
  "segment_aligned_starts frame_times rate piece_seconds =
     (let len = piece_length rate piece_seconds; begins = begin_frames rate None [] (sort frame_times) in
      if begins = [] then Some []
      else let final = Max (fst ` set begins) in
        map_option (\<lambda>starts.
            if 1 < length starts \<and> of_int (final - output_tick (last starts) rate) < (of_int len / 2 :: rat)
            then butlast starts else starts)
          (segment_loop begins final len (Min (fst ` set begins)) []))"

section \<open>The plan\<close>

record ladder_cutter =
  lc_preset :: string
  lc_piece_seconds :: int

definition plan_ladder ::
  "ladder_cutter \<Rightarrow> uuid \<Rightarrow> string \<Rightarrow> int list \<Rightarrow> rat \<Rightarrow> rat option \<Rightarrow> source_probe \<Rightarrow> int \<Rightarrow> int list
    \<Rightarrow> ladder_plan option option"
where
  \<comment> \<open>\<open>LadderPieces.plan\<close>, given what ffprobe said\<close>
  "plan_ladder c k source_key ticks time_base source_rate probe max_fps heights =
     (case source_rate of
        None \<Rightarrow> Some None
      | Some sr \<Rightarrow>
          if ticks = [] then Some None
          else let rate = min (of_int max_fps) sr in
            map_option (\<lambda>starts.
                if length starts < 2 then None
                else Some \<lparr>lp_job_id = uuid_text k, lp_source_key = source_key, lp_heights = heights,
                       lp_hdr = hdr probe, lp_max_fps = max_fps, lp_preset = lc_preset c,
                       lp_output_rate = rate_name rate, lp_starts = map fl starts,
                       lp_start_ticks = map (\<lambda>s. trunc_int (s / time_base)) starts,
                       lp_first_frames = map (\<lambda>s. output_tick s rate) starts,
                       lp_frames = frame_counts rate starts\<rparr>)
              (segment_aligned_starts (map (\<lambda>t. of_int t * time_base) ticks) rate (lc_piece_seconds c)))"

section \<open>Commands\<close>

definition TIMELINE_START :: int where "TIMELINE_START = 10"

definition ladder_piece_command ::
  "ladder_plan \<Rightarrow> rat \<Rightarrow> nat \<Rightarrow> string \<Rightarrow> string \<Rightarrow> string \<Rightarrow> string list"
where
  \<comment> \<open>\<open>rate\<close> is \<open>Fraction(plan.output_rate)\<close>\<close>
  "ladder_piece_command plan rate index source_path out_dir ffmpeg_binary =
     (let head = ''setpts=PTS-STARTPTS+'' @ dec_int (lp_start_ticks plan ! index)
            @ '',fps=fps='' @ rate_name rate @ '',setpts=PTS-STARTPTS'';
          graph = ladder_filter (lp_heights plan) (lp_max_fps plan) (lp_hdr plan) (Some head);
          seek = max 0 (fl (lp_starts plan ! index - fl (1 / 1000)));
          first = of_int (lp_first_frames plan ! index) / rate
      in [ffmpeg_binary, ''-hide_banner'', ''-loglevel'', ''error'', ''-ss'', fixed 6 seek, ''-i'', source_path,
          ''-filter_complex'', graph]
         @ concat (map (rung_arguments (lp_preset plan)) (enumerate 0 (lp_heights plan)))
         @ (if lp_frames plan ! index \<noteq> 0 then [''-frames:v'', dec_int (lp_frames plan ! index)] else [])
         @ (if lp_hdr plan then BT709_TAGS else [])
         @ [''-r'', rate_name rate,
            ''-force_key_frames'', ''expr:gte(t,n_forced*'' @ dec_int SEGMENT_SECONDS @ '')'',
            ''-output_ts_offset'', fixed 6 (fl (fl first + of_int TIMELINE_START)),
            ''-f'', ''hls'', ''-hls_time'', dec_int SEGMENT_SECONDS, ''-hls_playlist_type'', ''vod'',
            ''-hls_segment_filename'', in_dir (in_dir out_dir ''v%v'') ''seg%05d.ts'',
            ''-var_stream_map'', join '' '' (map (\<lambda>k. ''v:'' @ dec k) [0..<length (lp_heights plan)]),
            ''-y'', in_dir (in_dir out_dir ''v%v'') ''index.m3u8''])"

definition audio_command :: "string \<Rightarrow> string \<Rightarrow> string \<Rightarrow> string list" where
  "audio_command source_path out_dir ffmpeg_binary =
     [ffmpeg_binary, ''-hide_banner'', ''-loglevel'', ''error'', ''-i'', source_path,
      ''-vn'', ''-map'', ''0:a:0'', ''-c:a'', ''aac'', ''-b:a'', ''128k'',
      ''-output_ts_offset'', dec_int TIMELINE_START,
      ''-f'', ''hls'', ''-hls_time'', dec_int SEGMENT_SECONDS, ''-hls_playlist_type'', ''vod'',
      ''-hls_segment_filename'', in_dir out_dir ''seg%05d.ts'', ''-y'', in_dir out_dir ''index.m3u8'']"

definition ladder_prefix :: "string \<Rightarrow> uuid \<Rightarrow> string" where
  "ladder_prefix prefix k = strip_chars CHR ''/'' prefix @ ''/'' @ uuid_text k @ ''/ladder-pieces/''"

definition piece_archive_key :: "string \<Rightarrow> uuid \<Rightarrow> nat \<Rightarrow> string" where
  "piece_archive_key prefix k index = ladder_prefix prefix k @ pad0 4 (dec index) @ ''.tar''"

section \<open>Frames that begin an output frame\<close>

definition begins_ok :: "rat list \<Rightarrow> rat \<Rightarrow> nat \<Rightarrow> (int \<times> rat) list \<Rightarrow> bool" where
  \<comment> \<open>after the first \<open>n\<close> frames: their output frames, rising, each with the frame that begins it\<close>
  "begins_ok ts r n bs \<longleftrightarrow>
     sorted_wrt (<) (map fst bs)
     \<and> (\<forall>(k, t)\<in>set bs. \<exists>i<n. t = ts ! i \<and> k = output_tick t r \<and> suitable ts (Some r) i)
     \<and> fst ` set bs = (\<lambda>t. output_tick t r) ` set (take n ts)"

lemma begins_ok_step:
  assumes "begins_ok ts r n bs" and "n < length ts" and "sorted ts" and "0 \<le> r"
  shows "begins_ok ts r (Suc n) (if suitable ts (Some r) n then bs @ [(output_tick (ts ! n) r, ts ! n)] else bs)"
proof (cases "suitable ts (Some r) n")
  case True
  have "k < output_tick (ts ! n) r" if "(k, t) \<in> set bs" for k t
  proof -
    from that assms(1) obtain i where i: "i < n" "t = ts ! i" "k = output_tick t r"
      by (auto simp: begins_ok_def)
    then have "ts ! i \<le> ts ! (n - 1)" using assms(2,3) by (intro sorted_nth_mono) auto
    with i assms(4) have "k \<le> output_tick (ts ! (n - 1)) r" by (simp add: output_tick_mono)
    also have "\<dots> < output_tick (ts ! n) r" using True i(1) by (simp add: suitable_def)
    finally show ?thesis .
  qed
  then have "\<forall>k\<in>fst ` set bs. k < output_tick (ts ! n) r" by auto
  moreover from this have "\<forall>k\<in>(\<lambda>t. output_tick t r) ` set (take n ts). k < output_tick (ts ! n) r"
    using assms(1) unfolding begins_ok_def by metis
  ultimately show ?thesis using assms(1,2) True
    by (auto simp: begins_ok_def sorted_wrt_append take_Suc_conv_app_nth less_Suc_eq)
next
  case False
  then have "n \<noteq> 0" "output_tick (ts ! n) r \<le> output_tick (ts ! (n - 1)) r"
    by (auto simp: suitable_def split: if_splits)
  moreover have "output_tick (ts ! (n - 1)) r \<le> output_tick (ts ! n) r"
    using assms(2-4) by (intro output_tick_mono sorted_nth_mono) auto
  moreover have "ts ! (n - 1) \<in> set (take n ts)"
    using \<open>n \<noteq> 0\<close> assms(2) by (auto simp: in_set_conv_nth intro!: exI [of _ "n - 1"])
  ultimately have "output_tick (ts ! n) r \<in> (\<lambda>t. output_tick t r) ` set (take n ts)"
    by (intro image_eqI [of _ _ "ts ! (n - 1)"]) (rule antisym)
  with assms(1,2) False show ?thesis
    unfolding begins_ok_def by (auto simp: take_Suc_conv_app_nth less_Suc_eq)
qed

lemma begin_frames_ok:
  assumes "sorted ts" "0 \<le> r" "n \<le> length ts" "begins_ok ts r n bs"
    and "previous = (if n = 0 then None else Some (output_tick (ts ! (n - 1)) r))"
  shows "begins_ok ts r (length ts) (begin_frames r previous bs (drop n ts))"
  using assms(3-5)
proof (induction "length ts - n" arbitrary: n bs previous)
  case 0
  then show ?case by simp
next
  case (Suc m)
  then have n: "n < length ts" by simp
  let ?tick = "output_tick (ts ! n) r"
  have first: "(case previous of None \<Rightarrow> True | Some p \<Rightarrow> p < ?tick) = suitable ts (Some r) n"
    using Suc.prems(3) by (simp add: suitable_def)
  have fresh: "?tick \<notin> fst ` set bs" if "suitable ts (Some r) n"
    using begins_ok_step [OF Suc.prems(2) n assms(1,2)] that
    by (auto simp: begins_ok_def sorted_wrt_append)
  have "begins_ok ts r (length ts) (begin_frames r (Some ?tick)
      (if suitable ts (Some r) n then bs @ [(?tick, ts ! n)] else bs) (drop (Suc n) ts))"
    using Suc.hyps(2) n begins_ok_step [OF Suc.prems(2) n assms(1,2)]
    by (intro Suc.hyps(1)) auto
  with first fresh show ?case
    unfolding Cons_nth_drop_Suc [OF n, symmetric] by (auto simp: Let_def)
qed

lemma begin_frames_of:
  assumes "sorted ts" and "0 \<le> r"
  shows "begins_ok ts r (length ts) (begin_frames r None [] ts)"
proof -
  have "begins_ok ts r 0 []" by (simp add: begins_ok_def)
  from begin_frames_ok [OF assms _ this, of None] show ?thesis by simp
qed

section \<open>The loop\<close>

lemma skip_target_spec:
  "target \<le> skip_target bs final target
   \<and> (skip_target bs final target \<le> final \<longrightarrow> skip_target bs final target \<in> fst ` set bs)
   \<and> (\<forall>k\<in>fst ` set bs. target \<le> k \<longrightarrow> skip_target bs final target \<le> k)"
proof (induction bs final target rule: skip_target.induct)
  case (1 bs final target)
  show ?case
  proof (cases "target \<notin> fst ` set bs \<and> target \<le> final")
    case True
    with 1 have IH: "target + 1 \<le> skip_target bs final (target + 1)"
      "skip_target bs final (target + 1) \<le> final \<longrightarrow> skip_target bs final (target + 1) \<in> fst ` set bs"
      "\<forall>k\<in>fst ` set bs. target + 1 \<le> k \<longrightarrow> skip_target bs final (target + 1) \<le> k" by auto
    have "skip_target bs final target = skip_target bs final (target + 1)"
      using True by (subst skip_target.simps) simp
    moreover have "target + 1 \<le> k" if "k \<in> fst ` set bs" "target \<le> k" for k
      using True that by (cases "k = target") auto
    ultimately show ?thesis using IH by auto
  next
    case False
    then have "skip_target bs final target = target" by (subst skip_target.simps) auto
    with False show ?thesis by auto
  qed
qed

definition whole_segments :: "(int \<times> rat) list \<Rightarrow> rat \<Rightarrow> int \<Rightarrow> rat list \<Rightarrow> bool" where
  \<comment> \<open>starts begin output frames; from each to the next there are at least \<open>len\<close> of them, and exactly
    \<open>len\<close> where the source has a frame for that one\<close>
  "whole_segments bs r len starts \<longleftrightarrow>
     (\<forall>s\<in>set starts. (output_tick s r, s) \<in> set bs)
     \<and> (\<forall>i. Suc i < length starts \<longrightarrow>
          output_tick (starts ! i) r + len \<le> output_tick (starts ! Suc i) r
          \<and> (output_tick (starts ! i) r + len \<in> fst ` set bs \<longrightarrow>
               output_tick (starts ! Suc i) r = output_tick (starts ! i) r + len))"

lemma whole_segments_snoc:
  assumes "whole_segments bs r len starts" and "(t, s) \<in> set bs" and "t = output_tick s r"
    and "starts \<noteq> [] \<Longrightarrow> output_tick (last starts) r + len \<le> t
      \<and> (output_tick (last starts) r + len \<in> fst ` set bs \<longrightarrow> t = output_tick (last starts) r + len)"
  shows "whole_segments bs r len (starts @ [s])"
proof (cases starts rule: rev_cases)
  case Nil
  with assms(2,3) show ?thesis by (auto simp: whole_segments_def)
next
  case (snoc us u)
  show ?thesis
    using assms(1-3) assms(4) unfolding snoc
    by (auto simp: whole_segments_def nth_append less_Suc_eq split: if_splits)
qed

lemma segment_loop_ends:
  assumes "0 < len" and "distinct (map fst bs)" and "\<forall>(k, t)\<in>set bs. k = output_tick t r"
    and "whole_segments bs r len starts"
    and "starts \<noteq> [] \<Longrightarrow> target = output_tick (last starts) r + len"
  shows "\<exists>more. segment_loop bs final len target starts = Some (starts @ more) \<and> whole_segments bs r len (starts @ more)"
  using assms(4,5)
proof (induction "nat (final + 1 - target)" arbitrary: target starts rule: less_induct)
  case less
  let ?t = "skip_target bs final target"
  show ?case
  proof (cases "target \<le> final \<and> ?t \<le> final")
    case True
    with skip_target_spec [of target bs final] have t: "target \<le> ?t" "?t \<in> fst ` set bs"
      "\<forall>k\<in>fst ` set bs. target \<le> k \<longrightarrow> ?t \<le> k" by auto
    then obtain s where s: "(?t, s) \<in> set bs" by auto
    with assms(2) have look: "map_of bs ?t = Some s" by (rule map_of_is_SomeI)
    have tick: "?t = output_tick s r" using s assms(3) by auto
    have ok: "whole_segments bs r len (starts @ [s])"
      using less.prems(2) t
      by (intro whole_segments_snoc [OF less.prems(1) s tick]) (auto intro: antisym)
    have "nat (final + 1 - (?t + len)) < nat (final + 1 - target)" using True t(1) assms(1) by linarith
    from less.hyps [OF this ok] tick obtain more where
      "segment_loop bs final len (?t + len) (starts @ [s]) = Some ((starts @ [s]) @ more)"
      "whole_segments bs r len ((starts @ [s]) @ more)" by auto
    with True look show ?thesis
      by (subst segment_loop.simps) (auto simp: Let_def intro!: exI [of _ "s # more"])
  next
    case False
    then have "segment_loop bs final len target starts = Some starts"
      by (subst segment_loop.simps) (auto simp: Let_def not_le)
    with less.prems(1) show ?thesis by (intro exI [of _ "[]"]) simp
  qed
qed

lemma whole_segments_butlast: "whole_segments bs r len starts \<Longrightarrow> whole_segments bs r len (butlast starts)"
  by (cases starts rule: rev_cases) (auto simp: whole_segments_def nth_append split: if_splits)

lemma whole_segments_starts_ok:
  assumes "whole_segments bs r len starts" and "0 < len" and "begins_ok ts r (length ts) bs"
    and "sorted ts" "0 \<le> r"
  shows "starts_ok ts (Some r) starts"
  unfolding starts_ok_def
proof
  have "output_tick (starts ! i) r < output_tick (starts ! Suc i) r" if "Suc i < length starts" for i
    using assms(1,2) that by (force simp: whole_segments_def)
  then have "starts ! i < starts ! Suc i" if "Suc i < length starts" for i
    using that assms(5) output_tick_mono by (meson leD leI)
  then show "sorted_wrt (<) starts"
    by (metis sorted_wrt_iff_nth_Suc_transp transp_on_less)
  show "\<forall>s\<in>set starts. \<exists>i<length ts. s = ts ! i \<and> suitable ts (Some r) i"
    using assms(1,3) by (fastforce simp: whole_segments_def begins_ok_def)
qed

lemma segment_aligned_ok:
  assumes "0 < piece_length rate secs" and "0 \<le> rate"
  shows "\<exists>starts. segment_aligned_starts fs rate secs = Some starts
    \<and> whole_segments (begin_frames rate None [] (sort fs)) rate (piece_length rate secs) starts"
proof -
  let ?bs = "begin_frames rate None [] (sort fs)" and ?len = "piece_length rate secs"
  have ok: "begins_ok (sort fs) rate (length (sort fs)) ?bs" by (rule begin_frames_of) (use assms in auto)
  have "distinct (map fst ?bs)" using ok by (simp add: begins_ok_def strict_sorted_iff)
  moreover have "\<forall>(k, t)\<in>set ?bs. k = output_tick t rate" using ok by (auto simp: begins_ok_def)
  moreover have nil: "whole_segments ?bs rate ?len []" by (simp add: whole_segments_def)
  ultimately obtain starts where
    "segment_loop ?bs (Max (fst ` set ?bs)) ?len (Min (fst ` set ?bs)) [] = Some starts"
    "whole_segments ?bs rate ?len starts"
    using segment_loop_ends [OF assms(1)] by (metis append_Nil)
  with nil whole_segments_butlast [of ?bs rate ?len starts] show ?thesis
    by (auto simp: segment_aligned_starts_def Let_def)
qed

lemma piece_length_pos: "0 < rate \<Longrightarrow> 0 < piece_length rate secs"
  by (simp add: piece_length_def Let_def SEGMENT_SECONDS_def zero_less_ceiling)

lemma begins_keys:
  assumes "0 \<le> rate"
  shows "fst ` set (begin_frames rate None [] (sort fs)) = (\<lambda>t. output_tick t rate) ` set fs"
  using begin_frames_of [of "sort fs" rate] assms by (simp add: begins_ok_def)

lemma plan_ladder_starts:
  assumes "plan_ladder c k src ticks tb (Some sr) pr fps heights = Some (Some plan)" and "0 < sr" and "0 < fps"
  obtains starts where
    "whole_segments (begin_frames (min (of_int fps) sr) None [] (sort (map (\<lambda>t. of_int t * tb) ticks)))
       (min (of_int fps) sr) (piece_length (min (of_int fps) sr) (lc_piece_seconds c)) starts"
    "lp_start_ticks plan = map (\<lambda>s. trunc_int (s / tb)) starts" "1 < length starts"
    "lp_frames plan = frame_counts (min (of_int fps) sr) starts"
proof -
  have r: "0 < min (of_int fps) sr" using assms(2,3) by simp
  from segment_aligned_ok [OF piece_length_pos [OF r] less_imp_le [OF r]] obtain starts where starts:
    "segment_aligned_starts (map (\<lambda>t. of_int t * tb) ticks) (min (of_int fps) sr) (lc_piece_seconds c) = Some starts"
    "whole_segments (begin_frames (min (of_int fps) sr) None [] (sort (map (\<lambda>t. of_int t * tb) ticks)))
       (min (of_int fps) sr) (piece_length (min (of_int fps) sr) (lc_piece_seconds c)) starts" by blast
  show thesis
    by (rule that [of starts])
      (use assms(1) starts in \<open>auto simp: plan_ladder_def Let_def split: if_splits\<close>)
qed

text \<open>The pieces of a planned ladder share out the output frames of one whole encode, as those of
  the MP4 do, and every piece but the last is whole segments: at least as many output frames as its
  segments hold, and exactly that many wherever the source has a frame for the next one.\<close>

theorem ladder_pieces_whole_segments:
  assumes "plan_ladder c k src ticks tb (Some sr) pr fps heights = Some (Some plan)"
    and "0 < tb" and "0 < sr" and "0 < fps"
  shows "cuts_exactly ticks fps sr tb (lp_start_ticks plan) (lp_frames plan)
    \<and> (\<forall>i. Suc i < length (lp_start_ticks plan) \<longrightarrow>
         piece_length (min (of_int fps) sr) (lc_piece_seconds c) \<le> lp_frames plan ! i
         \<and> ((\<exists>t\<in>set ticks. output_frame fps sr tb t = output_frame fps sr tb (lp_start_ticks plan ! i)
                + piece_length (min (of_int fps) sr) (lc_piece_seconds c)) \<longrightarrow>
              lp_frames plan ! i = piece_length (min (of_int fps) sr) (lc_piece_seconds c)))"
proof -
  let ?r = "min (of_int fps) sr" and ?ts = "sort (map (\<lambda>t. of_int t * tb) ticks)"
  let ?len = "piece_length ?r (lc_piece_seconds c)"
  have r: "0 < ?r" using assms(3,4) by simp
  obtain starts where starts: "whole_segments (begin_frames ?r None [] ?ts) ?r ?len starts"
    "lp_start_ticks plan = map (\<lambda>s. trunc_int (s / tb)) starts" "1 < length starts"
    "lp_frames plan = frame_counts ?r starts"
    using plan_ladder_starts [OF assms(1,3,4)] by blast
  have ok: "starts_ok ?ts (Some ?r) starts"
    using whole_segments_starts_ok [OF starts(1) piece_length_pos [OF r] begin_frames_of] r by simp
  have "cuts_exactly ticks fps sr tb (lp_start_ticks plan) (lp_frames plan)"
    unfolding starts(2,4) using starts(3) assms by (intro starts_cut_exactly [OF ok]) auto
  moreover have "?len \<le> frame_counts ?r starts ! i \<and>
      ((\<exists>t\<in>set ticks. output_frame fps sr tb t = output_frame fps sr tb (map (\<lambda>s. trunc_int (s / tb)) starts ! i) + ?len)
        \<longrightarrow> frame_counts ?r starts ! i = ?len)" if i: "Suc i < length starts" for i
  proof -
    have "of_int (trunc_int (starts ! i / tb)) * tb = starts ! i"
      using starts_undo [OF ok assms(2)] i by simp
    then have "output_frame fps sr tb (map (\<lambda>s. trunc_int (s / tb)) starts ! i) = output_tick (starts ! i) ?r"
      using i by (simp add: output_frame_def)
    moreover have "output_tick (starts ! i) ?r + ?len \<in> fst ` set (begin_frames ?r None [] ?ts)"
      if "t \<in> set ticks" "output_frame fps sr tb t = output_tick (starts ! i) ?r + ?len" for t
    proof -
      have "output_tick (starts ! i) ?r + ?len = output_tick (of_int t * tb) ?r"
        using that(2) by (simp add: output_frame_def)
      moreover have "of_int t * tb \<in> set (map (\<lambda>t. of_int t * tb) ticks)" using imageI [OF that(1)] by simp
      ultimately show ?thesis unfolding begins_keys [OF less_imp_le [OF r]] by (rule image_eqI)
    qed
    ultimately show ?thesis
      using starts(1) i by (auto simp: whole_segments_def frame_counts_nth)
  qed
  ultimately show ?thesis unfolding starts(2,4) by simp
qed

definition sample_cutter :: ladder_cutter where
  "sample_cutter = \<lparr>lc_preset = ''veryfast'', lc_piece_seconds = 6\<rparr>"

definition sample_ladder_plan :: "ladder_plan option option" where
  \<comment> \<open>twenty-four seconds of one frame every two seconds\<close>
  "sample_ladder_plan = plan_ladder sample_cutter 1 ''u'' [0, 1, 2, 3, 4, 5, 6, 7, 8, 9, 10, 11] 2 (Some (1 / 2))
     sample_source 30 [360]"

lemma sample_ladder_eval:
  "map_option (map_option (\<lambda>p. (lp_start_ticks p, lp_frames p))) sample_ladder_plan = Some (Some ([0, 3, 6, 9], [3, 3, 3, 0]))"
  by code_simp

theorem ladder_pieces_whole_segments_witness:
  "case sample_ladder_plan of
     Some (Some plan) \<Rightarrow> piece_length (1 / 2) 6 \<le> lp_frames plan ! 1 | _ \<Rightarrow> False"
proof -
  from sample_ladder_eval obtain plan where
    plan: "sample_ladder_plan = Some (Some plan)" "lp_start_ticks plan = [0, 3, 6, 9]" by auto
  have "piece_length (1 / 2) 6 \<le> lp_frames plan ! 1"
    using ladder_pieces_whole_segments [OF plan(1) [unfolded sample_ladder_plan_def]] plan(2)
    by (auto simp: sample_cutter_def dest: spec [of _ 1])
  then show ?thesis unfolding plan(1) option.case .
qed

end
