(* ===== verification/Chunked.thy ===== *)
theory Chunked
  imports Chunk_Plan
begin

text \<open>
  \<open>ChunkedMp4\<close> and \<open>help_encode\<close> of \<open>app/worker/chunked.py\<close>: one process's side of an encode in
  pieces, as a program over the environment. Redis is read through \<open>board_read\<close> and changed through
  \<open>board_do\<close>, so between any two of its steps other workers may have done anything to the board;
  \<open>Piece_Race\<close> has all processes at once. The two waiting loops take a number of turns: \<open>None\<close> is a
  loop still going when they run out, and \<open>encode_until_ends\<close> says how many are enough.
\<close>

section \<open>The coordinator's settings\<close>

record chunked_mp4 =
  cm_store :: store
  cm_enqueue :: "uuid \<Rightarrow> unit io"
  cm_output_prefix :: string
  cm_ffmpeg :: string
  cm_ffprobe :: string
  cm_plan :: chunk_settings
  cm_min_duration :: int
  cm_helpers :: int
  cm_stale_after :: rat
  cm_timeout :: int
  cm_progress :: "(uuid \<Rightarrow> rat \<Rightarrow> unit io) option"
  cm_wake :: "(int \<Rightarrow> unit io) option"

definition chunked_wants :: "chunked_mp4 \<Rightarrow> source_probe option \<Rightarrow> bool" where
  "chunked_wants c probe =
     (case probe of None \<Rightarrow> False | Some p \<Rightarrow> float_le (Fin (of_int (cm_min_duration c))) (duration_seconds p))"

section \<open>External programs\<close>

definition TOOK_TOO_LONG :: string where
  "TOOK_TOO_LONG = ''processing took too long; try a shorter or smaller video''"

definition run_ffmpeg :: "string list \<Rightarrow> int \<Rightarrow> string \<Rightarrow> unit io" where
  "run_ffmpeg command timeout what =
     bind_io (run_process command timeout)
       (\<lambda>outcome. case outcome of
          RunTimeout \<Rightarrow> raise (ObjectStoreError (what @ '' timed out after '' @ dec_int timeout @ '' seconds'') TOOK_TOO_LONG)
        | RunInterrupted \<Rightarrow> raise (Interrupted ''the worker is stopping'')
        | Ran code out err \<Rightarrow>
            if code \<noteq> 0
            then raise (ObjectStoreError
                   (''FFmpeg failed on '' @ what @ '': '' @ or_else (take 1000 (last_lines 5 err)) ''no FFmpeg error output'')
                   UNPROCESSABLE_VIDEO)
            else ret ())"

definition piece_file :: "string \<Rightarrow> nat \<Rightarrow> string" where
  "piece_file work_dir index = in_dir work_dir (''piece-'' @ pad0 4 (dec index) @ ''.mp4'')"

definition frame_probe :: "string \<Rightarrow> string \<Rightarrow> string \<Rightarrow> string list" where
  "frame_probe ffprobe_binary entries source_path =
     [ffprobe_binary, ''-v'', ''error'', ''-select_streams'', ''v:0'', ''-show_entries'', entries, ''-of'', ''json'',
      source_path]"

definition encode_audio :: "chunked_mp4 \<Rightarrow> string \<Rightarrow> string \<Rightarrow> string option io" where
  \<comment> \<open>\<open>None\<close>: the video has no sound\<close>
  "encode_audio c source_path work_dir =
     (let audio = in_dir work_dir ''audio.m4a'' in
      bind_io
        (run_process [cm_ffmpeg c, ''-hide_banner'', ''-loglevel'', ''error'', ''-i'', source_path, ''-vn'',
           ''-map'', ''0:a:0?'', ''-c:a'', ''aac'', ''-y'', audio] (cm_timeout c))
        (\<lambda>outcome. case outcome of
           RunTimeout \<Rightarrow> raise (OtherError ''TimeoutExpired'')
         | RunInterrupted \<Rightarrow> raise (Interrupted ''the worker is stopping'')
         | Ran code out err \<Rightarrow>
             bind_io (if code = 0 then is_file audio else ret False) (\<lambda>there.
               if there then ret (Some audio)
               else if contains err ''does not contain any stream'' then ret None
               else raise (ObjectStoreError (''FFmpeg failed on the audio: '' @ tail 500 (strip err)) UNPROCESSABLE_VIDEO))))"

definition fetch_piece :: "chunked_mp4 \<Rightarrow> uuid \<Rightarrow> string \<Rightarrow> nat \<Rightarrow> string io" where
  "fetch_piece c k work_dir index =
     bind_io (st_download (cm_store c) (piece_key (cm_output_prefix c) k index) (piece_file work_dir index))
       (\<lambda>_. ret (piece_file work_dir index))"

definition measured :: "json \<Rightarrow> exn + rat" where
  "measured data =
     bind_ok (item data ''streams'') (\<lambda>streams.
     bind_ok (first_item streams) (\<lambda>stream.
     bind_ok (item stream ''nb_read_packets'') (\<lambda>n.
     bind_ok (py_int n) (\<lambda>packets.
     bind_ok (item stream ''r_frame_rate'') (\<lambda>r.
     bind_ok (fraction_of r) (\<lambda>rate.
       if rate = 0 then Inl (OtherError ''ZeroDivisionError'') else Inr (of_int packets / rate)))))))"

definition piece_duration :: "chunked_mp4 \<Rightarrow> string \<Rightarrow> rat io" where
  "piece_duration c piece =
     bind_io
       (run_process [cm_ffprobe c, ''-v'', ''error'', ''-select_streams'', ''v:0'', ''-count_packets'',
          ''-show_entries'', ''stream=nb_read_packets,r_frame_rate'', ''-of'', ''json'', piece] (cm_timeout c))
       (\<lambda>outcome. case outcome of
          RunTimeout \<Rightarrow> raise (OtherError ''TimeoutExpired'')
        | RunInterrupted \<Rightarrow> raise (Interrupted ''the worker is stopping'')
        | Ran code out err \<Rightarrow>
            (case (case out of None \<Rightarrow> Inl (ValueError ''not JSON'') | Some data \<Rightarrow> measured data) of
               Inr d \<Rightarrow> ret d
             | Inl x \<Rightarrow>
                 raise (if frame_error x
                        then ObjectStoreError (''could not measure piece '' @ path_name piece @ '': '' @ err) UNPROCESSABLE_VIDEO
                        else x)))"

definition join_entry :: "string \<Rightarrow> rat \<Rightarrow> string" where
  "join_entry piece duration =
     ''file '' @ apostrophe @ piece @ apostrophe @ newline @ ''duration '' @ fixed 9 (fl duration) @ newline"

definition join_pieces :: "chunked_mp4 \<Rightarrow> string list \<Rightarrow> string option \<Rightarrow> string \<Rightarrow> string \<Rightarrow> unit io" where
  "join_pieces c pieces audio output_path work_dir =
     (let listing = in_dir work_dir ''pieces.txt'' in
      bind_io (map_io pieces (\<lambda>piece. bind_io (piece_duration c piece) (\<lambda>d. ret (join_entry piece d)))) (\<lambda>entries.
      bind_io (write_text listing (concat entries)) (\<lambda>_.
        run_ffmpeg
          ([cm_ffmpeg c, ''-hide_banner'', ''-loglevel'', ''error'', ''-f'', ''concat'', ''-safe'', ''0'', ''-i'', listing]
           @ (case audio of Some a \<Rightarrow> [''-i'', a, ''-map'', ''0:v'', ''-map'', ''1:a''] | None \<Rightarrow> [])
           @ [''-c'', ''copy'', ''-movflags'', ''+faststart'', ''-y'', output_path])
          (cm_timeout c) ''the join'')))"

section \<open>The coordinator\<close>

definition report_pieces :: "chunked_mp4 \<Rightarrow> uuid \<Rightarrow> piece_plan \<Rightarrow> nat \<Rightarrow> unit io" where
  "report_pieces c k plan finished =
     (case cm_progress c of
        None \<Rightarrow> ret ()
      | Some report \<Rightarrow> report k (fl (of_nat (90 * finished) / of_nat (piece_count plan))))"

definition take_from :: "string \<Rightarrow> nat option io" where
  \<comment> \<open>\<open>PieceBoard.take\<close>\<close>
  "take_from name =
     bind_io (board_pop name) (\<lambda>popped.
       case popped of
         None \<Rightarrow> ret None
       | Some i \<Rightarrow>
           bind_io (ask (\<lambda>e h. e_time e h)) (\<lambda>now.
           bind_io (board_do name (NoteInflight i now)) (\<lambda>_. ret (Some i))))"

definition unclaimed_on :: "string \<Rightarrow> nat \<Rightarrow> rat \<Rightarrow> nat list io" where
  \<comment> \<open>\<open>PieceBoard.unclaimed\<close>\<close>
  "unclaimed_on name n stale_after =
     bind_io (ask (\<lambda>e h. e_time e h)) (\<lambda>now.
     bind_io (board_read name b_inflight) (\<lambda>inflight.
     bind_io (board_read name b_todo) (\<lambda>queued.
     let stale = stale_pieces now stale_after inflight in
     bind_io (if stale = [] then ret () else board_do name (DropStale stale)) (\<lambda>_.
     bind_io (board_read name b_done) (\<lambda>finished. ret (orphans n stale inflight queued finished))))))"

datatype next_piece = Piece nat | Wait nat | Complete

definition next_piece_of :: "string \<Rightarrow> nat \<Rightarrow> rat \<Rightarrow> next_piece io" where
  \<comment> \<open>the head of both coordinators' loops: a queued piece, else one nobody will finish, else wait or stop\<close>
  "next_piece_of name n stale_after =
     bind_io (take_from name) (\<lambda>taken.
       case taken of
         Some i \<Rightarrow> ret (Piece i)
       | None \<Rightarrow>
           bind_io (unclaimed_on name n stale_after) (\<lambda>left.
             case left of
               i # _ \<Rightarrow> ret (Piece i)
             | [] \<Rightarrow>
                 bind_io (board_read name (\<lambda>b. length (b_done b))) (\<lambda>finished.
                   ret (if n \<le> finished then Complete else Wait finished))))"

definition encode_piece_here ::
  "chunked_mp4 \<Rightarrow> uuid \<Rightarrow> piece_plan \<Rightarrow> string \<Rightarrow> string \<Rightarrow> nat \<Rightarrow> unit io"
where
  "encode_piece_here c k plan source_path work_dir index =
     bind_io (run_ffmpeg (piece_command plan index source_path (piece_file work_dir index) (cm_ffmpeg c))
                (cm_timeout c) (''piece '' @ dec index)) (\<lambda>_.
     bind_io (board_do (uuid_text k) (FinishPiece index)) (\<lambda>_.
     bind_io (board_read (uuid_text k) (\<lambda>b. length (b_done b))) (\<lambda>finished.
       report_pieces c k plan finished)))"

fun encode_until ::
  "nat \<Rightarrow> chunked_mp4 \<Rightarrow> uuid \<Rightarrow> piece_plan \<Rightarrow> string \<Rightarrow> string \<Rightarrow> rat \<Rightarrow> nat list \<Rightarrow> nat list option io"
where
  \<comment> \<open>\<open>_encode_until_all_done\<close>: the pieces encoded here\<close>
  "encode_until 0 c k plan source_path work_dir started mine = ret None"
| "encode_until (Suc turns) c k plan source_path work_dir started mine =
     bind_io (ask (\<lambda>e h. e_clock e h)) (\<lambda>now.
       if of_int (cm_timeout c) < now - started
       then raise (ObjectStoreError (''pieces not finished after '' @ dec_int (cm_timeout c) @ '' seconds'') TOOK_TOO_LONG)
       else bind_io (next_piece_of (uuid_text k) (piece_count plan) (cm_stale_after c)) (\<lambda>next.
         case next of
           Complete \<Rightarrow> ret (Some mine)
         | Wait finished \<Rightarrow>
             bind_io (report_pieces c k plan finished) (\<lambda>_.
             bind_io (sleep 1) (\<lambda>_. encode_until turns c k plan source_path work_dir started mine))
         | Piece i \<Rightarrow>
             bind_io (encode_piece_here c k plan source_path work_dir i) (\<lambda>_.
               encode_until turns c k plan source_path work_dir started (List.insert i mine))))"

definition encode_pieces ::
  "nat \<Rightarrow> chunked_mp4 \<Rightarrow> uuid \<Rightarrow> piece_plan \<Rightarrow> string \<Rightarrow> string \<Rightarrow> string \<Rightarrow> rat \<Rightarrow> bool option io"
where
  \<comment> \<open>the body of the \<open>try\<close>\<close>
  "encode_pieces turns c k plan source_path output_path work_dir started =
     (let helpers = min (cm_helpers c) (int (piece_count plan) - 1) in
      bind_io (for_io [0..<nat helpers] (\<lambda>_. cm_enqueue c k)) (\<lambda>_.
      bind_io (case cm_wake c of Some wake \<Rightarrow> if helpers \<noteq> 0 then wake (1 + helpers) else ret () | None \<Rightarrow> ret ()) (\<lambda>_.
      bind_io (encode_audio c source_path work_dir) (\<lambda>audio.
      bind_io (encode_until turns c k plan source_path work_dir started []) (\<lambda>ended.
        case ended of
          None \<Rightarrow> ret None
        | Some mine \<Rightarrow>
            bind_io (map_io [0..<piece_count plan] (\<lambda>i.
               if i \<in> set mine then ret (piece_file work_dir i) else fetch_piece c k work_dir i)) (\<lambda>pieces.
            bind_io (join_pieces c pieces audio output_path work_dir) (\<lambda>_. ret (Some True))))))))"

definition discard_board :: "chunked_mp4 \<Rightarrow> uuid \<Rightarrow> unit io" where
  \<comment> \<open>the \<open>finally\<close>\<close>
  "discard_board c k =
     bind_io (board_do (uuid_text k) CloseBoard) (\<lambda>_.
     bind_io (attempt (st_delete_prefix (cm_store c) (pieces_prefix (cm_output_prefix c) k))) (\<lambda>_. ret ()))"

definition encode_planned ::
  "nat \<Rightarrow> chunked_mp4 \<Rightarrow> uuid \<Rightarrow> piece_plan \<Rightarrow> string \<Rightarrow> string \<Rightarrow> string \<Rightarrow> bool option io"
where
  "encode_planned turns c k plan source_path output_path work_dir =
     bind_io (st_delete_prefix (cm_store c) (pieces_prefix (cm_output_prefix c) k)) (\<lambda>_.
     bind_io (board_do (uuid_text k) (OpenBoard (Mp4_Plan plan))) (\<lambda>_.
     bind_io (ask (\<lambda>e h. e_clock e h)) (\<lambda>started.
       finally_io (encode_pieces turns c k plan source_path output_path work_dir started) (discard_board c k))))"

definition chunked_encode ::
  "nat \<Rightarrow> chunked_mp4 \<Rightarrow> uuid \<Rightarrow> string \<Rightarrow> string \<Rightarrow> source_probe \<Rightarrow> int \<Rightarrow> string \<Rightarrow> string \<Rightarrow> bool option io"
where
  "chunked_encode turns c k source_key source_path probe max_fps output_path work_dir =
     bind_io (run_process (frame_probe (cm_ffprobe c) ''packet=pts:stream=time_base:format=start_time'' source_path)
                (cm_timeout c)) (\<lambda>frames.
     bind_io (lift (read_frame_ticks frames)) (\<lambda>(ticks, time_base).
     bind_io (run_process (frame_probe (cm_ffprobe c) ''stream=r_frame_rate,avg_frame_rate'' source_path)
                (cm_timeout c)) (\<lambda>rates.
     bind_io (lift (read_frame_rate rates)) (\<lambda>source_rate.
       case plan_pieces (cm_plan c) k source_key ticks time_base source_rate probe max_fps of
         None \<Rightarrow> ret None
       | Some None \<Rightarrow> ret (Some False)
       | Some (Some plan) \<Rightarrow> encode_planned turns c k plan source_path output_path work_dir))))"

definition chunked_interface :: "nat \<Rightarrow> chunked_mp4 \<Rightarrow> chunked_encoder" where
  \<comment> \<open>as the processing step calls it; a loop still going after \<open>turns\<close> turns is told apart by its exception\<close>
  "chunked_interface turns c =
     \<lparr>ce_wants = chunked_wants c,
      ce_encode = (\<lambda>k source_key source_path probe max_fps output_path work_dir.
        bind_io (chunked_encode turns c k source_key source_path (the probe) max_fps output_path work_dir)
          (\<lambda>r. case r of Some b \<Rightarrow> ret b | None \<Rightarrow> raise (OtherError ''still going'')))\<rparr>"

record pool_settings = worker_settings +
  ws_chunk_seconds :: int
  ws_chunk_min_duration :: int
  ws_chunk_helpers :: int
  ws_chunk_stale :: rat

definition chunked_mp4_of :: "pool_settings \<Rightarrow> chunked_mp4" where
  \<comment> \<open>\<open>_chunked_mp4\<close> of \<open>app/worker/storage.py\<close>\<close>
  "chunked_mp4_of ps =
     \<lparr>cm_store = minio_object_store, cm_enqueue = enqueue ''app.worker.tasks.help_encode'',
      cm_output_prefix = strip_chars CHR ''/'' (ws_output_prefix ps), cm_ffmpeg = ws_ffmpeg_binary ps,
      cm_ffprobe = ws_ffprobe_binary ps,
      cm_plan = \<lparr>cs_chunk_seconds = ws_chunk_seconds ps, cs_max_height = ws_max_height ps,
        cs_preset = ws_preset ps, cs_crf = ws_crf ps\<rparr>,
      cm_min_duration = ws_chunk_min_duration ps, cm_helpers = ws_chunk_helpers ps,
      cm_stale_after = ws_chunk_stale ps, cm_timeout = ws_ffmpeg_timeout ps,
      cm_progress = Some set_progress, cm_wake = Some wake_workers\<rparr>"

section \<open>The helper\<close>

definition help_piece ::
  "store \<Rightarrow> string \<Rightarrow> string \<Rightarrow> int \<Rightarrow> uuid \<Rightarrow> piece_plan \<Rightarrow> string \<Rightarrow> nat \<Rightarrow> bool io"
where
  \<comment> \<open>one turn of the loop, inside its \<open>try\<close>; \<open>False\<close>: the board is gone\<close>
  "help_piece st output_prefix ffmpeg_binary timeout k plan work_dir index =
     (let source_path = in_dir work_dir ''source''; path = piece_file work_dir index in
      bind_io (is_file source_path) (\<lambda>there.
      bind_io (if there then ret () else st_download st (pp_source_key plan) source_path) (\<lambda>_.
      bind_io (run_ffmpeg (piece_command plan index source_path path ffmpeg_binary) timeout
                 (''piece '' @ dec index)) (\<lambda>_.
      bind_io (board_read (uuid_text k) b_plan) (\<lambda>now_plan.
        if now_plan = None then ret False
        else bind_io (st_upload st (piece_key output_prefix k index) path ''video/mp4'') (\<lambda>_.
             bind_io (board_do (uuid_text k) (FinishPiece index)) (\<lambda>_.
             bind_io (unlink path) (\<lambda>_. ret True))))))))"

fun help_loop ::
  "nat \<Rightarrow> store \<Rightarrow> string \<Rightarrow> string \<Rightarrow> int \<Rightarrow> uuid \<Rightarrow> piece_plan \<Rightarrow> string \<Rightarrow> nat \<Rightarrow> nat option io"
where
  "help_loop 0 st output_prefix ffmpeg_binary timeout k plan work_dir encoded = ret None"
| "help_loop (Suc turns) st output_prefix ffmpeg_binary timeout k plan work_dir encoded =
     bind_io (take_from (uuid_text k)) (\<lambda>taken.
       case taken of
         None \<Rightarrow> ret (Some encoded)
       | Some index \<Rightarrow>
           bind_io (catch_io (help_piece st output_prefix ffmpeg_binary timeout k plan work_dir index)
                      (\<lambda>x. bind_io (board_do (uuid_text k) (GiveBack index)) (\<lambda>_. raise x)))
             (\<lambda>more. if more
                then help_loop turns st output_prefix ffmpeg_binary timeout k plan work_dir (Suc encoded)
                else ret (Some encoded)))"

definition help_encode :: "nat \<Rightarrow> store \<Rightarrow> string \<Rightarrow> string \<Rightarrow> int \<Rightarrow> uuid \<Rightarrow> nat option io" where
  "help_encode turns st output_prefix ffmpeg_binary timeout k =
     bind_io (board_read (uuid_text k) b_plan) (\<lambda>found.
       case found of
         Some (Mp4_Plan plan) \<Rightarrow>
           bind_io (mkdtemp ''flickpond-piece-'') (\<lambda>work_dir.
             finally_io (help_loop turns st output_prefix ffmpeg_binary timeout k plan work_dir 0) (rmtree work_dir))
       | _ \<Rightarrow> ret (Some 0))"

section \<open>What is written\<close>

lemma writes_run_ffmpeg [writes]: "writes_only K (run_ffmpeg c t w)"
  unfolding run_ffmpeg_def by (auto intro!: writes split: run_outcome.split)

lemma writes_next_piece [writes]: "writes_only K (next_piece_of name n sa)"
  unfolding next_piece_of_def take_from_def unclaimed_on_def Let_def
  by (auto intro!: writes split: option.split list.split)

lemma writes_take [writes]: "writes_only K (take_from name)"
  unfolding take_from_def by (auto intro!: writes split: option.split)

lemma writes_on_s3_error [writes]:
  "writes_only K m \<Longrightarrow> (\<And>code. writes_only K (handler code)) \<Longrightarrow> writes_only K (on_s3_error m handler)"
  unfolding on_s3_error_def by (auto intro!: writes split: exn.split)

lemma writes_store [writes]:
  "writes_only K (minio_download_file a b)" "writes_only K (minio_delete_prefix a)"
  "K a \<Longrightarrow> writes_only K (minio_upload_file a b t)"
  unfolding minio_download_file_def minio_delete_prefix_def minio_upload_file_def
  by (auto intro!: writes writes_call)

lemma minio_fields [simp]:
  "st_download minio_object_store = minio_download_file" "st_upload minio_object_store = minio_upload_file"
  "st_delete_prefix minio_object_store = minio_delete_prefix"
  by (simp_all add: minio_object_store_def)

definition writes_nothing :: "chunked_mp4 \<Rightarrow> bool" where
  \<comment> \<open>what the coordinator is given to report with writes nothing to storage\<close>
  "writes_nothing c \<longleftrightarrow> cm_store c = minio_object_store
     \<and> (\<forall>K k. writes_only K (cm_enqueue c k))
     \<and> (\<forall>K report k r. cm_progress c = Some report \<longrightarrow> writes_only K (report k r))
     \<and> (\<forall>K wake n. cm_wake c = Some wake \<longrightarrow> writes_only K (wake n))"

lemma writes_set_progress [writes]: "writes_only K (set_progress k r)"
  unfolding set_progress_def Let_def by (auto intro!: writes writes_call)

lemma writes_nothing_of: "writes_nothing (chunked_mp4_of ps)"
  by (auto simp: writes_nothing_def chunked_mp4_of_def intro: writes)

lemma writes_coordinator_parts:
  assumes "writes_nothing c"
  shows "writes_only K (report_pieces c k plan n)" "writes_only K (encode_piece_here c k plan src dir i)"
    "writes_only K (encode_audio c src dir)" "writes_only K (fetch_piece c k dir i)"
    "writes_only K (piece_duration c piece)" "writes_only K (discard_board c k)"
  using assms
  unfolding report_pieces_def encode_piece_here_def encode_audio_def fetch_piece_def piece_duration_def
    discard_board_def writes_nothing_def Let_def
  by (auto intro!: writes split: option.split run_outcome.split sum.split)

lemma writes_encode_until:
  assumes "writes_nothing c"
  shows "writes_only K (encode_until turns c k plan src dir started mine)"
  by (induction turns arbitrary: mine)
    (auto intro!: writes writes_coordinator_parts [OF assms] split: next_piece.split)

lemma writes_chunked_encode:
  assumes "writes_nothing c"
  shows "writes_only K (chunked_encode turns c k key src pr fps out dir)"
  using assms writes_nothing_def [of c]
  unfolding chunked_encode_def encode_planned_def encode_pieces_def join_pieces_def Let_def
  by (auto intro!: writes writes_coordinator_parts [OF assms] writes_encode_until [OF assms]
      split: option.split prod.split)

text \<open>The coordinator of an encode in pieces writes no object to storage: with pieces switched on,
  an upload's step still writes only the finished video and its poster frame, in that order.\<close>

theorem coordinator_writes_nothing:
  "quiet_encoder (chunked_interface turns (chunked_mp4_of ps))"
  unfolding quiet_encoder_def chunked_interface_def
  by (auto intro!: quietI writes writes_chunked_encode writes_nothing_of split: option.split)

lemma piece_key_under: "starts_with (piece_key prefix k i) (pieces_prefix prefix k)"
proof -
  have "piece_key prefix k i = pieces_prefix prefix k @ pad0 4 (dec i) @ ''.mp4''"
    by (simp add: piece_key_def pieces_prefix_def)
  then show ?thesis by (simp add: starts_with_def)
qed

lemma writes_help_piece:
  "writes_only (\<lambda>key. \<exists>i. key = piece_key prefix k i)
     (help_piece minio_object_store prefix ff timeout k plan dir index)"
  unfolding help_piece_def Let_def by (auto intro!: writes)

lemma writes_help_loop:
  "writes_only (\<lambda>key. \<exists>i. key = piece_key prefix k i)
     (help_loop turns minio_object_store prefix ff timeout k plan dir encoded)"
  by (induction turns arbitrary: encoded)
    (auto intro!: writes writes_help_piece split: option.split)

text \<open>A helper writes nothing but pieces of the job it helps, under that job's own prefix: whatever
  the board, storage and FFmpeg answer, no finished video is ever overwritten by one.\<close>

theorem helper_writes_pieces:
  assumes "help_encode turns minio_object_store prefix ff timeout k e h = (r, h')"
  shows "\<exists>t. h' = h @ t \<and> (\<forall>key\<in>set (puts t). starts_with key (pieces_prefix prefix k))"
proof -
  have "writes_only (\<lambda>key. \<exists>i. key = piece_key prefix k i)
      (help_encode turns minio_object_store prefix ff timeout k)"
    unfolding help_encode_def
    by (auto intro!: writes writes_help_loop split: option.split plan.split)
  from writes_onlyD [OF this assms] show ?thesis
    by (metis piece_key_under)
qed

theorem helper_writes_pieces_witness:
  "\<exists>t. snd (help_encode 3 minio_object_store ''outputs'' ''ffmpeg'' 60 1 sample_env []) = [] @ t
     \<and> list_all (\<lambda>key. starts_with key (pieces_prefix ''outputs'' 1)) (puts t)"
  using helper_writes_pieces [OF prod.collapse [symmetric], of 3 "''outputs''" "''ffmpeg''" 60 1 sample_env "[]"]
  by (auto simp: list_all_iff)

section \<open>What fails\<close>

lemma take_from_ok: "e_redis e = (\<lambda>h. Inr ()) \<Longrightarrow> \<exists>i h'. take_from name e h = (Inr i, h')"
  by (cases "popped (e_board e h name)")
    (simp_all add: take_from_def bind_io_def board_pop_def board_do_def do_call_def ask_def)

lemma help_loop_gives_back:
  assumes "e_redis e = (\<lambda>h. Inr ())"
    and "help_loop turns st prefix ff timeout k plan dir encoded e h = (Inl x, h')"
  shows "\<exists>h0 i. h' = h0 @ [Board (uuid_text k) (GiveBack i)]"
  using assms(2)
proof (induction turns arbitrary: encoded h)
  case (Suc turns)
  obtain taken h1 where t: "take_from (uuid_text k) e h = (Inr taken, h1)"
    using take_from_ok [OF assms(1)] by blast
  show ?case
  proof (cases taken)
    case None
    with Suc.prems t show ?thesis by (simp add: bind_io_def)
  next
    case (Some i)
    obtain q h2 where q: "help_piece st prefix ff timeout k plan dir i e h1 = (q, h2)" by fastforce
    with Suc t Some assms(1) show ?thesis
      by (cases q) (auto simp: bind_io_def catch_io_def board_do_def do_call_def split: if_splits)
  qed
qed simp

text \<open>A helper that fails, for whatever reason, with a piece in hand gives that piece back as the
  last thing it does with the board, and leaves no files: no piece is lost with it, as long as Redis
  answers.\<close>

theorem failing_helper_gives_back:
  assumes "e_redis e = (\<lambda>h. Inr ())"
    and "help_encode turns st prefix ff timeout k e h = (Inl x, h')"
  shows "\<exists>h0 i d. h' = h0 @ [Board (uuid_text k) (GiveBack i), Rmtree d]"
proof -
  from assms obtain plan h1 d where
    "finally_io (help_loop turns st prefix ff timeout k plan d 0) (rmtree d) e h1 = (Inl x, h')"
    by (auto simp: help_encode_def bind_io_Inl board_read_def split: option.splits plan.splits)
  then obtain h2 where "help_loop turns st prefix ff timeout k plan d 0 e h1 = (Inl x, h2)" "h' = h2 @ [Rmtree d]"
    by (auto simp: finally_rmtree)
  with help_loop_gives_back [OF assms(1)] show ?thesis by fastforce
qed

definition no_source :: env where
  \<comment> \<open>two pieces to encode, and storage refuses the source\<close>
  "no_source = sample_env\<lparr>e_board := (\<lambda>h b. open_board (Mp4_Plan
       \<lparr>pp_job_id = ''j'', pp_source_key = ''u'', pp_starts = [0, 10], pp_max_fps = 30, pp_hdr = False,
        pp_max_height = 720, pp_preset = ''veryfast'', pp_crf = 23, pp_output_rate = [], pp_start_ticks = [],
        pp_frames = []\<rparr>)),
     e_get := (\<lambda>h key p. Inl (S3Error ''AccessDenied'')), e_is_file := (\<lambda>h p. False)\<rparr>"

theorem failing_helper_gives_back_witness:
  "case help_encode 1 minio_object_store ''outputs'' ''ffmpeg'' 60 1 no_source [] of
     (Inl _, h) \<Rightarrow> \<exists>h0 i d. h = h0 @ [Board (uuid_text 1) (GiveBack i), Rmtree d]
   | (Inr _, h) \<Rightarrow> False"
proof -
  have "case fst (help_encode 1 minio_object_store ''outputs'' ''ffmpeg'' 60 1 no_source []) of
      Inl _ \<Rightarrow> True | Inr _ \<Rightarrow> False"
    by code_simp
  then obtain x h where run: "help_encode 1 minio_object_store ''outputs'' ''ffmpeg'' 60 1 no_source [] = (Inl x, h)"
    by (cases "help_encode 1 minio_object_store ''outputs'' ''ffmpeg'' 60 1 no_source []") (auto split: sum.splits)
  have "e_redis no_source = (\<lambda>h. Inr ())" by (simp add: no_source_def sample_env_def)
  from failing_helper_gives_back [OF this run] run show ?thesis by simp
qed

section \<open>The coordinator's wait ends\<close>

definition ticking :: "rat \<Rightarrow> env \<Rightarrow> bool" where
  \<comment> \<open>the clock never runs backwards, and a run of FFmpeg or a second's sleep takes it at least \<open>d\<close> on\<close>
  "ticking d e \<longleftrightarrow> 0 < d \<and> (\<forall>h c. e_clock e h \<le> e_clock e (h @ [c]))
     \<and> (\<forall>h. e_clock e h + d \<le> e_clock e (h @ [Sleep 1])) \<and> (\<forall>h c t. e_clock e h + d \<le> e_clock e (h @ [Run c t]))"

lemma clock_append: "ticking d e \<Longrightarrow> e_clock e h \<le> e_clock e (h @ t)"
proof (induction t rule: rev_induct)
  case (snoc c t)
  then have "e_clock e (h @ t) \<le> e_clock e ((h @ t) @ [c])" unfolding ticking_def by blast
  with snoc show ?case by simp
qed simp

definition appends :: "'a io \<Rightarrow> bool" where
  \<comment> \<open>calls are only added\<close>
  "appends m \<longleftrightarrow> writes_only (\<lambda>_. True) m"

lemma clock_after: "ticking d e \<Longrightarrow> appends m \<Longrightarrow> m e h = (r, h') \<Longrightarrow> e_clock e h \<le> e_clock e h'"
  unfolding appends_def by (auto dest: writes_onlyD intro: clock_append)

lemma clock_after_run:
  assumes "ticking d e" and "run_ffmpeg c t w e h = (r, h')"
  shows "e_clock e h + d \<le> e_clock e h'"
proof -
  from assms(2) have "h' = h @ [Run c t]"
    by (auto simp: run_ffmpeg_def bind_io_def run_process_def do_call_def split: run_outcome.splits if_splits)
  with assms(1) show ?thesis by (simp add: ticking_def)
qed

lemma encode_piece_clock:
  assumes "ticking d e" and "writes_nothing c" and "encode_piece_here c k plan src dir i e h = (Inr u, h')"
  shows "e_clock e h + d \<le> e_clock e h'"
proof -
  from assms(3) obtain h1 where
    run: "run_ffmpeg (piece_command plan i src (piece_file dir i) (cm_ffmpeg c)) (cm_timeout c) (''piece '' @ dec i) e h = (Inr (), h1)"
    and rest: "bind_io (board_do (uuid_text k) (FinishPiece i)) (\<lambda>_.
        bind_io (board_read (uuid_text k) (\<lambda>b. length (b_done b))) (report_pieces c k plan)) e h1 = (Inr u, h')"
    by (auto simp: encode_piece_here_def bind_io_Inr)
  have "appends (bind_io (board_do (uuid_text k) (FinishPiece i)) (\<lambda>_.
        bind_io (board_read (uuid_text k) (\<lambda>b. length (b_done b))) (report_pieces c k plan)))"
    unfolding appends_def by (auto intro!: writes writes_coordinator_parts [OF assms(2)])
  from clock_after [OF assms(1) this rest] clock_after_run [OF assms(1) run] show ?thesis by simp
qed

lemma sleep_clock:
  assumes "ticking d e" and "writes_nothing c"
    and "bind_io (report_pieces c k plan n) (\<lambda>_. sleep 1) e h = (Inr u, h')"
  shows "e_clock e h + d \<le> e_clock e h'"
proof -
  from assms(3) obtain h1 where "report_pieces c k plan n e h = (Inr (), h1)" "h' = h1 @ [Sleep 1]"
    by (auto simp: bind_io_Inr sleep_def do_call_def)
  moreover have "appends (report_pieces c k plan n)"
    unfolding appends_def by (rule writes_coordinator_parts [OF assms(2)])
  ultimately have "e_clock e h \<le> e_clock e h1" "e_clock e h1 + d \<le> e_clock e h'"
    using clock_after [OF assms(1)] assms(1) by (auto simp: ticking_def)
  then show ?thesis by simp
qed

lemma encode_until_stops:
  assumes tick: "ticking d e" and c: "writes_nothing c"
  shows "of_int (cm_timeout c) < e_clock e h - started + d * of_nat turns \<Longrightarrow>
    encode_until (Suc turns) c k plan src dir started mine e h \<noteq> (Inr None, h')"
proof (induction turns arbitrary: h mine)
  case 0
  then show ?case by (simp add: bind_io_def ask_def)
next
  case (Suc turns)
  show ?case
  proof
    assume run: "encode_until (Suc (Suc turns)) c k plan src dir started mine e h = (Inr None, h')"
    have next_later: "e_clock e h \<le> e_clock e h1" if "next_piece_of name n sa e h = (Inr x, h1)" for name n sa x h1
      using clock_after [OF tick, of "next_piece_of name n sa"] that by (auto simp: appends_def intro: writes)
    have again: False
      if "e_clock e h + d \<le> e_clock e h2" "encode_until (Suc turns) c k plan src dir started mine' e h2 = (Inr None, h')"
      for h2 mine'
      using Suc.IH [of h2 mine'] Suc.prems that by (simp add: algebra_simps)
    from run obtain x h1 where
      x: "next_piece_of (uuid_text k) (piece_count plan) (cm_stale_after c) e h = (Inr x, h1)"
      and go: "(case x of
         Complete \<Rightarrow> ret (Some mine)
       | Wait finished \<Rightarrow>
           bind_io (report_pieces c k plan finished) (\<lambda>_.
           bind_io (sleep 1) (\<lambda>_. encode_until (Suc turns) c k plan src dir started mine))
       | Piece i \<Rightarrow>
           bind_io (encode_piece_here c k plan src dir i) (\<lambda>_.
             encode_until (Suc turns) c k plan src dir started (List.insert i mine))) e h1 = (Inr None, h')"
      by (subst (asm) encode_until.simps(2))
        (auto simp: bind_io_Inr ask_def simp del: encode_until.simps split: if_splits)
    show False
    proof (cases x)
      case Complete
      with go show False by simp
    next
      case (Wait n)
      with go obtain h2 where "bind_io (report_pieces c k plan n) (\<lambda>_. sleep 1) e h1 = (Inr (), h2)"
        "encode_until (Suc turns) c k plan src dir started mine e h2 = (Inr None, h')"
        by (auto simp: bind_io_Inr simp del: encode_until.simps)
      with sleep_clock [OF tick c] next_later [OF x] again show False by force
    next
      case (Piece i)
      with go obtain h2 where "encode_piece_here c k plan src dir i e h1 = (Inr (), h2)"
        "encode_until (Suc turns) c k plan src dir started (List.insert i mine) e h2 = (Inr None, h')"
        by (auto simp: bind_io_Inr simp del: encode_until.simps)
      with encode_piece_clock [OF tick c] next_later [OF x] again show False by force
    qed
  qed
qed


definition sample_pool :: pool_settings where
  "sample_pool = \<lparr>ws_output_prefix = ''outputs'', ws_ffmpeg_binary = ''ffmpeg'', ws_ffprobe_binary = ''ffprobe'',
     ws_preset = ''veryfast'', ws_crf = 23, ws_max_height = 720, ws_ffmpeg_timeout = 3, ws_ffprobe_timeout = 30,
     ws_max_duration = 600, ws_thumbnail_width = 640, ws_thumbnail_height = 360, ws_chunked_mp4 = True,
     ws_chunk_seconds = 10, ws_chunk_min_duration = 60, ws_chunk_helpers = 3, ws_chunk_stale = 300\<rparr>"

definition sample_pieces :: piece_plan where
  "sample_pieces = \<lparr>pp_job_id = ''j'', pp_source_key = ''u'', pp_starts = [0, 10], pp_max_fps = 30, pp_hdr = False,
     pp_max_height = 720, pp_preset = ''veryfast'', pp_crf = 23, pp_output_rate = ''30/1'',
     pp_start_ticks = [0, 300], pp_frames = [300, 0]\<rparr>"

definition ticking_env :: env where
  "ticking_env = sample_env\<lparr>e_clock := (\<lambda>h. of_nat (length h))\<rparr>"


section \<open>The coordinator alone\<close>

fun effect :: "string \<Rightarrow> call \<Rightarrow> board \<Rightarrow> board" where
  "effect b (Board b' c) x = (if b' = b then run_command c x else x)"
| "effect b _ x = x"

definition alone :: "env \<Rightarrow> bool" where
  \<comment> \<open>no other worker: a board is what this process's own commands make of it\<close>
  "alone e \<longleftrightarrow> (\<forall>h b c. e_board e (h @ [c]) b = effect b c (e_board e h b)) \<and> e_redis e = (\<lambda>h. Inr ())"

lemma alone_board: "alone e \<Longrightarrow> e_board e (h @ t) b = fold (effect b) t (e_board e h b)"
proof (induction t rule: rev_induct)
  case (snoc c t)
  then have "e_board e ((h @ t) @ [c]) b = effect b c (e_board e (h @ t) b)" unfolding alone_def by blast
  with snoc show ?case by simp
qed simp

lemma alone_redis: "alone e \<Longrightarrow> e_redis e h = Inr ()"
  by (simp add: alone_def)

lemma alone_run:
  assumes "alone e" "e_run e h c t = Ran 0 out err"
  shows "run_ffmpeg c t w e h = (Inr (), h @ [Run c t])"
  using assms by (simp add: run_ffmpeg_def bind_io_def run_process_def do_call_def)

lemma alone_take:
  assumes "alone e" and "b_todo (e_board e h b) = i # q"
  shows "\<exists>h1 t. next_piece_of b n sa e h = (Inr (Piece i), h1)
    \<and> e_board e h1 b = run_command (NoteInflight i t) (run_command PopPiece (e_board e h b))"
  using assms(2) alone_redis [OF assms(1)]
  by (intro exI [of _ "h @ [Board b PopPiece, Board b (NoteInflight i (e_time e (h @ [Board b PopPiece])))]"]
      exI [of _ "e_time e (h @ [Board b PopPiece])"])
    (simp add: next_piece_of_def take_from_def bind_io_def board_pop_def board_do_def do_call_def ask_def
      popped_def alone_board [OF assms(1)])

lemma set_progress_calls: "\<exists>n. set_progress k r e h = (Inr (), h @ [SetProgress k n])"
  by (auto simp: set_progress_def catch_io_def do_call_def Let_def split: sum.split)

lemma report_calls:
  "\<exists>n. report_pieces (chunked_mp4_of ps) k plan m e h = (Inr (), h @ [SetProgress k n])"
proof -
  have "cm_progress (chunked_mp4_of ps) = Some set_progress" by (simp add: chunked_mp4_of_def)
  then show ?thesis unfolding report_pieces_def by (simp only: option.case) (rule set_progress_calls)
qed

lemma alone_encode:
  assumes "alone e" "\<forall>h c t. \<exists>out err. e_run e h c t = Ran 0 out err"
  shows "\<exists>h1. encode_piece_here (chunked_mp4_of ps) k plan src dir i e h = (Inr (), h1)
    \<and> e_board e h1 (uuid_text k) = run_command (FinishPiece i) (e_board e h (uuid_text k))"
proof -
  let ?cmd = "piece_command plan i src (piece_file dir i) (cm_ffmpeg (chunked_mp4_of ps))"
  let ?t = "cm_timeout (chunked_mp4_of ps)"
  let ?h = "h @ [Run ?cmd ?t, Board (uuid_text k) (FinishPiece i)]"
  obtain out err where "e_run e h ?cmd ?t = Ran 0 out err" using assms(2) by blast
  from alone_run [OF assms(1) this] have run: "run_ffmpeg ?cmd ?t w e h = (Inr (), h @ [Run ?cmd ?t])" for w .
  obtain n where "report_pieces (chunked_mp4_of ps) k plan (length (b_done (e_board e ?h (uuid_text k)))) e ?h
      = (Inr (), ?h @ [SetProgress k n])" using report_calls by blast
  with run alone_redis [OF assms(1)]
  have "encode_piece_here (chunked_mp4_of ps) k plan src dir i e h = (Inr (), ?h @ [SetProgress k n])"
    by (simp add: encode_piece_here_def bind_io_def board_do_def board_read_def do_call_def)
  moreover have "e_board e (?h @ [SetProgress k n]) (uuid_text k) = run_command (FinishPiece i) (e_board e h (uuid_text k))"
    by (simp add: alone_board [OF assms(1)])
  ultimately show ?thesis by blast
qed

lemma alone_complete:
  assumes "alone e" and "b_todo (e_board e h b) = []" "b_inflight (e_board e h b) = []"
    and "set (b_done (e_board e h b)) = {..<n}" "distinct (b_done (e_board e h b))"
  shows "\<exists>h1. next_piece_of b n sa e h = (Inr Complete, h1)"
proof -
  let ?ds = "b_done (e_board e h b)"
  have "length ?ds = n" using assms(4,5) by (metis card_lessThan distinct_card)
  moreover have "orphans n [] [] [] ?ds = []" using assms(4) by (auto simp: orphans_def filter_empty_conv)
  moreover have "stale_pieces t sa [] = []" for t by (simp add: stale_pieces_def)
  ultimately show ?thesis
    using assms(2,3) alone_redis [OF assms(1)]
    by (simp add: next_piece_of_def take_from_def unclaimed_on_def bind_io_def board_pop_def board_read_def
        do_call_def ask_def popped_def alone_board [OF assms(1)])
qed

lemma alone_loop:
  assumes e: "alone e" "\<forall>h c t. \<exists>out err. e_run e h c t = Ran 0 out err"
    and clock: "\<forall>h. e_clock e h - started \<le> of_int (cm_timeout (chunked_mp4_of ps))"
    and "e_board e h (uuid_text k) = \<lparr>b_plan = pl, b_todo = [i..<piece_count plan], b_inflight = [], b_done = ds\<rparr>"
    and "set ds = {..<i}" "distinct ds" "set mine = {..<i}" "i \<le> piece_count plan" "piece_count plan - i < turns"
  shows "\<exists>mine' h'. encode_until turns (chunked_mp4_of ps) k plan src dir started mine e h = (Inr (Some mine'), h')
    \<and> set mine' = {..<piece_count plan}"
  using assms(4-)
proof (induction turns arbitrary: h i ds mine)
  case (Suc turns)
  have now: "\<not> of_int (cm_timeout (chunked_mp4_of ps)) < e_clock e h - started"
    using clock by (simp add: not_less)
  show ?case
  proof (cases "i = piece_count plan")
    case True
    with Suc.prems have "\<exists>h1. next_piece_of (uuid_text k) (piece_count plan) sa e h = (Inr Complete, h1)" for sa
      by (intro alone_complete [OF e(1)]) simp_all
    then obtain h1 where "next_piece_of (uuid_text k) (piece_count plan) (cm_stale_after (chunked_mp4_of ps)) e h = (Inr Complete, h1)"
      by blast
    with now True Suc.prems(4) show ?thesis by (simp add: bind_io_def ask_def)
  next
    case False
    with Suc.prems have "b_todo (e_board e h (uuid_text k)) = i # [Suc i..<piece_count plan]"
      by (simp add: upt_conv_Cons)
    from alone_take [OF e(1) this] obtain h1 t where
      take: "next_piece_of (uuid_text k) (piece_count plan) (cm_stale_after (chunked_mp4_of ps)) e h = (Inr (Piece i), h1)"
      "e_board e h1 (uuid_text k) = run_command (NoteInflight i t) (run_command PopPiece (e_board e h (uuid_text k)))"
      by blast
    from alone_encode [OF e, of ps k plan src dir i h1] obtain h2 where
      enc: "encode_piece_here (chunked_mp4_of ps) k plan src dir i e h1 = (Inr (), h2)"
      "e_board e h2 (uuid_text k) = run_command (FinishPiece i) (e_board e h1 (uuid_text k))" by blast
    have board: "e_board e h2 (uuid_text k) = \<lparr>b_plan = pl, b_todo = [Suc i..<piece_count plan], b_inflight = [],
        b_done = List.insert i ds\<rparr>"
      using enc(2) take(2) Suc.prems(1) by (simp add: finish_piece_def)
    have sets: "set (List.insert i ds) = {..<Suc i}" "set (List.insert i mine) = {..<Suc i}"
      by (simp_all add: Suc.prems(2,4) lessThan_Suc)
    have "piece_count plan - Suc i < turns" "Suc i \<le> piece_count plan" using Suc.prems(5,6) False by linarith+
    from Suc.IH [OF board sets(1) _ sets(2) this(2,1)] Suc.prems(3)
    have "\<exists>mine' h'. encode_until turns (chunked_mp4_of ps) k plan src dir started (List.insert i mine) e h2
        = (Inr (Some mine'), h') \<and> set mine' = {..<piece_count plan}"
      by (simp only: distinct_insert)
    then obtain mine' h' where
      "encode_until turns (chunked_mp4_of ps) k plan src dir started (List.insert i mine) e h2 = (Inr (Some mine'), h')"
      "set mine' = {..<piece_count plan}" by blast
    with now take(1) enc(1) show ?thesis by (simp add: bind_io_def ask_def)
  qed
qed simp

text \<open>The coordinator needs no helper: with no other worker at the board, as long as FFmpeg does
  its work and the time allowed does not run out, it encodes every piece of the plan itself and then
  stops, after one turn more than there are pieces.\<close>

theorem coordinator_needs_no_helper:
  assumes "alone e" and "\<forall>h c t. \<exists>out err. e_run e h c t = Ran 0 out err"
    and "\<forall>h. e_clock e h - started \<le> of_int (cm_timeout (chunked_mp4_of ps))"
    and "e_board e h (uuid_text k) = open_board (Mp4_Plan plan)"
  shows "\<exists>mine h'. encode_until (Suc (piece_count plan)) (chunked_mp4_of ps) k plan src dir started [] e h
      = (Inr (Some mine), h') \<and> set mine = {..<piece_count plan}"
proof -
  have "e_board e h (uuid_text k) = \<lparr>b_plan = Some (Mp4_Plan plan), b_todo = [0..<piece_count plan], b_inflight = [], b_done = []\<rparr>"
    using assms(4) by (simp add: open_board_def plan_count_def piece_count_def)
  from alone_loop [OF assms(1-3) this, of "[]" "Suc (piece_count plan)" src dir]
  show ?thesis by (auto simp del: encode_until.simps)
qed

definition lone_env :: env where
  \<comment> \<open>the sample environment with Redis to itself\<close>
  "lone_env = sample_env\<lparr>e_board := (\<lambda>h b. fold (effect b) h (open_board (Mp4_Plan sample_pieces)))\<rparr>"

theorem coordinator_needs_no_helper_witness:
  "\<exists>mine h'. encode_until (Suc (piece_count sample_pieces)) (chunked_mp4_of sample_pool) 1 sample_pieces ''src'' ''dir'' 0 [] lone_env []
      = (Inr (Some mine), h') \<and> set mine = {..<piece_count sample_pieces}"
proof (rule coordinator_needs_no_helper)
  show "alone lone_env" by (simp add: alone_def lone_env_def sample_env_def)
  show "\<forall>h c t. \<exists>out err. e_run lone_env h c t = Ran 0 out err" by (simp add: lone_env_def sample_env_def)
  show "\<forall>h. e_clock lone_env h - 0 \<le> of_int (cm_timeout (chunked_mp4_of sample_pool))"
    by (simp add: lone_env_def sample_env_def chunked_mp4_of_def sample_pool_def)
  show "e_board lone_env [] (uuid_text 1) = open_board (Mp4_Plan sample_pieces)" by (simp add: lone_env_def)
qed

end
