(* ===== verification/Ladder_Pieces.thy ===== *)
theory Ladder_Pieces
  imports Ladder_Plan Chunked
begin

text \<open>
  \<open>app/worker/ladder_pieces.py\<close>, the encoding half: one process's side of an adaptive ladder encoded
  in pieces (\<open>LadderPieces\<close> and \<open>help_ladder\<close>), and the playlists that join the pieces. The waiting
  loops are those of \<open>Chunked\<close>, on the board named \<open><job>:ladder\<close>. A duration that is not a finite
  number, which FFmpeg never writes, fails where it is read.
\<close>

section \<open>Playlists\<close>

definition extinf :: "string \<Rightarrow> exn + rat" where
  \<comment> \<open>\<open>float(line.split(":", 1)[1].rstrip(","))\<close>\<close>
  "extinf line =
     (let value = drop (Suc (length (takeWhile (\<lambda>c. c \<noteq> CHR '':'') line))) line;
          value' = rev (dropWhile (\<lambda>c. c = CHR '','') (rev value))
      in case parse_float value' of
           Some (Fin d) \<Rightarrow> Inr d
         | Some _ \<Rightarrow> Inl (OtherError ''OverflowError'')
         | None \<Rightarrow> Inl (ValueError ''could not convert string to float''))"

fun segment_lines :: "string list \<Rightarrow> exn + (rat \<times> string) list" where
  "segment_lines (line # name # rest) =
     (if starts_with line ''#EXTINF:''
      then bind_ok (extinf line) (\<lambda>d. bind_ok (segment_lines (name # rest)) (\<lambda>more. Inr ((d, name) # more)))
      else segment_lines (name # rest))"
| "segment_lines _ = Inr []"

definition segments_of :: "string \<Rightarrow> (rat \<times> string) list io" where
  "segments_of playlist = bind_io (read_text playlist) (\<lambda>text. lift (segment_lines (split_lines text)))"

definition playlist_lines :: "(rat \<times> string) list \<Rightarrow> string list" where
  "playlist_lines entries =
     [''#EXTM3U'', ''#EXT-X-VERSION:3'',
      ''#EXT-X-TARGETDURATION:'' @ dec_int (if entries = [] then 1 else Max (set (map (\<lambda>p. \<lceil>fst p\<rceil>) entries))),
      ''#EXT-X-MEDIA-SEQUENCE:0'', ''#EXT-X-PLAYLIST-TYPE:VOD'']
     @ concat (map (\<lambda>(d, name). [''#EXTINF:'' @ fixed 6 d @ '','', name]) entries)
     @ [''#EXT-X-ENDLIST'']"

definition playlist_text :: "(rat \<times> string) list \<Rightarrow> string" where
  "playlist_text entries = join newline (playlist_lines entries) @ newline"

definition write_playlist :: "string \<Rightarrow> (rat \<times> string) list \<Rightarrow> unit io" where
  "write_playlist path entries = write_text path (playlist_text entries)"

fun float_sum :: "rat \<Rightarrow> rat \<Rightarrow> rat list \<Rightarrow> rat" where
  \<comment> \<open>\<open>sum\<close> of floats, with the running correction Python keeps\<close>
  "float_sum acc c [] = (if c = 0 then acc else fl (acc + c))"
| "float_sum acc c (x # xs) =
     (let t = fl (acc + x);
          c' = (if \<bar>x\<bar> \<le> \<bar>acc\<bar> then fl (c + fl (fl (acc - t) + x)) else fl (c + fl (fl (x - t) + acc)))
      in float_sum t c' xs)"

definition segment_rates :: "int list \<Rightarrow> rat list \<Rightarrow> int \<times> int" where
  "segment_rates sizes seconds =
     (let pairs = zip sizes seconds;
          rate = (\<lambda>(bits, s). fl (fl (of_int bits) / s));
          whole = map rate (filter (\<lambda>p. 1 \<le> snd p) pairs);
          some = map rate (filter (\<lambda>p. 0 < snd p) pairs);
          peak = (if whole \<noteq> [] then Max (set whole) else if some \<noteq> [] then Max (set some) else 0);
          acc = float_sum 0 0 seconds
      in (trunc_int peak, trunc_int (fl (fl (of_int (sum_list sizes)) / (if acc = 0 then 1 else acc)))))"

definition rates_in :: "string \<Rightarrow> (rat \<times> string) list \<Rightarrow> (int \<times> int) io" where
  "rates_in directory entries =
     bind_io (map_io entries (\<lambda>p. bind_io (file_size (in_dir directory (snd p))) (\<lambda>n. ret (n * 8))))
       (\<lambda>sizes. ret (segment_rates sizes (map fst entries)))"

section \<open>The master playlist\<close>

definition PROFILE_IDC :: "(string \<times> nat) list" where
  "PROFILE_IDC = [(''Baseline'', 66), (''Constrained Baseline'', 66), (''Main'', 77), (''High'', 100)]"

fun hex :: "nat \<Rightarrow> string" where
  "hex n = (if n < 16 then [hex_digit n] else hex (n div 16) @ [hex_digit (n mod 16)])"

declare hex.simps [simp del]

definition hex02 :: "int \<Rightarrow> string" where
  \<comment> \<open>\<open>{i:02x}\<close>\<close>
  "hex02 i = (if i < 0 then CHR ''-'' # hex (nat (- i)) else pad0 2 (hex (nat i)))"

fun shown :: "json \<Rightarrow> exn + string" where
  \<comment> \<open>a scalar in an f-string; ffprobe writes a width as a number\<close>
  "shown (JInt i) = Inr (dec_int i)"
| "shown (JStr s) = Inr s"
| "shown (JFloat (Fin r)) = Inr (float_repr r)"
| "shown (JBool b) = Inr (if b then ''True'' else ''False'')"
| "shown JNull = Inr ''None''"
| "shown _ = Inl (OtherError ''not a scalar'')"

definition rung_facts :: "json \<Rightarrow> exn + (string \<times> string)" where
  "rung_facts data =
     bind_ok (item data ''streams'') (\<lambda>streams.
     bind_ok (first_item streams) (\<lambda>stream.
     bind_ok (item stream ''profile'') (\<lambda>name.
     case (case name of JStr s \<Rightarrow> map_of PROFILE_IDC s | _ \<Rightarrow> None) of
       None \<Rightarrow> Inl (KeyError ''profile'')
     | Some profile \<Rightarrow>
         bind_ok (item stream ''level'') (\<lambda>l.
         bind_ok (py_int l) (\<lambda>level.
         bind_ok (item stream ''width'') (\<lambda>w. bind_ok (shown w) (\<lambda>width.
         bind_ok (item stream ''height'') (\<lambda>hh. bind_ok (shown hh) (\<lambda>height.
           Inr (width @ ''x'' @ height,
             ''avc1.'' @ hex02 (int profile)
             @ hex02 (if name = JStr ''Constrained Baseline'' then 64 else 0) @ hex02 level)))))))))) "

definition video_facts :: "string \<Rightarrow> int \<Rightarrow> string \<Rightarrow> (string \<times> string) io" where
  "video_facts ffprobe_binary timeout segment =
     bind_io (run_process (frame_probe ffprobe_binary ''stream=width,height,profile,level'' segment) timeout)
       (\<lambda>outcome. case outcome of
          RunTimeout \<Rightarrow> raise (OtherError ''TimeoutExpired'')
        | RunInterrupted \<Rightarrow> raise (Interrupted ''the worker is stopping'')
        | Ran code out err \<Rightarrow>
            (case (case out of None \<Rightarrow> Inl (ValueError ''not JSON'') | Some data \<Rightarrow> rung_facts data) of
               Inr facts \<Rightarrow> ret facts
             | Inl x \<Rightarrow>
                 raise (if (case x of KeyError _ \<Rightarrow> True | ValueError _ \<Rightarrow> True | TypeError _ \<Rightarrow> True
                              | OtherError m \<Rightarrow> m = ''IndexError'' | _ \<Rightarrow> False)
                        then ObjectStoreError (''could not read rung facts from '' @ path_name segment @ '': '' @ err) UNPROCESSABLE_VIDEO
                        else x)))"

record rung =
  rung_resolution :: string
  rung_codec :: string
  rung_peak :: int
  rung_average :: int

definition master_lines :: "rung list \<Rightarrow> int \<times> int \<Rightarrow> string \<Rightarrow> string list" where
  "master_lines rungs audio audio_uri =
     [''#EXTM3U'', ''#EXT-X-VERSION:3'',
      ''#EXT-X-MEDIA:TYPE=AUDIO,GROUP-ID='' @ quote @ ''group_audio'' @ quote @ '',NAME='' @ quote @ ''audio_''
        @ dec (length rungs) @ quote @ '',DEFAULT=YES,CHANNELS='' @ quote @ ''2'' @ quote @ '',URI='' @ quote @ audio_uri @ quote]
     @ concat (map (\<lambda>(k, r).
         [''#EXT-X-STREAM-INF:BANDWIDTH='' @ dec_int (rung_peak r + fst audio) @ '',AVERAGE-BANDWIDTH=''
            @ dec_int (rung_average r + snd audio) @ '',RESOLUTION='' @ rung_resolution r @ '',CODECS='' @ quote
            @ rung_codec r @ '',mp4a.40.2'' @ quote @ '',AUDIO='' @ quote @ ''group_audio'' @ quote,
          ''v'' @ dec k @ ''/index.m3u8'', []]) (enumerate 0 rungs))
     @ [''#EXT-X-STREAM-INF:BANDWIDTH='' @ dec_int (fst audio) @ '',AVERAGE-BANDWIDTH='' @ dec_int (snd audio)
          @ '',CODECS='' @ quote @ ''mp4a.40.2'' @ quote @ '',AUDIO='' @ quote @ ''group_audio'' @ quote,
        audio_uri]"

definition write_master :: "string \<Rightarrow> rung list \<Rightarrow> int \<times> int \<Rightarrow> string \<Rightarrow> unit io" where
  "write_master path rungs audio audio_uri =
     write_text path (join newline (master_lines rungs audio audio_uri) @ newline)"

section \<open>One piece\<close>

record ladder_pieces =
  lq_store :: store
  lq_enqueue :: "uuid \<Rightarrow> unit io"
  lq_output_prefix :: string
  lq_ffmpeg :: string
  lq_ffprobe :: string
  lq_cutter :: ladder_cutter
  lq_min_duration :: int
  lq_helpers :: int
  lq_stale_after :: rat
  lq_timeout :: int
  lq_wake :: "(int \<Rightarrow> unit io) option"

definition ladder_wants :: "ladder_pieces \<Rightarrow> source_probe \<Rightarrow> bool" where
  "ladder_wants c probe = float_le (Fin (of_int (lq_min_duration c))) (duration_seconds probe)"

definition ladder_board :: "uuid \<Rightarrow> string" where
  \<comment> \<open>\<open>board_for\<close>\<close>
  "ladder_board k = uuid_text k @ '':ladder''"

definition numbered :: "string \<Rightarrow> nat \<Rightarrow> string" where
  "numbered name index = name @ pad0 4 (dec index)"

definition encode_ladder_piece :: "ladder_plan \<Rightarrow> nat \<Rightarrow> string \<Rightarrow> string \<Rightarrow> string \<Rightarrow> int \<Rightarrow> string io" where
  \<comment> \<open>\<open>_encode_piece\<close>\<close>
  "encode_ladder_piece plan index source_path work_dir ffmpeg_binary timeout =
     (let out_dir = in_dir work_dir (numbered ''piece-'' index);
          archive = in_dir work_dir (numbered ''piece-'' index @ ''.tar'') in
      bind_io (rmtree out_dir) (\<lambda>_.
      bind_io (for_io [0..<length (lp_heights plan)] (\<lambda>k. mkdir (in_dir out_dir (''v'' @ dec k)))) (\<lambda>_.
      bind_io (lift (fraction_text (lp_output_rate plan))) (\<lambda>rate.
      bind_io (run_ffmpeg (ladder_piece_command plan rate index source_path out_dir ffmpeg_binary) timeout
                 (''ladder piece '' @ dec index)) (\<lambda>_.
      bind_io (pack out_dir archive) (\<lambda>_.
      bind_io (rmtree out_dir) (\<lambda>_. ret archive)))))))"

section \<open>The coordinator\<close>

definition fetch_archive :: "ladder_pieces \<Rightarrow> uuid \<Rightarrow> string \<Rightarrow> nat \<Rightarrow> string io" where
  "fetch_archive c k work_dir index =
     (let path = in_dir work_dir (numbered ''piece-'' index @ ''.tar'') in
      bind_io (st_download (lq_store c) (piece_archive_key (lq_output_prefix c) k index) path) (\<lambda>_. ret path))"

fun ladder_until ::
  "nat \<Rightarrow> ladder_pieces \<Rightarrow> uuid \<Rightarrow> ladder_plan \<Rightarrow> string \<Rightarrow> string \<Rightarrow> rat \<Rightarrow> nat list \<Rightarrow> nat list option io"
where
  "ladder_until 0 c k plan source_path work_dir started mine = ret None"
| "ladder_until (Suc turns) c k plan source_path work_dir started mine =
     bind_io (ask (\<lambda>e h. e_clock e h)) (\<lambda>now.
       if of_int (lq_timeout c) < now - started
       then raise (ObjectStoreError (''ladder pieces not finished after '' @ dec_int (lq_timeout c) @ '' seconds'') UNPROCESSABLE_VIDEO)
       else bind_io (next_piece_of (ladder_board k) (length (lp_starts plan)) (lq_stale_after c)) (\<lambda>next.
         case next of
           Complete \<Rightarrow> ret (Some mine)
         | Wait finished \<Rightarrow>
             bind_io (sleep 1) (\<lambda>_. ladder_until turns c k plan source_path work_dir started mine)
         | Piece i \<Rightarrow>
             bind_io (encode_ladder_piece plan i source_path work_dir (lq_ffmpeg c) (lq_timeout c)) (\<lambda>_.
             bind_io (board_do (ladder_board k) (FinishPiece i)) (\<lambda>_.
               ladder_until turns c k plan source_path work_dir started (List.insert i mine)))))"

definition segment_name :: "nat \<Rightarrow> string" where
  "segment_name n = ''seg'' @ pad0 5 (dec n) @ ''.ts''"

fun move_segments :: "string \<Rightarrow> string \<Rightarrow> (rat \<times> string) list \<Rightarrow> (rat \<times> string) list \<Rightarrow> (rat \<times> string) list io" where
  \<comment> \<open>one piece's segments onto the end of a rung's\<close>
  "move_segments piece rung_dir [] entries = ret entries"
| "move_segments piece rung_dir ((d, name) # rest) entries =
     bind_io (move_file (in_dir piece name) (in_dir rung_dir (segment_name (length entries)))) (\<lambda>_.
       move_segments piece rung_dir rest (entries @ [(d, segment_name (length entries))]))"

fun join_rung :: "string \<Rightarrow> string \<Rightarrow> nat \<Rightarrow> nat list \<Rightarrow> (rat \<times> string) list \<Rightarrow> (rat \<times> string) list io" where
  "join_rung pieces_dir rung_dir k [] entries = ret entries"
| "join_rung pieces_dir rung_dir k (index # rest) entries =
     (let piece = in_dir (in_dir pieces_dir (pad0 4 (dec index))) (''v'' @ dec k) in
      bind_io (segments_of (in_dir piece ''index.m3u8'')) (\<lambda>segments.
      bind_io (move_segments piece rung_dir segments entries) (\<lambda>entries'.
        join_rung pieces_dir rung_dir k rest entries')))"

definition finish_rung :: "ladder_pieces \<Rightarrow> string \<Rightarrow> (rat \<times> string) list \<Rightarrow> rung io" where
  "finish_rung c rung_dir entries =
     bind_io (write_playlist (in_dir rung_dir ''index.m3u8'') entries) (\<lambda>_.
       case entries of
         [] \<Rightarrow> raise (OtherError ''IndexError'')
       | e # _ \<Rightarrow>
           bind_io (video_facts (lq_ffprobe c) (lq_timeout c) (in_dir rung_dir (snd e))) (\<lambda>facts.
           bind_io (rates_in rung_dir entries) (\<lambda>rates.
             ret \<lparr>rung_resolution = fst facts, rung_codec = snd facts, rung_peak = fst rates, rung_average = snd rates\<rparr>)))"

definition join_ladder :: "ladder_pieces \<Rightarrow> ladder_plan \<Rightarrow> string \<Rightarrow> string \<Rightarrow> string \<Rightarrow> unit io" where
  \<comment> \<open>\<open>_join\<close>\<close>
  "join_ladder c plan pieces_dir work_dir audio_dir =
     bind_io (map_io [0..<length (lp_heights plan)] (\<lambda>k.
       let rung_dir = in_dir work_dir (''v'' @ dec k) in
       bind_io (mkdir rung_dir) (\<lambda>_.
       bind_io (join_rung pieces_dir rung_dir k [0..<length (lp_starts plan)] []) (\<lambda>entries.
         finish_rung c rung_dir entries)))) (\<lambda>rungs.
     bind_io (segments_of (in_dir audio_dir ''index.m3u8'')) (\<lambda>audio.
     bind_io (rates_in audio_dir audio) (\<lambda>rates.
     bind_io (write_master (in_dir work_dir MASTER_PLAYLIST_NAME) rungs rates
                (''v'' @ dec (length (lp_heights plan)) @ ''/index.m3u8'')) (\<lambda>_.
       rmtree pieces_dir))))"

definition gather_pieces ::
  "ladder_pieces \<Rightarrow> uuid \<Rightarrow> string \<Rightarrow> string \<Rightarrow> nat list \<Rightarrow> nat list \<Rightarrow> unit io"
where
  \<comment> \<open>unpacked one after another, each archive removed at once\<close>
  "gather_pieces c k work_dir pieces_dir mine indices =
     for_io indices (\<lambda>index.
       bind_io (if index \<in> set mine then ret (in_dir work_dir (numbered ''piece-'' index @ ''.tar''))
                else fetch_archive c k work_dir index) (\<lambda>archive.
       bind_io (mkdir (in_dir pieces_dir (pad0 4 (dec index)))) (\<lambda>_.
       bind_io (unpack archive (in_dir pieces_dir (pad0 4 (dec index)))) (\<lambda>_. unlink archive))))"

definition encode_ladder_pieces ::
  "nat \<Rightarrow> ladder_pieces \<Rightarrow> uuid \<Rightarrow> ladder_plan \<Rightarrow> string \<Rightarrow> string \<Rightarrow> rat \<Rightarrow> bool option io"
where
  \<comment> \<open>the body of the \<open>try\<close>\<close>
  "encode_ladder_pieces turns c k plan source_path work_dir started =
     (let helpers = min (lq_helpers c) (int (length (lp_starts plan)) - 1);
          audio_dir = in_dir work_dir (''v'' @ dec (length (lp_heights plan)));
          pieces_dir = in_dir work_dir ''pieces'' in
      bind_io (for_io [0..<nat helpers] (\<lambda>_. lq_enqueue c k)) (\<lambda>_.
      bind_io (case lq_wake c of Some wake \<Rightarrow> if helpers \<noteq> 0 then wake (1 + helpers) else ret () | None \<Rightarrow> ret ()) (\<lambda>_.
      bind_io (mkdir audio_dir) (\<lambda>_.
      bind_io (run_ffmpeg (audio_command source_path audio_dir (lq_ffmpeg c)) (lq_timeout c) ''the ladder's audio'') (\<lambda>_.
      bind_io (ladder_until turns c k plan source_path work_dir started []) (\<lambda>ended.
        case ended of
          None \<Rightarrow> ret None
        | Some mine \<Rightarrow>
            bind_io (gather_pieces c k work_dir pieces_dir mine [0..<length (lp_starts plan)]) (\<lambda>_.
            bind_io (join_ladder c plan pieces_dir work_dir audio_dir) (\<lambda>_. ret (Some True)))))))))"

definition discard_ladder_board :: "ladder_pieces \<Rightarrow> uuid \<Rightarrow> unit io" where
  "discard_ladder_board c k =
     bind_io (board_do (ladder_board k) CloseBoard) (\<lambda>_.
     bind_io (attempt (st_delete_prefix (lq_store c) (ladder_prefix (lq_output_prefix c) k))) (\<lambda>_. ret ()))"

definition ladder_encode ::
  "nat \<Rightarrow> ladder_pieces \<Rightarrow> uuid \<Rightarrow> string \<Rightarrow> string \<Rightarrow> source_probe \<Rightarrow> int \<Rightarrow> int list \<Rightarrow> string \<Rightarrow> bool option io"
where
  \<comment> \<open>\<open>LadderPieces.encode\<close>\<close>
  "ladder_encode turns c k source_key source_path probe max_fps heights work_dir =
     bind_io (run_process (frame_probe (lq_ffprobe c) ''packet=pts:stream=time_base:format=start_time'' source_path)
                (lq_timeout c)) (\<lambda>frames.
     bind_io (lift (read_frame_ticks frames)) (\<lambda>(ticks, time_base).
     bind_io (run_process (frame_probe (lq_ffprobe c) ''stream=r_frame_rate,avg_frame_rate'' source_path)
                (lq_timeout c)) (\<lambda>rates.
     bind_io (lift (read_frame_rate rates)) (\<lambda>source_rate.
       case plan_ladder (lq_cutter c) k source_key ticks time_base source_rate probe max_fps heights of
         None \<Rightarrow> ret None
       | Some None \<Rightarrow> ret (Some False)
       | Some (Some plan) \<Rightarrow>
           bind_io (st_delete_prefix (lq_store c) (ladder_prefix (lq_output_prefix c) k)) (\<lambda>_.
           bind_io (board_do (ladder_board k) (OpenBoard (Ladder_Plan plan))) (\<lambda>_.
           bind_io (ask (\<lambda>e h. e_clock e h)) (\<lambda>started.
             finally_io (encode_ladder_pieces turns c k plan source_path work_dir started)
               (discard_ladder_board c k))))))))"

section \<open>The helper\<close>

definition help_ladder_piece ::
  "store \<Rightarrow> string \<Rightarrow> string \<Rightarrow> int \<Rightarrow> uuid \<Rightarrow> ladder_plan \<Rightarrow> string \<Rightarrow> nat \<Rightarrow> bool io"
where
  "help_ladder_piece st output_prefix ffmpeg_binary timeout k plan work_dir index =
     (let source_path = in_dir work_dir ''source'' in
      bind_io (is_file source_path) (\<lambda>there.
      bind_io (if there then ret () else st_download st (lp_source_key plan) source_path) (\<lambda>_.
      bind_io (encode_ladder_piece plan index source_path work_dir ffmpeg_binary timeout) (\<lambda>archive.
      bind_io (board_read (ladder_board k) b_plan) (\<lambda>now_plan.
        if now_plan = None then ret False
        else bind_io (st_upload st (piece_archive_key output_prefix k index) archive ''application/x-tar'') (\<lambda>_.
             bind_io (board_do (ladder_board k) (FinishPiece index)) (\<lambda>_.
             bind_io (unlink archive) (\<lambda>_. ret True))))))))"

fun help_ladder_loop ::
  "nat \<Rightarrow> store \<Rightarrow> string \<Rightarrow> string \<Rightarrow> int \<Rightarrow> uuid \<Rightarrow> ladder_plan \<Rightarrow> string \<Rightarrow> nat \<Rightarrow> nat option io"
where
  "help_ladder_loop 0 st output_prefix ffmpeg_binary timeout k plan work_dir encoded = ret None"
| "help_ladder_loop (Suc turns) st output_prefix ffmpeg_binary timeout k plan work_dir encoded =
     bind_io (take_from (ladder_board k)) (\<lambda>taken.
       case taken of
         None \<Rightarrow> ret (Some encoded)
       | Some index \<Rightarrow>
           bind_io (catch_io (help_ladder_piece st output_prefix ffmpeg_binary timeout k plan work_dir index)
                      (\<lambda>x. bind_io (board_do (ladder_board k) (GiveBack index)) (\<lambda>_. raise x)))
             (\<lambda>more. if more
                then help_ladder_loop turns st output_prefix ffmpeg_binary timeout k plan work_dir (Suc encoded)
                else ret (Some encoded)))"

definition help_ladder :: "nat \<Rightarrow> store \<Rightarrow> string \<Rightarrow> string \<Rightarrow> int \<Rightarrow> uuid \<Rightarrow> nat option io" where
  "help_ladder turns st output_prefix ffmpeg_binary timeout k =
     bind_io (board_read (ladder_board k) b_plan) (\<lambda>found.
       case found of
         Some (Ladder_Plan plan) \<Rightarrow>
           bind_io (mkdtemp ''flickpond-ladder-piece-'') (\<lambda>work_dir.
             finally_io (help_ladder_loop turns st output_prefix ffmpeg_binary timeout k plan work_dir 0) (rmtree work_dir))
       | _ \<Rightarrow> ret (Some 0))"

section \<open>The shipped configuration\<close>

record ladder_settings = pool_settings +
  ws_ladder_piece_seconds :: int
  ws_ladder_timeout :: int
  ws_hls_max_height :: int
  ws_chunked_ladder :: bool

definition ladder_pieces_of :: "ladder_settings \<Rightarrow> ladder_pieces" where
  \<comment> \<open>\<open>_ladder_pieces\<close> of \<open>app/worker/storage.py\<close>\<close>
  "ladder_pieces_of ls =
     \<lparr>lq_store = minio_object_store, lq_enqueue = enqueue ''app.worker.tasks.help_ladder'',
      lq_output_prefix = ws_output_prefix ls, lq_ffmpeg = ws_ffmpeg_binary ls, lq_ffprobe = ws_ffprobe_binary ls,
      lq_cutter = \<lparr>lc_preset = ws_preset ls, lc_piece_seconds = ws_ladder_piece_seconds ls\<rparr>,
      lq_min_duration = ws_chunk_min_duration ls, lq_helpers = ws_chunk_helpers ls, lq_stale_after = 600,
      lq_timeout = ws_ladder_timeout ls - 30, lq_wake = Some wake_workers\<rparr>"

definition ladder_interface :: "nat \<Rightarrow> ladder_pieces \<Rightarrow> ladder_encoder" where
  "ladder_interface turns c =
     \<lparr>le_wants = ladder_wants c,
      le_encode = (\<lambda>k source_key source_path probe max_fps heights work_dir.
        bind_io (ladder_encode turns c k source_key source_path probe max_fps heights work_dir)
          (\<lambda>r. case r of Some b \<Rightarrow> ret b | None \<Rightarrow> raise (OtherError ''still going'')))\<rparr>"

definition ladder_builder_of :: "nat \<Rightarrow> ladder_settings \<Rightarrow> ladder_builder" where
  \<comment> \<open>\<open>get_ladder_step\<close>\<close>
  "ladder_builder_of turns ls =
     \<lparr>lb_store = minio_object_store, lb_output_prefix = strip_chars CHR ''/'' (ws_output_prefix ls),
      lb_ffmpeg_binary = ws_ffmpeg_binary ls, lb_preset = ws_preset ls, lb_timeout = ws_ladder_timeout ls - 30,
      lb_max_height = ws_hls_max_height ls,
      lb_prober = Some (run_probe (ws_ffprobe_binary ls) (ws_ffprobe_timeout ls)),
      lb_pieces = (if ws_chunked_ladder ls then Some (ladder_interface turns (ladder_pieces_of ls)) else None)\<rparr>"

section \<open>What is written\<close>

lemma writes_encode_ladder_piece [writes]: "writes_only K (encode_ladder_piece plan i src dir ff t)"
  unfolding encode_ladder_piece_def Let_def by (auto intro!: writes)

lemma writes_segments_of [writes]: "writes_only K (segments_of p)"
  unfolding segments_of_def by (auto intro!: writes)

lemma writes_move_segments [writes]: "writes_only K (move_segments piece dir segs entries)"
  by (induction piece dir segs entries rule: move_segments.induct) (auto intro!: writes writes_ret [unfolded ret_def])

lemma writes_join_rung [writes]: "writes_only K (join_rung pd rd k is entries)"
  by (induction pd rd k "is" entries rule: join_rung.induct)
    (auto intro!: writes writes_ret [unfolded ret_def] simp: Let_def)

lemma writes_video_facts [writes]: "writes_only K (video_facts fp t s)"
  unfolding video_facts_def by (auto intro!: writes split: run_outcome.split sum.split)

lemma writes_join_ladder [writes]: "writes_only K (join_ladder c plan pd wd ad)"
  unfolding join_ladder_def finish_rung_def rates_in_def write_playlist_def write_master_def Let_def
  by (auto intro!: writes split: list.split)

lemma writes_ladder_until:
  "writes_only K (ladder_until turns (ladder_pieces_of ls) k plan src dir started mine)"
  by (induction turns arbitrary: mine) (auto intro!: writes split: next_piece.split)

lemma ladder_pieces_fields [simp]:
  "lq_store (ladder_pieces_of ls) = minio_object_store"
  "lq_enqueue (ladder_pieces_of ls) = enqueue ''app.worker.tasks.help_ladder''"
  "lq_wake (ladder_pieces_of ls) = Some wake_workers"
  by (simp_all add: ladder_pieces_of_def)

lemma writes_ladder_encode:
  "writes_only K (ladder_encode turns (ladder_pieces_of ls) k key src pr fps hs dir)"
  unfolding ladder_encode_def encode_ladder_pieces_def gather_pieces_def fetch_archive_def discard_ladder_board_def Let_def
  by (auto intro!: writes writes_ladder_until split: option.split prod.split)

text \<open>The coordinator of a ladder in pieces writes nothing to storage either, so that what
  \<open>Hls\<close> shows of the master playlist holds for the ladder step as it is configured.\<close>

lemma ladder_builder_quiet: "quiet_builder (ladder_builder_of turns ls)"
  unfolding quiet_builder_def ladder_builder_of_def ladder_interface_def
  by (auto intro!: quietI writes writes_ladder_encode split: option.split if_splits)

section \<open>Joining\<close>

fun name_on :: "(rat \<times> string) list \<Rightarrow> rat list \<Rightarrow> (rat \<times> string) list" where
  \<comment> \<open>durations put on the end of a rung, each under the next name\<close>
  "name_on entries [] = entries"
| "name_on entries (d # ds) = name_on (entries @ [(d, segment_name (length entries))]) ds"

lemma name_on_append: "name_on entries (ds @ ds') = name_on (name_on entries ds) ds'"
  by (induction ds arbitrary: entries) auto

lemma name_on_fst: "map fst (name_on entries ds) = map fst entries @ ds"
  by (induction ds arbitrary: entries) auto

lemma name_on_snd:
  "map snd (name_on entries ds) = map snd entries @ map segment_name [length entries..<length entries + length ds]"
  by (induction ds arbitrary: entries) (auto simp: upt_conv_Cons simp del: upt_Suc)

lemma move_segments_run:
  "\<exists>h'. move_segments piece dir segs entries e h = (Inr (name_on entries (map fst segs)), h')"
  by (induction piece dir segs entries arbitrary: h rule: move_segments.induct)
    (auto simp: bind_io_def move_file_def do_call_def)

lemma join_rung_run:
  assumes "\<forall>i h. \<exists>h'. segments_of (in_dir (in_dir (in_dir pd (pad0 4 (dec i))) (''v'' @ dec k)) ''index.m3u8'') e h = (Inr (segs i), h')"
  shows "\<exists>h'. join_rung pd rd k js entries e h = (Inr (name_on entries (concat (map (\<lambda>i. map fst (segs i)) js))), h')"
proof (induction js arbitrary: entries h)
  case Nil
  then show ?case by simp
next
  case (Cons i js)
  let ?piece = "in_dir (in_dir pd (pad0 4 (dec i))) (''v'' @ dec k)"
  from assms obtain h1 where h1: "segments_of (in_dir ?piece ''index.m3u8'') e h = (Inr (segs i), h1)" by blast
  obtain h2 where h2: "move_segments ?piece rd (segs i) entries e h1 = (Inr (name_on entries (map fst (segs i))), h2)"
    using move_segments_run by blast
  from Cons.IH [of "name_on entries (map fst (segs i))" h2] h1 h2 show ?case
    by (auto simp: Let_def bind_io_def name_on_append)
qed

lemma segment_name_inj: "inj segment_name"
  by (rule injI) (simp add: segment_name_def)

text \<open>A joined rung plays every segment of every piece once, in the order of the pieces and of each
  piece's own playlist, for as long as that playlist says; and no two of them get the same file name.\<close>

theorem join_rung_in_order:
  assumes "\<forall>i h. \<exists>h'. segments_of (in_dir (in_dir (in_dir pd (pad0 4 (dec i))) (''v'' @ dec k)) ''index.m3u8'') e h = (Inr (segs i), h')"
    and "join_rung pd rd k [0..<n] [] e h = (r, h')"
  shows "\<exists>entries. r = Inr entries \<and> map fst entries = concat (map (\<lambda>i. map fst (segs i)) [0..<n])
    \<and> map snd entries = map segment_name [0..<length entries] \<and> distinct (map snd entries)"
proof -
  let ?ds = "concat (map (\<lambda>i. map fst (segs i)) [0..<n])"
  from join_rung_run [OF assms(1), of rd "[0..<n]" "[]" h] assms(2) have r: "r = Inr (name_on [] ?ds)" by auto
  have "map fst (name_on [] ?ds) = ?ds" by (simp add: name_on_fst)
  moreover from this have "length (name_on [] ?ds) = length ?ds" by (metis length_map)
  moreover have "map snd (name_on [] ?ds) = map segment_name [0..<length ?ds]" by (simp add: name_on_snd)
  moreover have "distinct (map segment_name [0..<length ?ds])"
    by (simp add: distinct_map inj_on_subset [OF segment_name_inj])
  ultimately show ?thesis using r by (intro exI [of _ "name_on [] ?ds"]) simp
qed

section \<open>Playlists read back\<close>

lemma undec_append: "undec (s @ t) = undec s * 10 ^ length t + undec t"
proof -
  have "undec_acc a t = a * 10 ^ length t + undec_acc 0 t" for a
  proof (induction t arbitrary: a)
    case (Cons c t)
    from Cons [of "10 * a + digit_val c"] Cons [of "digit_val c"] show ?case by (simp add: algebra_simps)
  qed simp
  then show ?thesis by (metis undec_acc_append undec_def)
qed

lemma length_dec: "n < 10 ^ Suc k \<Longrightarrow> length (dec n) \<le> Suc k"
proof (induction k arbitrary: n)
  case 0
  then show ?case by (subst dec.simps) simp
next
  case (Suc k)
  show ?case
  proof (cases "n < 10")
    case True
    then show ?thesis by (subst dec.simps) simp
  next
    case False
    have "n div 10 < 10 ^ Suc k" using Suc.prems by (simp add: less_mult_imp_div_less)
    with Suc.IH False show ?thesis by (subst dec.simps) simp
  qed
qed

lemma digits_no_space: "list_all is_digit s \<Longrightarrow> s \<noteq> [] \<Longrightarrow> \<not> py_space (hd s) \<and> \<not> py_space (last s)"
proof -
  have "\<not> py_space c" if "is_digit c" for c
    using that by (auto simp: is_digit_def py_space_def)
  then show "list_all is_digit s \<Longrightarrow> s \<noteq> [] \<Longrightarrow> ?thesis" by (simp add: list_all_iff)
qed

lemma strip_digits: "\<not> py_space (hd s) \<Longrightarrow> \<not> py_space (last s) \<Longrightarrow> s \<noteq> [] \<Longrightarrow> strip s = s"
proof -
  assume "\<not> py_space (hd s)" "\<not> py_space (last s)" "s \<noteq> []"
  then have "lstrip s = s" by (cases s) (simp_all add: lstrip_def)
  obtain t c where "s = t @ [c]" using \<open>s \<noteq> []\<close> by (cases s rule: rev_cases) auto
  with \<open>\<not> py_space (last s)\<close> have "dropWhile py_space (rev s) = rev s" by simp
  with \<open>lstrip s = s\<close> show "strip s = s" by (simp add: strip_def rstrip_def)
qed

lemma dec_list_all: "list_all is_digit (dec n)"
  unfolding list_all_iff using dec_digits by blast

lemma pad0_list_all: "list_all is_digit (pad0 k (dec n))"
proof -
  have "is_digit CHR ''0''" by (simp add: is_digit_def)
  then show ?thesis unfolding pad0_def list_all_append using dec_list_all by (simp add: list_all_iff)
qed

lemma digit_not: "is_digit c \<Longrightarrow> c \<notin> set ''.eE:,-+in''"
  by (auto simp: is_digit_def)

lemma parse_decimal:
  assumes i: "list_all is_digit i" "i \<noteq> []" and f: "list_all is_digit f" "f \<noteq> []"
  shows "parse_float (i @ ''.'' @ f) = Some (Fin (fl (of_nat (undec (i @ f)) * pow10 (- int (length f)))))"
proof -
  let ?s = "i @ ''.'' @ f"
  from i obtain c i' where c: "i = c # i'" "is_digit c" by (cases i) auto
  have no_e: "\<forall>x\<in>set ?s. x \<noteq> CHR ''e'' \<and> x \<noteq> CHR ''E''"
    using i(1) f(1) digit_not by (fastforce simp: list_all_iff)
  have "takeWhile (\<lambda>c. c \<noteq> CHR ''e'' \<and> c \<noteq> CHR ''E'') ?s = ?s"
    unfolding takeWhile_eq_all_conv using no_e by blast
  then have exp: "split_exponent ?s = (?s, None)"
    unfolding split_exponent_def Let_def by (simp only: less_irrefl if_False)
  have "takeWhile (\<lambda>c. c \<noteq> CHR ''.'') ?s = i"
    using i(1) digit_not by (subst takeWhile_append2) (auto simp: list_all_iff)
  moreover have "strip ?s = ?s"
    using digits_no_space [OF i] digits_no_space [OF f] i(2) f(2) by (intro strip_digits) auto
  moreover have "unsigned ?s = (1, ?s)"
    using c digit_not [of c] by (auto simp: unsigned_def)
  moreover have "?s \<noteq> ''inf''" "?s \<noteq> ''infinity''" "?s \<noteq> ''nan''"
    using c digit_not [of c] by auto
  ultimately show ?thesis
    using i f unfolding parse_float_def by (simp only: exp prod.case Let_def if_False option.case) simp
qed

definition six_places :: "rat \<Rightarrow> rat" where
  \<comment> \<open>a duration after a trip through a playlist: six decimal places, as the nearest float\<close>
  "six_places d = fl (of_int (round_half_even (d * 10 ^ 6)) / 10 ^ 6)"

lemma parse_fixed:
  assumes "0 \<le> d"
  shows "parse_float (fixed 6 d) = Some (Fin (six_places d))"
proof -
  define n where "n = nat \<bar>round_half_even (d * 10 ^ 6)\<bar>"
  have n: "round_half_even (d * 10 ^ 6) = int n"
    using round_half_even_nonneg [of "d * 10 ^ 6"] assms by (simp add: n_def)
  define a f where "a = dec (n div 10 ^ 6)" and "f = pad0 6 (dec (n mod 10 ^ 6))"
  have len: "length f = 6"
    using length_dec [of "n mod 10 ^ 6" 5] by (simp add: pad0_def f_def)
  have "undec (a @ f) = n"
    unfolding undec_append len by (simp only: a_def f_def undec_pad0 undec_dec div_mult_mod_eq)
  moreover have "parse_float (a @ ''.'' @ f) = Some (Fin (fl (of_nat (undec (a @ f)) * pow10 (- int (length f)))))"
  proof (rule parse_decimal)
    show "f \<noteq> []" using len by auto
  qed (auto simp: a_def f_def dec_list_all pad0_list_all)
  moreover have "rat_of_nat n * pow10 (- int (length f)) = of_int (round_half_even (d * 10 ^ 6)) / 10 ^ 6"
    unfolding len n by (simp add: pow10_def)
  moreover have "fixed 6 d = a @ ''.'' @ f"
    using assms by (simp add: fixed_def Let_def n_def a_def f_def)
  ultimately show ?thesis by (simp only: six_places_def)
qed

lemma extinf_fixed:
  assumes "0 \<le> d"
  shows "extinf (''#EXTINF:'' @ fixed 6 d @ '','') = Inr (six_places d)"
proof -
  obtain a f where af: "fixed 6 d = a @ ''.'' @ f" "list_all is_digit f" "f \<noteq> []"
    using assms by (simp add: fixed_def Let_def pad0_list_all) (metis pad0_list_all pad0_def append_is_Nil_conv dec_nonempty)
  then have "last (fixed 6 d) \<noteq> CHR '',''" "fixed 6 d \<noteq> []"
    using digit_not [of "last f"] by (auto simp: list_all_iff)
  then obtain s c where "fixed 6 d = s @ [c]" "c \<noteq> CHR '',''" by (metis append_butlast_last_id)
  then have "rev (dropWhile (\<lambda>c. c = CHR '','') (rev (fixed 6 d @ '',''))) = fixed 6 d" by simp
  then show ?thesis
    using parse_fixed [OF assms] by (simp add: extinf_def)
qed

lemma join_unlines: "ls \<noteq> [] \<Longrightarrow> join newline ls @ newline = unlines ls"
proof -
  have "concat (map (\<lambda>s. newline @ s) ys) @ newline = newline @ concat (map (\<lambda>l. l @ newline) ys)" for ys
    by (induction ys) auto
  then show "ls \<noteq> [] \<Longrightarrow> join newline ls @ newline = unlines ls"
    by (cases ls) (auto simp: join_def unlines_def)
qed

lemma segment_lines_skip:
  "\<not> starts_with line ''#EXTINF:'' \<Longrightarrow> segment_lines (line # rest) = segment_lines rest"
  by (cases rest) simp_all

definition entry_lines :: "rat \<times> string \<Rightarrow> string list" where
  "entry_lines p = [''#EXTINF:'' @ fixed 6 (fst p) @ '','', snd p]"

lemma segment_lines_entries:
  assumes "\<forall>p\<in>set entries. 0 \<le> fst p \<and> \<not> starts_with (snd p) ''#EXTINF:''"
  shows "segment_lines (concat (map entry_lines entries) @ [''#EXT-X-ENDLIST'']) = Inr (map (\<lambda>p. (six_places (fst p), snd p)) entries)"
  using assms
proof (induction entries)
  case (Cons p entries)
  let ?rest = "concat (map entry_lines entries) @ [''#EXT-X-ENDLIST'']"
  have "segment_lines ((''#EXTINF:'' @ fixed 6 (fst p) @ '','') # snd p # ?rest)
      = bind_ok (extinf (''#EXTINF:'' @ fixed 6 (fst p) @ '','')) (\<lambda>d. bind_ok (segment_lines (snd p # ?rest)) (\<lambda>more. Inr ((d, snd p) # more)))"
    by (simp only: segment_lines.simps starts_with_append if_True)
  then have "segment_lines ((''#EXTINF:'' @ fixed 6 (fst p) @ '','') # snd p # ?rest)
      = Inr ((six_places (fst p), snd p) # map (\<lambda>p. (six_places (fst p), snd p)) entries)"
    using Cons by (simp only: extinf_fixed list.set_intros ball_simps)
      (simp add: segment_lines_skip bind_ok_def del: segment_lines.simps)
  moreover have "(''#EXTINF:'' @ fixed 6 (fst p) @ '','') # snd p # ?rest
      = concat (map entry_lines (p # entries)) @ [''#EXT-X-ENDLIST'']"
    by (simp add: entry_lines_def)
  ultimately show ?case by (simp only: list.map)
qed (simp add: starts_with_def)

lemma fixed_chars: "c \<in> set (fixed k d) \<Longrightarrow> is_digit c \<or> c = CHR ''-'' \<or> c = CHR ''.''"
  using pad0_list_all [of k] dec_digits by (auto simp: fixed_def Let_def list_all_iff split: if_splits)

lemma newline_notin_fixed: "CHR 0x0A \<notin> set (fixed k d)"
  using fixed_chars [of "CHR 0x0A" k d] by (auto simp: is_digit_def)

lemma newline_notin_dec_int: "CHR 0x0A \<notin> set (dec_int i)"
  using dec_notin [of "CHR 0x0A"] by (auto simp: dec_int_def is_digit_def)

lemma playlist_read:
  assumes "\<forall>p\<in>set entries. 0 \<le> fst p \<and> \<not> starts_with (snd p) ''#EXTINF:'' \<and> CHR 0x0A \<notin> set (snd p)"
  shows "segment_lines (split_lines (playlist_text entries)) = Inr (map (\<lambda>p. (six_places (fst p), snd p)) entries)"
proof -
  have "concat (map (\<lambda>(d, name). [''#EXTINF:'' @ fixed 6 d @ '','', name]) entries) = concat (map entry_lines entries)"
    by (induction entries) (auto simp: entry_lines_def)
  then obtain t where lines: "playlist_lines entries = [''#EXTM3U'', ''#EXT-X-VERSION:3'', ''#EXT-X-TARGETDURATION:'' @ dec_int t,
      ''#EXT-X-MEDIA-SEQUENCE:0'', ''#EXT-X-PLAYLIST-TYPE:VOD''] @ concat (map entry_lines entries) @ [''#EXT-X-ENDLIST'']"
    unfolding playlist_lines_def by metis
  have "CHR 0x0A \<notin> set l" if "l \<in> set (concat (map entry_lines entries))" for l
    using that assms newline_notin_fixed by (auto simp: entry_lines_def)
  then have "CHR 0x0A \<notin> set l" if "l \<in> set (playlist_lines entries)" for l
    using that newline_notin_dec_int [of t] unfolding lines by auto
  then have "split_lines (unlines (playlist_lines entries)) = playlist_lines entries"
    by (rule split_lines_unlines)
  moreover have "playlist_lines entries \<noteq> []" by (simp add: playlist_lines_def)
  ultimately have "split_lines (playlist_text entries) = playlist_lines entries"
    unfolding playlist_text_def by (metis join_unlines)
  moreover have "segment_lines (playlist_lines entries)
      = segment_lines (concat (map entry_lines entries) @ [''#EXT-X-ENDLIST''])"
    unfolding lines by (simp add: segment_lines_skip starts_with_def)
  moreover have "segment_lines (concat (map entry_lines entries) @ [''#EXT-X-ENDLIST''])
      = Inr (map (\<lambda>p. (six_places (fst p), snd p)) entries)"
    using assms by (intro segment_lines_entries) blast
  ultimately show ?thesis by (simp only:)
qed

text \<open>C40. A playlist the join writes reads back as it was: the same files in the same order, each for its
  duration to six decimal places.\<close>

theorem playlist_roundtrip:
  assumes "\<forall>p\<in>set entries. 0 \<le> fst p \<and> \<not> starts_with (snd p) ''#EXTINF:'' \<and> CHR 0x0A \<notin> set (snd p)"
    and "e_read_text e h path = Inr (playlist_text entries)"
  shows "segments_of path e h = (Inr (map (\<lambda>p. (six_places (fst p), snd p)) entries), h)"
  using playlist_read [OF assms(1)] assms(2)
  by (simp add: segments_of_def bind_io_def read_text_def)

definition two_segments :: string where
  "two_segments = playlist_text [(6, ''seg00000.ts''), (5 / 2, ''seg00001.ts'')]"

lemma two_segments_read:
  "segment_lines (split_lines two_segments) = Inr [(6, ''seg00000.ts''), (5 / 2, ''seg00001.ts'')]"
proof -
  have "six_places 6 = 6" "six_places (5 / 2) = 5 / 2" by code_simp+
  with playlist_read [of "[(6, ''seg00000.ts''), (5 / 2, ''seg00001.ts'')]"] show ?thesis
    by (simp add: two_segments_def starts_with_def)
qed

theorem playlist_roundtrip_witness:
  "segments_of ''index.m3u8'' (sample_env\<lparr>e_read_text := (\<lambda>h f. Inr two_segments)\<rparr>) []
     = (Inr [(six_places 6, ''seg00000.ts''), (six_places (5 / 2), ''seg00001.ts'')], [])"
  using playlist_roundtrip [of "[(6, ''seg00000.ts''), (5 / 2, ''seg00001.ts'')]"
      "sample_env\<lparr>e_read_text := (\<lambda>h f. Inr two_segments)\<rparr>" "[]" "''index.m3u8''"]
  by (simp add: two_segments_def starts_with_def)

theorem join_rung_in_order_witness:
  "case fst (join_rung ''p'' ''v0'' 0 [0..<2] [] (sample_env\<lparr>e_read_text := (\<lambda>h f. Inr two_segments)\<rparr>) []) of
     Inr entries \<Rightarrow> map fst entries = [6, 5 / 2, 6, 5 / 2] | Inl _ \<Rightarrow> False"
proof -
  let ?e = "sample_env\<lparr>e_read_text := (\<lambda>h f. Inr two_segments)\<rparr>"
  have "\<exists>h'. segments_of f ?e h = (Inr [(6, ''seg00000.ts''), (5 / 2, ''seg00001.ts'')], h')" for f h
    by (simp add: segments_of_def bind_io_def read_text_def two_segments_read)
  then obtain entries where "fst (join_rung ''p'' ''v0'' 0 [0..<2] [] ?e []) = Inr entries"
    "map fst entries = concat (map (\<lambda>i. map fst [(6, ''seg00000.ts''), (5 / 2 :: rat, ''seg00001.ts'')]) [0..<2])"
    using join_rung_in_order [where segs = "\<lambda>i. [(6, ''seg00000.ts''), (5 / 2, ''seg00001.ts'')]",
        OF _ prod.collapse [symmetric], of "''p''" 0 ?e "''v0''" 2 "[]"] by blast
  then show ?thesis by (simp add: numeral_2_eq_2)
qed

end
