(* ===== verification/Sessions.thy ===== *)
theory Sessions
  imports Job_Store Effects
begin

text \<open>
  Coroutines that hold database sessions. A \<open>task\<close> runs against a \<open>world\<close>: the environment of
  its blocking calls, the transactions other processes commit before each of its own, the clock and
  the stop flag of its worker. Its state is the trace of what it did, the calls of its threads and
  the databases it committed, and the database as its last session left it. A session that only
  reads commits nothing.
\<close>

section \<open>The world of a task\<close>

datatype event = Call call | Commit db

fun calls_of :: "event list \<Rightarrow> call list" where
  "calls_of [] = []"
| "calls_of (Call c # t) = c # calls_of t"
| "calls_of (Commit d # t) = calls_of t"

fun commits_of :: "event list \<Rightarrow> db list" where
  "commits_of [] = []"
| "commits_of (Call c # t) = commits_of t"
| "commits_of (Commit d # t) = d # commits_of t"

record world =
  w_env :: env
  w_others :: "event list \<Rightarrow> db \<Rightarrow> db"
  w_now :: "event list \<Rightarrow> instant"
  w_stopped :: "event list \<Rightarrow> bool"

type_synonym 'a task = "world \<Rightarrow> event list \<Rightarrow> db \<Rightarrow> (exn + 'a) \<times> event list \<times> db"

definition others_commit :: "world \<Rightarrow> bool" where
  \<comment> \<open>the other processes change the jobs only by the operations of the repository\<close>
  "others_commit W \<longleftrightarrow> (\<forall>t d. job_step\<^sup>*\<^sup>* d (w_others W t d))"

section \<open>Sequencing\<close>

definition ret_t :: "'a \<Rightarrow> 'a task" where
  "ret_t x = (\<lambda>W t d. (Inr x, t, d))"

definition raise_t :: "exn \<Rightarrow> 'a task" where
  "raise_t x = (\<lambda>W t d. (Inl x, t, d))"

definition bind_t :: "'a task \<Rightarrow> ('a \<Rightarrow> 'b task) \<Rightarrow> 'b task" where
  "bind_t m k =
     (\<lambda>W t d. case m W t d of (Inl x, t', d') \<Rightarrow> (Inl x, t', d') | (Inr a, t', d') \<Rightarrow> k a W t' d')"

definition try_t :: "'a task \<Rightarrow> (exn + 'a) task" where
  \<comment> \<open>the result of a block under \<open>try\<close>, for the handlers that follow\<close>
  "try_t m = (\<lambda>W t d. case m W t d of (r, t', d') \<Rightarrow> (Inr r, t', d'))"

definition in_thread :: "'a io \<Rightarrow> 'a task" where
  \<comment> \<open>\<open>await asyncio.to_thread(m)\<close>\<close>
  "in_thread m =
     (\<lambda>W t d. case m (w_env W) (calls_of t) of
        (r, h) \<Rightarrow> (r, t @ map Call (drop (length (calls_of t)) h), d))"

definition session :: "(instant \<Rightarrow> db \<Rightarrow> exn + (db \<times> 'a)) \<Rightarrow> 'a task" where
  \<comment> \<open>one transaction, on whatever the others have committed by then\<close>
  "session f =
     (\<lambda>W t d. case f (w_now W t) (w_others W t d) of
        Inl x \<Rightarrow> (Inl x, t, w_others W t d)
      | Inr (d', a) \<Rightarrow> (Inr a, t @ [Commit d'], d'))"

definition reading :: "(db \<Rightarrow> 'a) \<Rightarrow> 'a task" where
  "reading f = (\<lambda>W t d. (Inr (f (w_others W t d)), t, w_others W t d))"

definition stop_requested :: "bool task" where
  "stop_requested = (\<lambda>W t d. (Inr (w_stopped W t), t, d))"

definition asking :: "(event list \<Rightarrow> 'a) \<Rightarrow> 'a task" where
  "asking q = (\<lambda>W t d. (Inr (q t), t, d))"

definition clock :: "instant task" where
  "clock = (\<lambda>W t d. (Inr (w_now W t), t, d))"

fun counting :: "'a list \<Rightarrow> ('a \<Rightarrow> bool task) \<Rightarrow> nat task" where
  \<comment> \<open>a loop that counts the iterations that did something\<close>
  "counting [] f = ret_t 0"
| "counting (x # xs) f =
     bind_t (f x) (\<lambda>b. bind_t (counting xs f) (\<lambda>n. ret_t (if b then Suc n else n)))"

definition undisturbed :: "world \<Rightarrow> bool" where
  \<comment> \<open>nobody else commits while the pass runs\<close>
  "undisturbed W \<longleftrightarrow> (\<forall>t d. w_others W t d = d)"

lemma calls_of_append [simp]: "calls_of (t @ u) = calls_of t @ calls_of u"
  by (induction t rule: calls_of.induct) auto

lemma commits_of_append [simp]: "commits_of (t @ u) = commits_of t @ commits_of u"
  by (induction t rule: commits_of.induct) auto

lemma of_calls [simp]: "calls_of (map Call cs) = cs" "commits_of (map Call cs) = []"
  by (induction cs) auto

lemma ret_t_eq [simp]: "ret_t x W t d = (Inr x, t, d)"
  by (simp add: ret_t_def)

lemma raise_t_eq [simp]: "raise_t x W t d = (Inl x, t, d)"
  by (simp add: raise_t_def)

lemma try_t_eq [simp]: "try_t m W t d = (case m W t d of (r, t', d') \<Rightarrow> (Inr r, t', d'))"
  by (simp add: try_t_def)

lemma stop_requested_eq [simp]: "stop_requested W t d = (Inr (w_stopped W t), t, d)"
  by (simp add: stop_requested_def)

lemma reading_eq [simp]: "reading f W t d = (Inr (f (w_others W t d)), t, w_others W t d)"
  by (simp add: reading_def)

lemma bind_t_eq: "m W t d = (r, t', d') \<Longrightarrow> bind_t m k W t d =
    (case r of Inl x \<Rightarrow> (Inl x, t', d') | Inr a \<Rightarrow> k a W t' d')"
  by (simp add: bind_t_def split: sum.split)

lemma bind_t_Inr: "m W t d = (Inr a, t', d') \<Longrightarrow> bind_t m k W t d = k a W t' d'"
  by (simp add: bind_t_def)

lemma bind_ret_t [simp]: "bind_t (ret_t x) k = k x"
  by (simp add: bind_t_def ret_t_def)

lemma in_thread_cases:
  obtains r cs where "in_thread m W t d = (r, t @ map Call cs, d)"
    and "\<exists>h. m (w_env W) (calls_of t) = (r, h)"
  by (cases "m (w_env W) (calls_of t)") (auto simp: in_thread_def)

section \<open>What sessions keep\<close>

text \<open>The contract of a session's transaction: it keeps the invariant of the table, as the other
  processes do.\<close>

lemma others_inv: "others_commit W \<Longrightarrow> jobs_inv (db_jobs d) \<Longrightarrow> jobs_inv (db_jobs (w_others W t d))"
  unfolding others_commit_def by (blast intro: job_steps_inv)

locale transaction =
  fixes f :: "instant \<Rightarrow> db \<Rightarrow> exn + (db \<times> 'a)"
  assumes commits: "f now d = Inr (d', a) \<Longrightarrow> job_step d d'"
begin

lemma session_inv:
  assumes "others_commit W" and "jobs_inv (db_jobs d)" and "session f W t d = (r, t', d')"
  shows "jobs_inv (db_jobs d')"
  using assms others_inv [OF assms(1,2), of t]
  by (auto simp: session_def split: sum.splits prod.splits dest: commits job_step_inv)

lemma session_trace:
  assumes "session f W t d = (r, t', d')"
  shows "(case r of Inl x \<Rightarrow> t' = t | Inr a \<Rightarrow> t' = t @ [Commit d'])"
  using assms by (auto simp: session_def split: sum.splits prod.splits)

end

interpretation claim_tx: transaction "\<lambda>now. mark_processing now k" for k
  by unfold_locales (rule job_step.processing)

interpretation done_tx: transaction "\<lambda>now. mark_done now k out v" for k out v
  by unfold_locales (rule job_step.finished)

interpretation failed_tx: transaction "\<lambda>now. mark_failed now k err" for k err
  by unfold_locales (rule job_step.failed)

interpretation interrupted_tx: transaction "\<lambda>now. mark_interrupted now k" for k
  by unfold_locales (rule job_step.interrupted)

interpretation ready_tx: transaction "\<lambda>now. mark_ladder_ready now k key" for k key
  by unfold_locales (rule job_step.ladder_ready)

interpretation unavailable_tx: transaction "\<lambda>now. mark_ladder_unavailable now k" for k
  by unfold_locales (rule job_step.ladder_unavailable)

interpretation stale_tx: transaction "\<lambda>now. mark_stale_failed now k" for k
  by unfold_locales (rule job_step.stale)

end
