(* ===== verification/Edit_Ops.thy ===== *)
theory Edit_Ops
  imports Edit_Schema Probe
begin

text \<open>
  \<open>app/worker/edit_ops/\<close>: the FFmpeg filters of each edit operation, the registry they are
  entered in, and \<open>filter_chain\<close>, which runs them in \<open>OPERATION_ORDER\<close> and splits the result
  where the worker inserts the tone-map. A builder that raises is \<open>Inl\<close>.
\<close>

section \<open>Steps\<close>

record filter_step =
  step_video :: "string list"
  step_audio :: "string list"

definition no_step :: filter_step where
  "no_step = \<lparr>step_video = [], step_audio = []\<rparr>"

definition video_step :: "string list \<Rightarrow> filter_step" where
  "video_step fs = \<lparr>step_video = fs, step_audio = []\<rparr>"

type_synonym edit_filter = "params \<Rightarrow> frame \<Rightarrow> exn + filter_step"

fun fmt :: "json \<Rightarrow> string" where
  \<comment> \<open>\<open>f"{value}"\<close> of a scalar; lists and objects never reach a builder\<close>
  "fmt (JInt i) = dec_int i"
| "fmt (JFloat (Fin r)) = float_repr r"
| "fmt (JFloat PInf) = ''inf''"
| "fmt (JFloat NInf) = ''-inf''"
| "fmt (JFloat NaN) = ''nan''"
| "fmt (JStr s) = s"
| "fmt (JBool b) = (if b then ''True'' else ''False'')"
| "fmt _ = ''None''"

definition item :: "params \<Rightarrow> string \<Rightarrow> exn + json" where
  \<comment> \<open>\<open>params[key]\<close>\<close>
  "item ps key = (case map_of ps key of Some v \<Rightarrow> Inr v | None \<Rightarrow> Inl (KeyError key))"

definition with_item :: "params \<Rightarrow> string \<Rightarrow> (json \<Rightarrow> exn + 'a) \<Rightarrow> exn + 'a" where
  "with_item ps key k = (case item ps key of Inl e \<Rightarrow> Inl e | Inr v \<Rightarrow> k v)"

section \<open>The builders\<close>

definition crop_build :: edit_filter where
  "crop_build ps fr =
     with_item ps ''w'' (\<lambda>w. with_item ps ''h'' (\<lambda>h. with_item ps ''x'' (\<lambda>x. with_item ps ''y'' (\<lambda>y.
       Inr (video_step [''crop='' @ fmt w @ '':'' @ fmt h @ '':'' @ fmt x @ '':'' @ fmt y])))))"

definition rotate_build :: edit_filter where
  "rotate_build ps fr =
     with_item ps ''degrees'' (\<lambda>d.
       if num_eq d 90 then Inr (video_step [''transpose=1''])
       else if num_eq d 180 then Inr (video_step [''hflip'', ''vflip''])
       else if num_eq d 270 then Inr (video_step [''transpose=2''])
       else Inl (KeyError (fmt d)))"

definition flip_build :: edit_filter where
  "flip_build ps fr =
     with_item ps ''axis'' (\<lambda>a.
       Inr (video_step [if a = JStr ''horizontal'' then ''hflip'' else ''vflip'']))"

definition downscale :: edit_filter where
  "downscale ps fr = with_item ps ''height'' (\<lambda>h. Inr (video_step [''scale=-2:'' @ fmt h]))"

definition upscale :: edit_filter where
  "upscale ps fr =
     with_item ps ''height'' (\<lambda>h. Inr (video_step [''scale=-2:'' @ fmt h @ '':flags=lanczos'']))"

definition ADJUST_DEFAULTS :: "(string \<times> int) list" where
  "ADJUST_DEFAULTS = [(''brightness'', 0), (''contrast'', 1), (''saturation'', 1), (''gamma'', 1)]"

definition adjust_number :: "json \<Rightarrow> exn + string" where
  \<comment> \<open>\<open>format(float(value), ".4g")\<close>\<close>
  "adjust_number v =
     (case py_float v of
        Inl e \<Rightarrow> Inl e
      | Inr (Fin r) \<Rightarrow> Inr (format_g4 r)
      | Inr f \<Rightarrow> Inr (fmt (JFloat f)))"

fun adjust_options :: "params \<Rightarrow> (string \<times> int) list \<Rightarrow> exn + string list" where
  "adjust_options ps [] = Inr []"
| "adjust_options ps ((name, dflt) # rest) =
     (case map_of ps name of
        Some v \<Rightarrow>
          if v \<noteq> JNull \<and> \<not> num_eq v dflt
          then (case adjust_number v of
                  Inl e \<Rightarrow> Inl e
                | Inr t \<Rightarrow>
                    (case adjust_options ps rest of
                       Inl e \<Rightarrow> Inl e
                     | Inr ts \<Rightarrow> Inr ((name @ ''='' @ t) # ts)))
          else adjust_options ps rest
      | None \<Rightarrow> adjust_options ps rest)"

definition adjust_build :: edit_filter where
  "adjust_build ps fr =
     (case adjust_options ps ADJUST_DEFAULTS of
        Inl e \<Rightarrow> Inl e
      | Inr options \<Rightarrow>
          if options = [] then Inr no_step else Inr (video_step [''eq='' @ join '':'' options]))"

definition PRESET_FILTERS :: "(string \<times> string list) list" where
  "PRESET_FILTERS =
     [(''bw'', [''eq=saturation=0'']),
      (''warm'', [''eq=saturation=1.12:brightness=0.02'', ''colorbalance=rm=0.08:bm=-0.08'']),
      (''cool'', [''eq=saturation=1.05:brightness=0.01'', ''colorbalance=rm=-0.06:bm=0.08'']),
      (''vintage'', [''eq=saturation=0.82:contrast=0.95'', ''curves=preset=vintage'']),
      (''vivid'', [''eq=saturation=1.38:contrast=1.12'', ''colorbalance=rm=0.03:bm=0.03''])]"

definition preset_build :: edit_filter where
  "preset_build ps fr =
     with_item ps ''name'' (\<lambda>n.
       let matrix = ''scale=in_color_matrix=auto:out_color_matrix=bt709:out_range=tv'';
           tags = ''setparams=colorspace=bt709:range=limited''
       in case n of
            JStr s \<Rightarrow>
              (case map_of PRESET_FILTERS s of
                 Some look \<Rightarrow>
                   Inr (video_step ([matrix, ''format=yuv444p'', tags] @ look
                                    @ [matrix, ''format=yuv420p'', tags]))
               | None \<Rightarrow> Inl (KeyError s))
          | _ \<Rightarrow> Inl (KeyError (fmt n)))"

definition speed_build :: edit_filter where
  "speed_build ps fr =
     with_item ps ''factor'' (\<lambda>f.
       Inr \<lparr>step_video = [''setpts=(PTS-STARTPTS)/'' @ fmt f],
            step_audio = [''asetpts=PTS-STARTPTS'', ''atempo='' @ fmt f]\<rparr>)"

section \<open>The registry\<close>

type_synonym filters = "(string \<times> edit_filter) list"

definition register_filter :: "string \<Rightarrow> edit_filter \<Rightarrow> filters \<Rightarrow> exn + filters" where
  "register_filter name build fs =
     (if map_of OPERATION_RULES name = None
      then Inl (ValueError (apostrophe @ name @ apostrophe @ '' has no rule in app.services.media_rules''))
      else if map_of fs name \<noteq> None
      then Inl (ValueError (apostrophe @ name @ apostrophe @ '' is registered twice''))
      else Inr (fs @ [(name, build)]))"

definition filter_registrations :: "(string \<times> edit_filter) list" where
  \<comment> \<open>the \<open>register_filter\<close> calls, in the import order of the package\<close>
  "filter_registrations =
     [(''adjust'', adjust_build), (''crop'', crop_build), (''flip'', flip_build),
      (''preset'', preset_build), (''rotate'', rotate_build), (''downscale'', downscale),
      (''upscale'', upscale), (''speed'', speed_build)]"

fun register_filters :: "(string \<times> edit_filter) list \<Rightarrow> filters \<Rightarrow> exn + filters" where
  "register_filters [] fs = Inr fs"
| "register_filters ((name, build) # todo) fs =
     (case register_filter name build fs of Inl e \<Rightarrow> Inl e | Inr fs' \<Rightarrow> register_filters todo fs')"

definition FILTERS :: filters where
  "FILTERS = (case register_filters filter_registrations [] of Inr fs \<Rightarrow> fs | Inl _ \<Rightarrow> [])"

section \<open>The chain\<close>

definition TONE_MAPPED_FROM :: string where
  "TONE_MAPPED_FROM = ''adjust''"

record filter_chain_result =
  before_tone_map :: "string list"
  after_tone_map :: "string list"
  chain_audio :: "string list"

definition chain_video :: "filter_chain_result \<Rightarrow> string list" where
  "chain_video c = before_tone_map c @ after_tone_map c"

fun index_of :: "string list \<Rightarrow> string \<Rightarrow> nat" where
  "index_of [] x = 0"
| "index_of (y # ys) x = (if x = y then 0 else Suc (index_of ys x))"

definition mapped :: "string \<Rightarrow> bool" where
  "mapped name \<longleftrightarrow> index_of OPERATION_ORDER TONE_MAPPED_FROM \<le> index_of OPERATION_ORDER name"

definition extend :: "string \<Rightarrow> filter_step \<Rightarrow> filter_chain_result \<Rightarrow> filter_chain_result" where
  "extend name step c =
     (if mapped name
      then c\<lparr>after_tone_map := after_tone_map c @ step_video step,
             chain_audio := chain_audio c @ step_audio step\<rparr>
      else c\<lparr>before_tone_map := before_tone_map c @ step_video step,
             chain_audio := chain_audio c @ step_audio step\<rparr>)"

definition run_build :: "string \<Rightarrow> params \<Rightarrow> frame \<Rightarrow> filter_chain_result \<Rightarrow> exn + filter_chain_result"
where
  "run_build name ps fr c =
     (case map_of FILTERS name of
        None \<Rightarrow> Inr c
      | Some build \<Rightarrow> (case build ps fr of Inl e \<Rightarrow> Inl e | Inr step \<Rightarrow> Inr (extend name step c)))"

definition next_frame :: "string \<Rightarrow> params \<Rightarrow> frame \<Rightarrow> exn + frame" where
  "next_frame name ps fr =
     (case map_of OPERATION_RULES name of
        Some rule \<Rightarrow> rule_check rule ps fr
      | None \<Rightarrow> Inl (KeyError name))"

fun chain_loop ::
  "(string \<Rightarrow> params) \<Rightarrow> string list \<Rightarrow> frame \<Rightarrow> filter_chain_result \<Rightarrow> exn + filter_chain_result"
where
  "chain_loop named [] fr c = Inr c"
| "chain_loop named (name # names) fr c =
     (case run_build name (named name) fr c of
        Inl e \<Rightarrow> Inl e
      | Inr c' \<Rightarrow>
          (case next_frame name (named name) fr of
             Inl e \<Rightarrow> Inl e
           | Inr fr' \<Rightarrow> chain_loop named names fr' c'))"

definition empty_chain :: filter_chain_result where
  "empty_chain = \<lparr>before_tone_map = [], after_tone_map = [], chain_audio = []\<rparr>"

definition filter_chain :: "(string \<times> params) list \<Rightarrow> frame \<Rightarrow> exn + filter_chain_result" where
  "filter_chain operations fr =
     chain_loop (named_of operations) (ordered (set (map fst operations))) fr empty_chain"

section \<open>The registry holds every builder\<close>

lemma FILTERS_registrations: "FILTERS = filter_registrations"
  by (simp add: FILTERS_def filter_registrations_def register_filter_def)

lemma map_of_FILTERS [simp]:
  "map_of FILTERS ''adjust'' = Some adjust_build"
  "map_of FILTERS ''crop'' = Some crop_build"
  "map_of FILTERS ''flip'' = Some flip_build"
  "map_of FILTERS ''preset'' = Some preset_build"
  "map_of FILTERS ''rotate'' = Some rotate_build"
  "map_of FILTERS ''downscale'' = Some downscale"
  "map_of FILTERS ''upscale'' = Some upscale"
  "map_of FILTERS ''speed'' = Some speed_build"
  "map_of FILTERS ''clip'' = None"
  "map_of FILTERS ''convert'' = None"
  by (simp_all add: FILTERS_registrations filter_registrations_def)

lemmas build_defs = crop_build_def rotate_build_def flip_build_def downscale_def upscale_def
  adjust_build_def preset_build_def speed_build_def with_item_def item_def

lemma adjust_number_dump: "\<exists>t. adjust_number (dump_finite v) = Inr t"
  by (cases v) (simp_all add: adjust_number_def)

lemma map_of_dump_given:
  "map_of (dump_given xs) k = Some v \<Longrightarrow> \<exists>n. v = dump_finite n"
  by (induction xs rule: dump_given.induct) (auto split: if_splits)

lemma adjust_options_dump: "\<exists>ts. adjust_options (dump_given xs) ds = Inr ts"
proof (induction ds)
  case Nil
  then show ?case by simp
next
  case (Cons d ds)
  obtain name dflt where d: "d = (name, dflt)" by fastforce
  from Cons obtain ts where ts: "adjust_options (dump_given xs) ds = Inr ts" by blast
  show ?case
  proof (cases "map_of (dump_given xs) name")
    case (Some v)
    then obtain n where v: "v = dump_finite n" using map_of_dump_given by blast
    obtain t where "adjust_number v = Inr t" using adjust_number_dump v by blast
    with Some ts d show ?thesis by simp
  qed (simp add: d ts)
qed

lemma builds_total:
  "\<exists>step. crop_build (op_params (CropOperation x y w h)) fr = Inr step"
  "\<exists>step. downscale (op_params (DownscaleOperation h)) fr = Inr step"
  "\<exists>step. upscale (op_params (UpscaleOperation h)) fr = Inr step"
  "\<exists>step. flip_build (op_params (FlipOperation a)) fr = Inr step"
  "\<exists>step. speed_build (op_params (SpeedOperation f)) fr = Inr step"
  by (simp_all add: build_defs)

lemma rotate_build_total: "op_valid (RotateOperation d) \<Longrightarrow>
    \<exists>step. rotate_build (op_params (RotateOperation d)) fr = Inr step"
  by (auto simp: build_defs)

lemma preset_build_total: "op_valid (PresetOperation n) \<Longrightarrow>
    \<exists>step. preset_build (op_params (PresetOperation n)) fr = Inr step"
proof -
  have presets: "list_all (\<lambda>n. map_of PRESET_FILTERS n \<noteq> None) [''bw'', ''warm'', ''cool'', ''vintage'', ''vivid'']"
    by code_simp
  assume "op_valid (PresetOperation n)"
  then have "n \<in> set [''bw'', ''warm'', ''cool'', ''vintage'', ''vivid'']"
    by (simp only: op_valid.simps list.set)
  with presets have "map_of PRESET_FILTERS n \<noteq> None"
    by (simp only: list_all_iff) blast
  then show ?thesis
    by (auto simp: preset_build_def with_item_def item_def Let_def)
qed

lemma adjust_build_total: "\<exists>step. adjust_build (op_params (AdjustOperation b c s g)) fr = Inr step"
  using adjust_options_dump
    [of "[(''brightness'', b), (''contrast'', c), (''saturation'', s), (''gamma'', g)]" ADJUST_DEFAULTS]
  by (auto simp: adjust_build_def)

lemma build_valid:
  assumes valid: "op_valid x" and build: "map_of FILTERS (op_name x) = Some build"
  shows "\<exists>step. build (op_params x) fr = Inr step"
proof (cases x)
  case (RotateOperation d)
  with rotate_build_total valid build show ?thesis by (metis map_of_FILTERS(5) op_name.simps(5) option.inject)
next
  case (PresetOperation n)
  with preset_build_total valid build show ?thesis by (metis map_of_FILTERS(4) op_name.simps(9) option.inject)
next
  case (AdjustOperation b c s g)
  with build have "build = adjust_build" by simp
  with AdjustOperation show ?thesis by (simp only: adjust_build_total)
qed (use build builds_total in \<open>simp_all del: op_params.simps add: eq_commute [of _ build]\<close>)

section \<open>Accepted edits build\<close>

definition operation_pairs :: "edit_request \<Rightarrow> (string \<times> params) list" where
  "operation_pairs r = map (\<lambda>x. (op_name x, op_params x)) r"

lemma named_of_pairs:
  assumes "distinct (map op_name r)" and "x \<in> set r"
  shows "named_of (operation_pairs r) (op_name x) = op_params x"
proof -
  have "distinct (map fst (operation_pairs r))"
    using assms(1) by (simp add: operation_pairs_def comp_def)
  moreover from this have "map_of (operation_pairs r) (op_name x) = Some (op_params x)"
    by (rule map_of_is_SomeI) (use assms(2) in \<open>auto simp: operation_pairs_def\<close>)
  ultimately show ?thesis by (simp add: named_of_def map_of_rev_distinct)
qed

lemma chain_loop_Inr:
  assumes "run_checks named names fr = Inr fr'"
    and "set names \<subseteq> set OPERATION_ORDER"
    and "\<And>name fr build. name \<in> set names \<Longrightarrow> map_of FILTERS name = Some build \<Longrightarrow>
           \<exists>step. build (named name) fr = Inr step"
  shows "\<exists>c'. chain_loop named names fr c = Inr c'"
  using assms
proof (induction names arbitrary: fr c)
  case Nil
  then show ?case by simp
next
  case (Cons name names)
  from Cons.prems(2) obtain rule where rule: "map_of OPERATION_RULES name = Some rule"
    using rule_registered by auto
  with Cons.prems(1) obtain fr1 where fr1: "rule_check rule (named name) fr = Inr fr1"
    and rest: "run_checks named names fr1 = Inr fr'"
    by (auto split: sum.splits)
  obtain c1 where c1: "run_build name (named name) fr c = Inr c1"
  proof (cases "map_of FILTERS name")
    case (Some build)
    with Cons.prems(3) [of name build fr] that show ?thesis by (force simp: run_build_def)
  qed (simp add: run_build_def that)
  have "\<exists>c'. chain_loop named names fr1 c1 = Inr c'"
    using Cons.prems by (intro Cons.IH [OF rest]) auto
  with c1 fr1 rule show ?case by (simp add: next_frame_def)
qed

lemma accepted_edit_builds:
  assumes "request_valid r"
    and "check_edit_operations (operation_pairs r) h w = Inr ()"
  shows "\<exists>c. filter_chain (operation_pairs r) \<lparr>frame_width = w, frame_height = h\<rparr> = Inr c"
proof -
  let ?ops = "operation_pairs r"
  have dist: "distinct (map op_name r)"
    using assms(1) by (simp add: request_valid_def operations_are_unambiguous_def)
  from assms(2) obtain fr' where checks: "run_checks (named_of ?ops) (ordered (set (map fst ?ops)))
      \<lparr>frame_width = w, frame_height = h\<rparr> = Inr fr'"
    by (auto simp: check_edit_operations_def Let_def split: if_splits sum.splits)
  have "\<exists>step. build (named_of ?ops name) fr = Inr step"
    if "name \<in> set (ordered (set (map fst ?ops)))" "map_of FILTERS name = Some build"
    for name fr build
  proof -
    from that(1) obtain x where x: "x \<in> set r" "name = op_name x"
      by (auto simp: set_ordered operation_pairs_def)
    then have "op_valid x" using assms(1) by (simp add: request_valid_def)
    with x that(2) named_of_pairs [OF dist x(1)] show ?thesis by (simp add: build_valid)
  qed
  then show ?thesis
    unfolding filter_chain_def by (intro chain_loop_Inr [OF checks]) (auto simp: set_ordered)
qed

section \<open>The tone-map split\<close>

lemma extend_before: "before_tone_map (extend name step c) =
    before_tone_map c @ (if mapped name then [] else step_video step)"
  by (simp add: extend_def)

lemma extend_after: "after_tone_map (extend name step c) =
    after_tone_map c @ (if mapped name then step_video step else [])"
  by (simp add: extend_def)

lemma run_build_split:
  "run_build name ps fr c = Inr c' \<Longrightarrow>
     (mapped name \<longrightarrow> before_tone_map c' = before_tone_map c)
     \<and> (\<not> mapped name \<longrightarrow> after_tone_map c' = after_tone_map c)"
  by (auto simp: run_build_def extend_before extend_after split: option.splits sum.splits)

lemma chain_loop_split:
  assumes "chain_loop named names fr c = Inr c'"
  shows "((\<forall>n\<in>set names. mapped n) \<longrightarrow> before_tone_map c' = before_tone_map c)
     \<and> ((\<forall>n\<in>set names. \<not> mapped n) \<longrightarrow> after_tone_map c' = after_tone_map c)"
  using assms
proof (induction names arbitrary: fr c)
  case (Cons name names)
  then show ?case
    by (fastforce split: sum.splits dest: run_build_split)
qed simp

lemma chain_loop_append:
  "chain_loop named (xs @ ys) fr c = Inr c' \<Longrightarrow>
     \<exists>fr1 c1. chain_loop named xs fr c = Inr c1 \<and> chain_loop named ys fr1 c1 = Inr c'"
proof (induction xs arbitrary: fr c)
  case Nil
  then show ?case by auto
next
  case (Cons x xs)
  then show ?case by (auto split: sum.splits)
qed

lemma chain_loop_cong:
  "(\<And>n. n \<in> set names \<Longrightarrow> named n = named' n) \<Longrightarrow>
     chain_loop named names fr c = chain_loop named' names fr c"
  by (induction names arbitrary: fr c) (auto split: sum.splits)

lemma ordered_split:
  "ordered names = ordered {n \<in> names. \<not> mapped n} @ ordered {n \<in> names. mapped n}"
  by (simp add: ordered_def OPERATION_ORDER_def mapped_def TONE_MAPPED_FROM_def)

definition unmapped_part :: "(string \<times> params) list \<Rightarrow> (string \<times> params) list" where
  "unmapped_part ops = filter (\<lambda>p. \<not> mapped (fst p)) ops"

lemma named_of_unmapped: "\<not> mapped n \<Longrightarrow> named_of (unmapped_part ops) n = named_of ops n"
proof -
  assume "\<not> mapped n"
  then have "map_of (filter (\<lambda>p. \<not> mapped (fst p)) xs) n = map_of xs n" for xs :: "(string \<times> params) list"
    by (induction xs) auto
  then show ?thesis by (simp add: named_of_def unmapped_part_def rev_filter)
qed

text \<open>Colour, preset, speed and conversion never reach the picture before the tone-map: what a
  chain runs before it is the chain of the geometry operations alone, and that chain runs nothing
  after it.\<close>

theorem filter_chain_tone_map_split:
  assumes "filter_chain ops fr = Inr c"
  shows "\<exists>g. filter_chain (unmapped_part ops) fr = Inr g
     \<and> before_tone_map g = before_tone_map c \<and> after_tone_map g = []"
proof -
  let ?names = "set (map fst ops)"
  have names: "set (map fst (unmapped_part ops)) = {n \<in> ?names. \<not> mapped n}"
    by (auto simp: unmapped_part_def)
  from assms obtain fr1 g where
    g: "chain_loop (named_of ops) (ordered {n \<in> ?names. \<not> mapped n}) fr empty_chain = Inr g"
    and rest: "chain_loop (named_of ops) (ordered {n \<in> ?names. mapped n}) fr1 g = Inr c"
    unfolding filter_chain_def ordered_split [of ?names] by (blast dest: chain_loop_append)
  have "filter_chain (unmapped_part ops) fr = Inr g"
    unfolding filter_chain_def names g [symmetric]
    by (rule chain_loop_cong) (auto simp: set_ordered named_of_unmapped)
  moreover have "before_tone_map c = before_tone_map g"
    using chain_loop_split [OF rest] by (auto simp: set_ordered)
  moreover have "after_tone_map g = []"
    using chain_loop_split [OF g] by (auto simp: set_ordered empty_chain_def)
  ultimately show ?thesis by simp
qed

theorem filter_chain_tone_map_split_witness:
  "\<exists>g. filter_chain (unmapped_part [(''adjust'', [(''gamma'', JFloat (Fin (6/5)))]),
         (''rotate'', [(''degrees'', JInt 180)])]) \<lparr>frame_width = None, frame_height = None\<rparr> = Inr g
     \<and> before_tone_map g = [''hflip'', ''vflip''] \<and> after_tone_map g = []"
proof -
  have "filter_chain [(''adjust'', [(''gamma'', JFloat (Fin (6/5)))]),
      (''rotate'', [(''degrees'', JInt 180)])] \<lparr>frame_width = None, frame_height = None\<rparr>
    = Inr \<lparr>before_tone_map = [''hflip'', ''vflip''], after_tone_map = [''eq=gamma=1.2''], chain_audio = []\<rparr>"
    by code_simp
  then show ?thesis by (drule_tac filter_chain_tone_map_split) simp
qed

end
