(* ===== verification/Operations.thy ===== *)
theory Operations
  imports Storage Edit_Ops
begin

text \<open>
  \<open>app/worker/operations.py\<close>: one edit job. The stored operations are parsed again, checked against
  the downloaded file, turned into one FFmpeg command, and the result is uploaded and probed.
\<close>

section \<open>The command\<close>

definition INVALID_EDIT :: string where
  "INVALID_EDIT = ''the edit request is invalid; please submit it again''"

definition clip_arguments :: "edit_request \<Rightarrow> string list" where
  "clip_arguments request =
     (case operation_named request ''clip'' of
        Some (ClipOperation s t) \<Rightarrow> [''-ss'', fmt (dump_finite s), ''-to'', fmt (dump_finite t)]
      | _ \<Rightarrow> [])"

definition output_format :: "edit_request \<Rightarrow> string" where
  "output_format request =
     (case operation_named request ''convert'' of
        Some (ConvertOperation f) \<Rightarrow> f
      | _ \<Rightarrow> ''mp4'')"

definition changes_the_picture :: "edit_request \<Rightarrow> bool" where
  "changes_the_picture request \<longleftrightarrow>
     list_ex (\<lambda>x. case map_of OPERATION_RULES (op_name x) of
                   Some rule \<Rightarrow> changes_picture rule | None \<Rightarrow> False) request"

definition audio_arguments :: "filter_chain_result \<Rightarrow> string list" where
  "audio_arguments chain =
     (if chain_audio chain = [] then [] else [''-af'', join '','' (chain_audio chain)])"

definition encode_arguments ::
  "edit_request \<Rightarrow> filter_chain_result \<Rightarrow> string \<Rightarrow> int \<Rightarrow> int \<Rightarrow> bool \<Rightarrow> exn + string list"
where
  "encode_arguments request chain preset crf max_fps is_hdr_source =
     (if output_format request = ''mp3''
      then if changes_the_picture request
        then Inl (ObjectStoreError ''video filters cannot produce an audio-only output''
               ''edits that change the picture cannot be combined with MP3 conversion'')
        else Inr ([''-vn''] @ audio_arguments chain @ [''-c:a'', ''libmp3lame''])
      else if output_format request = ''mkv'' \<and> chain_video chain = [] \<and> chain_audio chain = []
      then Inr [''-c'', ''copy'']
      else Inr ([''-vf'', join '','' ([fps_cap_filter max_fps] @ before_tone_map chain
                   @ sdr_filters is_hdr_source @ after_tone_map chain)]
             @ audio_arguments chain
             @ (if is_hdr_source then BT709_TAGS else [])
             @ [''-c:v'', ''libx264'', ''-preset'', preset, ''-crf'', dec_int crf, ''-c:a'', ''aac'']
             @ (if output_format request = ''mp4'' then [''-movflags'', ''+faststart''] else [])))"

definition build_edit_command ::
  "edit_request \<Rightarrow> string \<Rightarrow> string \<Rightarrow> string \<Rightarrow> string \<Rightarrow> int \<Rightarrow> int \<Rightarrow> bool \<Rightarrow> frame \<Rightarrow> exn + string list"
where
  "build_edit_command request ffmpeg_binary source_path output_path preset crf max_fps is_hdr_source fr =
     (case filter_chain (operation_pairs request) fr of
        Inl x \<Rightarrow> Inl x
      | Inr chain \<Rightarrow>
          (case encode_arguments request chain preset crf max_fps is_hdr_source of
             Inl x \<Rightarrow> Inl x
           | Inr args \<Rightarrow>
               Inr ([ffmpeg_binary, ''-hide_banner'', ''-loglevel'', ''error''] @ clip_arguments request
                    @ [''-i'', source_path] @ args @ [''-y'', output_path])))"

section \<open>The processor\<close>

record edit_processor =
  ep_store :: store
  ep_operations :: "json list"
  ep_output_prefix :: string
  ep_ffmpeg_binary :: string
  ep_preset :: string
  ep_crf :: int
  ep_timeout :: int
  ep_prober :: "string \<Rightarrow> source_probe io"
  ep_thumbnailer :: "(string \<Rightarrow> string \<Rightarrow> source_probe \<Rightarrow> string io) option"

definition edit_request_of :: "edit_processor \<Rightarrow> exn + edit_request" where
  "edit_request_of p =
     (case model_validate (JObj [(''operations'', JList (ep_operations p))]) of
        Some r \<Rightarrow> Inr r
      | None \<Rightarrow> Inl (ObjectStoreError ''invalid persisted edit operations'' INVALID_EDIT))"

definition edit_thumbnail_key :: "edit_processor \<Rightarrow> uuid \<Rightarrow> string" where
  "edit_thumbnail_key p k = ep_output_prefix p @ ''/'' @ uuid_text k @ ''/'' @ THUMBNAIL_FILENAME"

definition edit_thumbnail ::
  "edit_processor \<Rightarrow> uuid \<Rightarrow> string \<Rightarrow> source_probe \<Rightarrow> string \<Rightarrow> string option io"
where
  "edit_thumbnail p k output_path produced temp_dir =
     (case ep_thumbnailer p of
        None \<Rightarrow> ret None
      | Some thumbnailer \<Rightarrow>
          attempt (bind_io (thumbnailer output_path (in_dir temp_dir THUMBNAIL_FILENAME) produced) (\<lambda>frame_path.
            bind_io (st_upload (ep_store p) (edit_thumbnail_key p k) frame_path THUMBNAIL_CONTENT_TYPE)
              (\<lambda>_. ret (edit_thumbnail_key p k)))))"

definition edit_is_hdr :: "edit_processor \<Rightarrow> string \<Rightarrow> source_probe option \<Rightarrow> bool io" where
  "edit_is_hdr p source_path probe =
     (case probe of
        Some pr \<Rightarrow> ret (hdr pr)
      | None \<Rightarrow> catch_io (bind_io (ep_prober p source_path) (\<lambda>pr. ret (hdr pr))) (\<lambda>_. ret False))"

definition edit_output_key :: "edit_processor \<Rightarrow> uuid \<Rightarrow> string \<Rightarrow> edit_request \<Rightarrow> string" where
  "edit_output_key p k source_key request =
     ep_output_prefix p @ ''/'' @ uuid_text k @ ''/''
     @ or_else (path_stem source_key) (uuid_text k) @ ''.'' @ output_format request"

definition edit_content_type :: "string \<Rightarrow> string" where
  "edit_content_type extension =
     (if extension = ''mkv'' then ''video/x-matroska''
      else if extension = ''mp3'' then ''audio/mpeg'' else ''video/mp4'')"

definition first_failure :: "(exn + unit) list \<Rightarrow> exn + unit" where
  "first_failure rs = (case filter (\<lambda>r. r \<noteq> Inr ()) rs of [] \<Rightarrow> Inr () | r # _ \<Rightarrow> r)"

definition check_edit :: "edit_request \<Rightarrow> source_probe \<Rightarrow> exn + unit" where
  \<comment> \<open>clip, then crop, then the rules: the first refusal is the one reported\<close>
  "check_edit request probe =
     first_failure
       [(case operation_named request ''clip'' of
           Some x \<Rightarrow> validate_clip (JObj (op_params x)) probe | None \<Rightarrow> Inr ()),
        (case operation_named request ''crop'' of
           Some x \<Rightarrow> validate_crop (JObj (op_params x)) probe | None \<Rightarrow> Inr ()),
        validate_edit_rules (operation_pairs request) probe]"

definition refuse_edit :: "exn \<Rightarrow> exn" where
  "refuse_edit x =
     (case x of
        ValueError m \<Rightarrow> ObjectStoreError ''edit validation failed'' m
      | MediaRuleError m \<Rightarrow> ObjectStoreError ''edit validation failed'' m
      | _ \<Rightarrow> x)"

definition edit_probe :: "edit_processor \<Rightarrow> edit_request \<Rightarrow> string \<Rightarrow> source_probe option io" where
  "edit_probe p request source_path =
     (if list_ex (\<lambda>x. op_name x \<noteq> ''convert'') request
      then bind_io (ep_prober p source_path) (\<lambda>probe.
             bind_io (lift (case check_edit request probe of Inl x \<Rightarrow> Inl (refuse_edit x) | Inr _ \<Rightarrow> Inr ()))
               (\<lambda>_. ret (Some probe)))
      else ret None)"

definition edit_frame :: "source_probe option \<Rightarrow> frame" where
  "edit_frame probe =
     \<lparr>frame_width = map_option probe_width probe, frame_height = map_option probe_height probe\<rparr>"

definition edit_outcome :: "int \<Rightarrow> run_outcome \<Rightarrow> exn + unit" where
  "edit_outcome timeout outcome =
     (case outcome of
        RunTimeout \<Rightarrow> Inl (ObjectStoreError (''editing timed out after '' @ dec_int timeout @ '' seconds'')
          ''the edit took too long; try a shorter or smaller video'')
      | RunInterrupted \<Rightarrow> Inl (Interrupted ''the worker is stopping'')
      | Ran code out err \<Rightarrow>
          if code \<noteq> 0
          then Inl (ObjectStoreError (''FFmpeg edit failed: ''
                 @ or_else (take 1000 (last_lines 5 err)) ''no FFmpeg error output'') UNPROCESSABLE_VIDEO)
          else Inr ())"

definition finish_edit ::
  "edit_processor \<Rightarrow> uuid \<Rightarrow> string \<Rightarrow> edit_request \<Rightarrow> string \<Rightarrow> string \<Rightarrow> processing_result io"
where
  \<comment> \<open>the upload, and what the row is told of the finished edit\<close>
  "finish_edit p k key request output_path temp_dir =
     bind_io (st_upload (ep_store p) key output_path (edit_content_type (output_format request))) (\<lambda>_.
       if output_format request = ''mp3'' then ret (bare_result key)
       else bind_io (attempt (ep_prober p output_path)) (\<lambda>produced.
         case produced of
           None \<Rightarrow> ret (bare_result key)
         | Some pr \<Rightarrow>
             bind_io (edit_thumbnail p k output_path pr temp_dir) (\<lambda>thumb.
               ret \<lparr>output_key = key, hls_key = None, ladder_pending = True,
                    result_width = Some (probe_width pr), result_height = Some (probe_height pr),
                    result_duration = Some (duration_seconds pr), thumbnail_key = thumb\<rparr>)))"

definition edit_source ::
  "edit_processor \<Rightarrow> uuid \<Rightarrow> string \<Rightarrow> int \<Rightarrow> edit_request \<Rightarrow> string \<Rightarrow> processing_result io"
where
  \<comment> \<open>the body of the \<open>try\<close>\<close>
  "edit_source p k source_key max_fps request temp_dir =
     (let source_path = in_dir temp_dir ''source'';
          output_path = in_dir temp_dir (''output.'' @ output_format request);
          key = edit_output_key p k source_key request in
      bind_io (st_download (ep_store p) source_key source_path) (\<lambda>_.
      bind_io (edit_probe p request source_path) (\<lambda>probe.
      bind_io (edit_is_hdr p source_path probe) (\<lambda>is_hdr_source.
      bind_io (lift (build_edit_command request (ep_ffmpeg_binary p) source_path output_path (ep_preset p)
                 (ep_crf p) max_fps is_hdr_source (edit_frame probe))) (\<lambda>command.
      bind_io (run_process command (ep_timeout p)) (\<lambda>outcome.
      bind_io (lift (edit_outcome (ep_timeout p) outcome)) (\<lambda>_.
      bind_io (is_file output_path) (\<lambda>there.
        if \<not> there
        then raise (ObjectStoreError ''FFmpeg completed without producing an edit output'' UNPROCESSABLE_VIDEO)
        else finish_edit p k key request output_path temp_dir))))))))"

definition edit_run :: "edit_processor \<Rightarrow> uuid \<Rightarrow> string \<Rightarrow> int \<Rightarrow> processing_result io" where
  "edit_run p k source_key max_fps =
     bind_io (st_exists (ep_store p) source_key) (\<lambda>there.
       if \<not> there
       then raise (ObjectStoreError (''source object missing from storage: '' @ source_key)
              ''the source video is no longer in storage; choose another video'')
       else bind_io (lift (edit_request_of p)) (\<lambda>request.
            bind_io (mkdtemp ''flickpond-edit-'') (\<lambda>temp_dir.
              finally_io (edit_source p k source_key max_fps request temp_dir) (rmtree temp_dir))))"

definition edit_processing_step :: "worker_settings \<Rightarrow> json list \<Rightarrow> edit_processor" where
  \<comment> \<open>\<open>get_edit_processing_step\<close> of \<open>app/worker/storage.py\<close>\<close>
  "edit_processing_step ws operations =
     \<lparr>ep_store = minio_object_store, ep_operations = operations,
      ep_output_prefix = strip_chars CHR ''/'' (ws_output_prefix ws),
      ep_ffmpeg_binary = ws_ffmpeg_binary ws, ep_preset = ws_preset ws, ep_crf = ws_crf ws,
      ep_timeout = ws_ffmpeg_timeout ws,
      ep_prober = run_probe (ws_ffprobe_binary ws) (ws_ffprobe_timeout ws),
      ep_thumbnailer = Some (extract_thumbnail (ws_ffmpeg_binary ws) (ws_thumbnail_width ws)
        (ws_thumbnail_height ws) (ws_ffprobe_timeout ws))\<rparr>"

section \<open>Accepted edits always have a command\<close>

lemma picture_labels_mono: "set labels \<subseteq> set (picture_labels names labels)"
proof (induction names arbitrary: labels)
  case (Cons n names)
  show ?case
  proof (cases "map_of OPERATION_RULES n")
    case (Some rule)
    with Cons [of "labels @ [rule_label rule]"] Cons [of labels] show ?thesis by auto
  qed (use Cons in simp)
qed simp

lemma picture_labels_Nil:
  "picture_labels names [] = [] \<Longrightarrow> n \<in> set names \<Longrightarrow> map_of OPERATION_RULES n = Some rule \<Longrightarrow>
     \<not> changes_picture rule"
proof (induction names)
  case (Cons m names)
  have "\<not> (\<exists>r. map_of OPERATION_RULES m = Some r \<and> changes_picture r)"
  proof
    assume "\<exists>r. map_of OPERATION_RULES m = Some r \<and> changes_picture r"
    then obtain r where "map_of OPERATION_RULES m = Some r" "changes_picture r" by blast
    then have "picture_labels (m # names) [] = picture_labels names [rule_label r]" by simp
    with picture_labels_mono [of "[rule_label r]" names] Cons.prems(1) show False by auto
  qed
  with Cons show ?case by (cases "map_of OPERATION_RULES m") (auto split: if_splits)
qed simp

lemma valid_op_name: "op_name x \<in> set OPERATION_ORDER"
  by (cases x) (simp_all add: OPERATION_ORDER_def)

lemma operation_named_iff:
  assumes "distinct (map op_name r)"
  shows "operation_named r n = Some x \<longleftrightarrow> x \<in> set r \<and> op_name x = n"
  using assms unfolding operation_named_def
  by (induction r) (auto simp: find_Some_iff rev_image_eqI)

lemma op_name_convert: "op_name x = ''convert'' \<Longrightarrow> \<exists>f. x = ConvertOperation f"
  by (cases x) auto

lemma output_format_mp3:
  assumes "distinct (map op_name r)" and "output_format r = ''mp3''"
  shows "ConvertOperation ''mp3'' \<in> set r"
proof (cases "operation_named r ''convert''")
  case None
  with assms(2) show ?thesis by (simp add: output_format_def)
next
  case (Some x)
  then have x: "x \<in> set r" "op_name x = ''convert''"
    using operation_named_iff [OF assms(1)] by blast+
  with op_name_convert obtain f where "x = ConvertOperation f" by blast
  with Some assms(2) x show ?thesis by (simp add: output_format_def)
qed

lemma accepted_mp3_has_no_picture:
  assumes valid: "request_valid r" and mp3: "output_format r = ''mp3''"
    and ok: "check_edit_operations (operation_pairs r) h w = Inr ()"
  shows "\<not> changes_the_picture r"
proof
  assume "changes_the_picture r"
  then obtain x rule where x: "x \<in> set r" "map_of OPERATION_RULES (op_name x) = Some rule" "changes_picture rule"
    by (auto simp: changes_the_picture_def list_ex_iff split: option.splits)
  have dist: "distinct (map op_name r)"
    using valid by (simp add: request_valid_def operations_are_unambiguous_def)
  from output_format_mp3 [OF dist mp3] have c: "ConvertOperation ''mp3'' \<in> set r" .
  from named_of_pairs [OF dist c]
  have "map_of (named_of (operation_pairs r) ''convert'') ''format'' = Some (JStr ''mp3'')" by simp
  moreover have "''convert'' \<in> set (map fst (operation_pairs r))"
    using c by (force simp: operation_pairs_def)
  ultimately have "picture_labels (ordered (set (map fst (operation_pairs r)))) [] = []"
    using ok by (simp add: check_edit_operations_def Let_def split: if_splits)
  moreover have "op_name x \<in> set (ordered (set (map fst (operation_pairs r))))"
    using x(1) valid_op_name [of x] by (force simp: set_ordered operation_pairs_def)
  ultimately show False using picture_labels_Nil x(2,3) by blast
qed

lemma check_edit_Inr: "check_edit r pr = Inr () \<Longrightarrow> validate_edit_rules (operation_pairs r) pr = Inr ()"
  by (auto simp: check_edit_def first_failure_def split: list.splits if_splits)

lemma only_convert:
  assumes "request_valid r" and "\<not> list_ex (\<lambda>x. op_name x \<noteq> ''convert'') r"
  obtains f where "r = [ConvertOperation f]"
proof -
  from assms have r: "r \<noteq> []" "distinct (map op_name r)"
    by (auto simp: request_valid_def operations_are_unambiguous_def)
  from assms(2) have all: "\<forall>x\<in>set r. op_name x = ''convert''" by (auto simp: list_ex_iff)
  obtain x xs where x: "r = x # xs" using r(1) by (cases r) auto
  with r(2) all have "xs = []" by (cases xs) auto
  with x all op_name_convert that show thesis by force
qed

lemma accepted_command:
  assumes valid: "request_valid r"
    and ok: "check_edit_operations (operation_pairs r) (frame_height fr) (frame_width fr) = Inr ()"
  shows "\<exists>cmd. build_edit_command r ff source out preset crf fps is_hdr_source fr = Inr cmd"
proof -
  have "\<lparr>frame_width = frame_width fr, frame_height = frame_height fr\<rparr> = fr" by simp
  with accepted_edit_builds [OF valid ok] obtain chain
    where "filter_chain (operation_pairs r) fr = Inr chain" by metis
  with accepted_mp3_has_no_picture [OF valid _ ok] show ?thesis
    by (simp add: build_edit_command_def encode_arguments_def)
qed

lemma edit_command_exists:
  assumes valid: "request_valid r"
    and ok: "case probe of
        Some pr \<Rightarrow> check_edit r pr = Inr ()
      | None \<Rightarrow> \<not> list_ex (\<lambda>x. op_name x \<noteq> ''convert'') r"
  shows "\<exists>cmd. build_edit_command r ff source out preset crf fps is_hdr_source (edit_frame probe) = Inr cmd"
proof (cases probe)
  case (Some pr)
  with ok check_edit_Inr show ?thesis
    by (intro accepted_command [OF valid]) (auto simp: edit_frame_def validate_edit_rules_def)
next
  case None
  with ok obtain f where "r = [ConvertOperation f]" by (auto elim: only_convert [OF valid])
  with None show ?thesis
    by (intro accepted_command [OF valid])
      (simp add: edit_frame_def operation_pairs_def check_edit_operations_def ordered_def
        OPERATION_ORDER_def unchanged_def Let_def)
qed

text \<open>An edit whose request is valid and whose checks against the real file passed always has an
  FFmpeg command: no operation lacks its parameters, and MP3 output is never asked of a changed
  picture. A plain conversion, which is not checked against the file, has one too.\<close>

theorem edit_command_total:
  assumes "request_valid r"
    and "case probe of
        Some pr \<Rightarrow> check_edit r pr = Inr ()
      | None \<Rightarrow> \<not> list_ex (\<lambda>x. op_name x \<noteq> ''convert'') r"
  shows "\<exists>cmd. build_edit_command r ff source out preset crf fps is_hdr_source (edit_frame probe) = Inr cmd"
  using assms by (rule edit_command_exists)

theorem edit_command_total_witness:
  "\<exists>cmd. build_edit_command [SpeedOperation 2, ConvertOperation ''mp3''] ''ffmpeg'' ''s'' ''o'' ''veryfast'' 23 30
     False (edit_frame (Some \<lparr>probe_width = 640, probe_height = 360, duration_seconds = Fin 10,
       hdr = False, frame_rate = None, color_transfer = None\<rparr>)) = Inr cmd"
  by (rule edit_command_total) code_simp+

section \<open>How an edit can fail, and what it leaves\<close>

lemma valid_request: "edit_request_of p = Inr r \<Longrightarrow> request_valid r"
  by (auto simp: edit_request_of_def dest: model_validate_valid split: option.splits)

lemma validate_clip_error: "validate_clip j pr = Inl x \<Longrightarrow> \<exists>m. x = ValueError m"
  by (auto simp: validate_clip_def split: if_splits option.splits pyfloat.splits)

lemma validate_crop_error: "validate_crop j pr = Inl x \<Longrightarrow> \<exists>m. x = ValueError m"
  by (auto simp: validate_crop_def split: if_splits json.splits)

lemma check_scale_error: "check_scale a b c = Inl x \<Longrightarrow> \<exists>m. x = MediaRuleError m"
  by (auto simp: check_scale_def split: if_splits option.splits)

lemma scale_rule_error:
  "scale_rule op (op_params (DownscaleOperation t)) fr = Inl z \<Longrightarrow> \<exists>m. z = MediaRuleError m"
  "scale_rule op (op_params (UpscaleOperation t)) fr = Inl z \<Longrightarrow> \<exists>m. z = MediaRuleError m"
  by (auto simp: scale_rule_def dest: check_scale_error split: sum.splits)

lemma rotate_rule_total: "\<exists>fr'. rotate_rule (op_params (RotateOperation d)) fr = Inr fr'"
  by (simp add: rotate_rule_def)

lemma rule_error:
  assumes "map_of OPERATION_RULES (op_name x) = Some rule" and "rule_check rule (op_params x) fr = Inl z"
  shows "\<exists>m. z = MediaRuleError m"
proof (cases x)
  case (RotateOperation d)
  with assms rotate_rule_total [of d fr] show ?thesis by auto
next
  case (DownscaleOperation t)
  with assms show ?thesis by (intro scale_rule_error(1)) auto
next
  case (UpscaleOperation t)
  with assms show ?thesis by (intro scale_rule_error(2)) auto
qed (use assms in \<open>auto simp: unchanged_def crop_rule_def simp del: op_params.simps\<close>)

lemma run_checks_error:
  assumes "distinct (map op_name r)" and "\<forall>x\<in>set r. op_valid x"
    and "set names \<subseteq> op_name ` set r"
    and "run_checks (named_of (operation_pairs r)) names fr = Inl y"
  shows "\<exists>m. y = MediaRuleError m"
  using assms(3,4)
proof (induction names arbitrary: fr)
  case (Cons n names)
  from Cons.prems(1) obtain x where x: "x \<in> set r" "n = op_name x" by auto
  have named: "named_of (operation_pairs r) n = op_params x"
    using named_of_pairs [OF assms(1) x(1)] x(2) by simp
  obtain rule where rule: "map_of OPERATION_RULES n = Some rule"
    using rule_registered valid_op_name x(2) by blast
  show ?case
  proof (cases "rule_check rule (op_params x) fr")
    case (Inr fr')
    with Cons rule named show ?thesis by simp
  next
    case (Inl z)
    then have "\<exists>m. z = MediaRuleError m"
      using rule x(2) by (intro rule_error [of x rule]) simp_all
    with Inl Cons.prems(2) rule named show ?thesis by simp
  qed
qed simp

lemma check_edit_error:
  assumes "request_valid r" and "check_edit r pr = Inl x"
  shows "curated (refuse_edit x)"
proof -
  have dist: "distinct (map op_name r)" and val: "\<forall>x\<in>set r. op_valid x"
    using assms(1) by (simp_all add: request_valid_def operations_are_unambiguous_def)
  have "\<exists>m. y = MediaRuleError m" if y: "validate_edit_rules (operation_pairs r) pr = Inl y" for y
  proof -
    let ?names = "ordered (set (map fst (operation_pairs r)))"
    have sub: "set ?names \<subseteq> op_name ` set r" by (auto simp: set_ordered operation_pairs_def)
    from y consider "\<exists>m. y = MediaRuleError m"
      | fr where "run_checks (named_of (operation_pairs r)) ?names fr = Inl y"
      unfolding validate_edit_rules_def check_edit_operations_def Let_def
      by (simp split: if_splits sum.splits) blast+
    then show ?thesis using run_checks_error [OF dist val sub] by cases blast+
  qed
  with assms(2) have "\<exists>m. x = ValueError m \<or> x = MediaRuleError m"
    by (auto simp: check_edit_def first_failure_def split: list.splits if_splits option.splits
        dest: validate_clip_error validate_crop_error)
  then show ?thesis by (auto simp: refuse_edit_def)
qed

lemma unit_sum: "(\<forall>x. (r :: 'e + unit) \<noteq> Inl x) \<longleftrightarrow> r = Inr ()"
  by (cases r) auto

lemma edit_parts:
  "ep_store (edit_processing_step ws ops) = minio_object_store" "quiet (ep_prober (edit_processing_step ws ops) path)"
  "ep_thumbnailer (edit_processing_step ws ops) = Some th \<Longrightarrow> quiet (th a b c)"
  by (auto simp: edit_processing_step_def intro: quietI writes)

lemma edit_thumbnail_puts:
  assumes "edit_thumbnail (edit_processing_step ws ops) k out pr tmp e h = (r, h')"
  shows "(r = Inr None \<and> puts h' \<in> {puts h, puts h @ [edit_thumbnail_key (edit_processing_step ws ops) k]})
    \<or> (r = Inr (Some (edit_thumbnail_key (edit_processing_step ws ops) k)) \<and> puts h' = puts h @ [edit_thumbnail_key (edit_processing_step ws ops) k])"
proof (cases "ep_thumbnailer (edit_processing_step ws ops)")
  case None
  with assms show ?thesis by (auto simp: edit_thumbnail_def)
next
  case (Some th)
  note q = quietD [OF edit_parts(3) [OF Some]]
  from assms Some have "attempt (bind_io (th out (in_dir tmp THUMBNAIL_FILENAME) pr) (\<lambda>frame_path.
      bind_io (st_upload minio_object_store (edit_thumbnail_key (edit_processing_step ws ops) k) frame_path THUMBNAIL_CONTENT_TYPE)
        (\<lambda>_. ret (edit_thumbnail_key (edit_processing_step ws ops) k)))) e h = (r, h')"
    by (simp add: edit_thumbnail_def edit_parts)
  then show ?thesis
    by (cases rule: attempt_cases)
      (auto simp: bind_io_Inr bind_io_Inl dest!: q minio.upload_puts)
qed

lemma finish_edit_puts:
  assumes "finish_edit (edit_processing_step ws ops) k key request out tmp e h = (r, h')"
  shows "case r of
      Inl x \<Rightarrow> puts h' = puts h @ [key]
    | Inr res \<Rightarrow> output_key res = key
        \<and> puts h' \<in> {puts h @ [key], puts h @ [key, edit_thumbnail_key (edit_processing_step ws ops) k]}
        \<and> (\<forall>t. thumbnail_key res = Some t \<longrightarrow> t = edit_thumbnail_key (edit_processing_step ws ops) k
             \<and> puts h' = puts h @ [key, edit_thumbnail_key (edit_processing_step ws ops) k])"
proof -
  note probe = quietD [OF quiet_attempt [OF edit_parts(2)]]
  show ?thesis
  proof (cases r)
    case (Inl x)
    with assms show ?thesis
      unfolding finish_edit_def edit_parts(1)
      by (auto simp: bind_io_Inl bind_io_Inr dest!: minio.upload_puts probe edit_thumbnail_puts
          split: if_splits option.splits)
  next
    case (Inr res)
    with assms show ?thesis
      unfolding finish_edit_def edit_parts(1)
      by (auto simp: bind_io_Inr bare_result_def dest!: minio.upload_puts probe edit_thumbnail_puts
          split: if_splits option.splits)
  qed
qed

lemma quiet_edit_probe: "quiet (edit_probe (edit_processing_step ws ops) request s)"
  unfolding edit_probe_def by (auto intro!: quiet_bind edit_parts)

lemma quiet_edit_is_hdr: "quiet (edit_is_hdr (edit_processing_step ws ops) s pr)"
  unfolding edit_is_hdr_def by (auto intro!: quiet_catch quiet_bind edit_parts split: option.split)

lemma edit_source_puts:
  assumes "edit_source (edit_processing_step ws ops) k src fps request tmp e h = (r, h')"
  shows "case r of
      Inl x \<Rightarrow> puts h' \<in> {puts h, puts h @ [edit_output_key (edit_processing_step ws ops) k src request]}
    | Inr res \<Rightarrow> output_key res = edit_output_key (edit_processing_step ws ops) k src request
        \<and> puts h' \<in> {puts h @ [output_key res], puts h @ [output_key res, edit_thumbnail_key (edit_processing_step ws ops) k]}
        \<and> (\<forall>t. thumbnail_key res = Some t \<longrightarrow> t = edit_thumbnail_key (edit_processing_step ws ops) k
             \<and> puts h' = puts h @ [output_key res, edit_thumbnail_key (edit_processing_step ws ops) k])"
proof -
  note steps = quietD [OF minio.quiet_store(2)] quietD [OF quiet_edit_probe] quietD [OF quiet_edit_is_hdr]
    quietD [OF quiet_simps(4)] quietD [OF quiet_simps(6)]
  show ?thesis
  proof (cases r)
    case (Inl x)
    with assms have "puts h' \<in> {puts h, puts h @ [edit_output_key (edit_processing_step ws ops) k src request]}"
      unfolding edit_source_def Let_def edit_parts(1)
      by (auto simp: bind_io_Inl bind_io_Inr dest!: steps finish_edit_puts split: if_splits)
    with Inl show ?thesis by simp
  next
    case (Inr res)
    with assms show ?thesis
      unfolding edit_source_def Let_def edit_parts(1)
      by (auto simp: bind_io_Inr dest!: steps finish_edit_puts split: if_splits)
  qed
qed

lemma raises_edit_source:
  assumes "request_valid request"
  shows "raises_only (edit_source (edit_processing_step ws ops) k src fps request tmp)"
proof -
  have probe: "raises_only (edit_probe (edit_processing_step ws ops) request s)" for s
    unfolding edit_probe_def edit_processing_step_def
    by (auto intro!: raises_bind raises raises_lift check_edit_error [OF assms] split: sum.splits)
  have checked: "case probe of Some pr \<Rightarrow> check_edit request pr = Inr ()
      | None \<Rightarrow> \<not> list_ex (\<lambda>x. op_name x \<noteq> ''convert'') request"
    if "edit_probe (edit_processing_step ws ops) request s e h = (Inr probe, h1)" for s probe e h h1
    using that by (auto simp: edit_probe_def bind_io_Inr unit_sum split: if_splits sum.splits)
  have build: False if "edit_probe (edit_processing_step ws ops) request s e h = (Inr probe, h1)"
    "build_edit_command request ff src out preset crf n b (edit_frame probe) = Inl x" for s e h probe h1 ff src out preset crf n b x
    using edit_command_exists [OF assms checked [OF that(1)], of ff src out preset crf n b] that(2) by simp
  have hdr: "raises_only (edit_is_hdr (edit_processing_step ws ops) s pr)" for s pr
    unfolding edit_is_hdr_def by (auto intro!: raises_catch raises split: option.split)
  have outcome: "curated x" if "edit_outcome t outcome = Inl x" for t outcome x
    using that by (auto simp: edit_outcome_def split: run_outcome.splits if_splits)
  have thumb: "raises_only (edit_thumbnail (edit_processing_step ws ops) k out pr tmp)" for out pr
    unfolding edit_thumbnail_def by (auto intro: raises split: option.split)
  have finish: "raises_only (finish_edit (edit_processing_step ws ops) k key request out tmp)" for key out
    unfolding finish_edit_def edit_parts(1)
    by (intro raises_bind raises) (auto intro!: raises raises_bind thumb split: option.split)
  show ?thesis
    unfolding edit_source_def Let_def edit_parts(1)
    by (intro raises_bind raises raises_lift probe hdr)
      (auto dest: outcome build intro: raises_raise finish)
qed

lemma finish_edit_storable:
  assumes "finish_edit (edit_processing_step ws ops) k key request out tmp e h = (Inr res, h')" and "strip key \<noteq> []"
  shows "result_storable res"
proof -
  have probed: "0 < probe_width pr \<and> 0 < probe_height pr \<and> sql_positive (duration_seconds pr)"
    if "attempt (ep_prober (edit_processing_step ws ops) out) e h1 = (Inr (Some pr), h2)" for pr h1 h2
    using that by (auto elim!: attempt_cases intro!: run_probe_Inr simp: edit_processing_step_def)
  have thumb: "strip t \<noteq> []"
    if "edit_thumbnail (edit_processing_step ws ops) k out pr tmp e h1 = (Inr (Some t), h2)" for t pr h1 h2
  proof -
    from that have "t = edit_thumbnail_key (edit_processing_step ws ops) k"
      by (auto simp: edit_thumbnail_def bind_io_Inr elim!: attempt_cases split: option.splits)
    then show ?thesis unfolding edit_thumbnail_key_def by (simp only: append_assoc strip_path not_False_eq_True)
  qed
  from assms(1) consider "res = bare_result key"
    | pr h1 h2 t h3 h4 where "attempt (ep_prober (edit_processing_step ws ops) out) e h1 = (Inr (Some pr), h2)"
        "edit_thumbnail (edit_processing_step ws ops) k out pr tmp e h3 = (Inr t, h4)"
        "res = \<lparr>output_key = key, hls_key = None, ladder_pending = True,
             result_width = Some (probe_width pr), result_height = Some (probe_height pr),
             result_duration = Some (duration_seconds pr), thumbnail_key = t\<rparr>"
    unfolding finish_edit_def by (auto simp: bind_io_Inr split: if_splits option.splits)
  then show ?thesis
  proof cases
    case 1
    with assms(2) show ?thesis by (simp add: bare_result_def result_storable_def)
  next
    case 2
    with assms(2) probed [OF 2(1)] thumb show ?thesis by (auto simp: result_storable_def split: option.split)
  qed
qed

lemma edit_run_storable:
  assumes "edit_run (edit_processing_step ws ops) k src fps e h = (Inr res, h')"
  shows "result_storable res"
proof -
  from assms obtain request tmp h1 h2 where
    "edit_source (edit_processing_step ws ops) k src fps request tmp e h1 = (Inr res, h2)"
    unfolding edit_run_def by (auto simp: bind_io_Inr finally_io_Inr split: if_splits)
  then obtain out h3 h4 where
    "finish_edit (edit_processing_step ws ops) k (edit_output_key (edit_processing_step ws ops) k src request)
       request out tmp e h3 = (Inr res, h4)"
    unfolding edit_source_def Let_def by (auto simp: bind_io_Inr split: if_splits)
  then show ?thesis
    by (rule finish_edit_storable)
      (unfold edit_output_key_def, simp only: append_assoc strip_path not_False_eq_True)
qed



end
