(* ===== verification/Tasks.thy ===== *)
theory Tasks
  imports Sessions Operations Hls
begin

text \<open>
  \<open>app/worker/tasks.py\<close>: the job task and its state machine, and \<open>app/worker/after_ladder.py\<close>. A
  task claims the row, runs the step with no session open, and records how it ended; between its
  transactions other processes commit theirs.
\<close>

section \<open>What the uploader is told\<close>

definition MAX_ERROR_LENGTH :: nat where "MAX_ERROR_LENGTH = 500"

definition UNEXPECTED_FAILURE :: string where
  "UNEXPECTED_FAILURE = ''processing failed unexpectedly; please try uploading again''"

datatype job_outcome = JobDone | JobFailed | JobSkipped | JobInterrupted

definition MAX_INTERRUPTIONS :: nat where "MAX_INTERRUPTIONS = 3"

definition INTERRUPTED_TOO_OFTEN :: string where
  "INTERRUPTED_TOO_OFTEN = ''processing was interrupted repeatedly; please try uploading again''"

definition readable_error :: "exn \<Rightarrow> string" where
  "readable_error x =
     (let message = (case x of
            ObjectStoreError diag user \<Rightarrow> or_else (strip user) UNEXPECTED_FAILURE
          | _ \<Rightarrow> UNEXPECTED_FAILURE)
      in if MAX_ERROR_LENGTH < length message
         then rstrip (take (MAX_ERROR_LENGTH - 3) message) @ ''...'' else message)"

section \<open>The job\<close>

type_synonym step = "uuid \<Rightarrow> string \<Rightarrow> int \<Rightarrow> processing_result io"

definition settled_or_skipped :: "'a task \<Rightarrow> job_outcome \<Rightarrow> job_outcome task" where
  \<comment> \<open>\<open>except (JobNotFoundError, InvalidJobTransitionError): return SKIPPED\<close>\<close>
  "settled_or_skipped m outcome =
     bind_t (try_t m) (\<lambda>r. case r of
         Inr _ \<Rightarrow> ret_t outcome
       | Inl JobNotFound \<Rightarrow> ret_t JobSkipped
       | Inl (InvalidJobTransition _) \<Rightarrow> ret_t JobSkipped
       | Inl x \<Rightarrow> raise_t x)"

definition claim_job :: "uuid \<Rightarrow> job option task" where
  "claim_job k =
     bind_t (try_t (session (\<lambda>now. mark_processing now k))) (\<lambda>r. case r of
         Inr j \<Rightarrow> ret_t (Some j)
       | Inl JobNotFound \<Rightarrow> ret_t None
       | Inl (InvalidJobTransition _) \<Rightarrow> ret_t None
       | Inl x \<Rightarrow> raise_t x)"

definition give_back :: "uuid \<Rightarrow> nat \<Rightarrow> job_outcome task" where
  "give_back k interruptions =
     (if MAX_INTERRUPTIONS \<le> interruptions + 1
      then settled_or_skipped (session (\<lambda>now. mark_failed now k INTERRUPTED_TOO_OFTEN)) JobFailed
      else settled_or_skipped (session (\<lambda>now. mark_interrupted now k)) JobInterrupted)"

definition hand_off_ladder :: "uuid \<Rightarrow> (uuid \<Rightarrow> unit io) \<Rightarrow> unit task" where
  "hand_off_ladder k enqueue_ladder_fn =
     bind_t (try_t (in_thread (enqueue_ladder_fn k))) (\<lambda>r. case r of
         Inr _ \<Rightarrow> ret_t ()
       | Inl _ \<Rightarrow> bind_t (session (\<lambda>now. mark_ladder_unavailable now k)) (\<lambda>_. ret_t ()))"

definition done_values :: "processing_result \<Rightarrow> job_values" where
  "done_values res =
     \<lparr>v_output_key = None, v_hls_key = hls_key res,
      v_hls_status = (if ladder_pending res then Some HlsPending else None),
      v_width = result_width res, v_height = result_height res, v_duration = result_duration res,
      v_thumbnail_key = thumbnail_key res, v_error = None\<rparr>"

definition record_done :: "uuid \<Rightarrow> processing_result \<Rightarrow> job_outcome task" where
  "record_done k res =
     settled_or_skipped (session (\<lambda>now. mark_done now k (output_key res) (done_values res))) JobDone"

definition process_job_async ::
  "uuid \<Rightarrow> step \<Rightarrow> (json list \<Rightarrow> step) \<Rightarrow> (uuid \<Rightarrow> unit io) \<Rightarrow> nat \<Rightarrow> job_outcome task"
where
  "process_job_async k step edit_step_factory enqueue_ladder_fn interruptions =
     bind_t (claim_job k) (\<lambda>claimed. case claimed of
       None \<Rightarrow> ret_t JobSkipped
     | Some job \<Rightarrow>
         let selected = (case job_operations job of Some ops \<Rightarrow> edit_step_factory ops | None \<Rightarrow> step) in
         bind_t (try_t (in_thread (selected k (job_source_key job) (job_max_fps job)))) (\<lambda>r. case r of
           Inl x \<Rightarrow>
             bind_t stop_requested (\<lambda>stop.
               if stop then give_back k interruptions
               else settled_or_skipped (session (\<lambda>now. mark_failed now k (readable_error x))) JobFailed)
         | Inr res \<Rightarrow>
             bind_t (record_done k res) (\<lambda>outcome.
               if outcome = JobDone \<and> ladder_pending res
               then bind_t (hand_off_ladder k enqueue_ladder_fn) (\<lambda>_. ret_t JobDone)
               else ret_t outcome)))"

section \<open>The ladder\<close>

definition after_ladder_run :: "(uuid \<Rightarrow> string \<Rightarrow> unit io) list \<Rightarrow> uuid \<Rightarrow> string \<Rightarrow> unit io" where
  \<comment> \<open>\<open>run\<close> of \<open>app/worker/after_ladder.py\<close>\<close>
  "after_ladder_run hooks k out =
     for_io hooks (\<lambda>hook. catch_io (hook k out) (\<lambda>_. ret ()))"

datatype ladder_outcome = NothingToSettle | LadderIs hls_status | LadderInterrupted

definition ladder_input :: "job \<Rightarrow> string option" where
  "ladder_input j = (case job_operations j of None \<Rightarrow> Some (job_source_key j) | Some _ \<Rightarrow> job_output_key j)"

definition ladder_probe :: "job \<Rightarrow> int \<Rightarrow> int \<Rightarrow> source_probe" where
  "ladder_probe j w h =
     \<lparr>probe_width = w, probe_height = h,
      duration_seconds = (case job_duration j of Some x \<Rightarrow> x | None \<Rightarrow> Fin 0),
      hdr = False, frame_rate = None, color_transfer = None\<rparr>"

record ladder_step =
  ls_run :: "uuid \<Rightarrow> string option \<Rightarrow> source_probe \<Rightarrow> int \<Rightarrow> string io"
  ls_discard :: "uuid \<Rightarrow> unit io"

definition ladder_step_of :: "ladder_builder \<Rightarrow> ladder_step" where
  \<comment> \<open>a key that is \<open>None\<close> is refused by the storage client\<close>
  "ladder_step_of b =
     \<lparr>ls_run = (\<lambda>k key probe fps. case key of
        Some src \<Rightarrow> ladder_run b k src probe fps | None \<Rightarrow> raise (TypeError ''object name'')),
      ls_discard = ladder_discard b\<rparr>"

definition record_ladder ::
  "ladder_step \<Rightarrow> (uuid \<Rightarrow> string \<Rightarrow> unit io) list \<Rightarrow> uuid \<Rightarrow> job \<Rightarrow> string \<Rightarrow> ladder_outcome task"
where
  "record_ladder step hooks k job key =
     bind_t (session (\<lambda>now. mark_ladder_ready now k key)) (\<lambda>settled. case settled of
       None \<Rightarrow> bind_t (try_t (in_thread (ls_discard step k))) (\<lambda>_. ret_t NothingToSettle)
     | Some _ \<Rightarrow>
         (case job_output_key job of
            Some (c # cs) \<Rightarrow>
              bind_t (in_thread (after_ladder_run hooks k (c # cs))) (\<lambda>_. ret_t (LadderIs HlsReady))
          | _ \<Rightarrow> ret_t (LadderIs HlsReady)))"

definition build_ladder_async ::
  "uuid \<Rightarrow> ladder_step \<Rightarrow> (uuid \<Rightarrow> string \<Rightarrow> unit io) list \<Rightarrow> nat \<Rightarrow> ladder_outcome task"
where
  "build_ladder_async k step hooks interruptions =
     (let unavailable = bind_t (session (\<lambda>now. mark_ladder_unavailable now k))
                          (\<lambda>_. ret_t (LadderIs HlsUnavailable)) in
      bind_t (reading (\<lambda>d. get_job d k None False)) (\<lambda>found. case found of
        None \<Rightarrow> ret_t NothingToSettle
      | Some job \<Rightarrow>
          if job_status job \<noteq> Done \<or> job_hls_status job \<noteq> HlsPending then ret_t NothingToSettle
          else (case (job_height job, job_width job) of
            (Some h, Some w) \<Rightarrow>
              bind_t (try_t (in_thread (ls_run step k (ladder_input job) (ladder_probe job w h) (job_max_fps job))))
                (\<lambda>r. case r of
                   Inl x \<Rightarrow>
                     bind_t stop_requested (\<lambda>stop.
                       if stop \<and> interruptions + 1 < MAX_INTERRUPTIONS
                       then bind_t (try_t (in_thread (ls_discard step k))) (\<lambda>_. ret_t LadderInterrupted)
                       else unavailable)
                 | Inr key \<Rightarrow> record_ladder step hooks k job key)
          | _ \<Rightarrow> unavailable)))"

section \<open>Queue entries\<close>

abbreviation worker_job ::
  "worker_settings \<Rightarrow> chunked_encoder \<Rightarrow> uuid \<Rightarrow> (uuid \<Rightarrow> unit io) \<Rightarrow> nat \<Rightarrow> job_outcome task"
where
  \<comment> \<open>the task with the steps the worker gives it\<close>
  "worker_job ws ce k enq n \<equiv> process_job_async k (ffmpeg_run (processing_step ws ce))
     (\<lambda>ops. edit_run (edit_processing_step ws ops)) enq n"

datatype rq_result = Value string | RetryMax nat

fun outcome_value :: "job_outcome \<Rightarrow> string" where
  "outcome_value JobDone = ''done''"
| "outcome_value JobFailed = ''failed''"
| "outcome_value JobSkipped = ''skipped''"
| "outcome_value JobInterrupted = ''interrupted''"

fun hls_value :: "hls_status \<Rightarrow> string" where
  "hls_value HlsPending = ''pending''"
| "hls_value HlsReady = ''ready''"
| "hls_value HlsUnavailable = ''unavailable''"

definition process_job ::
  "worker_settings \<Rightarrow> chunked_encoder \<Rightarrow> (uuid \<Rightarrow> unit io) \<Rightarrow> uuid \<Rightarrow> nat \<Rightarrow> rq_result task"
where
  "process_job ws ce enqueue_ladder_fn k previous_interruptions =
     bind_t (worker_job ws ce k enqueue_ladder_fn previous_interruptions)
       (\<lambda>outcome. ret_t (if outcome = JobInterrupted then RetryMax MAX_INTERRUPTIONS
                         else Value (outcome_value outcome)))"

definition build_ladder ::
  "ladder_builder \<Rightarrow> (uuid \<Rightarrow> string \<Rightarrow> unit io) list \<Rightarrow> uuid \<Rightarrow> nat \<Rightarrow> rq_result task"
where
  "build_ladder b hooks k previous_interruptions =
     bind_t (build_ladder_async k (ladder_step_of b) hooks previous_interruptions)
       (\<lambda>settled. ret_t (case settled of
            LadderInterrupted \<Rightarrow> RetryMax MAX_INTERRUPTIONS
          | LadderIs st \<Rightarrow> Value (hls_value st)
          | NothingToSettle \<Rightarrow> Value ''skipped''))"

section \<open>Readable errors\<close>

lemma strip_self: "strip s \<noteq> [] \<Longrightarrow> strip (strip s) \<noteq> []"
  using strip_first [of s] by (intro strip_visible [of "hd (strip s)"]) simp_all

lemma length_rstrip: "length (rstrip s) \<le> length s"
  unfolding rstrip_def using length_dropWhile_le [of py_space "rev s"] by simp

lemma length_strip: "length (strip s) \<le> length s"
  using length_rstrip [of "lstrip s"] length_dropWhile_le [of py_space s] by (simp add: strip_def lstrip_def)

lemma readable_error_bounds: "strip (readable_error x) \<noteq> [] \<and> length (readable_error x) \<le> MAX_ERROR_LENGTH"
proof -
  define m where "m = (case x of ObjectStoreError diag user \<Rightarrow> or_else (strip user) UNEXPECTED_FAILURE | _ \<Rightarrow> UNEXPECTED_FAILURE)"
  have unexpected: "strip UNEXPECTED_FAILURE \<noteq> []" by code_simp
  have m: "strip m \<noteq> []"
    unfolding m_def using unexpected by (auto simp: or_else_def strip_self split: exn.split)
  show ?thesis
  proof (cases "MAX_ERROR_LENGTH < length m")
    case True
    then have e: "readable_error x = rstrip (take (MAX_ERROR_LENGTH - 3) m) @ ''...''"
      by (simp add: readable_error_def m_def [symmetric] Let_def)
    have "strip (readable_error x) \<noteq> []"
      unfolding e by (rule strip_visible [of "CHR ''.''"]) (auto simp: py_space_def)
    moreover have "length (rstrip (take (MAX_ERROR_LENGTH - 3) m)) \<le> MAX_ERROR_LENGTH - 3"
      using length_rstrip [of "take (MAX_ERROR_LENGTH - 3) m"] by simp
    ultimately show ?thesis by (simp add: e MAX_ERROR_LENGTH_def)
  next
    case False
    with m show ?thesis by (simp add: readable_error_def m_def [symmetric] Let_def)
  qed
qed

section \<open>How a run of the task ends\<close>

definition row_is :: "(job \<Rightarrow> bool) \<Rightarrow> uuid \<Rightarrow> db \<Rightarrow> bool" where
  "row_is P k d = (case find_row job_id k (db_jobs d) of Some j \<Rightarrow> P j | None \<Rightarrow> False)"

definition row_is_not :: "(job \<Rightarrow> bool) \<Rightarrow> uuid \<Rightarrow> db \<Rightarrow> bool" where
  \<comment> \<open>the row is gone, or it is not like that\<close>
  "row_is_not P k d = (case find_row job_id k (db_jobs d) of Some j \<Rightarrow> \<not> P j | None \<Rightarrow> True)"

lemma settled_transition:
  assumes W: "others_commit W" and inv: "jobs_inv (db_jobs d)"
    and upd: "\<And>now. job_update (\<lambda>j. job_status j = e) (transition_values now n v)"
    and ok: "\<And>now j. lifecycle j \<Longrightarrow> job_status j = e \<Longrightarrow> job_check (transition_values now n v j)"
    and f: "\<And>now. f now = transition now k e n v"
  obtains d' where "settled_or_skipped (session f) out W t d = (Inr JobSkipped, t, d')"
      "jobs_inv (db_jobs d')" "row_is_not (\<lambda>j. job_status j = e) k d'"
  | d' now j where "settled_or_skipped (session f) out W t d = (Inr out, t @ [Commit d'], d')"
      "jobs_inv (db_jobs d')" "find_row job_id k (db_jobs d') = Some (transition_values now n v j)"
      "lifecycle j"
proof -
  let ?now = "w_now W t" and ?d = "w_others W t d"
  note inv0 = others_inv [OF W inv, of t]
  show thesis
  proof (rule transition_outcome [OF upd [of ?now] inv0 ok, where k = k], assumption+)
    assume "find_row job_id k (db_jobs ?d) = None" "transition ?now k e n v ?d = Inl JobNotFound"
    with inv0 show thesis
      by (intro that(1) [of ?d]) (simp_all add: settled_or_skipped_def session_def bind_t_def f row_is_not_def)
  next
    fix j x
    assume "find_row job_id k (db_jobs ?d) = Some j" "job_status j \<noteq> e"
      "transition ?now k e n v ?d = Inl (InvalidJobTransition x)"
    with inv0 show thesis
      by (intro that(1) [of ?d]) (simp_all add: settled_or_skipped_def session_def bind_t_def f row_is_not_def)
  next
    fix j d'
    assume row: "find_row job_id k (db_jobs ?d) = Some j"
      and moved: "transition ?now k e n v ?d = Inr (d', transition_values ?now n v j)"
        "find_row job_id k (db_jobs d') = Some (transition_values ?now n v j)"
    have "jobs_inv (db_jobs d')"
      using job_update.job_update_inv [OF upd inv0 transition_update [OF moved(1)]] .
    moreover have "lifecycle j"
      using row inv0 by (auto dest: find_row_Some intro: jobs_inv_lifecycle)
    ultimately show thesis
      using moved by (intro that(2) [of d' ?now j]) (simp_all add: settled_or_skipped_def session_def bind_t_def f)
  qed
qed

lemma claim_job_cases:
  assumes W: "others_commit W" and inv: "jobs_inv (db_jobs d)"
  obtains (skipped) d' where "claim_job k W t d = (Inr None, t, d')"
      "jobs_inv (db_jobs d')" "row_is_not (\<lambda>j. job_status j = Queued) k d'"
  | (claimed) d' j where "claim_job k W t d = (Inr (Some j), t @ [Commit d'], d')" "jobs_inv (db_jobs d')"
      "find_row job_id k (db_jobs d') = Some j" "job_status j = Processing"
proof -
  let ?now = "w_now W t" and ?d = "w_others W t d"
  note inv0 = others_inv [OF W inv, of t]
  show thesis
  proof (rule mark_processing_outcome [OF inv0, where now = ?now and k = k])
    assume "find_row job_id k (db_jobs ?d) = None" "mark_processing ?now k ?d = Inl JobNotFound"
    with inv0 show thesis
      by (intro skipped [of ?d]) (simp_all add: claim_job_def session_def bind_t_def row_is_not_def)
  next
    fix j x
    assume "find_row job_id k (db_jobs ?d) = Some j" "job_status j \<noteq> Queued"
      "mark_processing ?now k ?d = Inl (InvalidJobTransition x)"
    with inv0 show thesis
      by (intro skipped [of ?d]) (simp_all add: claim_job_def session_def bind_t_def row_is_not_def)
  next
    fix j d'
    assume moved: "mark_processing ?now k ?d = Inr (d', transition_values ?now Processing no_values j)"
      "find_row job_id k (db_jobs d') = Some (transition_values ?now Processing no_values j)"
    have "jobs_inv (db_jobs d')"
      using job_step_inv [OF job_step.processing [OF moved(1)] inv0] .
    with moved show thesis
      by (intro claimed [of "transition_values ?now Processing no_values j" d'])
        (simp_all add: claim_job_def session_def bind_t_def transition_values_def)
  qed
qed

lemma finished_check:
  assumes "result_storable res" and "lifecycle j" and "job_status j = Processing"
  shows "job_check (transition_values now Done ((done_values res)\<lparr>v_output_key := Some (output_key res), v_error := None\<rparr>) j)"
  using assms by (auto simp: row_simps done_values_def result_storable_def split: option.splits)

lemma mark_done_storable:
  "result_storable res \<Longrightarrow> mark_done now k (output_key res) (done_values res)
     = transition now k Processing Done ((done_values res)\<lparr>v_output_key := Some (output_key res), v_error := None\<rparr>)"
  by (auto simp: mark_done_def fun_eq_iff result_storable_def done_values_def split: option.splits)

lemma mark_failed_nonblank:
  "strip err \<noteq> [] \<Longrightarrow> mark_failed now k err = transition now k Processing Failed (no_values\<lparr>v_error := Some (strip err)\<rparr>)"
  by (simp add: mark_failed_def fun_eq_iff)

definition told :: "job \<Rightarrow> bool" where
  \<comment> \<open>the row is failed, with an error a person can read\<close>
  "told j \<longleftrightarrow> job_status j = Failed \<and>
     (case job_error j of Some m \<Rightarrow> strip m \<noteq> [] \<and> length m \<le> MAX_ERROR_LENGTH | None \<Rightarrow> False)"

lemma record_failed_cases:
  assumes W: "others_commit W" and inv: "jobs_inv (db_jobs d)"
    and err: "strip err \<noteq> []" "length err \<le> MAX_ERROR_LENGTH"
  obtains d' where "settled_or_skipped (session (\<lambda>now. mark_failed now k err)) out W t d = (Inr JobSkipped, t, d')"
      "jobs_inv (db_jobs d')" "row_is_not (\<lambda>j. job_status j = Processing) k d'"
  | d' where "settled_or_skipped (session (\<lambda>now. mark_failed now k err)) out W t d = (Inr out, t @ [Commit d'], d')"
      "jobs_inv (db_jobs d')" "row_is told k d'"
proof (rule settled_transition [OF W inv failed.job_update_axioms failed_check [OF err(1)] mark_failed_nonblank [OF err(1)],
      where k = k and t = t and out = out], assumption+)
  fix d' now j
  assume run: "settled_or_skipped (session (\<lambda>now. mark_failed now k err)) out W t d = (Inr out, t @ [Commit d'], d')"
      "jobs_inv (db_jobs d')"
    and row: "find_row job_id k (db_jobs d') = Some (transition_values now Failed (no_values\<lparr>v_error := Some (strip err)\<rparr>) j)"
  have "row_is told k d'"
    unfolding row_is_def row using strip_self [OF err(1)] length_strip [of err] err(2)
    by (simp add: told_def transition_values_def no_values_def)
  with run show thesis by (rule that(2))
qed

section \<open>Properties\<close>

definition task_ends_well :: "uuid \<Rightarrow> nat \<Rightarrow> event list \<Rightarrow> job_outcome \<Rightarrow> event list \<Rightarrow> db \<Rightarrow> bool" where
  \<comment> \<open>what an outcome says of the row, in the database as the run left it\<close>
  "task_ends_well k n t o' t' d' \<longleftrightarrow>
     (case o' of
        JobSkipped \<Rightarrow>
          row_is_not (\<lambda>j. job_status j = (if commits_of t' = commits_of t then Queued else Processing)) k d'
      | JobFailed \<Rightarrow> row_is told k d'
      | JobInterrupted \<Rightarrow> n + 1 < MAX_INTERRUPTIONS \<and> row_is (\<lambda>j. job_status j = Queued) k d'
      | JobDone \<Rightarrow> (\<exists>d1\<in>set (commits_of t'). row_is (\<lambda>j. job_status j = Done) k d1))"

lemma give_back_ends:
  assumes "others_commit W" and "jobs_inv (db_jobs d)" and "commits_of t \<noteq> commits_of t0"
  shows "\<exists>o' t' d'. give_back k n W t d = (Inr o', t', d') \<and> task_ends_well k n t0 o' t' d' \<and> jobs_inv (db_jobs d')"
proof (cases "MAX_INTERRUPTIONS \<le> n + 1")
  case True
  have err: "strip INTERRUPTED_TOO_OFTEN \<noteq> []" "length INTERRUPTED_TOO_OFTEN \<le> MAX_ERROR_LENGTH"
    by code_simp+
  show ?thesis
    by (rule record_failed_cases [OF assms(1,2) err, of k JobFailed t])
      (use True assms(3) in \<open>simp_all add: give_back_def task_ends_well_def\<close>)
next
  case False
  note err = this
  show ?thesis
  proof (rule settled_transition [OF assms(1,2) interrupted.job_update_axioms interrupted_check mark_interrupted_def,
        where k = k and t = t and out = JobInterrupted], assumption+)
    fix d'
    assume "settled_or_skipped (session (\<lambda>now. mark_interrupted now k)) JobInterrupted W t d = (Inr JobSkipped, t, d')"
      "jobs_inv (db_jobs d')" "row_is_not (\<lambda>j. job_status j = Processing) k d'"
    with err assms(3) show ?thesis by (simp add: give_back_def task_ends_well_def)
  next
    fix d' now j
    assume run: "settled_or_skipped (session (\<lambda>now. mark_interrupted now k)) JobInterrupted W t d
        = (Inr JobInterrupted, t @ [Commit d'], d')" "jobs_inv (db_jobs d')"
      and row: "find_row job_id k (db_jobs d') = Some (transition_values now Queued no_values j)"
    have "row_is (\<lambda>j. job_status j = Queued) k d'"
      unfolding row_is_def row by (simp add: transition_values_def)
    with run err show ?thesis by (simp add: give_back_def task_ends_well_def)
  qed
qed

lemma record_done_cases:
  assumes W: "others_commit W" and inv: "jobs_inv (db_jobs d)" and res: "result_storable res"
  obtains d' where "record_done k res W t d = (Inr JobSkipped, t, d')"
      "jobs_inv (db_jobs d')" "row_is_not (\<lambda>j. job_status j = Processing) k d'"
  | d' where "record_done k res W t d = (Inr JobDone, t @ [Commit d'], d')"
      "jobs_inv (db_jobs d')"
      "row_is (\<lambda>j. job_status j = Done \<and> job_output_key j = Some (output_key res)
         \<and> (waits_for_ladder j \<longleftrightarrow> ladder_pending res)) k d'"
proof (rule settled_transition [OF W inv finished.job_update_axioms finished_check [OF res] mark_done_storable [OF res],
      where k = k and t = t and out = JobDone, folded record_done_def], assumption+)
  fix d' now j
  assume run: "record_done k res W t d = (Inr JobDone, t @ [Commit d'], d')" "jobs_inv (db_jobs d')"
    and row: "find_row job_id k (db_jobs d')
      = Some (transition_values now Done ((done_values res)\<lparr>v_output_key := Some (output_key res), v_error := None\<rparr>) j)"
  have "row_is (\<lambda>j. job_status j = Done \<and> job_output_key j = Some (output_key res)
      \<and> (waits_for_ladder j \<longleftrightarrow> ladder_pending res)) k d'"
    unfolding row_is_def row using res
    by (auto simp: transition_values_def done_values_def waits_for_ladder_def derived_hls_status_def result_storable_def)
  with run show thesis by (rule that(2))
qed

lemma hand_off_outcome:
  assumes W: "others_commit W" and inv: "jobs_inv (db_jobs d)"
  shows "\<exists>t' d'. hand_off_ladder k enq W t d = (Inr (), t @ t', d') \<and> jobs_inv (db_jobs d')"
proof -
  obtain r cs where th: "in_thread (enq k) W t d = (r, t @ map Call cs, d)"
    using in_thread_cases by blast
  let ?t = "t @ map Call cs"
  show ?thesis
  proof (cases r)
    case (Inr u)
    with th inv show ?thesis by (auto simp: hand_off_ladder_def bind_t_def)
  next
    case (Inl x)
    obtain d' r' where u: "mark_ladder_unavailable (w_now W ?t) k (w_others W ?t d) = Inr (d', r')"
      using settle_ladder_ok [OF others_inv [OF W inv]] unfolding mark_ladder_unavailable_def by blast
    then have "jobs_inv (db_jobs d')"
      using job_step_inv [OF job_step.ladder_unavailable [OF u] others_inv [OF W inv]] by blast
    with th Inl u show ?thesis by (simp add: hand_off_ladder_def bind_t_def session_def)
  qed
qed

text \<open>A step whose results can be recorded; both steps of the worker are such.\<close>

definition storable_step :: "step \<Rightarrow> bool" where
  "storable_step f \<longleftrightarrow> (\<forall>k src fps e h res h'. f k src fps e h = (Inr res, h') \<longrightarrow> result_storable res)"

lemma worker_steps_storable:
  "storable_step (ffmpeg_run (processing_step ws ce))" "storable_step (edit_run (edit_processing_step ws ops))"
  unfolding storable_step_def by (blast intro: ffmpeg_run_storable edit_run_storable)+

lemma claimed_job_ends:
  assumes W: "others_commit W" and inv: "jobs_inv (db_jobs d)" and fresh: "commits_of t \<noteq> commits_of t0"
    and f: "storable_step f"
  shows "\<exists>o' t' d'. bind_t (try_t (in_thread (f k src fps))) (\<lambda>r. case r of
           Inl x \<Rightarrow>
             bind_t stop_requested (\<lambda>stop.
               if stop then give_back k n
               else settled_or_skipped (session (\<lambda>now. mark_failed now k (readable_error x))) JobFailed)
         | Inr res \<Rightarrow>
             bind_t (record_done k res) (\<lambda>outcome.
               if outcome = JobDone \<and> ladder_pending res
               then bind_t (hand_off_ladder k enq) (\<lambda>_. ret_t JobDone)
               else ret_t outcome)) W t d = (Inr o', t', d')
      \<and> task_ends_well k n t0 o' t' d' \<and> jobs_inv (db_jobs d')"
    (is "\<exists>o' t' d'. ?m W t d = _ \<and> _")
proof -
  obtain r cs h where th: "in_thread (f k src fps) W t d = (r, t @ map Call cs, d)"
    and fh: "f k src fps (w_env W) (calls_of t) = (r, h)"
    using in_thread_cases by blast
  let ?t = "t @ map Call cs"
  have t0: "commits_of ?t \<noteq> commits_of t0" using fresh by simp
  show ?thesis
  proof (cases r)
    case (Inl x)
    show ?thesis
    proof (cases "w_stopped W ?t")
      case True
      with th Inl have m: "?m W t d = give_back k n W ?t d" by (simp add: bind_t_def)
      show ?thesis unfolding m by (rule give_back_ends [OF W inv t0])
    next
      case False
      with th Inl have m: "?m W t d
          = settled_or_skipped (session (\<lambda>now. mark_failed now k (readable_error x))) JobFailed W ?t d"
        by (simp add: bind_t_def)
      from readable_error_bounds [of x] have "strip (readable_error x) \<noteq> []" "length (readable_error x) \<le> MAX_ERROR_LENGTH"
        by blast+
      then show ?thesis
        by (rule record_failed_cases [OF W inv, of "readable_error x" k JobFailed ?t])
          (use t0 in \<open>simp_all only: m task_ends_well_def, simp_all\<close>)
    qed
  next
    case (Inr res)
    with th have m: "?m W t d = bind_t (record_done k res) (\<lambda>outcome.
               if outcome = JobDone \<and> ladder_pending res
               then bind_t (hand_off_ladder k enq) (\<lambda>_. ret_t JobDone)
               else ret_t outcome) W ?t d"
      by (simp add: bind_t_def)
    from f fh Inr have res: "result_storable res" unfolding storable_step_def by blast
    show ?thesis
    proof (rule record_done_cases [OF W inv res, of k ?t])
      fix d'
      assume "record_done k res W ?t d = (Inr JobSkipped, ?t, d')" "jobs_inv (db_jobs d')"
        "row_is_not (\<lambda>j. job_status j = Processing) k d'"
      with t0 show ?thesis unfolding m by (simp add: bind_t_def task_ends_well_def)
    next
      fix d'
      assume rec: "record_done k res W ?t d = (Inr JobDone, ?t @ [Commit d'], d')" "jobs_inv (db_jobs d')"
        "row_is (\<lambda>j. job_status j = Done \<and> job_output_key j = Some (output_key res)
           \<and> (waits_for_ladder j \<longleftrightarrow> ladder_pending res)) k d'"
      then have ok: "row_is (\<lambda>j. job_status j = Done) k d'" by (auto simp: row_is_def split: option.splits)
      obtain t' d2 where hand: "hand_off_ladder k enq W (?t @ [Commit d']) d' = (Inr (), (?t @ [Commit d']) @ t', d2)"
        and inv2: "jobs_inv (db_jobs d2)"
        using hand_off_outcome [OF W rec(2)] by blast
      from rec(1) hand have "?m W t d = (if ladder_pending res
          then (Inr JobDone, (?t @ [Commit d']) @ t', d2) else (Inr JobDone, ?t @ [Commit d'], d'))"
        unfolding m by (simp add: bind_t_def)
      then show ?thesis using ok inv2 rec(2) by (simp only:) (simp add: task_ends_well_def)
    qed
  qed
qed

lemma worker_job_ends:
  assumes "others_commit W" and "jobs_inv (db_jobs d)"
  shows "\<exists>o' t' d'. worker_job ws ce k enq n W t d = (Inr o', t', d')
      \<and> task_ends_well k n t o' t' d' \<and> jobs_inv (db_jobs d')"
proof (rule claim_job_cases [OF assms, of k t])
  fix d'
  assume claim: "claim_job k W t d = (Inr None, t, d')" "jobs_inv (db_jobs d')"
    and row: "row_is_not (\<lambda>j. job_status j = Queued) k d'"
  have "worker_job ws ce k enq n W t d
      = (Inr JobSkipped, t, d')"
    unfolding process_job_async_def by (subst bind_t_eq, rule claim(1)) simp
  moreover have "task_ends_well k n t JobSkipped t d'" using row by (simp add: task_ends_well_def)
  ultimately show ?thesis using claim(2) by blast
next
  fix d' j
  assume claim: "claim_job k W t d = (Inr (Some j), t @ [Commit d'], d')" "jobs_inv (db_jobs d')"
  have "commits_of (t @ [Commit d']) \<noteq> commits_of t" by simp
  note ends = claimed_job_ends [OF assms(1) claim(2) this, of "case job_operations j of
      Some ops \<Rightarrow> edit_run (edit_processing_step ws ops) | None \<Rightarrow> ffmpeg_run (processing_step ws ce)"
      k "job_source_key j" "job_max_fps j" n enq]
  show ?thesis
    using ends
    unfolding process_job_async_def bind_t_Inr [where m = "claim_job k" and W = W and t = t and d = d, OF claim(1)]
    by (auto simp: Let_def worker_steps_storable split: option.splits)
qed

text \<open>C2. However FFmpeg, storage and the queue fail and whatever the other processes commit in
  between, a delivered job's task returns, and the row says how it ended: a failure has a readable
  error of at most 500 characters, a stop has put the job back in the queue and only so often, a
  finished job is done; and a task that left the row alone did so because the job was gone or was no
  longer its own. No exception of the step leaves the job processing.\<close>

theorem process_job_settles:
  assumes "others_commit W" and "jobs_inv (db_jobs d)"
  shows "\<exists>o' t' d'. worker_job ws ce k enq n W t d = (Inr o', t', d')
      \<and> task_ends_well k n t o' t' d' \<and> jobs_inv (db_jobs d')"
  using assms by (rule worker_job_ends)

definition one_user :: user where
  "one_user = \<lparr>user_id = 1, user_email = ''a'', user_password_hash = ''h'', user_role = UserRole, user_created_at = 0\<rparr>"

definition one_job :: db where
  "one_job = \<lparr>db_users = [one_user], db_jobs = [new_job 3 7 1 ''f'' ''uploads/a.mov'' None 30], db_uploads = []\<rparr>"

definition quiet_world :: world where
  \<comment> \<open>nobody else commits, nobody stops the worker\<close>
  "quiet_world = \<lparr>w_env = sample_env, w_others = (\<lambda>t d. d), w_now = (\<lambda>t. 5), w_stopped = (\<lambda>t. False)\<rparr>"

lemma quiet_world_commits: "others_commit quiet_world"
  by (simp add: others_commit_def quiet_world_def)

lemma one_job_inv: "jobs_inv (db_jobs one_job)"
  by code_simp

theorem process_job_settles_witness:
  "\<exists>o' t' d'. worker_job sample_settings sample_encoder 7 (\<lambda>k. ret ()) 0 quiet_world [] one_job = (Inr o', t', d')
      \<and> task_ends_well 7 0 [] o' t' d' \<and> jobs_inv (db_jobs d')"
  by (rule process_job_settles [OF quiet_world_commits one_job_inv])

section \<open>The ladder's run\<close>

lemma ladder_run_key:
  "ladder_run b k src probe fps e h = (Inr key, h') \<Longrightarrow> key = prefix_for b k @ ''/'' @ MASTER_PLAYLIST_NAME"
  by (auto simp: ladder_run_def build_ladder_files_def build_in_def Let_def bind_io_Inr finally_io_Inr split: if_splits)

lemma settle_ladder_cases:
  assumes "jobs_inv (db_jobs d)" and "(st = HlsReady) = (key \<noteq> None)" and "st \<noteq> HlsPending"
  obtains d' where "settle_ladder now k st key d = Inr (d', None)" "jobs_inv (db_jobs d')"
      "row_is_not waits_for_ladder k d'"
  | d' j where "settle_ladder now k st key d = Inr (d', Some j)" "jobs_inv (db_jobs d')"
      "row_is (\<lambda>j. job_status j = Done \<and> job_hls_status j = st \<and> job_hls_key j = key) k d'"
proof -
  obtain d' r where u: "settle_ladder now k st key d = Inr (d', r)"
    using settle_ladder_ok [OF assms(1,2)] by blast
  note inv = ladder.job_update_inv [OF assms(1) u [unfolded settle_ladder_def]]
  show thesis
  proof (rule ladder.job_update_cases [OF assms(1) u [unfolded settle_ladder_def]], goal_cases)
    case 1
    then have "row_is_not waits_for_ladder k d'" by (auto simp: row_is_not_def split: option.split)
    with 1 u inv show ?case by (intro that(1)) simp_all
  next
    case (2 j)
    have row: "find_row job_id k (db_jobs d')
        = Some (j\<lparr>job_hls_status := st, job_hls_key := key, job_updated_at := now\<rparr>)"
      using ladder.job_update_find [OF assms(1) u [unfolded settle_ladder_def], of k] 2(1,2) by simp
    have "row_is (\<lambda>j. job_status j = Done \<and> job_hls_status j = st \<and> job_hls_key j = key) k d'"
      unfolding row_is_def row using 2(2) by (simp add: waits_for_ladder_def)
    with 2 u inv show ?case by (intro that(2)) simp_all
  qed
qed

definition ladder_ends_well ::
  "ladder_builder \<Rightarrow> uuid \<Rightarrow> nat \<Rightarrow> event list \<Rightarrow> ladder_outcome \<Rightarrow> event list \<Rightarrow> db \<Rightarrow> bool"
where
  "ladder_ends_well b k n t o' t' d' \<longleftrightarrow>
     (case o' of
        LadderInterrupted \<Rightarrow> n + 1 < MAX_INTERRUPTIONS \<and> commits_of t' = commits_of t
      | NothingToSettle \<Rightarrow> row_is_not waits_for_ladder k d'
      | LadderIs st \<Rightarrow> row_is_not waits_for_ladder k d' \<and> st \<noteq> HlsPending \<and>
          (st = HlsReady \<longrightarrow> row_is (\<lambda>j. job_status j = Done \<and> job_hls_status j = HlsReady
             \<and> job_hls_key j = Some (prefix_for b k @ ''/'' @ MASTER_PLAYLIST_NAME)) k d'))"

lemma row_settled:
  "row_is (\<lambda>j. job_status j = Done \<and> job_hls_status j = st \<and> job_hls_key j = key) k d' \<Longrightarrow> st \<noteq> HlsPending
     \<Longrightarrow> row_is_not waits_for_ladder k d'"
  by (auto simp: row_is_def row_is_not_def waits_for_ladder_def split: option.splits)

lemma unavailable_ends:
  assumes "others_commit W" and "jobs_inv (db_jobs d)"
  shows "\<exists>o' t' d'. bind_t (session (\<lambda>now. mark_ladder_unavailable now k)) (\<lambda>_. ret_t (LadderIs HlsUnavailable)) W t d
      = (Inr o', t', d') \<and> ladder_ends_well b k n t0 o' t' d' \<and> jobs_inv (db_jobs d')"
  using row_settled
  by (rule_tac settle_ladder_cases [OF others_inv [OF assms, of t], of HlsUnavailable None "w_now W t" k])
    (auto simp: bind_t_def session_def mark_ladder_unavailable_def ladder_ends_well_def)

lemma after_ladder_never_raises: "fst (after_ladder_run hooks k out e h) = Inr ()"
proof (unfold after_ladder_run_def, induction hooks arbitrary: h)
  case (Cons f hooks)
  then show ?case by (auto simp: bind_io_def catch_io_def split: prod.split sum.split)
qed simp

lemma record_ladder_ends:
  assumes W: "others_commit W" and inv: "jobs_inv (db_jobs d)"
    and key: "key = prefix_for b k @ ''/'' @ MASTER_PLAYLIST_NAME"
  shows "\<exists>o' t' d'. record_ladder step hooks k job key W t d = (Inr o', t', d')
      \<and> ladder_ends_well b k n t0 o' t' d' \<and> jobs_inv (db_jobs d')"
proof -
  have "strip key \<noteq> []"
    unfolding key by (rule strip_path)
  then have ready: "mark_ladder_ready now k key = settle_ladder now k HlsReady (Some key)" for now
    by (simp add: mark_ladder_ready_def fun_eq_iff)
  show ?thesis
  proof (rule settle_ladder_cases [OF others_inv [OF W inv, of t], of HlsReady "Some key" "w_now W t" k], simp_all)
    fix d'
    assume u: "settle_ladder (w_now W t) k HlsReady (Some key) (w_others W t d) = Inr (d', None)"
      and fin: "jobs_inv (db_jobs d')" "row_is_not waits_for_ladder k d'"
    have s: "session (\<lambda>now. mark_ladder_ready now k key) W t d = (Inr None, t @ [Commit d'], d')"
      by (simp add: session_def ready u)
    obtain r cs where "in_thread (ls_discard step k) W (t @ [Commit d']) d' = (r, (t @ [Commit d']) @ map Call cs, d')"
      using in_thread_cases by blast
    with s fin show ?thesis by (simp add: record_ladder_def bind_t_def ladder_ends_well_def)
  next
    fix d' j
    assume u: "settle_ladder (w_now W t) k HlsReady (Some key) (w_others W t d) = Inr (d', Some j)"
      and fin: "jobs_inv (db_jobs d')"
        "row_is (\<lambda>j. job_status j = Done \<and> job_hls_status j = HlsReady \<and> job_hls_key j = Some key) k d'"
    have s: "session (\<lambda>now. mark_ladder_ready now k key) W t d = (Inr (Some j), t @ [Commit d'], d')"
      by (simp add: session_def ready u)
    have good: "ladder_ends_well b k n t0 (LadderIs HlsReady) t' d'" for t'
      using fin row_settled [OF fin(2)] key by (simp add: ladder_ends_well_def)
    have hooks: "\<exists>cs. in_thread (after_ladder_run hooks k out) W (t @ [Commit d']) d'
        = (Inr (), (t @ [Commit d']) @ map Call cs, d')" for out
      by (rule in_thread_cases [of "after_ladder_run hooks k out" W "t @ [Commit d']" d'])
        (metis after_ladder_never_raises fst_conv in_thread_def)
    show ?thesis
    proof (cases "job_output_key job = None \<or> job_output_key job = Some []")
      case True
      with s good fin(1) show ?thesis by (auto simp: record_ladder_def bind_t_def)
    next
      case False
      then obtain c cs where "job_output_key job = Some (c # cs)" by (cases "job_output_key job") (auto simp: neq_Nil_conv)
      moreover obtain es where "in_thread (after_ladder_run hooks k (c # cs)) W (t @ [Commit d']) d'
          = (Inr (), (t @ [Commit d']) @ map Call es, d')" using hooks by blast
      ultimately show ?thesis using s good fin(1) by (simp add: record_ladder_def bind_t_def)
    qed
  qed
qed

lemma tried_ladder_ends:
  assumes W: "others_commit W" and inv: "jobs_inv (db_jobs d)"
  shows "\<exists>o' t' d'. bind_t (try_t (in_thread (ls_run (ladder_step_of b) k src probe fps)))
      (\<lambda>r. case r of
         Inl x \<Rightarrow>
           bind_t stop_requested (\<lambda>stop.
             if stop \<and> n + 1 < MAX_INTERRUPTIONS
             then bind_t (try_t (in_thread (ls_discard (ladder_step_of b) k))) (\<lambda>_. ret_t LadderInterrupted)
             else bind_t (session (\<lambda>now. mark_ladder_unavailable now k)) (\<lambda>_. ret_t (LadderIs HlsUnavailable)))
       | Inr key \<Rightarrow> record_ladder (ladder_step_of b) hooks k job key) W t d = (Inr o', t', d')
    \<and> ladder_ends_well b k n t o' t' d' \<and> jobs_inv (db_jobs d')"
    (is "\<exists>o' t' d'. ?m W t d = _ \<and> _")
proof -
  let ?step = "ladder_step_of b" and ?run = "ls_run (ladder_step_of b) k src probe fps"
  obtain r cs hist where th: "in_thread ?run W t d = (r, t @ map Call cs, d)"
    and mr: "?run (w_env W) (calls_of t) = (r, hist)"
    using in_thread_cases by blast
  let ?t = "t @ map Call cs"
  show ?thesis
  proof (cases r)
    case (Inl x)
    obtain r2 cs2 where disc: "in_thread (ls_discard ?step k) W ?t d = (r2, ?t @ map Call cs2, d)"
      using in_thread_cases by blast
    show ?thesis
    proof (cases "w_stopped W ?t \<and> n + 1 < MAX_INTERRUPTIONS")
      case True
      with th Inl disc have "?m W t d = (Inr LadderInterrupted, ?t @ map Call cs2, d)" by (simp add: bind_t_def)
      with True inv show ?thesis by (simp only:) (simp add: ladder_ends_well_def)
    next
      case False
      with th Inl have "?m W t d = bind_t (session (\<lambda>now. mark_ladder_unavailable now k))
          (\<lambda>_. ret_t (LadderIs HlsUnavailable)) W ?t d" by (auto simp: bind_t_def)
      then show ?thesis using unavailable_ends [OF W inv] by (simp only:)
    qed
  next
    case (Inr key)
    have key: "key = prefix_for b k @ ''/'' @ MASTER_PLAYLIST_NAME"
      using mr Inr by (auto simp: ladder_step_of_def split: option.splits dest: ladder_run_key)
    have "?m W t d = record_ladder ?step hooks k job key W ?t d"
      using th Inr by (simp add: bind_t_def)
    then show ?thesis using record_ladder_ends [OF W inv key] by (simp only:)
  qed
qed

text \<open>C6. The ladder's task returns whatever its step, storage and the other processes do, and never
  leaves a ladder waiting that nobody will build: unless it was stopped and may run again, the row no
  longer waits, and a ladder that is ready has the key of the master playlist that was uploaded.\<close>

theorem build_ladder_settles:
  assumes "others_commit W" and "jobs_inv (db_jobs d)"
  shows "\<exists>o' t' d'. build_ladder_async k (ladder_step_of b) hooks n W t d = (Inr o', t', d')
      \<and> ladder_ends_well b k n t o' t' d' \<and> jobs_inv (db_jobs d')"
proof -
  let ?d = "w_others W t d"
  note inv = others_inv [OF assms, of t]
  have rd: "reading (\<lambda>d. get_job d k None False) W t d = (Inr (find_row job_id k (db_jobs ?d)), t, ?d)"
    by (simp add: get_job_any)
  note run = bind_t_Inr [where m = "reading (\<lambda>d. get_job d k None False)" and W = W and t = t and d = d, OF rd]
  show ?thesis
  proof (cases "find_row job_id k (db_jobs ?d)")
    case None
    with inv show ?thesis
      unfolding build_ladder_async_def Let_def run by (simp add: ladder_ends_well_def row_is_not_def)
  next
    case (Some job)
    show ?thesis
    proof (cases "job_status job \<noteq> Done \<or> job_hls_status job \<noteq> HlsPending")
      case True
      with Some inv show ?thesis
        unfolding build_ladder_async_def Let_def run
        by (auto simp: ladder_ends_well_def row_is_not_def waits_for_ladder_def)
    next
      case False
      then show ?thesis
        unfolding build_ladder_async_def Let_def run Some option.case if_not_P [OF False]
        by (cases "job_height job"; cases "job_width job"; simp only: prod.case option.case)
          (rule tried_ladder_ends [OF assms(1) inv] unavailable_ends [OF assms(1) inv])+
    qed
  qed
qed

theorem build_ladder_settles_witness:
  "\<exists>o' t' d'. build_ladder_async 7 (ladder_step_of sample_builder) [] 0 quiet_world [] one_job = (Inr o', t', d')
      \<and> ladder_ends_well sample_builder 7 0 [] o' t' d' \<and> jobs_inv (db_jobs d')"
  by (rule build_ladder_settles [OF quiet_world_commits one_job_inv])

section \<open>The ladder's place in the order\<close>

text \<open>C5. A ladder is queued only after the job's completion has been committed: whatever a run does
  before that commit does not depend on the queue at all, and what remains of it after the commit is
  the hand-off alone, with the row done and waiting for its ladder.\<close>

theorem ladder_queued_after_commit:
  assumes "others_commit W" and "jobs_inv (db_jobs d)"
  shows "(\<forall>enq'. worker_job ws ce k enq' n W t d = worker_job ws ce k enq n W t d) \<or>
    (\<exists>t1 d1. row_is (\<lambda>j. waits_for_ladder j \<and> job_output_key j \<noteq> None) k d1 \<and>
       (\<forall>enq'. worker_job ws ce k enq' n W t d
          = bind_t (hand_off_ladder k enq') (\<lambda>_. ret_t JobDone) W (t1 @ [Commit d1]) d1))"
proof (rule claim_job_cases [OF assms(1,2), of k t])
  fix d'
  assume claim: "claim_job k W t d = (Inr None, t, d')"
  note run = bind_t_Inr [where m = "claim_job k" and W = W and t = t and d = d, OF claim]
  show ?thesis unfolding process_job_async_def run by simp
next
  fix d' j
  assume claim: "claim_job k W t d = (Inr (Some j), t @ [Commit d'], d')" "jobs_inv (db_jobs d')"
  let ?f = "case job_operations j of Some ops \<Rightarrow> edit_run (edit_processing_step ws ops)
      | None \<Rightarrow> ffmpeg_run (processing_step ws ce)"
  note run = bind_t_Inr [where m = "claim_job k" and W = W and t = t and d = d, OF claim(1)]
  have f: "storable_step ?f" by (auto simp: worker_steps_storable split: option.split)
  obtain r cs h where th: "in_thread (?f k (job_source_key j) (job_max_fps j)) W (t @ [Commit d']) d'
        = (r, (t @ [Commit d']) @ map Call cs, d')"
    and fh: "?f k (job_source_key j) (job_max_fps j) (w_env W) (calls_of (t @ [Commit d'])) = (r, h)"
    using in_thread_cases by blast
  show ?thesis
  proof (cases r)
    case (Inl x)
    with th show ?thesis unfolding process_job_async_def run by (simp add: bind_t_def)
  next
    case (Inr res)
    let ?t = "(t @ [Commit d']) @ map Call cs"
    from f fh Inr have res: "result_storable res" unfolding storable_step_def by blast
    have m: "worker_job ws ce k enq' n W t d = bind_t (record_done k res) (\<lambda>outcome. if outcome = JobDone \<and> ladder_pending res
          then bind_t (hand_off_ladder k enq') (\<lambda>_. ret_t JobDone) else ret_t outcome) W ?t d'" for enq'
      using th Inr unfolding process_job_async_def run by (simp add: bind_t_def)
    show ?thesis
    proof (rule record_done_cases [OF assms(1) claim(2) res, of k ?t])
      fix d2
      assume "record_done k res W ?t d' = (Inr JobSkipped, ?t, d2)"
      then show ?thesis unfolding m by (simp add: bind_t_def)
    next
      fix d2
      assume rec: "record_done k res W ?t d' = (Inr JobDone, ?t @ [Commit d2], d2)"
        and row: "row_is (\<lambda>j. job_status j = Done \<and> job_output_key j = Some (output_key res)
           \<and> (waits_for_ladder j \<longleftrightarrow> ladder_pending res)) k d2"
      note go = bind_t_Inr [where m = "record_done k res" and W = W and t = ?t and d = d', OF rec]
      show ?thesis
      proof (cases "ladder_pending res")
        case True
        with row have "row_is (\<lambda>j. waits_for_ladder j \<and> job_output_key j \<noteq> None) k d2"
          by (auto simp: row_is_def split: option.splits)
        then show ?thesis
          unfolding m go by (intro disjI2 exI [of _ ?t] exI [of _ d2] conjI allI) (simp_all add: True)
      next
        case False
        then show ?thesis unfolding m go by simp
      qed
    qed
  qed
qed

theorem ladder_queued_after_commit_witness:
  "(\<forall>enq'. worker_job sample_settings sample_encoder 7 enq' 0 quiet_world [] one_job
        = worker_job sample_settings sample_encoder 7 (\<lambda>k. ret ()) 0 quiet_world [] one_job) \<or>
    (\<exists>t1 d1. row_is (\<lambda>j. waits_for_ladder j \<and> job_output_key j \<noteq> None) 7 d1 \<and>
       (\<forall>enq'. worker_job sample_settings sample_encoder 7 enq' 0 quiet_world [] one_job
          = bind_t (hand_off_ladder 7 enq') (\<lambda>_. ret_t JobDone) quiet_world (t1 @ [Commit d1]) d1))"
  by (rule ladder_queued_after_commit [OF quiet_world_commits one_job_inv])

section \<open>A queue entry ends\<close>

lemma settled_not_interrupted:
  "settled_or_skipped m out W t d = (Inr o', t', d') \<Longrightarrow> o' \<in> {out, JobSkipped}"
  by (auto simp: settled_or_skipped_def bind_t_def split: prod.splits sum.splits exn.splits)

lemma interrupted_may_run_again:
  assumes "process_job ws ce enq k n W t d = (Inr (RetryMax m), t', d')"
  shows "n + 1 < MAX_INTERRUPTIONS"
proof -
  have give_back: "n + 1 < MAX_INTERRUPTIONS" if "give_back k n W t1 d1 = (Inr JobInterrupted, t2, d2)" for t1 d1 t2 d2
    using that by (auto simp: give_back_def dest: settled_not_interrupted split: if_splits)
  have ends: False if "settled_or_skipped m out W t1 d1 = (Inr JobInterrupted, t2, d2)" "out \<noteq> JobInterrupted"
    for m out t1 d1 t2 d2
    using settled_not_interrupted [OF that(1)] that(2) by simp
  from assms obtain t2 d2 where "worker_job ws ce k enq n W t d = (Inr JobInterrupted, t2, d2)"
    by (auto simp: process_job_def bind_t_def split: prod.splits sum.splits if_splits)
  then show ?thesis
    unfolding process_job_async_def record_done_def
    by (auto simp: bind_t_def [where m = "claim_job k"] Let_def split: prod.splits sum.splits option.splits)
      (auto simp: bind_t_def split: prod.splits sum.splits if_splits dest: ends give_back)
qed

text \<open>A queue entry as RQ runs it: a \<open>Retry\<close> runs the same entry again, with one more retry on its
  count, which is what \<open>_previous_interruptions\<close> reads.\<close>

function entry_runs ::
  "worker_settings \<Rightarrow> chunked_encoder \<Rightarrow> (uuid \<Rightarrow> unit io) \<Rightarrow> uuid \<Rightarrow> nat \<Rightarrow> world
    \<Rightarrow> event list \<Rightarrow> db \<Rightarrow> (exn + string) \<times> event list \<times> db"
where
  "entry_runs ws ce enq k n W t d =
     (case process_job ws ce enq k n W t d of
        (Inl x, t', d') \<Rightarrow> (Inl x, t', d')
      | (Inr (Value v), t', d') \<Rightarrow> (Inr v, t', d')
      | (Inr (RetryMax m), t', d') \<Rightarrow> entry_runs ws ce enq k (Suc n) W t' d')"
  by pat_completeness auto

termination
  by (relation "measure (\<lambda>(ws, ce, enq, k, n, W, t, d). MAX_INTERRUPTIONS - n)")
    (auto dest!: interrupted_may_run_again [OF sym] intro: diff_less_mono2)

declare entry_runs.simps [simp del]

lemma process_job_value:
  assumes "others_commit W" and "jobs_inv (db_jobs d)"
  shows "\<exists>r t' d'. process_job ws ce enq k n W t d = (Inr r, t', d') \<and> jobs_inv (db_jobs d')
      \<and> (case r of Value v \<Rightarrow> v \<in> {''done'', ''failed'', ''skipped''} | RetryMax m \<Rightarrow> n + 1 < MAX_INTERRUPTIONS)"
proof -
  obtain o' t' d' where run: "worker_job ws ce k enq n W t d = (Inr o', t', d')"
    and ok: "task_ends_well k n t o' t' d'" "jobs_inv (db_jobs d')"
    using worker_job_ends [OF assms] by blast
  then have "process_job ws ce enq k n W t d
      = (Inr (if o' = JobInterrupted then RetryMax MAX_INTERRUPTIONS else Value (outcome_value o')), t', d')"
    by (simp add: process_job_def bind_t_def)
  with ok show ?thesis by (cases o') (auto simp: task_ends_well_def)
qed



section \<open>Whose claim a settlement ends\<close>

text \<open>A transition is guarded by the status of the row, not by whose claim it is. When a worker is
  given up on while it still runs, and the owner retries, its late failure ends the claim of the
  worker that has taken over.\<close>

fun after_tx :: "exn + (db \<times> 'a) \<Rightarrow> (db \<Rightarrow> exn + (db \<times> 'b)) \<Rightarrow> exn + (db \<times> 'b)" where
  "after_tx (Inl x) f = Inl x"
| "after_tx (Inr (d, _)) f = f d"

lemma late_failure_ends_new_claim:
  \<comment> \<open>claimed at 5, given up on at 6, retried at 7, claimed again at 8; at 9 the first worker fails\<close>
  "\<not> isl (after_tx (after_tx (after_tx (after_tx
     (mark_processing 5 7 one_job) (mark_stale_failed 6 7)) (prepare_retry 7 7 1)) (mark_processing 8 7))
     (mark_failed 9 7 UNEXPECTED_FAILURE))"
  by code_simp

end
