(* ===== verification/Interruption.thy ===== *)
theory Interruption
  imports Main
begin

text \<open>
  \<open>app/worker/interruption.py\<close>: stopping a worker. One thread is inside \<open>run\<close>, which starts a process
  and keeps it registered while it runs; \<open>SIGTERM\<close> runs the handler of \<open>stop_on_sigterm\<close>, which
  Python always runs on the main thread, between two of its instructions. The two share the stop
  flag, the set of running processes and its lock, which is not reentrant. The theory is the
  interleaving of their instructions, and says when a stop reaches the process.
\<close>

section \<open>State\<close>

datatype caller = MainThread | PoolThread  \<comment> \<open>who called \<open>run\<close>\<close>

datatype holder = Runner | Handler

text \<open>Where \<open>run\<close> is: before its check of the flag, about to start the process, with a process not
  registered yet, inside the first block under the lock, communicating, inside the second one.\<close>

datatype run_at = Checking | Starting | Started nat | Adding nat | Added nat | Waiting nat | Ended nat | Removing nat

text \<open>Where the handler is: not called, before its lock, inside it, terminating what it has listed, done.\<close>

datatype handler_at = Unset | Stopping | Listing | Terminating "nat set" | Handled

record supervisor =
  sv_stop :: bool
  sv_running :: "nat set"
  sv_lock :: "holder option"
  sv_alive :: "nat set"
  sv_told :: "nat set"
  sv_run :: run_at
  sv_handler :: handler_at
  sv_next :: nat

definition fresh_supervisor :: supervisor where
  "fresh_supervisor = \<lparr>sv_stop = False, sv_running = {}, sv_lock = None, sv_alive = {}, sv_told = {},
     sv_run = Checking, sv_handler = Unset, sv_next = 0\<rparr>"

section \<open>The instructions\<close>

datatype instruction =
    RCheck | RPopen | RLock | RAdd | RUnlock | RCommunicate | RRelock | RDiscard
  | PExit nat
  | HSignal | HLock | HList | HTerminate

definition handler_busy :: "supervisor \<Rightarrow> bool" where
  "handler_busy s \<longleftrightarrow> sv_handler s \<in> {Stopping, Listing} \<or> (\<exists>S. sv_handler s = Terminating S)"

definition runner_may :: "caller \<Rightarrow> supervisor \<Rightarrow> bool" where
  \<comment> \<open>the main thread runs nothing else while it runs a signal handler\<close>
  "runner_may c s \<longleftrightarrow> c = PoolThread \<or> \<not> handler_busy s"

fun runs :: "instruction \<Rightarrow> supervisor \<Rightarrow> supervisor option" where
  "runs RCheck s =
     (if sv_run s = Checking then Some (if sv_stop s then s else s\<lparr>sv_run := Starting\<rparr>) else None)"
| "runs RPopen s =
     (if sv_run s = Starting
      then Some (s\<lparr>sv_run := Started (sv_next s), sv_alive := insert (sv_next s) (sv_alive s), sv_next := Suc (sv_next s)\<rparr>)
      else None)"
| "runs RLock s =
     (case sv_run s of
        Started p \<Rightarrow> if sv_lock s = None then Some (s\<lparr>sv_run := Adding p, sv_lock := Some Runner\<rparr>) else None
      | _ \<Rightarrow> None)"
| "runs RAdd s =
     (case sv_run s of Adding p \<Rightarrow> Some (s\<lparr>sv_run := Added p, sv_running := insert p (sv_running s)\<rparr>) | _ \<Rightarrow> None)"
| "runs RUnlock s =
     (case sv_run s of Added p \<Rightarrow> Some (s\<lparr>sv_run := Waiting p, sv_lock := None\<rparr>) | _ \<Rightarrow> None)"
| "runs RCommunicate s =
     (case sv_run s of
        Waiting p \<Rightarrow> if p \<notin> sv_alive s then Some (s\<lparr>sv_run := Ended p\<rparr>) else None
      | _ \<Rightarrow> None)"
| "runs RRelock s =
     (case sv_run s of
        Ended p \<Rightarrow> if sv_lock s = None then Some (s\<lparr>sv_run := Removing p, sv_lock := Some Runner\<rparr>) else None
      | _ \<Rightarrow> None)"
| "runs RDiscard s =
     (case sv_run s of
        Removing p \<Rightarrow> Some (s\<lparr>sv_run := Checking, sv_lock := None, sv_running := sv_running s - {p}\<rparr>) | _ \<Rightarrow> None)"
| "runs (PExit p) s = (if p \<in> sv_alive s then Some (s\<lparr>sv_alive := sv_alive s - {p}\<rparr>) else None)"
| "runs HSignal s =
     (if sv_handler s = Unset then Some (s\<lparr>sv_handler := Stopping, sv_stop := True\<rparr>) else None)"
| "runs HLock s =
     (if sv_handler s = Stopping \<and> sv_lock s = None
      then Some (s\<lparr>sv_handler := Listing, sv_lock := Some Handler\<rparr>) else None)"
| "runs HList s =
     (if sv_handler s = Listing then Some (s\<lparr>sv_handler := Terminating (sv_running s), sv_lock := None\<rparr>) else None)"
| "runs HTerminate s =
     (case sv_handler s of
        Terminating S \<Rightarrow> Some (s\<lparr>sv_handler := Handled, sv_told := sv_told s \<union> (S \<inter> sv_alive s)\<rparr>) | _ \<Rightarrow> None)"

fun of_runner :: "instruction \<Rightarrow> bool" where
  "of_runner (PExit p) = False"
| "of_runner HSignal = False"
| "of_runner HLock = False"
| "of_runner HList = False"
| "of_runner HTerminate = False"
| "of_runner _ = True"

definition executes :: "caller \<Rightarrow> instruction \<Rightarrow> supervisor \<Rightarrow> supervisor option" where
  "executes c i s = (if of_runner i \<and> \<not> runner_may c s then None else runs i s)"

inductive reaches :: "caller \<Rightarrow> supervisor \<Rightarrow> bool" for c where
  start: "reaches c fresh_supervisor"
| step: "reaches c s \<Longrightarrow> executes c i s = Some s' \<Longrightarrow> reaches c s'"

fun execute_all :: "caller \<Rightarrow> instruction list \<Rightarrow> supervisor \<Rightarrow> supervisor option" where
  "execute_all c [] s = Some s"
| "execute_all c (i # is) s = (case executes c i s of Some s' \<Rightarrow> execute_all c is s' | None \<Rightarrow> None)"

lemma reaches_all: "reaches c s \<Longrightarrow> execute_all c is s = Some s' \<Longrightarrow> reaches c s'"
  by (induction "is" arbitrary: s) (auto intro: reaches.step split: option.splits)

section \<open>Invariant\<close>

fun run_sound :: "run_at \<Rightarrow> nat set \<Rightarrow> nat set \<Rightarrow> bool \<Rightarrow> bool" where
  \<comment> \<open>of the alive and the registered processes, and whether \<open>run\<close> holds the lock\<close>
  "run_sound Checking al reg l \<longleftrightarrow> al = {} \<and> \<not> l"
| "run_sound Starting al reg l \<longleftrightarrow> al = {} \<and> \<not> l"
| "run_sound (Started p) al reg l \<longleftrightarrow> al \<subseteq> {p} \<and> \<not> l"
| "run_sound (Adding p) al reg l \<longleftrightarrow> al \<subseteq> {p} \<and> l"
| "run_sound (Added p) al reg l \<longleftrightarrow> al \<subseteq> {p} \<and> p \<in> reg \<and> l"
| "run_sound (Waiting p) al reg l \<longleftrightarrow> al \<subseteq> {p} \<and> p \<in> reg \<and> \<not> l"
| "run_sound (Ended p) al reg l \<longleftrightarrow> al = {} \<and> p \<in> reg \<and> \<not> l"
| "run_sound (Removing p) al reg l \<longleftrightarrow> al = {} \<and> p \<in> reg \<and> l"

definition sound :: "supervisor \<Rightarrow> bool" where
  "sound s \<longleftrightarrow> run_sound (sv_run s) (sv_alive s) (sv_running s) (sv_lock s = Some Runner)
     \<and> (sv_lock s = Some Handler \<longleftrightarrow> sv_handler s = Listing) \<and> (sv_stop s \<longleftrightarrow> sv_handler s \<noteq> Unset)"

lemma sound_fresh: "sound fresh_supervisor"
  by (simp add: sound_def fresh_supervisor_def)

lemma run_sound_exit: "run_sound r al reg l \<Longrightarrow> run_sound r (al - {p}) reg l"
  by (cases r) auto

lemma sound_runs:
  assumes "sound s" and "runs i s = Some s'"
  shows "sound s'"
proof (cases i)
  case (PExit p)
  with assms show ?thesis by (auto simp: sound_def run_sound_exit split: if_splits)
qed (use assms in \<open>auto simp: sound_def split: run_at.splits handler_at.splits if_splits\<close>)

lemma sound_reaches: "reaches c s \<Longrightarrow> sound s"
  by (induction rule: reaches.induct) (auto simp: sound_fresh executes_def split: if_splits dest: sound_runs)

section \<open>Does the handler return?\<close>

definition stuck :: "supervisor \<Rightarrow> bool" where
  \<comment> \<open>the handler waits for a lock that the thread it interrupted holds\<close>
  "stuck s \<longleftrightarrow> sv_handler s = Stopping \<and> sv_lock s = Some Runner"

lemma stuck_stays: "stuck s \<Longrightarrow> executes MainThread i s = Some s' \<Longrightarrow> stuck s'"
  by (cases i) (auto simp: stuck_def executes_def runner_may_def handler_busy_def split: if_splits)

lemma stuck_for_ever: "stuck s \<Longrightarrow> execute_all MainThread is s = Some s' \<Longrightarrow> stuck s'"
  by (induction "is" arbitrary: s) (auto split: option.splits dest: stuck_stays)

lemma handler_finishes:
  assumes "sound s" and "handler_busy s" and "\<not> (c = MainThread \<and> stuck s)"
  shows "\<exists>is s'. execute_all c is s = Some s' \<and> sv_handler s' = Handled \<and> length is \<le> 5"
proof -
  note run = executes_def runner_may_def
  consider (terminating) S where "sv_handler s = Terminating S" | (listing) "sv_handler s = Listing"
    | (free) "sv_handler s = Stopping" "sv_lock s = None"
    | (held) "c = PoolThread" "sv_handler s = Stopping" "sv_lock s = Some Runner"
    using assms by (cases "sv_lock s"; cases c) (auto simp: handler_busy_def sound_def stuck_def dest: holder.exhaust [of "the (sv_lock s)"] intro: holder.exhaust)
  then show ?thesis
  proof cases
    case terminating
    then have "\<exists>s'. execute_all c [HTerminate] s = Some s' \<and> sv_handler s' = Handled" by (simp add: run)
    then show ?thesis by (intro exI [of _ "[HTerminate]"]) simp
  next
    case listing
    then have "\<exists>s'. execute_all c [HList, HTerminate] s = Some s' \<and> sv_handler s' = Handled" by (simp add: run)
    then show ?thesis by (intro exI [of _ "[HList, HTerminate]"]) simp
  next
    case free
    then have "\<exists>s'. execute_all c [HLock, HList, HTerminate] s = Some s' \<and> sv_handler s' = Handled" by (simp add: run)
    then show ?thesis by (intro exI [of _ "[HLock, HList, HTerminate]"]) simp
  next
    case held
    then obtain p where "sv_run s = Adding p \<or> sv_run s = Added p \<or> sv_run s = Removing p"
      using assms(1) by (cases "sv_run s") (auto simp: sound_def)
    then consider "sv_run s = Adding p" | "sv_run s = Added p" | "sv_run s = Removing p" by blast
    then show ?thesis
    proof cases
      case 1
      with held have "\<exists>s'. execute_all c [RAdd, RUnlock, HLock, HList, HTerminate] s = Some s' \<and> sv_handler s' = Handled"
        by (simp add: run)
      then show ?thesis by (intro exI [of _ "[RAdd, RUnlock, HLock, HList, HTerminate]"]) simp
    next
      case 2
      with held have "\<exists>s'. execute_all c [RUnlock, HLock, HList, HTerminate] s = Some s' \<and> sv_handler s' = Handled"
        by (simp add: run)
      then show ?thesis by (intro exI [of _ "[RUnlock, HLock, HList, HTerminate]"]) simp
    next
      case 3
      with held have "\<exists>s'. execute_all c [RDiscard, HLock, HList, HTerminate] s = Some s' \<and> sv_handler s' = Handled"
        by (simp add: run)
      then show ?thesis by (intro exI [of _ "[RDiscard, HLock, HList, HTerminate]"]) simp
    qed
  qed
qed

text \<open>C15. A stop's handler that has been called can always finish when the
  process was started from a pool thread. When it was started from the main thread, the handler never
  finishes exactly if the signal came inside one of the blocks under the lock: it then waits for a
  lock held by the thread it has interrupted.\<close>

theorem stop_handler_finishes:
  assumes "reaches c s" and "handler_busy s"
  shows "(\<exists>is s'. execute_all c is s = Some s' \<and> sv_handler s' = Handled) \<longleftrightarrow> \<not> (c = MainThread \<and> stuck s)"
proof -
  have "False" if "c = MainThread" "stuck s" "execute_all c is s = Some s'" "sv_handler s' = Handled" for "is" s'
    using stuck_for_ever [OF that(2)] that by (auto simp: stuck_def)
  then show ?thesis
    using handler_finishes [OF sound_reaches [OF assms(1)] assms(2)] by blast
qed

definition caught_registering :: "instruction list" where
  "caught_registering = [RCheck, RPopen, RLock, HSignal]"

lemma caught_registering_stuck:
  "\<exists>s. execute_all MainThread caught_registering fresh_supervisor = Some s \<and> handler_busy s \<and> stuck s"
  by (simp add: caught_registering_def fresh_supervisor_def executes_def runner_may_def handler_busy_def stuck_def)

theorem stop_handler_finishes_witness:
  "\<exists>s. reaches MainThread s \<and> handler_busy s
     \<and> (\<nexists>is s'. execute_all MainThread is s = Some s' \<and> sv_handler s' = Handled)"
proof -
  obtain s where s: "execute_all MainThread caught_registering fresh_supervisor = Some s" "handler_busy s" "stuck s"
    using caught_registering_stuck by blast
  from reaches_all [OF reaches.start s(1)] have r: "reaches MainThread s" .
  from stop_handler_finishes [OF r s(2)] s(3) have "\<nexists>is s'. execute_all MainThread is s = Some s' \<and> sv_handler s' = Handled"
    by simp
  with r s(2) show ?thesis by blast
qed

section \<open>Does a stop reach the process?\<close>

definition out_of_sight :: "supervisor \<Rightarrow> bool" where
  \<comment> \<open>\<open>run\<close> has passed its check of the flag and not registered its process yet\<close>
  "out_of_sight s \<longleftrightarrow> sv_run s = Starting \<or> (\<exists>p. sv_run s \<in> {Started p, Adding p})"

definition reached :: "supervisor \<Rightarrow> bool" where
  "reached s \<longleftrightarrow> sv_stop s \<and> sv_run s \<noteq> Starting
     \<and> (case sv_handler s of
          Terminating S \<Rightarrow> sv_alive s \<subseteq> S | Handled \<Rightarrow> sv_alive s \<subseteq> sv_told s | _ \<Rightarrow> False)"

lemma reached_runs: "reached s \<Longrightarrow> runs i s = Some s' \<Longrightarrow> reached s' \<and> sv_next s' = sv_next s"
  by (cases i) (auto simp: reached_def split: run_at.splits handler_at.splits if_splits)

lemma reached_for_ever: "reached s \<Longrightarrow> execute_all c is s = Some s' \<Longrightarrow> reached s' \<and> sv_next s' = sv_next s"
proof (induction "is" arbitrary: s)
  case (Cons i "is")
  then obtain s1 where "executes c i s = Some s1" "execute_all c is s1 = Some s'" by (auto split: option.splits)
  moreover from this(1) Cons.prems(1) have "reached s1 \<and> sv_next s1 = sv_next s"
    by (auto simp: executes_def split: if_splits dest: reached_runs)
  ultimately show ?case using Cons.IH [of s1] by simp
qed simp

text \<open>Once a stop's handler has listed the running processes no process is started any more and,
  when it has finished, every process still alive has been told to end, unless the runner was, at the
  moment of the listing, between its check of the flag and the registration of its process.\<close>

theorem stop_reaches_processes:
  assumes "reaches c s" and "executes c HList s = Some s1" and "\<not> out_of_sight s"
    and "execute_all c is s1 = Some s2"
  shows "sv_next s2 = sv_next s \<and> (sv_handler s2 = Handled \<longrightarrow> sv_alive s2 \<subseteq> sv_told s2)"
proof -
  have snd: "sound s" using assms(1) by (rule sound_reaches)
  from assms(2) have s1: "sv_handler s = Listing" "s1 = s\<lparr>sv_handler := Terminating (sv_running s), sv_lock := None\<rparr>"
    by (auto simp: executes_def split: if_splits)
  have "sv_alive s \<subseteq> sv_running s"
    using snd assms(3) by (cases "sv_run s") (auto simp: sound_def out_of_sight_def)
  with s1 snd assms(3) have "reached s1" by (simp add: reached_def sound_def out_of_sight_def)
  from reached_for_ever [OF this assms(4)] s1(2) show ?thesis by (auto simp: reached_def)
qed

theorem stop_reaches_processes_witness:
  "\<exists>s1 s2. execute_all PoolThread [RCheck, RPopen, RLock, RAdd, RUnlock, HSignal, HLock, HList] fresh_supervisor = Some s1
     \<and> execute_all PoolThread [HTerminate] s1 = Some s2 \<and> sv_alive s2 = {0} \<and> sv_alive s2 \<subseteq> sv_told s2"
proof -
  obtain s where s: "execute_all PoolThread [RCheck, RPopen, RLock, RAdd, RUnlock, HSignal, HLock] fresh_supervisor = Some s"
      "sv_run s = Waiting 0" "sv_handler s = Listing" "sv_alive s = {0}"
    by (simp add: fresh_supervisor_def executes_def runner_may_def handler_busy_def)
  have r: "reaches PoolThread s" by (rule reaches_all [OF reaches.start s(1)])
  obtain s1 where s1: "executes PoolThread HList s = Some s1" using s(3) by (simp add: executes_def)
  obtain s2 where s2: "execute_all PoolThread [HTerminate] s1 = Some s2" "sv_handler s2 = Handled" "sv_alive s2 = {0}"
    using s s1 by (auto simp: executes_def)
  have "\<not> out_of_sight s" using s(2) by (simp add: out_of_sight_def)
  from stop_reaches_processes [OF r s1 this s2(1)] s2 have "sv_alive s2 \<subseteq> sv_told s2" by simp
  moreover have "execute_all PoolThread [RCheck, RPopen, RLock, RAdd, RUnlock, HSignal, HLock, HList] fresh_supervisor = Some s1"
    using s(1) s1 by (auto split: option.splits)
  ultimately show ?thesis using s2 by blast
qed

text \<open>The exception happens: a process started just before the flag is set outlives the stop.\<close>

lemma missed_process:
  "\<exists>s. execute_all c [RCheck, RPopen, HSignal, HLock, HList, HTerminate, RLock, RAdd, RUnlock] fresh_supervisor = Some s
     \<and> sv_handler s = Handled \<and> sv_alive s = {0} \<and> sv_told s = {}"
  by (simp add: fresh_supervisor_def executes_def runner_may_def handler_busy_def)

end
