(* ===== verification/Queueing.thy ===== *)
theory Queueing
  imports Effects
begin

text \<open>
  \<open>app/queue.py\<close>, \<open>app/services/worker_wake.py\<close> and \<open>app/services/popularity.py\<close>: what is put on
  the queues, when sleeping workers are woken, and when a watched video earns its AV1 rendition. RQ,
  the auto-scaling group and Redis are what these answer.
\<close>

section \<open>Queues\<close>

definition PROCESS_JOB_TASK :: string where "PROCESS_JOB_TASK = ''app.worker.tasks.process_job''"
definition BUILD_LADDER_TASK :: string where "BUILD_LADDER_TASK = ''app.worker.tasks.build_ladder''"
definition HELP_ENCODE_TASK :: string where "HELP_ENCODE_TASK = ''app.worker.tasks.help_encode''"
definition HELP_LADDER_TASK :: string where "HELP_LADDER_TASK = ''app.worker.tasks.help_ladder''"
definition BUILD_RENDITION_TASK :: string where "BUILD_RENDITION_TASK = ''app.worker.tasks.build_rendition''"
definition LADDER_QUEUE_SUFFIX :: string where "LADDER_QUEUE_SUFFIX = ''-ladder''"
definition CHUNK_QUEUE_SUFFIX :: string where "CHUNK_QUEUE_SUFFIX = ''-chunks''"

record queue_name =
  queue_named :: string
  queue_timeout :: int

definition get_queue :: "string \<Rightarrow> int \<Rightarrow> queue_name" where
  "get_queue redis_queue job_timeout = \<lparr>queue_named = redis_queue, queue_timeout = job_timeout\<rparr>"

definition get_ladder_queue :: "string \<Rightarrow> int \<Rightarrow> queue_name" where
  "get_ladder_queue redis_queue ladder_timeout =
     \<lparr>queue_named = redis_queue @ LADDER_QUEUE_SUFFIX, queue_timeout = ladder_timeout\<rparr>"

definition get_chunk_queue :: "string \<Rightarrow> int \<Rightarrow> queue_name" where
  "get_chunk_queue redis_queue job_timeout =
     \<lparr>queue_named = redis_queue @ CHUNK_QUEUE_SUFFIX, queue_timeout = job_timeout\<rparr>"

definition ladder_rq_job_id :: "uuid \<Rightarrow> string" where
  "ladder_rq_job_id k = uuid_text k @ LADDER_QUEUE_SUFFIX"

definition rendition_rq_job_id :: "uuid \<Rightarrow> string \<Rightarrow> string" where
  "rendition_rq_job_id k kind = uuid_text k @ ''-'' @ kind"

definition enqueue_job :: "uuid \<Rightarrow> unit io" where
  "enqueue_job k = bind_io (enqueue PROCESS_JOB_TASK k) (\<lambda>_. wake_workers 1)"

definition enqueue_ladder :: "uuid \<Rightarrow> unit io" where
  "enqueue_ladder k = enqueue BUILD_LADDER_TASK k"

definition enqueue_rendition :: "uuid \<Rightarrow> string \<Rightarrow> unit io" where
  "enqueue_rendition k kind = enqueue (BUILD_RENDITION_TASK @ '':'' @ kind) k"

lemma rq_ids_distinct:
  "ladder_rq_job_id k \<noteq> uuid_text j" "rendition_rq_job_id k kind \<noteq> uuid_text j"
  by (auto simp: ladder_rq_job_id_def rendition_rq_job_id_def LADDER_QUEUE_SUFFIX_def
      dest!: arg_cong [where f = length])

section \<open>Waking workers\<close>

definition WAKE_KEY :: string where "WAKE_KEY = ''flickpond:worker-wake''"
definition WAKE_EVERY_SECONDS :: nat where "WAKE_EVERY_SECONDS = 60"

text \<open>What Redis and the auto-scaling group answer: whether the throttle key could be set, the groups
  found, each with its desired and maximal size as far as the answer has them, and whether setting
  the desired size fails.\<close>

record wake_answers =
  wa_set :: "string \<Rightarrow> exn + bool"
  wa_groups :: "exn + (int option \<times> int option) list"
  wa_request :: "exn + unit"

definition wake_key :: "int \<Rightarrow> string" where
  "wake_key at_least = (if at_least = 1 then WAKE_KEY else WAKE_KEY @ '':'' @ dec_int at_least)"

fun wake_target :: "int \<Rightarrow> int option \<times> int option \<Rightarrow> int option" where
  \<comment> \<open>the size to ask of a group, if it has not got it already\<close>
  "wake_target at_least (desired, max_size) =
     (let target = min at_least (case max_size of Some m \<Rightarrow> m | None \<Rightarrow> at_least)
      in if target \<le> (case desired of Some x \<Rightarrow> x | None \<Rightarrow> 0) then None else Some target)"

definition wake_request :: "string \<Rightarrow> wake_answers \<Rightarrow> int \<Rightarrow> int option \<times> bool" where
  \<comment> \<open>\<open>wake_workers\<close>: the capacity it asks for, if it asks, and what it returns\<close>
  "wake_request grp a at_least =
     (if grp = [] then (None, False)
      else case wa_set a (wake_key at_least) of
             Inr True \<Rightarrow>
               (case wa_groups a of
                  Inr (g # _) \<Rightarrow>
                    (case wake_target at_least g of
                       None \<Rightarrow> (None, False)
                     | Some target \<Rightarrow> (Some target, \<not> isl (wa_request a)))
                | _ \<Rightarrow> (None, False))
           | _ \<Rightarrow> (None, False))"

lemma wake_target_bounds:
  "wake_target at_least (desired, max_size) = Some n \<Longrightarrow>
     n \<le> at_least \<and> (\<forall>m. max_size = Some m \<longrightarrow> n \<le> m) \<and> (\<forall>x. desired = Some x \<longrightarrow> x < n)"
  by (auto simp: Let_def split: if_splits option.splits)

lemma wake_request_bounds:
  assumes "wake_request grp a at_least = (Some n, b)"
  shows "\<exists>desired max_size gs. wa_groups a = Inr ((desired, max_size) # gs) \<and> grp \<noteq> [] \<and>
     n \<le> at_least \<and> (\<forall>m. max_size = Some m \<longrightarrow> n \<le> m) \<and> (\<forall>x. desired = Some x \<longrightarrow> x < n)"
proof -
  from assms obtain g gs where "wa_groups a = Inr (g # gs)" "wake_target at_least g = Some n" "grp \<noteq> []"
    unfolding wake_request_def
    by (simp del: wake_target.simps split: if_split_asm sum.split_asm bool.split_asm list.split_asm option.split_asm)
  moreover obtain x m where "g = (x, m)" by fastforce
  ultimately show ?thesis using wake_target_bounds [of at_least x m n] by blast
qed

section \<open>Popular videos\<close>

definition record_play :: "int \<Rightarrow> exn + int \<Rightarrow> (uuid \<Rightarrow> string \<Rightarrow> unit io) \<Rightarrow> uuid \<Rightarrow> bool io" where
  \<comment> \<open>\<open>incremented\<close> is what \<open>INCR\<close> answers\<close>
  "record_play threshold incremented enq k =
     (if threshold \<le> 0 then ret False
      else case incremented of
             Inl _ \<Rightarrow> ret False
           | Inr plays \<Rightarrow>
               if plays \<noteq> threshold then ret False
               else catch_io (bind_io (enq k ''av1'') (\<lambda>_. ret True)) (\<lambda>_. ret False))"

fun plays :: "int \<Rightarrow> (uuid \<Rightarrow> string \<Rightarrow> unit io) \<Rightarrow> uuid \<Rightarrow> nat \<Rightarrow> nat \<Rightarrow> unit io" where
  \<comment> \<open>\<open>n\<close> plays, after \<open>seen\<close> earlier ones, counted by a Redis that answers\<close>
  "plays threshold enq k seen 0 = ret ()"
| "plays threshold enq k seen (Suc n) =
     bind_io (record_play threshold (Inr (int (Suc seen))) enq k) (\<lambda>_. plays threshold enq k (Suc seen) n)"

text \<open>However often a video is played, its rendition is queued once, at the play that reaches the
  threshold, and never when the threshold is not positive.\<close>

lemma plays_queue_once:
  "snd (plays threshold enqueue_rendition k seen n e h)
     = h @ (if int seen < threshold \<and> threshold \<le> int (seen + n)
            then [Enqueue (BUILD_RENDITION_TASK @ '':av1'') k] else [])"
proof (induction n arbitrary: seen h)
  case (Suc n)
  have step: "record_play threshold (Inr (1 + int seen)) enqueue_rendition k e h
      = (Inr (1 + int seen = threshold \<and> \<not> isl (e_enqueue e h (BUILD_RENDITION_TASK @ '':av1'') k)),
         h @ (if 1 + int seen = threshold then [Enqueue (BUILD_RENDITION_TASK @ '':av1'') k] else []))"
    by (auto simp: record_play_def enqueue_rendition_def enqueue_def do_call_def catch_io_def bind_io_def
        split: sum.split)
  show ?case
    by (simp add: bind_io_def step Suc.IH)
qed simp

end
