(* ===== verification/Cleanup.thy ===== *)
theory Cleanup
  imports Job_Store Effects
begin

text \<open>
  \<open>app/services/job_cleanup.py\<close>, on the listing and deleting of \<open>app/services/storage.py\<close>: the
  objects of a deleted job. The deletes run together and each is attempted before a failure is
  raised; here they run in the order they are started.
\<close>

definition list_objects :: "string \<Rightarrow> string list io" where
  "list_objects prefix = do_call (ListObjects prefix) (\<lambda>e h. e_list e h prefix)"

definition delete_object :: "string \<Rightarrow> unit io" where
  "delete_object key = do_call (RemoveObject key) (\<lambda>e h. e_remove e h key)"

definition uniq :: "'a list \<Rightarrow> 'a list" where
  \<comment> \<open>\<open>list(dict.fromkeys(xs))\<close>: the first of each\<close>
  "uniq xs = rev (remdups (rev xs))"

definition truthy :: "string option \<Rightarrow> string list" where
  "truthy x = (case x of Some (c # cs) \<Rightarrow> [c # cs] | _ \<Rightarrow> [])"

definition folder_of :: "string \<Rightarrow> string" where
  \<comment> \<open>\<open>key.rsplit("/", 1)[0] + "/"\<close>\<close>
  "folder_of key = before_last CHR ''/'' key @ ''/''"

definition job_keys :: "job \<Rightarrow> string list" where
  "job_keys j = (if job_operations j = None then [job_source_key j] else [])
     @ truthy (job_output_key j) @ truthy (job_thumbnail_key j)"

definition job_prefixes :: "job \<Rightarrow> string list" where
  "job_prefixes j = map folder_of (truthy (job_hls_key j) @ truthy (job_preview_key j))"

fun list_under :: "bool \<Rightarrow> string list \<Rightarrow> string list io" where
  "list_under best_effort [] = ret []"
| "list_under best_effort (p # ps) =
     bind_io (if best_effort then catch_io (list_objects p) (\<lambda>_. ret []) else list_objects p) (\<lambda>names.
     bind_io (list_under best_effort ps) (\<lambda>rest. ret (names @ rest)))"

definition delete_all :: "string list \<Rightarrow> (exn + unit) list io" where
  \<comment> \<open>\<open>gather(..., return_exceptions=True)\<close>\<close>
  "delete_all keys = map_io keys (\<lambda>k e h. case delete_object k e h of (r, h') \<Rightarrow> (Inr r, h'))"

fun first_error :: "(exn + unit) list \<Rightarrow> exn + unit" where
  "first_error [] = Inr ()"
| "first_error (Inl x # rs) = Inl x"
| "first_error (Inr u # rs) = first_error rs"

definition delete_job_storage :: "bool \<Rightarrow> job \<Rightarrow> unit io" where
  "delete_job_storage best_effort j =
     bind_io (list_under best_effort (job_prefixes j)) (\<lambda>listed.
     bind_io (delete_all (uniq (job_keys j @ listed))) (\<lambda>results.
       if best_effort then ret () else lift (first_error results)))"

section \<open>What is removed\<close>

lemma set_uniq [simp]: "set (uniq xs) = set xs"
  by (simp add: uniq_def)

lemma distinct_uniq [simp]: "distinct (uniq xs)"
  by (simp add: uniq_def)

lemma delete_all_calls: "\<exists>rs. delete_all keys e h = (Inr rs, h @ map RemoveObject keys)"
proof (induction keys arbitrary: h)
  case (Cons k ks)
  obtain rs where "delete_all ks e (h @ [RemoveObject k]) = (Inr rs, (h @ [RemoveObject k]) @ map RemoveObject ks)"
    using Cons by blast
  then have "delete_all (k # ks) e h = (Inr (e_remove e h k # rs), h @ map RemoveObject (k # ks))"
    by (simp add: delete_all_def bind_io_def delete_object_def do_call_def)
  then show ?case by blast
qed (simp add: delete_all_def)

lemma list_under_quietly: "fst (list_under True ps e h) = Inr ns \<Longrightarrow>
    \<exists>cs. snd (list_under True ps e h) = h @ cs \<and> set cs \<subseteq> ListObjects ` set ps"
proof (induction ps arbitrary: h ns)
  case (Cons p ps)
  obtain r h1 where l: "catch_io (list_objects p) (\<lambda>_. ret []) e h = (Inr r, h1)" "h1 = h @ [ListObjects p]"
    by (cases "e_list e h p") (auto simp: catch_io_def list_objects_def do_call_def)
  then obtain ns' where "fst (list_under True ps e h1) = Inr ns'"
    using Cons.prems by (auto simp: bind_io_def split: prod.splits sum.splits)
  from Cons.IH [OF this] obtain cs where "snd (list_under True ps e h1) = h1 @ cs" "set cs \<subseteq> ListObjects ` set ps"
    by blast
  with l \<open>fst (list_under True ps e h1) = Inr ns'\<close> show ?case
    by (intro exI [of _ "ListObjects p # cs"]) (auto simp: bind_io_def split: prod.splits sum.splits)
qed simp

lemma list_under_total: "\<exists>ns. fst (list_under True ps e h) = Inr ns"
proof (induction ps arbitrary: h)
  case (Cons p ps)
  obtain r h1 where "catch_io (list_objects p) (\<lambda>_. ret []) e h = (Inr r, h1)"
    by (cases "e_list e h p") (auto simp: catch_io_def list_objects_def do_call_def)
  moreover obtain ns where "fst (list_under True ps e h1) = Inr ns" using Cons by blast
  ultimately show ?case by (auto simp: bind_io_def split: prod.splits sum.splits)
qed simp

text \<open>A best-effort cleanup never raises, and attempts every object of the job exactly once: its own
  source unless it is an edit, its output, its poster frame, and everything listed under the folders
  of its ladder and its preview.\<close>

lemma best_effort_cleanup:
  "\<exists>listed cs. delete_job_storage True j e h
     = (Inr (), h @ cs @ map RemoveObject (uniq (job_keys j @ listed)))
   \<and> set cs \<subseteq> ListObjects ` set (job_prefixes j)"
proof -
  obtain ns where ns: "fst (list_under True (job_prefixes j) e h) = Inr ns" using list_under_total by blast
  from list_under_quietly [OF ns] obtain cs where
    cs: "snd (list_under True (job_prefixes j) e h) = h @ cs" "set cs \<subseteq> ListObjects ` set (job_prefixes j)" by blast
  from ns cs(1) have l: "list_under True (job_prefixes j) e h = (Inr ns, h @ cs)" by (metis prod.collapse)
  let ?keys = "uniq (job_keys j @ ns)"
  obtain rs where "delete_all ?keys e (h @ cs) = (Inr rs, (h @ cs) @ map RemoveObject ?keys)"
    using delete_all_calls [of ?keys e "h @ cs"] by blast
  then have "delete_job_storage True j e h = (Inr (), h @ cs @ map RemoveObject ?keys)"
    by (simp add: delete_job_storage_def bind_io_def l)
  with cs(2) show ?thesis by blast
qed

end
