(* ===== verification/Reaper.thy ===== *)
theory Reaper
  imports Tasks Queueing Cleanup
begin

text \<open>
  \<open>app/worker/reaper.py\<close>: the pass that finds jobs whose worker died, queue entries that were lost,
  ladders nobody will settle and objects nobody refers to, and the emptying of the trash. What RQ
  answers at each moment is a \<open>queue_view\<close>.
\<close>

section \<open>What RQ answers\<close>

datatype rq_status = RqQueued | RqStarted | RqDeferred | RqScheduled | RqFinished | RqFailed | RqStopped | RqCanceled

definition LADDER_STILL_COMING :: "rq_status list" where
  "LADDER_STILL_COMING = [RqQueued, RqStarted, RqDeferred, RqScheduled]"

record queue_view =
  qv_live_jobs :: "event list \<Rightarrow> string list"
    \<comment> \<open>members of the started registry whose heartbeat has not run out\<close>
  qv_live_ladders :: "event list \<Rightarrow> string list"
  qv_ladder_status :: "event list \<Rightarrow> string \<Rightarrow> rq_status option"
  qv_exists :: "event list \<Rightarrow> string \<Rightarrow> bool"
  qv_modified :: "event list \<Rightarrow> string \<Rightarrow> instant option"
    \<comment> \<open>when storage says an object was last modified\<close>

definition heartbeat_alive :: "string \<Rightarrow> string list \<Rightarrow> bool" where
  "heartbeat_alive rq_job_id live = list_ex (\<lambda>m. starts_with m (rq_job_id @ '':'')) live"

record reaper_settings =
  rs_lease_seconds :: int
  rs_abandoned_seconds :: int
  rs_orphan_grace_seconds :: int
  rs_trash_days :: int

definition seconds :: "int \<Rightarrow> instant" where
  "seconds n = n * 1000000"

section \<open>The pass\<close>

definition reap_job :: "queue_view \<Rightarrow> instant \<Rightarrow> job \<Rightarrow> bool task" where
  "reap_job qv lease j =
     (let mark = bind_t (session (\<lambda>now. mark_stale_failed now (job_id j))) (\<lambda>r. ret_t (r \<noteq> None)) in
      if job_updated_at j < lease then mark
      else bind_t (asking (\<lambda>t. heartbeat_alive (uuid_text (job_id j)) (qv_live_jobs qv t)))
             (\<lambda>alive. if alive then ret_t False else mark))"

definition requeue_job :: "queue_view \<Rightarrow> job \<Rightarrow> bool task" where
  "requeue_job qv j =
     bind_t (asking (\<lambda>t. qv_exists qv t (uuid_text (job_id j)))) (\<lambda>there.
       if there then ret_t False
       else bind_t (in_thread (enqueue_job (job_id j))) (\<lambda>_. ret_t True))"

datatype ladder_fate = LadderKept | LadderRequeued | LadderSettled

definition settle_stale_ladder :: "queue_view \<Rightarrow> job \<Rightarrow> ladder_fate task" where
  \<comment> \<open>one iteration of \<open>_settle_stale_ladders\<close>\<close>
  "settle_stale_ladder qv j =
     (let rq_id = ladder_rq_job_id (job_id j);
          give_up = bind_t (session (\<lambda>now. mark_ladder_unavailable now (job_id j)))
                      (\<lambda>r. ret_t (if r \<noteq> None then LadderSettled else LadderKept)) in
      bind_t (asking (\<lambda>t. qv_ladder_status qv t rq_id)) (\<lambda>status.
      bind_t (if status = Some RqStarted
              then asking (\<lambda>t. \<not> heartbeat_alive rq_id (qv_live_ladders qv t)) else ret_t False) (\<lambda>died.
        if died then give_up
        else (case status of
            None \<Rightarrow> bind_t (in_thread (enqueue_ladder (job_id j))) (\<lambda>_. ret_t LadderRequeued)
          | Some st \<Rightarrow> if st \<in> set LADDER_STILL_COMING then ret_t LadderKept else give_up))))"

fun settle_stale_ladders :: "queue_view \<Rightarrow> job list \<Rightarrow> (nat \<times> nat) task" where
  "settle_stale_ladders qv [] = ret_t (0, 0)"
| "settle_stale_ladders qv (j # js) =
     bind_t (settle_stale_ladder qv j) (\<lambda>fate.
     bind_t (settle_stale_ladders qv js) (\<lambda>(requeued, settled).
       ret_t (if fate = LadderRequeued then Suc requeued else requeued,
              if fate = LadderSettled then Suc settled else settled)))"

definition sweep_object :: "queue_view \<Rightarrow> string set \<Rightarrow> instant \<Rightarrow> string \<times> instant option \<Rightarrow> bool task" where
  "sweep_object qv source_keys grace object =
     (case object of (key, modified) \<Rightarrow>
        if key \<notin> source_keys \<and> (case modified of Some m \<Rightarrow> m < grace | None \<Rightarrow> False)
        then bind_t (in_thread (delete_object key)) (\<lambda>_. ret_t True)
        else ret_t False)"

definition sweep_orphans :: "queue_view \<Rightarrow> string set \<Rightarrow> instant \<Rightarrow> nat task" where
  "sweep_orphans qv source_keys grace =
     bind_t (in_thread (list_objects ''uploads/'')) (\<lambda>names.
     bind_t (asking (\<lambda>t. map (\<lambda>k. (k, qv_modified qv t k)) names)) (\<lambda>objects.
       counting objects (sweep_object qv source_keys grace)))"

text \<open>The four loops of \<open>run_once\<close>, each over what it has just read.\<close>

definition abandoned_before :: "reaper_settings \<Rightarrow> instant \<Rightarrow> instant" where
  "abandoned_before rs now = now - seconds (rs_abandoned_seconds rs)"

definition lease_before :: "reaper_settings \<Rightarrow> instant \<Rightarrow> instant" where
  "lease_before rs now = now - seconds (rs_lease_seconds rs)"

definition grace_before :: "reaper_settings \<Rightarrow> instant \<Rightarrow> instant" where
  "grace_before rs now = now - seconds (rs_orphan_grace_seconds rs)"

definition reap_dead :: "reaper_settings \<Rightarrow> queue_view \<Rightarrow> instant \<Rightarrow> nat task" where
  "reap_dead rs qv now =
     bind_t (reading (\<lambda>d. list_stale d Processing (abandoned_before rs now)))
       (\<lambda>stale. counting stale (reap_job qv (lease_before rs now)))"

definition requeue_lost :: "reaper_settings \<Rightarrow> queue_view \<Rightarrow> instant \<Rightarrow> nat task" where
  "requeue_lost rs qv now =
     bind_t (reading (\<lambda>d. list_stale d Queued (grace_before rs now))) (\<lambda>queued. counting queued (requeue_job qv))"

definition settle_ladders :: "reaper_settings \<Rightarrow> queue_view \<Rightarrow> instant \<Rightarrow> (nat \<times> nat) task" where
  "settle_ladders rs qv now =
     bind_t (reading (\<lambda>d. list_stale_ladders d (abandoned_before rs now))) (settle_stale_ladders qv)"

definition sweep :: "reaper_settings \<Rightarrow> queue_view \<Rightarrow> instant \<Rightarrow> nat task" where
  "sweep rs qv now =
     bind_t (reading list_source_keys) (\<lambda>source_keys. sweep_orphans qv source_keys (grace_before rs now))"

definition run_once :: "reaper_settings \<Rightarrow> queue_view \<Rightarrow> (nat \<times> nat \<times> nat) task" where
  "run_once rs qv =
     bind_t clock (\<lambda>now.
       bind_t (reap_dead rs qv now) (\<lambda>reaped.
       bind_t (requeue_lost rs qv now) (\<lambda>requeued.
       bind_t (settle_ladders rs qv now) (\<lambda>ladders.
       bind_t (sweep rs qv now) (\<lambda>deleted.
         ret_t (reaped + snd ladders, requeued + fst ladders, deleted))))))"

section \<open>The trash\<close>

definition empty_job :: "job \<Rightarrow> bool task" where
  "empty_job j =
     bind_t (session (\<lambda>now d. Inr (delete_job (job_id j) None d))) (\<lambda>gone.
       case gone of
         None \<Rightarrow> ret_t False
       | Some g \<Rightarrow> bind_t (in_thread (delete_job_storage True g)) (\<lambda>_. ret_t True))"

definition empty_trash :: "reaper_settings \<Rightarrow> instant option \<Rightarrow> nat task" where
  "empty_trash rs given_now =
     bind_t (case given_now of Some now \<Rightarrow> ret_t now | None \<Rightarrow> clock) (\<lambda>now.
     bind_t (reading (\<lambda>d. list_expired_trash d (now - seconds (86400 * max 0 (rs_trash_days rs))))) (\<lambda>expired.
       counting expired empty_job))"

section \<open>What a pass leaves alone\<close>

definition keeps_row :: "world \<Rightarrow> job \<Rightarrow> 'a task \<Rightarrow> bool" where
  "keeps_row W j m \<longleftrightarrow>
     (\<forall>t d r t' d'. jobs_inv (db_jobs d) \<longrightarrow> find_row job_id (job_id j) (db_jobs d) = Some j \<longrightarrow>
        m W t d = (r, t', d') \<longrightarrow>
        jobs_inv (db_jobs d') \<and> find_row job_id (job_id j) (db_jobs d') = Some j)"

named_theorems keeps \<open>tasks that leave a row alone\<close>

lemma keeps_rowD:
  "keeps_row W j m \<Longrightarrow> jobs_inv (db_jobs d) \<Longrightarrow> find_row job_id (job_id j) (db_jobs d) = Some j \<Longrightarrow>
     m W t d = (r, t', d') \<Longrightarrow> jobs_inv (db_jobs d') \<and> find_row job_id (job_id j) (db_jobs d') = Some j"
  unfolding keeps_row_def by blast

lemma keeps_ret [keeps]: "keeps_row W j (ret_t x)"
  by (simp add: keeps_row_def)

lemma keeps_asking [keeps]: "keeps_row W j (asking q)" "keeps_row W j clock"
  by (simp_all add: keeps_row_def asking_def clock_def)

lemma keeps_in_thread [keeps]: "keeps_row W j (in_thread m)"
  by (auto simp: keeps_row_def in_thread_def split: prod.splits)

lemma keeps_bind [keeps]:
  assumes "keeps_row W j m" and "\<And>x. keeps_row W j (k x)"
  shows "keeps_row W j (bind_t m k)"
  unfolding keeps_row_def
proof (intro allI impI)
  fix t d r t' d'
  assume start: "jobs_inv (db_jobs d)" "find_row job_id (job_id j) (db_jobs d) = Some j"
    and run: "bind_t m k W t d = (r, t', d')"
  obtain r1 t1 d1 where m: "m W t d = (r1, t1, d1)" by (metis prod_cases3)
  note mid = keeps_rowD [OF assms(1) start m]
  show "jobs_inv (db_jobs d') \<and> find_row job_id (job_id j) (db_jobs d') = Some j"
  proof (cases r1)
    case (Inl x)
    with run m have "d' = d1" by (simp add: bind_t_def)
    with mid show ?thesis by (simp only:)
  next
    case (Inr a)
    with run m have "k a W t1 d1 = (r, t', d')" by (simp add: bind_t_def)
    with keeps_rowD [OF assms(2)] mid show ?thesis by blast
  qed
qed

lemma keeps_reading:
  assumes "undisturbed W"
    and "\<And>d. jobs_inv (db_jobs d) \<Longrightarrow> find_row job_id (job_id j) (db_jobs d) = Some j \<Longrightarrow> keeps_row W j (g (f d))"
  shows "keeps_row W j (bind_t (reading f) g)"
  unfolding keeps_row_def
proof (intro allI impI)
  fix t d r t' d'
  assume start: "jobs_inv (db_jobs d)" "find_row job_id (job_id j) (db_jobs d) = Some j"
    and run: "bind_t (reading f) g W t d = (r, t', d')"
  from assms(1) run have "g (f d) W t d = (r, t', d')" by (simp add: bind_t_def undisturbed_def)
  with keeps_rowD [OF assms(2) [OF start] start]
  show "jobs_inv (db_jobs d') \<and> find_row job_id (job_id j) (db_jobs d') = Some j" by blast
qed

lemma keeps_counting: "(\<And>x. x \<in> set xs \<Longrightarrow> keeps_row W j (f x)) \<Longrightarrow> keeps_row W j (counting xs f)"
  by (induction xs) (auto intro!: keeps)

lemma keeps_update:
  assumes "undisturbed W" and "\<And>now. job_update grd (change now)" and "k \<noteq> job_id j"
  shows "keeps_row W j (session (\<lambda>now. update_job grd (change now) k))"
  unfolding keeps_row_def session_def
proof (intro allI impI)
  fix t d r t' d'
  assume inv: "jobs_inv (db_jobs d)" and row: "find_row job_id (job_id j) (db_jobs d) = Some j"
    and run: "(\<lambda>W t d. case update_job grd (change (w_now W t)) k (w_others W t d) of
        Inl x \<Rightarrow> (Inl x, t, w_others W t d) | Inr (d', a) \<Rightarrow> (Inr a, t @ [Commit d'], d')) W t d = (r, t', d')"
  have others: "w_others W t d = d" using assms(1) by (simp add: undisturbed_def)
  show "jobs_inv (db_jobs d') \<and> find_row job_id (job_id j) (db_jobs d') = Some j"
  proof (cases "update_job grd (change (w_now W t)) k d")
    case (Inl x)
    with run others inv row show ?thesis by auto
  next
    case (Inr p)
    obtain d1 res where p: "p = (d1, res)" by fastforce
    with Inr have u: "update_job grd (change (w_now W t)) k d = Inr (d1, res)" by simp
    from run others u have "d' = d1" by auto
    with job_update.job_update_inv [OF assms(2) inv u] job_update.job_update_find [OF assms(2) inv u, of "job_id j"] row assms(3)
    show ?thesis by simp
  qed
qed

lemma keeps_marks:
  assumes "undisturbed W" and "k \<noteq> job_id j"
  shows "keeps_row W j (session (\<lambda>now. mark_stale_failed now k))"
    and "keeps_row W j (session (\<lambda>now. mark_ladder_unavailable now k))"
  unfolding mark_stale_failed_def mark_ladder_unavailable_def settle_ladder_def
  by (rule keeps_update [OF assms(1) stale.job_update_axioms assms(2)],
      rule keeps_update [OF assms(1) ladder.job_update_axioms assms(2)])

definition spared :: "reaper_settings \<Rightarrow> queue_view \<Rightarrow> instant \<Rightarrow> job \<Rightarrow> bool" where
  \<comment> \<open>recent enough, or kept alive, or still to come\<close>
  "spared rs qv now j \<longleftrightarrow>
     (job_status j = Processing \<longrightarrow>
        abandoned_before rs now \<le> job_updated_at j
        \<or> lease_before rs now \<le> job_updated_at j
          \<and> (\<forall>t. heartbeat_alive (uuid_text (job_id j)) (qv_live_jobs qv t)))
     \<and> (waits_for_ladder j \<longrightarrow>
        abandoned_before rs now \<le> job_updated_at j
        \<or> (\<forall>t. (case qv_ladder_status qv t (ladder_rq_job_id (job_id j)) of
              None \<Rightarrow> True | Some st \<Rightarrow> st \<in> set LADDER_STILL_COMING)
            \<and> heartbeat_alive (ladder_rq_job_id (job_id j)) (qv_live_ladders qv t)))"

lemma the_row:
  assumes "jobs_inv (db_jobs d)" and "find_row job_id (job_id j) (db_jobs d) = Some j"
    and "x \<in> set (db_jobs d)" and "job_id x = job_id j"
  shows "x = j"
proof -
  have "find_row job_id (job_id x) (db_jobs d) = Some x"
    using assms(3) by (rule find_row_mem [OF jobs_inv_distinct [OF assms(1)]])
  with assms(2,4) show ?thesis by (metis option.inject)
qed

lemma keeps_asked:
  assumes "\<And>t. q t = v" and "keeps_row W j (k v)"
  shows "keeps_row W j (bind_t (asking q) k)"
proof -
  have "bind_t (asking q) k = k v" by (simp add: bind_t_def asking_def assms(1))
  with assms(2) show ?thesis by simp
qed

lemma keeps_reap_job:
  assumes "undisturbed W"
    and "job_id x \<noteq> job_id j \<or> \<not> job_updated_at x < lease
       \<and> (\<forall>t. heartbeat_alive (uuid_text (job_id x)) (qv_live_jobs qv t))"
  shows "keeps_row W j (reap_job qv lease x)"
  using assms(2)
proof
  assume "job_id x \<noteq> job_id j"
  then show ?thesis
    unfolding reap_job_def Let_def by (auto intro!: keeps keeps_marks [OF assms(1)])
next
  assume a: "\<not> job_updated_at x < lease \<and> (\<forall>t. heartbeat_alive (uuid_text (job_id x)) (qv_live_jobs qv t))"
  then show ?thesis
    unfolding reap_job_def Let_def by (simp, intro keeps_asked [where v = True]) (simp_all add: keeps)
qed

lemma keeps_requeue_job: "keeps_row W j (requeue_job qv x)"
  unfolding requeue_job_def by (auto intro!: keeps)

lemma keeps_settle:
  assumes "undisturbed W"
    and "job_id x \<noteq> job_id j
       \<or> (\<forall>t. (case qv_ladder_status qv t (ladder_rq_job_id (job_id x)) of
              None \<Rightarrow> True | Some st \<Rightarrow> st \<in> set LADDER_STILL_COMING)
            \<and> heartbeat_alive (ladder_rq_job_id (job_id x)) (qv_live_ladders qv t))"
  shows "keeps_row W j (settle_stale_ladder qv x)"
  using assms(2)
proof
  assume "job_id x \<noteq> job_id j"
  then show ?thesis
    unfolding settle_stale_ladder_def Let_def
    by (auto intro!: keeps keeps_marks [OF assms(1)] split: option.split)
next
  let ?rq = "ladder_rq_job_id (job_id x)"
  assume a: "\<forall>t. (case qv_ladder_status qv t ?rq of None \<Rightarrow> True | Some st \<Rightarrow> st \<in> set LADDER_STILL_COMING)
      \<and> heartbeat_alive ?rq (qv_live_ladders qv t)"
  show ?thesis
    unfolding keeps_row_def
  proof (intro allI impI)
    fix t d r t' d'
    assume start: "jobs_inv (db_jobs d)" "find_row job_id (job_id j) (db_jobs d) = Some j"
      and run: "settle_stale_ladder qv x W t d = (r, t', d')"
    have alive: "heartbeat_alive ?rq (qv_live_ladders qv t)" using a by blast
    have "\<exists>q. (q = ret_t LadderKept \<or> q = bind_t (in_thread (enqueue_ladder (job_id x))) (\<lambda>_. ret_t LadderRequeued))
        \<and> settle_stale_ladder qv x W t d = q W t d"
      using spec [OF a, of t] alive
      by (cases "qv_ladder_status qv t ?rq")
        (auto simp: settle_stale_ladder_def Let_def bind_t_def asking_def)
    then obtain q where q: "q = ret_t LadderKept \<or> q = bind_t (in_thread (enqueue_ladder (job_id x))) (\<lambda>_. ret_t LadderRequeued)"
      and same: "settle_stale_ladder qv x W t d = q W t d" by blast
    from q have "keeps_row W j q" by (auto intro!: keeps)
    moreover have "q W t d = (r, t', d')" using run same by (simp only:)
    ultimately show "jobs_inv (db_jobs d') \<and> find_row job_id (job_id j) (db_jobs d') = Some j"
      using keeps_rowD [OF _ start] by blast
  qed
qed

lemma keeps_settles:
  "(\<And>x. x \<in> set js \<Longrightarrow> keeps_row W j (settle_stale_ladder qv x)) \<Longrightarrow> keeps_row W j (settle_stale_ladders qv js)"
  by (induction js) (auto intro!: keeps split: prod.split)

section \<open>Which jobs a pass spares\<close>

lemma keeps_reap_dead:
  assumes W: "undisturbed W" and spared: "spared rs qv now j"
  shows "keeps_row W j (reap_dead rs qv now)"
  unfolding reap_dead_def
proof (rule keeps_reading [OF W], rule keeps_counting)
  fix d :: db and x
  assume inv: "jobs_inv (db_jobs d)" and row: "find_row job_id (job_id j) (db_jobs d) = Some j"
    and x: "x \<in> set (list_stale d Processing (abandoned_before rs now))"
  from x have x: "x \<in> set (db_jobs d)" "job_status x = Processing" "job_updated_at x < abandoned_before rs now"
    by (simp_all add: list_stale_def)
  show "keeps_row W j (reap_job qv (lease_before rs now) x)"
  proof (cases "job_id x = job_id j")
    case True
    with the_row [OF inv row x(1)] x spared show ?thesis
      by (intro keeps_reap_job [OF W] disjI2) (auto simp: spared_def)
  qed (auto intro: keeps_reap_job [OF W])
qed

lemma keeps_settle_ladders:
  assumes W: "undisturbed W" and spared: "spared rs qv now j"
  shows "keeps_row W j (settle_ladders rs qv now)"
  unfolding settle_ladders_def
proof (rule keeps_reading [OF W], rule keeps_settles)
  fix d :: db and x
  assume inv: "jobs_inv (db_jobs d)" and row: "find_row job_id (job_id j) (db_jobs d) = Some j"
    and x: "x \<in> set (list_stale_ladders d (abandoned_before rs now))"
  from x have x: "x \<in> set (db_jobs d)" "waits_for_ladder x" "job_updated_at x < abandoned_before rs now"
    by (simp_all add: list_stale_ladders_def waits_for_ladder_def)
  show "keeps_row W j (settle_stale_ladder qv x)"
  proof (cases "job_id x = job_id j")
    case True
    with the_row [OF inv row x(1)] x spared show ?thesis
      by (intro keeps_settle [OF W] disjI2) (auto simp: spared_def)
  qed (auto intro: keeps_settle [OF W])
qed

lemma keeps_rest:
  assumes "undisturbed W"
  shows "keeps_row W j (requeue_lost rs qv now)" and "keeps_row W j (sweep rs qv now)"
  unfolding requeue_lost_def sweep_def sweep_orphans_def sweep_object_def
  by (auto intro!: keeps_reading [OF assms] keeps_counting keeps_requeue_job keeps split: prod.split)

definition pass_at :: "reaper_settings \<Rightarrow> queue_view \<Rightarrow> instant \<Rightarrow> (nat \<times> nat \<times> nat) task" where
  \<comment> \<open>a pass whose clock has been read\<close>
  "pass_at rs qv now =
     bind_t (reap_dead rs qv now) (\<lambda>reaped. bind_t (requeue_lost rs qv now) (\<lambda>requeued.
       bind_t (settle_ladders rs qv now) (\<lambda>ladders. bind_t (sweep rs qv now) (\<lambda>deleted.
         ret_t (reaped + snd ladders, requeued + fst ladders, deleted)))))"

lemma run_once_at: "run_once rs qv W t d = pass_at rs qv (w_now W t) W t d"
proof -
  have "clock W t d = (Inr (w_now W t), t, d)" by (simp add: clock_def)
  then show ?thesis
    unfolding run_once_def pass_at_def by (rule bind_t_Inr [where m = clock])
qed


section \<open>What a pass removes\<close>

text \<open>\<open>does_only P m\<close>: \<open>m\<close> only adds to the trace, and only events that satisfy \<open>P\<close>.\<close>

definition does_only :: "(event \<Rightarrow> bool) \<Rightarrow> 'a task \<Rightarrow> bool" where
  "does_only P m \<longleftrightarrow> (\<forall>W t d r t' d'. m W t d = (r, t', d') \<longrightarrow> (\<exists>u. t' = t @ u \<and> list_all P u))"

named_theorems does \<open>what a task does\<close>

lemma does_onlyD: "does_only P m \<Longrightarrow> m W t d = (r, t', d') \<Longrightarrow> \<exists>u. t' = t @ u \<and> list_all P u"
  unfolding does_only_def by blast

lemma does_simple [does]:
  "does_only P (ret_t x)" "does_only P (asking q)" "does_only P clock" "does_only P (reading f)"
  by (simp_all add: does_only_def asking_def clock_def)

lemma does_session [does]: "(\<And>d. P (Commit d)) \<Longrightarrow> does_only P (session f)"
  unfolding does_only_def session_def by (auto split: sum.splits prod.splits)

lemma does_bind [does]:
  assumes "does_only P m" and "\<And>x. does_only P (k x)"
  shows "does_only P (bind_t m k)"
  unfolding does_only_def
proof (intro allI impI)
  fix W t d r t' d'
  assume run: "bind_t m k W t d = (r, t', d')"
  obtain r1 t1 d1 where m: "m W t d = (r1, t1, d1)" by (metis prod_cases3)
  then obtain u where u: "t1 = t @ u" "list_all P u" using does_onlyD [OF assms(1)] by blast
  show "\<exists>u. t' = t @ u \<and> list_all P u"
  proof (cases r1)
    case (Inl x)
    with run m have "t' = t1" by (simp add: bind_t_def)
    with u show ?thesis by blast
  next
    case (Inr a)
    with run m have "k a W t1 d1 = (r, t', d')" by (simp add: bind_t_def)
    then obtain v where "t' = t1 @ v" "list_all P v" using does_onlyD [OF assms(2)] by blast
    with u show ?thesis by (intro exI [of _ "u @ v"]) simp
  qed
qed

lemma does_counting [does]: "(\<And>x. does_only P (f x)) \<Longrightarrow> does_only P (counting xs f)"
  by (induction xs) (auto intro!: does)

lemma does_in_thread:
  assumes "\<And>e h. \<exists>cs. snd (m e h) = h @ cs \<and> list_all (\<lambda>c. P (Call c)) cs"
  shows "does_only P (in_thread m)"
  unfolding does_only_def
proof (intro allI impI)
  fix W t d r t' d'
  assume run: "in_thread m W t d = (r, t', d')"
  obtain cs where "snd (m (w_env W) (calls_of t)) = calls_of t @ cs" "list_all (\<lambda>c. P (Call c)) cs"
    using assms by blast
  with run show "\<exists>u. t' = t @ u \<and> list_all P u"
    by (cases "m (w_env W) (calls_of t)") (auto simp: in_thread_def list_all_iff intro!: exI [of _ "map Call cs"])
qed

definition no_removal :: "event \<Rightarrow> bool" where
  "no_removal ev \<longleftrightarrow> (case ev of Call (RemoveObject k) \<Rightarrow> False | _ \<Rightarrow> True)"

lemma no_removal_enqueue:
  "does_only no_removal (in_thread (enqueue_job k))" "does_only no_removal (in_thread (enqueue_ladder k))"
  by (rule does_in_thread; auto simp: enqueue_job_def enqueue_ladder_def enqueue_def wake_workers_def bind_io_def
      do_call_def no_removal_def split: sum.split)+

lemma no_removal_commit: "no_removal (Commit d)"
  by (simp add: no_removal_def)

lemma no_removal_before_sweep:
  "does_only no_removal (reap_dead rs qv now)" "does_only no_removal (requeue_lost rs qv now)"
  "does_only no_removal (settle_ladders rs qv now)"
proof -
  have one: "does_only no_removal (settle_stale_ladder qv j)" for j
    unfolding settle_stale_ladder_def Let_def
    by (auto intro!: does no_removal_enqueue no_removal_commit split: option.split)
  have "does_only no_removal (settle_stale_ladders qv js)" for js
  proof (induction js)
    case Nil
    show ?case unfolding settle_stale_ladders.simps by (rule does)
  next
    case (Cons j js)
    then show ?case unfolding settle_stale_ladders.simps by (auto intro!: does one split: prod.split)
  qed
  then show "does_only no_removal (settle_ladders rs qv now)"
    unfolding settle_ladders_def by (intro does)
  show "does_only no_removal (reap_dead rs qv now)"
    unfolding reap_dead_def reap_job_def Let_def by (auto intro!: does no_removal_commit)
  show "does_only no_removal (requeue_lost rs qv now)"
    unfolding requeue_lost_def requeue_job_def by (auto intro!: does no_removal_enqueue)
qed

definition sweepable :: "queue_view \<Rightarrow> string set \<Rightarrow> instant \<Rightarrow> event \<Rightarrow> bool" where
  "sweepable qv source_keys grace ev \<longleftrightarrow>
     (case ev of
        Call (RemoveObject key) \<Rightarrow> key \<notin> source_keys \<and> (\<exists>s m. qv_modified qv s key = Some m \<and> m < grace)
      | _ \<Rightarrow> True)"

lemma no_removal_sweepable: "no_removal ev \<Longrightarrow> sweepable qv sk grace ev"
  by (simp add: no_removal_def sweepable_def split: event.splits call.splits)

lemma does_only_mono: "does_only P m \<Longrightarrow> (\<And>ev. P ev \<Longrightarrow> Q ev) \<Longrightarrow> does_only Q m"
  unfolding does_only_def list_all_iff by blast

lemma does_asked:
  assumes "\<And>t. does_only P (k (q t))"
  shows "does_only P (bind_t (asking q) k)"
  unfolding does_only_def
proof (intro allI impI)
  fix W t d r t' d'
  assume "bind_t (asking q) k W t d = (r, t', d')"
  then have "k (q t) W t d = (r, t', d')" by (simp add: bind_t_def asking_def)
  with does_onlyD [OF assms] show "\<exists>u. t' = t @ u \<and> list_all P u" by blast
qed

lemma sweep_orphans_removes: "does_only (sweepable qv sk grace) (sweep_orphans qv sk grace)"
proof -
  have listing: "does_only (sweepable qv sk grace) (in_thread (list_objects p))" for p
    by (rule does_in_thread) (simp add: list_objects_def do_call_def sweepable_def)
  have "does_only (sweepable qv sk grace) (sweep_object qv sk grace (k, qv_modified qv t k))" for k t
    unfolding sweep_object_def
    by (auto intro!: does does_in_thread simp: delete_object_def do_call_def sweepable_def split: option.splits) blast
  then have "does_only (sweepable qv sk grace)
      (counting (map (\<lambda>k. (k, qv_modified qv t k)) names) (sweep_object qv sk grace))" for names t
    by (induction names) (auto intro!: does)
  then show ?thesis
    unfolding sweep_orphans_def by (intro does_bind does_asked listing)
qed

lemma sweep_keeps_db: "sweep_orphans qv sk grace W t d = (r, t', d') \<Longrightarrow> d' = d"
proof -
  have thread: "in_thread m W t d = (r, t', d') \<Longrightarrow> d' = d" for m :: "'a io" and t d r t' d'
    by (auto simp: in_thread_def split: prod.splits)
  have obj: "sweep_object qv sk grace x W t d = (r, t', d') \<Longrightarrow> d' = d" for x t d r t' d'
    by (auto simp: sweep_object_def bind_t_def dest: thread split: prod.splits sum.splits if_splits)
  have "counting xs (sweep_object qv sk grace) W t d = (r, t', d') \<Longrightarrow> d' = d" for xs t d r t' d'
    by (induction xs arbitrary: t d r t') (auto simp: bind_t_def dest: obj split: prod.splits sum.splits)
  then show "sweep_orphans qv sk grace W t d = (r, t', d') \<Longrightarrow> d' = d"
    by (auto simp: sweep_orphans_def bind_t_def asking_def dest: thread split: prod.splits sum.splits)
qed


definition sample_reaper :: reaper_settings where
  "sample_reaper = \<lparr>rs_lease_seconds = 1800, rs_abandoned_seconds = 300, rs_orphan_grace_seconds = 3600, rs_trash_days = 30\<rparr>"

definition idle_queue :: queue_view where
  \<comment> \<open>RQ knows of nothing, and every object is old\<close>
  "idle_queue = \<lparr>qv_live_jobs = (\<lambda>t. []), qv_live_ladders = (\<lambda>t. []), qv_ladder_status = (\<lambda>t k. None),
     qv_exists = (\<lambda>t k. False), qv_modified = (\<lambda>t k. Some (- 1000000000000))\<rparr>"

lemma quiet_world_undisturbed: "undisturbed quiet_world"
  by (simp add: undisturbed_def quiet_world_def)



section \<open>Emptying the trash\<close>

definition expired_at :: "instant \<Rightarrow> job \<Rightarrow> bool" where
  "expired_at before j \<longleftrightarrow> (case job_deleted_at j of Some s \<Rightarrow> s < before | None \<Rightarrow> False)"

lemma list_expired: "list_expired_trash d before = sort_key trashed_at (filter (expired_at before) (db_jobs d))"
  unfolding list_expired_trash_def
  by (rule arg_cong [where f = "sort_key trashed_at"], rule filter_cong)
    (auto simp: expired_at_def trashed_at_def split: option.split)

lemma delete_found:
  assumes "jobs_inv (db_jobs d)" and "j \<in> set (db_jobs d)"
  shows "delete_job (job_id j) None d = (d\<lparr>db_jobs := filter (\<lambda>x. job_id x \<noteq> job_id j) (db_jobs d)\<rparr>, Some j)"
  using find_row_mem [OF jobs_inv_distinct [OF assms(1)] assms(2)]
  by (simp add: delete_job_def Let_def find_row_def)

lemma best_effort_thread: "\<exists>cs. in_thread (delete_job_storage True j) W t d = (Inr (), t @ map Call cs, d)"
proof -
  obtain listed cs where "delete_job_storage True j (w_env W) (calls_of t)
      = (Inr (), calls_of t @ cs @ map RemoveObject (uniq (job_keys j @ listed)))"
    using best_effort_cleanup by blast
  then show ?thesis
    by (intro exI [of _ "cs @ map RemoveObject (uniq (job_keys j @ listed))"]) (simp add: in_thread_def)
qed

lemma empty_jobs:
  assumes "undisturbed W"
  shows "jobs_inv (db_jobs d) \<Longrightarrow> distinct (map job_id js) \<Longrightarrow> set js \<subseteq> set (db_jobs d) \<Longrightarrow>
    \<exists>t'. counting js empty_job W t d
      = (Inr (length js), t', d\<lparr>db_jobs := filter (\<lambda>x. job_id x \<notin> job_id ` set js) (db_jobs d)\<rparr>)"
proof (induction js arbitrary: t d)
  case (Cons j js)
  let ?d = "d\<lparr>db_jobs := filter (\<lambda>x. job_id x \<noteq> job_id j) (db_jobs d)\<rparr>"
  have del: "delete_job (job_id j) None d = (?d, Some j)" using Cons.prems by (intro delete_found) auto
  obtain cs where th: "in_thread (delete_job_storage True j) W (t @ [Commit ?d]) ?d
      = (Inr (), (t @ [Commit ?d]) @ map Call cs, ?d)"
    using best_effort_thread by blast
  have one: "empty_job j W t d = (Inr True, (t @ [Commit ?d]) @ map Call cs, ?d)"
    using assms del th by (simp add: empty_job_def bind_t_def session_def undisturbed_def)
  have "jobs_inv (db_jobs ?d)" using Cons.prems(1) del delete_job_inv [of d "job_id j" None] by simp
  moreover have "set js \<subseteq> set (db_jobs ?d)"
  proof
    fix x assume x: "x \<in> set js"
    then have "job_id x \<noteq> job_id j" using Cons.prems(2) by (metis distinct.simps(2) list.simps(9) list.set_map imageI)
    with x Cons.prems(3) show "x \<in> set (db_jobs ?d)" by auto
  qed
  ultimately obtain t' where "counting js empty_job W ((t @ [Commit ?d]) @ map Call cs) ?d
      = (Inr (length js), t', ?d\<lparr>db_jobs := filter (\<lambda>x. job_id x \<notin> job_id ` set js) (db_jobs ?d)\<rparr>)"
    using Cons.IH [of ?d "(t @ [Commit ?d]) @ map Call cs"] Cons.prems(2) by (auto simp only: list.map distinct.simps)
  with one show ?case by (auto simp: bind_t_def conj_commute)
qed simp

text \<open>While nobody restores anything, emptying the trash deletes for good exactly the jobs that have
  been in it longer than the retention, whatever storage answers; with the trash switched off it
  deletes all that were trashed before now.\<close>

theorem empty_trash_exact:
  assumes "undisturbed W" and "jobs_inv (db_jobs d)"
  shows "\<exists>t'. empty_trash rs (Some now) W t d =
     (Inr (length (filter (expired_at (now - seconds (86400 * max 0 (rs_trash_days rs)))) (db_jobs d))), t',
      d\<lparr>db_jobs := filter (\<lambda>j. \<not> expired_at (now - seconds (86400 * max 0 (rs_trash_days rs))) j) (db_jobs d)\<rparr>)"
proof -
  let ?before = "now - seconds (86400 * max 0 (rs_trash_days rs))"
  let ?js = "list_expired_trash d ?before"
  have mem: "set ?js = {j \<in> set (db_jobs d). expired_at ?before j}" by (auto simp: list_expired)
  have "distinct (map job_id (filter (expired_at ?before) (db_jobs d)))"
    using jobs_inv_distinct [OF assms(2)] by (rule distinct_map_filter)
  then have dist: "distinct (map job_id ?js)"
    unfolding list_expired by (simp add: distinct_map inj_on_def)
  have "job_id x \<notin> job_id ` set ?js \<longleftrightarrow> \<not> expired_at ?before x" if "x \<in> set (db_jobs d)" for x
    using that jobs_inv_distinct [OF assms(2)] unfolding mem by (auto simp: distinct_map inj_on_def)
  then have rest: "filter (\<lambda>x. job_id x \<notin> job_id ` set ?js) (db_jobs d) = filter (\<lambda>j. \<not> expired_at ?before j) (db_jobs d)"
    by (intro filter_cong) auto
  obtain t' where "counting ?js empty_job W t d
      = (Inr (length ?js), t', d\<lparr>db_jobs := filter (\<lambda>x. job_id x \<notin> job_id ` set ?js) (db_jobs d)\<rparr>)"
    using empty_jobs [OF assms dist] mem by blast
  moreover have "empty_trash rs (Some now) W t d = counting ?js empty_job W t d"
    using assms(1) by (simp add: empty_trash_def undisturbed_def bind_t_def [of "reading _"])
  moreover have "length ?js = length (filter (expired_at ?before) (db_jobs d))" by (simp add: list_expired)
  ultimately show ?thesis unfolding rest by (simp only:) blast
qed

theorem empty_trash_exact_witness:
  "db_jobs (snd (snd (empty_trash sample_reaper (Some 9) quiet_world [] one_job))) = db_jobs one_job"
proof -
  obtain t' where "empty_trash sample_reaper (Some 9) quiet_world [] one_job =
     (Inr (length (filter (expired_at (9 - seconds (86400 * max 0 (rs_trash_days sample_reaper)))) (db_jobs one_job))), t',
      one_job\<lparr>db_jobs := filter (\<lambda>j. \<not> expired_at (9 - seconds (86400 * max 0 (rs_trash_days sample_reaper))) j) (db_jobs one_job)\<rparr>)"
    using empty_trash_exact [OF quiet_world_undisturbed one_job_inv] by blast
  moreover have "filter (\<lambda>j. \<not> expired_at (9 - seconds (86400 * max 0 (rs_trash_days sample_reaper))) j) (db_jobs one_job)
      = db_jobs one_job" by code_simp
  ultimately show ?thesis by simp
qed

text \<open>The row is deleted by its identifier alone. A video its owner takes out of the trash while the
  pass is still busy with an earlier one is deleted for good all the same.\<close>

definition trashed_pair :: db where
  "trashed_pair = one_job\<lparr>db_jobs := [(new_job 3 7 1 ''f'' ''a'' None 30)\<lparr>job_deleted_at := Some 4\<rparr>,
     (new_job 3 8 1 ''g'' ''b'' None 30)\<lparr>job_deleted_at := Some 5\<rparr>]\<rparr>"

definition restoring_world :: world where
  \<comment> \<open>the owner restores job 8 once the first job has been deleted\<close>
  "restoring_world = quiet_world\<lparr>w_others := (\<lambda>t d. if t = [] then d
     else case restore_job 8 1 d of Inr (d', r) \<Rightarrow> d' | Inl x \<Rightarrow> d)\<rparr>"

lemma restored_video_deleted:
  "others_commit restoring_world \<and> db_jobs (snd (snd (empty_trash (sample_reaper\<lparr>rs_trash_days := 0\<rparr>) (Some 9) restoring_world [] trashed_pair))) = []"
proof
  have "job_step\<^sup>*\<^sup>* d (case restore_job 8 1 d of Inr (d', r) \<Rightarrow> d' | Inl x \<Rightarrow> d)" for d
  proof (cases "restore_job 8 1 d")
    case (Inr p)
    then obtain d' r where "restore_job 8 1 d = Inr (d', r)" by (cases p) auto
    with job_step.restore [OF this] show ?thesis by auto
  qed simp
  then show "others_commit restoring_world"
    by (simp add: others_commit_def restoring_world_def quiet_world_def)
  show "db_jobs (snd (snd (empty_trash (sample_reaper\<lparr>rs_trash_days := 0\<rparr>) (Some 9) restoring_world [] trashed_pair))) = []"
    by code_simp
qed

end
