(* ===== verification/Guarantees.thy ===== *)
theory Guarantees
  imports Sessions
begin

text \<open>
  A logic for tasks that hold a row lock between their statements. A run is a sequence of moves, each
  a call, a commit the task is allowed to make, or whatever other processes commit while it holds no
  lock. \<open>ensures W G P m Q\<close>: from a state with \<open>P\<close>, every move of \<open>m\<close> is allowed by \<open>G\<close>, and
  when it returns its result satisfies \<open>Q\<close>.
\<close>

type_synonym guarantee = "event list \<Rightarrow> db \<Rightarrow> db \<Rightarrow> bool"

inductive moves :: "world \<Rightarrow> guarantee \<Rightarrow> event list \<times> db \<Rightarrow> event list \<times> db \<Rightarrow> bool" for W G where
  call: "moves W G (t, d) (t @ [Call c], d)"
| others: "moves W G (t, d) (t, w_others W t d)"
| commit: "G t d d' \<Longrightarrow> moves W G (t, d) (t @ [Commit d'], d')"

definition ensures ::
  "world \<Rightarrow> guarantee \<Rightarrow> (event list \<Rightarrow> db \<Rightarrow> bool) \<Rightarrow> 'a task \<Rightarrow> ('a \<Rightarrow> event list \<Rightarrow> db \<Rightarrow> bool) \<Rightarrow> bool"
where
  "ensures W G P m Q \<longleftrightarrow>
     (\<forall>t d r t' d'. P t d \<longrightarrow> m W t d = (r, t', d') \<longrightarrow>
        (moves W G)\<^sup>*\<^sup>* (t, d) (t', d') \<and> (\<forall>a. r = Inr a \<longrightarrow> Q a t' d'))"

definition acquire :: "(db \<Rightarrow> exn + 'a) \<Rightarrow> 'a task" where
  \<comment> \<open>a locking read, after whatever the others have committed\<close>
  "acquire f = (\<lambda>W t d. (f (w_others W t d), t, w_others W t d))"

definition commit_now :: "(db \<Rightarrow> exn + db) \<Rightarrow> unit task" where
  \<comment> \<open>flush and commit; a statement that fails rolls the transaction back\<close>
  "commit_now f = (\<lambda>W t d. case f d of Inl x \<Rightarrow> (Inl x, t, d) | Inr d' \<Rightarrow> (Inr (), t @ [Commit d'], d'))"

definition lift_t :: "exn + 'a \<Rightarrow> 'a task" where
  "lift_t r = (\<lambda>W t d. (r, t, d))"

named_theorems ensure \<open>rules of the logic\<close>

lemma ensuresI:
  assumes "\<And>t d r t' d'. P t d \<Longrightarrow> m W t d = (r, t', d') \<Longrightarrow>
     (moves W G)\<^sup>*\<^sup>* (t, d) (t', d') \<and> (\<forall>a. r = Inr a \<longrightarrow> Q a t' d')"
  shows "ensures W G P m Q"
  unfolding ensures_def using assms by blast

lemma ensuresD:
  assumes "ensures W G P m Q" and "P t d" and "m W t d = (r, t', d')"
  shows "(moves W G)\<^sup>*\<^sup>* (t, d) (t', d')" and "r = Inr a \<Longrightarrow> Q a t' d'"
  using assms unfolding ensures_def by blast+

lemma ensures_weaken:
  assumes "ensures W G P' m Q'" and "\<And>t d. P t d \<Longrightarrow> P' t d" and "\<And>a t d. Q' a t d \<Longrightarrow> Q a t d"
  shows "ensures W G P m Q"
  using assms unfolding ensures_def by blast

lemma ensures_post: "ensures W G P m Q' \<Longrightarrow> (\<And>a t d. Q' a t d \<Longrightarrow> Q a t d) \<Longrightarrow> ensures W G P m Q"
  by (rule ensures_weaken)

lemma ensures_pre: "ensures W G P' m Q \<Longrightarrow> (\<And>t d. P t d \<Longrightarrow> P' t d) \<Longrightarrow> ensures W G P m Q"
  by (rule ensures_weaken)

lemma ensures_bind [ensure]:
  assumes "ensures W G P m Q" and "\<And>a. ensures W G (Q a) (k a) R"
  shows "ensures W G P (bind_t m k) R"
proof (rule ensuresI)
  fix t d r t' d'
  assume P: "P t d" and run: "bind_t m k W t d = (r, t', d')"
  obtain r1 t1 d1 where m: "m W t d = (r1, t1, d1)" by (metis prod_cases3)
  note first = ensuresD [OF assms(1) P m]
  show "(moves W G)\<^sup>*\<^sup>* (t, d) (t', d') \<and> (\<forall>a. r = Inr a \<longrightarrow> R a t' d')"
  proof (cases r1)
    case (Inl x)
    with run m have "r = Inl x" "t' = t1" "d' = d1" by (simp_all add: bind_t_def)
    with first(1) show ?thesis by simp
  next
    case (Inr a)
    with run m have k: "k a W t1 d1 = (r, t', d')" by (simp add: bind_t_def)
    from first(2) [OF Inr] have q: "Q a t1 d1" .
    from rtranclp_trans [OF first(1) ensuresD(1) [OF assms(2) q k]] ensuresD(2) [OF assms(2) q k]
    show ?thesis by blast
  qed
qed

lemma ensures_ret: "(\<And>t d. P t d \<Longrightarrow> Q x t d) \<Longrightarrow> ensures W G P (ret_t x) Q"
  by (auto intro!: ensuresI)

lemma ensures_ret_here [ensure]: "ensures W G P (ret_t x) (\<lambda>y t d. y = x \<and> P t d)"
  by (rule ensures_ret) simp

lemma ensures_raise [ensure]: "ensures W G P (raise_t x) Q"
  by (auto intro!: ensuresI)

lemma ensures_lift [ensure]: "ensures W G P (lift_t r) (\<lambda>a t d. r = Inr a \<and> P t d)"
  by (auto intro!: ensuresI simp: lift_t_def)

lemma ensures_if [ensure]:
  "(b \<Longrightarrow> ensures W G P m Q) \<Longrightarrow> (\<not> b \<Longrightarrow> ensures W G P n Q) \<Longrightarrow> ensures W G P (if b then m else n) Q"
  by simp

lemma moves_calls: "(moves W G)\<^sup>*\<^sup>* (t, d) (t @ map Call cs, d)"
proof (induction cs rule: rev_induct)
  case (snoc c cs)
  have "moves W G (t @ map Call cs, d) ((t @ map Call cs) @ [Call c], d)" by (rule moves.call)
  with snoc show ?case by (simp add: rtranclp.rtrancl_into_rtrancl)
qed simp

lemma ensures_thread:
  assumes "\<And>t d r h. P t d \<Longrightarrow> m (w_env W) (calls_of t) = (r, h) \<Longrightarrow>
    \<exists>cs. h = calls_of t @ cs \<and> (\<forall>a. r = Inr a \<longrightarrow> Q a (t @ map Call cs) d)"
  shows "ensures W G P (in_thread m) Q"
proof (rule ensuresI)
  fix t d r t' d'
  assume P: "P t d" and run: "in_thread m W t d = (r, t', d')"
  obtain r1 h where m: "m (w_env W) (calls_of t) = (r1, h)" by fastforce
  from assms [OF P m] obtain cs where cs: "h = calls_of t @ cs" "\<forall>a. r1 = Inr a \<longrightarrow> Q a (t @ map Call cs) d" by blast
  from run m cs(1) have "r = r1" "t' = t @ map Call cs" "d' = d" by (auto simp: in_thread_def)
  with cs(2) moves_calls show "(moves W G)\<^sup>*\<^sup>* (t, d) (t', d') \<and> (\<forall>a. r = Inr a \<longrightarrow> Q a t' d')" by simp
qed

lemma ensures_acquire:
  assumes "\<And>t d a. P t d \<Longrightarrow> f (w_others W t d) = Inr a \<Longrightarrow> Q a t (w_others W t d)"
  shows "ensures W G P (acquire f) Q"
  by (rule ensuresI) (auto simp: acquire_def assms intro: moves.others)

lemma ensures_commit:
  assumes "\<And>t d d'. P t d \<Longrightarrow> f d = Inr d' \<Longrightarrow> G t d d' \<and> Q () (t @ [Commit d']) d'"
  shows "ensures W G P (commit_now f) Q"
  by (rule ensuresI) (auto simp: commit_now_def split: sum.splits dest: assms intro: moves.commit)

lemma ensures_try:
  assumes "ensures W G P m Q"
  shows "ensures W G P (try_t m) (\<lambda>r t d. case r of Inl x \<Rightarrow> True | Inr a \<Rightarrow> Q a t d)"
proof (rule ensuresI)
  fix t d r t' d'
  assume P: "P t d" and run: "try_t m W t d = (r, t', d')"
  obtain r1 where "m W t d = (r1, t', d')" "r = Inr r1" using run by (auto split: prod.splits)
  with ensuresD [OF assms P this(1)] show "(moves W G)\<^sup>*\<^sup>* (t, d) (t', d') \<and>
      (\<forall>a. r = Inr a \<longrightarrow> (case a of Inl x \<Rightarrow> True | Inr a \<Rightarrow> Q a t' d'))"
    by (auto split: sum.split)
qed

text \<open>What is kept by the others and by every allowed commit is kept by the run.\<close>

locale kept =
  fixes W :: world and G :: guarantee and I :: "db \<Rightarrow> bool"
  assumes others_keep: "I d \<Longrightarrow> I (w_others W t d)" and commits_keep: "I d \<Longrightarrow> G t d d' \<Longrightarrow> I d'"
begin

lemma moves_keep: "(moves W G)\<^sup>*\<^sup>* s s' \<Longrightarrow> I (snd s) \<Longrightarrow> I (snd s')"
  by (induction rule: rtranclp_induct) (auto elim!: moves.cases intro: others_keep commits_keep)

lemma moves_sound:
  "(moves W G)\<^sup>*\<^sup>* s s' \<Longrightarrow> I (snd s) \<Longrightarrow> (moves W (\<lambda>t d d'. G t d d' \<and> I d \<and> I d'))\<^sup>*\<^sup>* s s'"
proof (induction rule: rtranclp_induct)
  case (step y z)
  have y: "I (snd y)" using moves_keep [OF step.hyps(1)] step.prems by blast
  have "moves W (\<lambda>t d d'. G t d d' \<and> I d \<and> I d') y z"
    using step.hyps(2) y by cases (auto intro: moves.intros commits_keep)
  with step.IH [OF step.prems] show ?case by (rule rtranclp.rtrancl_into_rtrancl)
qed simp

lemma ensures_sound:
  assumes "ensures W G (\<lambda>t d. P t d \<and> I d) m Q"
  shows "ensures W (\<lambda>t d d'. G t d d' \<and> I d \<and> I d') (\<lambda>t d. P t d \<and> I d) m (\<lambda>a t d. Q a t d \<and> I d)"
proof (rule ensuresI)
  fix t d r t' d'
  assume pre: "P t d \<and> I d" and run: "m W t d = (r, t', d')"
  note first = ensuresD [OF assms pre run]
  have "I d'" using moves_keep [OF first(1)] pre by simp
  moreover have "(moves W (\<lambda>t d d'. G t d d' \<and> I d \<and> I d'))\<^sup>*\<^sup>* (t, d) (t', d')"
    using moves_sound [OF first(1)] pre by simp
  ultimately show "(moves W (\<lambda>t d d'. G t d d' \<and> I d \<and> I d'))\<^sup>*\<^sup>* (t, d) (t', d')
      \<and> (\<forall>a. r = Inr a \<longrightarrow> Q a t' d' \<and> I d')"
    using first(2) by blast
qed

lemma ensures_inv:
  assumes "ensures W G (\<lambda>t d. P t d \<and> I d) m Q"
  shows "ensures W G (\<lambda>t d. P t d \<and> I d) m (\<lambda>a t d. Q a t d \<and> I d)"
proof (rule ensuresI)
  fix t d r t' d'
  assume pre: "P t d \<and> I d" and run: "m W t d = (r, t', d')"
  note first = ensuresD [OF assms pre run]
  have "I d'" using moves_keep [OF first(1)] pre by simp
  with first show "(moves W G)\<^sup>*\<^sup>* (t, d) (t', d') \<and> (\<forall>a. r = Inr a \<longrightarrow> Q a t' d' \<and> I d')" by blast
qed

lemma ensures_keep:
  assumes "ensures W G P m Q" and "P t d" and "m W t d = (r, t', d')" and "I d"
  shows "I d'"
  using moves_keep [OF ensuresD(1) [OF assms(1-3)]] assms(4) by simp

end

lemma moves_mono:
  assumes "(moves W G)\<^sup>*\<^sup>* s s'" and "\<And>t d d'. G t d d' \<Longrightarrow> H t d d'"
  shows "(moves W H)\<^sup>*\<^sup>* s s'"
  using assms(1)
proof (induction rule: rtranclp_induct)
  case (step y z)
  from step.hyps(2) have "moves W H y z" by cases (auto intro: moves.intros assms(2))
  with step.IH show ?case by (rule rtranclp.rtrancl_into_rtrancl)
qed simp

end
