(* ===== verification/Media_Type.thy ===== *)
theory Media_Type
  imports Prelude "HOL-Library.Word"
begin

text \<open>
  \<open>app/services/media_type.py\<close>: what an uploaded file is, from its first bytes, and the content
  types the upload endpoint stores. A byte is an \<open>8 word\<close>.
\<close>

type_synonym bytes = "8 word list"

definition ascii_bytes :: "string \<Rightarrow> bytes" where
  "ascii_bytes s = map of_char s"

definition byte_range :: "nat \<Rightarrow> nat \<Rightarrow> 'a list \<Rightarrow> 'a list" where
  \<comment> \<open>\<open>xs[a:b]\<close> for \<open>0 \<le> a\<close> and \<open>0 \<le> b\<close>\<close>
  "byte_range a b xs = drop a (take b xs)"

fun occurs_in :: "'a list \<Rightarrow> 'a list \<Rightarrow> bool" where
  \<comment> \<open>\<open>pattern in xs\<close>\<close>
  "occurs_in pattern [] = (pattern = [])"
| "occurs_in pattern (x # xs) = (take (length pattern) (x # xs) = pattern \<or> occurs_in pattern xs)"

definition SNIFF_LENGTH :: nat where "SNIFF_LENGTH = 4096"
definition EBML_MAGIC :: bytes where "EBML_MAGIC = [0x1a, 0x45, 0xdf, 0xa3]"
definition EBML_DOCTYPE_WINDOW :: nat where "EBML_DOCTYPE_WINDOW = 256"

definition ISO_BMFF_LEGACY_BOXES :: "bytes list" where
  "ISO_BMFF_LEGACY_BOXES = map ascii_bytes [''moov'', ''mdat'', ''free'', ''skip'', ''wide'', ''pnot'']"

definition QUICKTIME_BRANDS :: "bytes list" where
  "QUICKTIME_BRANDS = [ascii_bytes ''qt  '']"

definition MPEG_START_CODES :: "bytes list" where
  "MPEG_START_CODES = [[0x00, 0x00, 0x01, 0xba], [0x00, 0x00, 0x01, 0xb3]]"

definition TS_SYNC_BYTE :: "8 word" where "TS_SYNC_BYTE = 0x47"
definition TS_PACKET_OFFSETS :: "nat list" where "TS_PACKET_OFFSETS = [0, 188, 376]"

definition looks_like_mpeg_ts :: "bytes \<Rightarrow> bool" where
  "looks_like_mpeg_ts head =
     (if length head \<le> last TS_PACKET_OFFSETS then False
      else list_all (\<lambda>i. head ! i = TS_SYNC_BYTE) TS_PACKET_OFFSETS)"

definition sniff_video_type :: "bytes \<Rightarrow> string option" where
  "sniff_video_type head =
     (if length head < 12 then None
      else if byte_range 0 4 head = EBML_MAGIC then
        (let window = byte_range 0 EBML_DOCTYPE_WINDOW head
         in if occurs_in (ascii_bytes ''webm'') window then Some ''video/webm''
            else if occurs_in (ascii_bytes ''matroska'') window then Some ''video/x-matroska''
            else None)
      else if byte_range 0 4 head = ascii_bytes ''RIFF'' \<and> byte_range 8 12 head = ascii_bytes ''AVI '' then Some ''video/x-msvideo''
      else (let box = byte_range 4 8 head
            in if box = ascii_bytes ''ftyp''
               then Some (if byte_range 8 12 head \<in> set QUICKTIME_BRANDS then ''video/quicktime'' else ''video/mp4'')
               else if box \<in> set ISO_BMFF_LEGACY_BOXES then Some ''video/quicktime''
               else if byte_range 0 4 head \<in> set MPEG_START_CODES then Some ''video/mpeg''
               else if looks_like_mpeg_ts head then Some ''video/mpeg''
               else None))"

text \<open>The types an upload may declare, \<open>ALLOWED_CONTENT_TYPES\<close> of \<open>app/api/uploads.py\<close>.\<close>

definition ALLOWED_CONTENT_TYPES :: "string list" where
  "ALLOWED_CONTENT_TYPES = [''video/mp4'', ''video/mpeg'', ''video/quicktime'', ''video/webm'',
     ''video/x-matroska'', ''video/x-msvideo'']"

section \<open>What is recognised\<close>

lemma byte_range_take: "b \<le> n \<Longrightarrow> byte_range a b (take n xs) = byte_range a b xs"
  by (simp add: byte_range_def min_absorb1)

lemma looks_like_take: "377 \<le> n \<Longrightarrow> looks_like_mpeg_ts (take n xs) = looks_like_mpeg_ts xs"
  by (auto simp: looks_like_mpeg_ts_def TS_PACKET_OFFSETS_def min_def split: if_splits)

text \<open>C12. A file is recognised as one of the content types an upload may declare, or refused, and the
  4096 bytes that are read decide it as the whole file would.\<close>

theorem sniff_allowed:
  "(case sniff_video_type file of Some t \<Rightarrow> t \<in> set ALLOWED_CONTENT_TYPES | None \<Rightarrow> True)
   \<and> sniff_video_type (take SNIFF_LENGTH file) = sniff_video_type file"
proof
  show "case sniff_video_type file of Some t \<Rightarrow> t \<in> set ALLOWED_CONTENT_TYPES | None \<Rightarrow> True"
    by (simp add: sniff_video_type_def Let_def ALLOWED_CONTENT_TYPES_def)
  have len: "length (take SNIFF_LENGTH file) < 12 \<longleftrightarrow> length file < 12" by (auto simp: SNIFF_LENGTH_def)
  have "b \<le> 256 \<Longrightarrow> byte_range a b (take SNIFF_LENGTH file) = byte_range a b file" for a b
    by (rule byte_range_take) (simp add: SNIFF_LENGTH_def)
  then have ranges: "byte_range 0 4 (take SNIFF_LENGTH file) = byte_range 0 4 file"
    "byte_range 4 8 (take SNIFF_LENGTH file) = byte_range 4 8 file"
    "byte_range 8 12 (take SNIFF_LENGTH file) = byte_range 8 12 file"
    "byte_range 0 EBML_DOCTYPE_WINDOW (take SNIFF_LENGTH file) = byte_range 0 EBML_DOCTYPE_WINDOW file"
    by (simp_all add: EBML_DOCTYPE_WINDOW_def)
  have ts: "looks_like_mpeg_ts (take SNIFF_LENGTH file) = looks_like_mpeg_ts file"
    by (rule looks_like_take) (simp add: SNIFF_LENGTH_def)
  show "sniff_video_type (take SNIFF_LENGTH file) = sniff_video_type file"
    unfolding sniff_video_type_def len ranges ts by (rule refl)
qed

end
