(* ===== verification/Upload_Model.thy ===== *)
theory Upload_Model
  imports Job_Store Storage Media_Type "HOL-Library.Multiset"
begin

text \<open>
  Direct uploads: the requests of \<open>app/schemas/upload.py\<close>, the checks of
  \<open>app/api/multipart_uploads.py\<close> and \<open>app/api/uploads.py\<close> that need no storage, the rows of
  \<open>app/repositories/uploads.py\<close>, and the steps by which an upload session may move, with what every
  step keeps. The handlers that make the steps are in \<open>Uploads\<close>.
\<close>

section \<open>Requests\<close>

definition PART_SIZE :: int where "PART_SIZE = 16 * 1024 * 1024"
definition MAX_PARTS :: int where "MAX_PARTS = 10000"

record start_upload =
  su_filename :: string
  su_size :: int
  su_content_type :: string
  su_max_fps :: int

definition start_upload_valid :: "start_upload \<Rightarrow> bool" where
  "start_upload_valid r \<longleftrightarrow> 1 \<le> length (su_filename r) \<and> length (su_filename r) \<le> 255
     \<and> 0 < su_size r \<and> su_size r \<le> PART_SIZE * MAX_PARTS \<and> length (su_content_type r) \<le> 128
     \<and> su_max_fps r \<in> {30, 60}"

definition part_number_valid :: "int \<Rightarrow> bool" where
  "part_number_valid n \<longleftrightarrow> 1 \<le> n \<and> n \<le> MAX_PARTS"

definition sign_parts_valid :: "int list \<Rightarrow> bool" where
  "sign_parts_valid ns \<longleftrightarrow> list_all part_number_valid ns \<and> 1 \<le> length ns \<and> length ns \<le> 100 \<and> distinct ns"

definition uploaded_part_valid :: "uploaded_part \<Rightarrow> bool" where
  "uploaded_part_valid p \<longleftrightarrow> part_number_valid (part_n p) \<and> 1 \<le> length (part_etag p) \<and> length (part_etag p) \<le> 128"

definition contiguous_parts :: "uploaded_part list \<Rightarrow> bool" where
  "contiguous_parts ps \<longleftrightarrow> sort (map part_n ps) = [1..int (length ps)]"

definition complete_upload_valid :: "uploaded_part list \<Rightarrow> bool" where
  "complete_upload_valid ps \<longleftrightarrow> list_all uploaded_part_valid ps \<and> 1 \<le> length ps \<and> int (length ps) \<le> MAX_PARTS
     \<and> contiguous_parts ps"

definition manifest :: "uploaded_part list \<Rightarrow> uploaded_part list" where
  "manifest ps = sort_key part_n ps"

section \<open>File names\<close>

definition DEFAULT_FILENAME :: string where "DEFAULT_FILENAME = ''upload.bin''"
definition MAX_FILENAME_LENGTH :: nat where "MAX_FILENAME_LENGTH = 100"

definition SAFE_FILENAME_CHARS :: string where
  "SAFE_FILENAME_CHARS = ''ABCDEFGHIJKLMNOPQRSTUVWXYZabcdefghijklmnopqrstuvwxyz0123456789._-''"

definition safe_filename :: "string option \<Rightarrow> string" where
  "safe_filename raw =
     (let name = path_name (case raw of Some s \<Rightarrow> s | None \<Rightarrow> []);
          name = dropWhile (\<lambda>c. c = CHR ''.'') (map (\<lambda>c. if c \<in> set SAFE_FILENAME_CHARS then c else CHR ''_'') name)
      in or_else (take MAX_FILENAME_LENGTH name) DEFAULT_FILENAME)"

lemma path_name_plain: "s \<noteq> [] \<Longrightarrow> s \<noteq> ''.'' \<Longrightarrow> CHR ''/'' \<notin> set s \<Longrightarrow> path_name s = s"
  by (simp add: path_name_def split_on_notin)

text \<open>Whatever name the client sends, the stored one is not empty, has at most a hundred characters,
  all of them letters, digits, points, underscores or hyphens, and does not start with a point; so it
  names one object in the folder of its job. Cleaning a stored name again changes nothing.\<close>

theorem safe_filename_safe:
  "safe_filename raw \<noteq> [] \<and> length (safe_filename raw) \<le> MAX_FILENAME_LENGTH
   \<and> set (safe_filename raw) \<subseteq> set SAFE_FILENAME_CHARS \<and> hd (safe_filename raw) \<noteq> CHR ''.''
   \<and> CHR ''/'' \<notin> set (safe_filename raw) \<and> safe_filename (Some (safe_filename raw)) = safe_filename raw"
proof -
  define clean where "clean = dropWhile (\<lambda>c. c = CHR ''.'')
    (map (\<lambda>c. if c \<in> set SAFE_FILENAME_CHARS then c else CHR ''_'') (path_name (case raw of Some s \<Rightarrow> s | None \<Rightarrow> [])))"
  define s where "s = safe_filename raw"
  have s: "s = or_else (take MAX_FILENAME_LENGTH clean) DEFAULT_FILENAME"
    by (simp add: s_def safe_filename_def clean_def Let_def)
  have "CHR ''_'' \<in> set SAFE_FILENAME_CHARS" by (simp add: SAFE_FILENAME_CHARS_def)
  then have "set clean \<subseteq> set SAFE_FILENAME_CHARS"
    unfolding clean_def by (auto dest!: set_dropWhileD)
  moreover have "clean \<noteq> [] \<Longrightarrow> hd clean \<noteq> CHR ''.''"
    unfolding clean_def by (rule hd_dropWhile)
  moreover have "set DEFAULT_FILENAME \<subseteq> set SAFE_FILENAME_CHARS" by code_simp
  moreover have "set (take n clean) \<subseteq> set clean" for n by (rule set_take_subset)
  moreover have "take MAX_FILENAME_LENGTH clean \<noteq> [] \<Longrightarrow> hd (take MAX_FILENAME_LENGTH clean) = hd clean"
    by (cases clean) (simp_all add: MAX_FILENAME_LENGTH_def)
  moreover have "DEFAULT_FILENAME \<noteq> []" "hd DEFAULT_FILENAME \<noteq> CHR ''.''" "length DEFAULT_FILENAME \<le> MAX_FILENAME_LENGTH"
    by (simp_all add: DEFAULT_FILENAME_def MAX_FILENAME_LENGTH_def)
  ultimately have facts: "s \<noteq> [] \<and> length s \<le> MAX_FILENAME_LENGTH \<and> set s \<subseteq> set SAFE_FILENAME_CHARS \<and> hd s \<noteq> CHR ''.''"
    unfolding s or_else_def by (cases "take MAX_FILENAME_LENGTH clean = []") (simp_all, blast)
  moreover have slash: "CHR ''/'' \<notin> set s"
  proof -
    have "CHR ''/'' \<notin> set SAFE_FILENAME_CHARS" by code_simp
    with facts show ?thesis by blast
  qed
  moreover have "safe_filename (Some s) = s"
  proof -
    have "path_name s = s" using facts slash by (intro path_name_plain) auto
    moreover have "map (\<lambda>c. if c \<in> set SAFE_FILENAME_CHARS then c else CHR ''_'') s = s"
      using facts by (intro map_idI) auto
    moreover have "dropWhile (\<lambda>c. c = CHR ''.'') s = s" using facts by (cases s) auto
    ultimately have "safe_filename (Some s) = or_else (take MAX_FILENAME_LENGTH s) DEFAULT_FILENAME"
      unfolding safe_filename_def Let_def option.case by (simp only:)
    then show ?thesis using facts by (simp add: or_else_def)
  qed
  ultimately show ?thesis unfolding s_def by blast
qed

section \<open>Parts\<close>

record stored_part =
  sp_n :: int
  sp_etag :: string
  sp_size :: int

definition part_matches :: "upload \<Rightarrow> uploaded_part \<times> stored_part \<Rightarrow> bool" where
  "part_matches u p \<longleftrightarrow>
     (case p of (supplied, stored) \<Rightarrow>
        part_n supplied = sp_n stored \<and> part_etag supplied = sp_etag stored
        \<and> sp_size stored = min (upload_part_size u) (upload_size u - (sp_n stored - 1) * upload_part_size u))"

definition validate_parts :: "upload \<Rightarrow> stored_part list \<Rightarrow> exn + unit" where
  "validate_parts u actual =
     (case upload_manifest u of
        None \<Rightarrow> Inl (TypeError ''NoneType has no len()'')
      | Some expected \<Rightarrow>
          if int (length actual) \<noteq> part_count u \<or> int (length expected) \<noteq> part_count u
          then Inl (HTTPException 422 ''all parts must be uploaded before completion'')
          else if list_all (part_matches u) (zip expected (sort_key sp_n actual)) then Inr ()
          else Inl (HTTPException 422 ''part ETags and sizes must match the uploaded parts''))"

lemma map_sort_key: "map f (sort_key f xs) = sort (map f xs)"
  by (rule sym, rule properties_for_sort) simp_all

lemma part_sizes_sum:
  assumes "0 < p" and "0 < c" and "(int c - 1) * p < s" and "s \<le> int c * p"
  shows "(\<Sum>i\<leftarrow>[0..<c]. min p (s - int i * p)) = s"
proof -
  obtain k where c: "c = Suc k" using assms(2) by (cases c) auto
  have "(\<Sum>i\<leftarrow>[0..<k]. min p (s - int i * p)) = (\<Sum>i\<leftarrow>[0..<k]. p)"
  proof (rule arg_cong [where f = sum_list], rule map_cong [OF refl])
    fix i assume "i \<in> set [0..<k]"
    then have "int i + 1 \<le> int k" by simp
    then have "(int i + 1) * p \<le> int k * p" using assms(1) by (intro mult_right_mono) auto
    with assms(3) c have "p \<le> s - int i * p" by (simp add: distrib_right)
    then show "min p (s - int i * p) = p" by simp
  qed
  moreover have "(\<Sum>i\<leftarrow>[0..<k]. p) = int k * p" by (simp add: sum_list_triv)
  moreover have "min p (s - int k * p) = s - int k * p" using assms(4) c by (simp add: distrib_right)
  ultimately show ?thesis unfolding c by simp
qed

lemma manifest_numbers: "contiguous_parts ps \<Longrightarrow> map part_n (manifest ps) = [1..int (length ps)]"
  by (simp add: manifest_def map_sort_key contiguous_parts_def)

lemma length_manifest [simp]: "length (manifest ps) = length ps"
  by (simp add: manifest_def)

lemma validate_parts_pairs:
  assumes "validate_parts (u\<lparr>upload_manifest := Some m\<rparr>) actual = Inr ()"
  shows "length m = length (sort_key sp_n actual) \<and> int (length m) = part_count u
    \<and> (\<forall>i<length m. part_matches u (m ! i, sort_key sp_n actual ! i))"
proof -
  have u: "part_count (u\<lparr>upload_manifest := Some m\<rparr>) = part_count u"
    "part_matches (u\<lparr>upload_manifest := Some m\<rparr>) = part_matches u"
    by (simp_all add: part_count_def part_matches_def fun_eq_iff)
  from assms have len: "int (length actual) = part_count u" "int (length m) = part_count u"
    and all: "list_all (part_matches u) (zip m (sort_key sp_n actual))"
    unfolding validate_parts_def u by (simp_all split: if_splits)
  from len have l: "length m = length (sort_key sp_n actual)" by simp
  have "\<forall>i<length m. part_matches u (m ! i, sort_key sp_n actual ! i)"
    using all l by (auto simp: list_all_length)
  with l len show ?thesis by blast
qed

text \<open>When the parts of a completion are accepted, the parts in storage are, in the order of their
  numbers, exactly those the client listed, and their sizes add up to the declared size.\<close>

theorem accepted_parts_add_up:
  assumes "upload_check u" and "complete_upload_valid ps"
    and "validate_parts (u\<lparr>upload_manifest := Some (manifest ps)\<rparr>) actual = Inr ()"
  shows "map (\<lambda>p. (sp_n p, sp_etag p)) (sort_key sp_n actual) = map (\<lambda>p. (part_n p, part_etag p)) (manifest ps)
    \<and> sum_list (map sp_size actual) = upload_size u"
proof
  let ?a = "sort_key sp_n actual" and ?m = "manifest ps"
  from validate_parts_pairs [OF assms(3)] have len: "length ?m = length ?a" and c: "int (length ?m) = part_count u"
    and each: "\<And>i. i < length ?m \<Longrightarrow> part_matches u (?m ! i, ?a ! i)" by blast+
  show "map (\<lambda>p. (sp_n p, sp_etag p)) ?a = map (\<lambda>p. (part_n p, part_etag p)) ?m"
    using len each by (intro nth_equalityI) (auto simp: part_matches_def)
  from assms(2) have "map part_n ?m = [1..int (length ps)]"
    by (intro manifest_numbers) (simp add: complete_upload_valid_def)
  then have number: "part_n (?m ! i) = int i + 1" if "i < length ?m" for i
  proof -
    have "part_n (?m ! i) = [1..int (length ps)] ! i"
      using that \<open>map part_n ?m = [1..int (length ps)]\<close> by (metis nth_map)
    then show ?thesis using that by simp
  qed
  have "map sp_size ?a = map (\<lambda>i. min (upload_part_size u) (upload_size u - int i * upload_part_size u)) [0..<length ?m]"
  proof (rule nth_equalityI)
    fix i assume "i < length (map sp_size ?a)"
    then have i: "i < length ?m" using len by simp
    from each [OF i] number [OF i] have "sp_n (?a ! i) - 1 = int i" "sp_size (?a ! i)
        = min (upload_part_size u) (upload_size u - (sp_n (?a ! i) - 1) * upload_part_size u)"
      by (simp_all add: part_matches_def)
    then have "sp_size (?a ! i) = min (upload_part_size u) (upload_size u - int i * upload_part_size u)" by (simp only:)
    with i len show "map sp_size ?a ! i = map (\<lambda>i. min (upload_part_size u) (upload_size u - int i * upload_part_size u)) [0..<length ?m] ! i"
      by simp
  qed (use len in simp)
  then have "sum_list (map sp_size ?a) = upload_size u"
    using part_count_bounds [OF assms(1)] assms(1) c
    by (simp only:, intro part_sizes_sum) (auto simp: upload_check_def simp flip: c)
  moreover have "sum_list (map sp_size ?a) = sum_list (map sp_size actual)"
    by (metis mset_map mset_sort sum_mset_sum_list)
  ultimately show "sum_list (map sp_size actual) = upload_size u" by simp
qed

definition sample_upload :: upload where
  "sample_upload = \<lparr>upload_id = 5, upload_owner_id = 1, upload_filename = ''a.mov'', upload_source_key = ''uploads/7/a.mov'',
     upload_storage_id = Some ''m1'', upload_size = 5, upload_part_size = 3, upload_state = UOpen, upload_max_fps = 30,
     upload_manifest = None, upload_job_id = 7, upload_created_at = 0, upload_expires_at = 86400000000\<rparr>"

definition sample_parts :: "uploaded_part list" where
  "sample_parts = [\<lparr>part_n = 2, part_etag = ''b''\<rparr>, \<lparr>part_n = 1, part_etag = ''a''\<rparr>]"

definition sample_stored :: "stored_part list" where
  "sample_stored = [\<lparr>sp_n = 1, sp_etag = ''a'', sp_size = 3\<rparr>, \<lparr>sp_n = 2, sp_etag = ''b'', sp_size = 2\<rparr>]"

theorem accepted_parts_add_up_witness:
  "validate_parts (sample_upload\<lparr>upload_manifest := Some (manifest sample_parts)\<rparr>) sample_stored = Inr ()
   \<and> sum_list (map sp_size sample_stored) = upload_size sample_upload"
proof -
  have c: "upload_check sample_upload" "complete_upload_valid sample_parts" by code_simp+
  have v: "validate_parts (sample_upload\<lparr>upload_manifest := Some (manifest sample_parts)\<rparr>) sample_stored = Inr ()" by code_simp
  with accepted_parts_add_up [OF c v] show ?thesis by blast
qed

section \<open>Rows\<close>

definition MAX_OPEN_UPLOADS :: nat where "MAX_OPEN_UPLOADS = 5"

definition RESERVED_STATES :: "upload_state list" where
  "RESERVED_STATES = [UOpen, UCompleting, UAborting]"

definition reserved_by :: "uuid \<Rightarrow> upload list \<Rightarrow> upload list" where
  "reserved_by own us = filter (\<lambda>u. upload_owner_id u = own \<and> upload_state u \<in> set RESERVED_STATES) us"

definition lock_owner :: "uuid \<Rightarrow> db \<Rightarrow> user option" where
  "lock_owner own d = find_row user_id own (db_users d)"

definition get_upload :: "uuid \<Rightarrow> uuid \<Rightarrow> db \<Rightarrow> upload option" where
  "get_upload k own d =
     (case lock_owner own d of
        None \<Rightarrow> None
      | Some _ \<Rightarrow> find (\<lambda>u. upload_id u = k \<and> upload_owner_id u = own) (db_uploads d))"

definition insert_upload :: "upload \<Rightarrow> db \<Rightarrow> exn + db" where
  \<comment> \<open>the \<open>INSERT\<close>, with the primary key and the two unique columns\<close>
  "insert_upload u d =
     (if upload_check u \<and> upload_id u \<notin> upload_id ` set (db_uploads d)
         \<and> upload_source_key u \<notin> upload_source_key ` set (db_uploads d)
         \<and> upload_job_id u \<notin> upload_job_id ` set (db_uploads d)
      then Inr (d\<lparr>db_uploads := db_uploads d @ [u]\<rparr>) else Inl IntegrityError)"

definition add_upload :: "upload \<Rightarrow> db \<Rightarrow> exn + db" where
  "add_upload u d =
     (case lock_owner (upload_owner_id u) d of
        None \<Rightarrow> Inl (ApiNotFound ''not found'')
      | Some _ \<Rightarrow>
          if MAX_OPEN_UPLOADS \<le> length (reserved_by (upload_owner_id u) (db_uploads d)) then Inl UploadLimitReached
          else insert_upload u d)"

definition put_upload :: "upload \<Rightarrow> db \<Rightarrow> db" where
  \<comment> \<open>flush the changed row\<close>
  "put_upload u d = d\<lparr>db_uploads := map (\<lambda>x. if upload_id x = upload_id u then u else x) (db_uploads d)\<rparr>"

definition create_upload_job :: "instant \<Rightarrow> upload \<Rightarrow> db \<Rightarrow> exn + db" where
  "create_upload_job now u d =
     (case create_job now (upload_owner_id u) (upload_job_id u) (upload_filename u) (upload_source_key u) (upload_max_fps u) d of
        Inl x \<Rightarrow> Inl x
      | Inr (d', j) \<Rightarrow> Inr (put_upload (u\<lparr>upload_state := UReady\<rparr>) d'))"

definition delete_account_rows :: "uuid \<Rightarrow> db \<Rightarrow> db" where
  "delete_account_rows own d =
     d\<lparr>db_uploads := filter (\<lambda>u. upload_owner_id u \<noteq> own) (db_uploads d),
       db_jobs := filter (\<lambda>j. job_owner_id j \<noteq> own) (db_jobs d),
       db_users := filter (\<lambda>u. user_id u \<noteq> own) (db_users d)\<rparr>"

section \<open>How an upload moves\<close>

definition manifest_fits :: "upload \<Rightarrow> uploaded_part list \<Rightarrow> bool" where
  "manifest_fits u m \<longleftrightarrow> map part_n m = [1..part_count u]"

inductive upload_move :: "upload \<Rightarrow> upload \<Rightarrow> bool" where
  initiated: "upload_move u (u\<lparr>upload_storage_id := Some s\<rparr>)"
| frozen: "upload_state u = UOpen \<Longrightarrow> manifest_fits u m \<Longrightarrow>
    upload_move u (u\<lparr>upload_manifest := Some m, upload_state := UCompleting\<rparr>)"
| finished: "upload_state u = UReady \<Longrightarrow> upload_move u (u\<lparr>upload_state := UCompleted\<rparr>)"
| aborting: "upload_state u \<in> {UOpen, UCompleting, UAborting} \<Longrightarrow> upload_move u (u\<lparr>upload_state := UAborting\<rparr>)"
| aborted: "upload_state u \<in> {UOpen, UCompleting, UAborting, UAborted} \<Longrightarrow> upload_move u (u\<lparr>upload_state := UAborted\<rparr>)"

text \<open>A step of the service on its database: what the handlers of the uploads, the reaper and the
  operator commit, and the steps of the jobs.\<close>

inductive service_step :: "db \<Rightarrow> db \<Rightarrow> bool" where
  job: "job_step d d' \<Longrightarrow> service_step d d'"
| user: "distinct (map user_id (db_users d @ [x])) \<Longrightarrow> service_step d (d\<lparr>db_users := db_users d @ [x]\<rparr>)"
| reserve: "upload_state u = UOpen \<Longrightarrow> upload_manifest u = None \<Longrightarrow> add_upload u d = Inr d' \<Longrightarrow> service_step d d'"
| move: "u \<in> set (db_uploads d) \<Longrightarrow> upload_move u u' \<Longrightarrow> service_step d (put_upload u' d)"
| ready: "u \<in> set (db_uploads d) \<Longrightarrow> upload_state u = UCompleting \<Longrightarrow> create_upload_job now u d = Inr d' \<Longrightarrow> service_step d d'"
| forget: "service_step d (delete_account_rows own d)"

fun later :: "upload_state \<Rightarrow> upload_state set" where
  "later UOpen = UNIV"
| "later UCompleting = {UCompleting, UReady, UCompleted, UAborting, UAborted}"
| "later UReady = {UReady, UCompleted}"
| "later UCompleted = {UCompleted}"
| "later UAborting = {UAborting, UAborted}"
| "later UAborted = {UAborted}"

definition fixed_columns :: "upload \<Rightarrow> uuid \<times> uuid \<times> string \<times> string \<times> int \<times> int \<times> int \<times> uuid \<times> instant" where
  "fixed_columns u = (upload_id u, upload_owner_id u, upload_filename u, upload_source_key u, upload_size u,
     upload_part_size u, upload_max_fps u, upload_job_id u, upload_expires_at u)"

definition upload_evolves :: "upload \<Rightarrow> upload \<Rightarrow> bool" where
  "upload_evolves u u' \<longleftrightarrow> fixed_columns u' = fixed_columns u \<and> upload_state u' \<in> later (upload_state u)
     \<and> (upload_state u \<noteq> UOpen \<longrightarrow> upload_manifest u' = upload_manifest u)"

definition upload_ok :: "upload \<Rightarrow> bool" where
  "upload_ok u \<longleftrightarrow> upload_check u
     \<and> (case upload_state u of
          UOpen \<Rightarrow> upload_manifest u = None
        | UAborting \<Rightarrow> True | UAborted \<Rightarrow> True
        | _ \<Rightarrow> \<exists>m. upload_manifest u = Some m \<and> manifest_fits u m)"

definition uploads_inv :: "upload list \<Rightarrow> bool" where
  "uploads_inv us \<longleftrightarrow> distinct (map upload_id us) \<and> distinct (map upload_source_key us)
     \<and> distinct (map upload_job_id us) \<and> list_all upload_ok us
     \<and> (\<forall>own. length (reserved_by own us) \<le> MAX_OPEN_UPLOADS)"

lemma later_refl [simp]: "s \<in> later s"
  by (cases s) simp_all

lemma later_trans: "b \<in> later a \<Longrightarrow> c \<in> later b \<Longrightarrow> c \<in> later a"
  by (cases a; cases b) auto

lemma upload_evolves_refl [simp]: "upload_evolves u u"
  by (simp add: upload_evolves_def)

lemma upload_move_evolves: "upload_move u u' \<Longrightarrow> upload_evolves u u'"
  by (induction rule: upload_move.induct) (auto simp: upload_evolves_def fixed_columns_def)

lemma upload_move_ok: "upload_move u u' \<Longrightarrow> upload_ok u \<Longrightarrow> upload_ok u'"
  by (induction rule: upload_move.induct)
    (auto simp: upload_ok_def upload_check_def manifest_fits_def part_count_def split: upload_state.splits)

lemma upload_move_reserved:
  "upload_move u u' \<Longrightarrow> upload_state u' \<in> set RESERVED_STATES \<Longrightarrow> upload_state u \<in> set RESERVED_STATES"
  by (induction rule: upload_move.induct) (auto simp: RESERVED_STATES_def)

lemma db_uploads_job_step: "job_step d d' \<Longrightarrow> db_uploads d' = db_uploads d \<and> db_users d' = db_users d"
proof (erule job_step_cases)
qed (auto simp: insert_job_def update_job_def delete_job_def Let_def split: if_splits sum.splits prod.splits option.splits)

lemma put_upload_rows:
  assumes "distinct (map upload_id (db_uploads d))" and "u \<in> set (db_uploads d)" and "upload_id u' = upload_id u"
  shows "db_uploads (put_upload u' d) = map (\<lambda>x. if x = u then u' else x) (db_uploads d)"
  using assms unfolding put_upload_def by (auto simp: distinct_map inj_on_def)

lemma put_upload_inv:
  assumes inv: "uploads_inv (db_uploads d)" and u: "u \<in> set (db_uploads d)"
    and fixed: "fixed_columns u' = fixed_columns u" and ok: "upload_ok u'"
    and reserved: "upload_state u' \<in> set RESERVED_STATES \<Longrightarrow> upload_state u \<in> set RESERVED_STATES"
  shows "uploads_inv (db_uploads (put_upload u' d))"
proof -
  let ?f = "\<lambda>x. if x = u then u' else x"
  have rows: "db_uploads (put_upload u' d) = map ?f (db_uploads d)"
    using inv u fixed by (intro put_upload_rows) (simp_all add: uploads_inv_def fixed_columns_def)
  have keys: "map upload_id (map ?f us) = map upload_id us" "map upload_source_key (map ?f us) = map upload_source_key us"
    "map upload_job_id (map ?f us) = map upload_job_id us" for us
    using fixed by (simp_all add: fixed_columns_def)
  have "length (reserved_by own (map ?f us)) \<le> length (reserved_by own us)" for own us
    using reserved fixed by (induction us) (auto simp: reserved_by_def fixed_columns_def)
  then have "length (reserved_by own (map ?f (db_uploads d))) \<le> MAX_OPEN_UPLOADS" for own
    using inv le_trans unfolding uploads_inv_def by blast
  moreover have "list_all upload_ok (map ?f (db_uploads d))"
    using inv ok by (auto simp: uploads_inv_def list_all_iff)
  ultimately show ?thesis using inv unfolding rows uploads_inv_def keys by blast
qed

lemma filter_uploads_inv: "uploads_inv us \<Longrightarrow> uploads_inv (filter P us)"
proof -
  assume inv: "uploads_inv us"
  have "length (reserved_by own (filter P us)) \<le> length (reserved_by own us)" for own
    by (induction us) (auto simp: reserved_by_def)
  then have "length (reserved_by own (filter P us)) \<le> MAX_OPEN_UPLOADS" for own
    using inv le_trans unfolding uploads_inv_def by blast
  with inv show ?thesis by (auto simp: uploads_inv_def distinct_map_filter list_all_iff)
qed

lemma add_upload_inv:
  assumes inv: "uploads_inv (db_uploads d)" and "upload_state u = UOpen" "upload_manifest u = None" "add_upload u d = Inr d'"
  shows "uploads_inv (db_uploads d')"
proof -
  from assms(4) have d': "db_uploads d' = db_uploads d @ [u]" and check: "upload_check u"
    and fresh: "upload_id u \<notin> upload_id ` set (db_uploads d)" "upload_source_key u \<notin> upload_source_key ` set (db_uploads d)"
      "upload_job_id u \<notin> upload_job_id ` set (db_uploads d)"
    and room: "length (reserved_by (upload_owner_id u) (db_uploads d)) < MAX_OPEN_UPLOADS"
    by (auto simp: add_upload_def insert_upload_def split: option.splits if_splits)
  have "upload_ok u" using check assms(2,3) by (simp add: upload_ok_def)
  moreover have "length (reserved_by own (db_uploads d @ [u])) \<le> MAX_OPEN_UPLOADS" for own
    using inv room by (auto simp: reserved_by_def uploads_inv_def)
  ultimately show ?thesis
    using inv fresh unfolding d' uploads_inv_def by (auto simp: list_all_iff)
qed

lemma create_upload_job_rows:
  assumes "create_upload_job now u d = Inr d'"
  obtains d1 j where "create_job now (upload_owner_id u) (upload_job_id u) (upload_filename u) (upload_source_key u) (upload_max_fps u) d = Inr (d1, j)"
    and "d' = put_upload (u\<lparr>upload_state := UReady\<rparr>) d1" and "db_uploads d1 = db_uploads d" and "db_users d1 = db_users d"
  using assms db_uploads_job_step [OF job_step.create]
  by (auto simp: create_upload_job_def split: sum.splits prod.splits)

lemma move_ready:
  assumes "upload_state u = UCompleting"
  shows "upload_evolves u (u\<lparr>upload_state := UReady\<rparr>)" and "upload_ok u \<Longrightarrow> upload_ok (u\<lparr>upload_state := UReady\<rparr>)"
  using assms by (auto simp: upload_evolves_def fixed_columns_def upload_ok_def upload_check_def manifest_fits_def part_count_def)

lemma service_step_inv: "service_step d d' \<Longrightarrow> uploads_inv (db_uploads d) \<Longrightarrow> uploads_inv (db_uploads d')"
proof (induction rule: service_step.induct)
  case (move u d u')
  then have ok: "upload_ok u" by (simp add: uploads_inv_def list_all_iff)
  show ?case
  proof (rule put_upload_inv [of d u])
    show "fixed_columns u' = fixed_columns u"
      using upload_move_evolves [OF move(2)] by (simp add: upload_evolves_def)
    show "upload_ok u'" using move(2) ok by (rule upload_move_ok)
  qed (fact move upload_move_reserved [OF move(2)])+
next
  case (ready u d now d')
  from ready(3) obtain d1 j where d1: "d' = put_upload (u\<lparr>upload_state := UReady\<rparr>) d1" "db_uploads d1 = db_uploads d"
    by (rule create_upload_job_rows)
  from ready have ok: "upload_ok u" by (simp add: uploads_inv_def list_all_iff)
  show ?case
    unfolding d1(1)
  proof (rule put_upload_inv [of d1 u])
    show "fixed_columns (u\<lparr>upload_state := UReady\<rparr>) = fixed_columns u" by (simp add: fixed_columns_def)
  qed (use ready(1,4) d1(2) move_ready(2) [OF ready(2) ok] in \<open>simp_all add: RESERVED_STATES_def\<close>)
next
  case (reserve u d d')
  show ?case by (rule add_upload_inv [OF reserve(4,1,2,3)])
next
  case (job d d')
  with db_uploads_job_step [OF job(1)] show ?case by (simp only:)
qed (simp_all add: delete_account_rows_def filter_uploads_inv)

lemma same_row: "distinct (map key t) \<Longrightarrow> x \<in> set t \<Longrightarrow> y \<in> set t \<Longrightarrow> key x = key y \<Longrightarrow> x = y"
  by (auto simp: distinct_map dest: inj_onD)

lemma put_upload_evolves:
  assumes "distinct (map upload_id (db_uploads d))" "u \<in> set (db_uploads d)" "upload_evolves u u'"
    and "x \<in> set (db_uploads d)" "x' \<in> set (db_uploads (put_upload u' d))" "upload_id x' = upload_id x"
  shows "upload_evolves x x'"
proof -
  have "upload_id u' = upload_id u" using assms(3) by (simp add: upload_evolves_def fixed_columns_def)
  note rows = put_upload_rows [OF assms(1,2) this]
  from assms(5) obtain y where y: "y \<in> set (db_uploads d)" "x' = (if y = u then u' else y)"
    unfolding rows by auto
  with assms(6) \<open>upload_id u' = upload_id u\<close> have "upload_id y = upload_id x" by (cases "y = u") simp_all
  then have "y = x" by (rule same_row [OF assms(1) y(1) assms(4)])
  with y(2) assms(3) show ?thesis by (cases "y = u") simp_all
qed

lemma service_step_evolves:
  assumes "service_step d d'" and "uploads_inv (db_uploads d)"
    and "x \<in> set (db_uploads d)" and "x' \<in> set (db_uploads d')" and "upload_id x' = upload_id x"
  shows "upload_evolves x x'"
proof -
  have dist: "distinct (map upload_id (db_uploads d))" using assms(2) by (simp add: uploads_inv_def)
  have same: "upload_evolves x x'" if "x' \<in> set (db_uploads d)"
    using same_row [OF dist assms(3) that] assms(5) by simp
  show ?thesis
    using assms(1)
  proof cases
    case (move u u')
    with put_upload_evolves [OF dist move(2) upload_move_evolves [OF move(3)] assms(3)] assms(4,5) show ?thesis by blast
  next
    case (ready u now)
    from ready(3) obtain d1 j where d1: "d' = put_upload (u\<lparr>upload_state := UReady\<rparr>) d1" "db_uploads d1 = db_uploads d"
      by (rule create_upload_job_rows)
    with put_upload_evolves [of d1 u "u\<lparr>upload_state := UReady\<rparr>" x x'] dist ready move_ready(1) assms(3,4,5)
    show ?thesis by simp
  next
    case (reserve u)
    then have "db_uploads d' = db_uploads d @ [u]" "upload_id u \<notin> upload_id ` set (db_uploads d)"
      by (auto simp: add_upload_def insert_upload_def split: option.splits if_splits)
    with assms(3,4,5) show ?thesis using dist by (auto simp: distinct_map inj_on_def)
  next
    case job
    with db_uploads_job_step [OF job] assms(4) show ?thesis by (intro same) (simp only:)
  qed (use assms(4) in \<open>auto intro: same simp: delete_account_rows_def\<close>)
qed

end
