(* ===== verification/Uploads.thy ===== *)
theory Uploads
  imports Guarantees Upload_Model Queueing Cleanup
begin

text \<open>
  \<open>app/api/multipart_uploads.py\<close>, \<open>app/services/multipart_storage.py\<close> and
  \<open>app/services/upload_cleanup.py\<close>: the handlers of direct uploads and the cleanup of expired ones.
  Each takes the lock of the owner and of the row with \<open>owned\<close>, and holds it, over its calls to
  storage, until it commits. What storage answers is a \<open>multipart\<close>.
\<close>

section \<open>Storage\<close>

record multipart =
  mp_create :: "call list \<Rightarrow> string \<Rightarrow> exn + string"
  mp_sign :: "string \<Rightarrow> string \<Rightarrow> int \<Rightarrow> int \<Rightarrow> exn + string"
  mp_parts :: "call list \<Rightarrow> string \<Rightarrow> string \<Rightarrow> exn + stored_part list"
  mp_head :: "call list \<Rightarrow> string \<Rightarrow> exn + int"
    \<comment> \<open>the \<open>ContentLength\<close>\<close>
  mp_complete :: "call list \<Rightarrow> string \<Rightarrow> string \<Rightarrow> (int \<times> string) list \<Rightarrow> exn + unit"
  mp_range :: "call list \<Rightarrow> string \<Rightarrow> nat \<Rightarrow> exn + bytes"
  mp_abort :: "call list \<Rightarrow> string \<Rightarrow> string \<Rightarrow> exn + unit"

definition storage_id :: "upload \<Rightarrow> string" where
  \<comment> \<open>as an argument of storage; empty when there is none\<close>
  "storage_id u = (case upload_storage_id u of Some s \<Rightarrow> s | None \<Rightarrow> [])"

definition initiate :: "multipart \<Rightarrow> string \<Rightarrow> string io" where
  "initiate mp key = do_call (CreateMultipart key) (\<lambda>e h. mp_create mp h key)"

definition sign :: "multipart \<Rightarrow> upload \<Rightarrow> int list \<Rightarrow> int \<Rightarrow> (string \<times> string) list io" where
  "sign mp u numbers expires =
     map_io numbers (\<lambda>n. bind_io (lift (mp_sign mp (upload_source_key u) (storage_id u) n expires)) (\<lambda>url. ret (dec_int n, url)))"

definition parts :: "multipart \<Rightarrow> upload \<Rightarrow> stored_part list io" where
  "parts mp u = do_call (ListParts (upload_source_key u) (storage_id u)) (\<lambda>e h. mp_parts mp h (upload_source_key u) (storage_id u))"

definition head_object :: "multipart \<Rightarrow> string \<Rightarrow> int option io" where
  "head_object mp key =
     do_call (HeadObject key) (\<lambda>e h.
       case mp_head mp h key of
         Inr n \<Rightarrow> Inr (Some n)
       | Inl (S3Error code) \<Rightarrow> if code \<in> {''404'', ''NoSuchKey'', ''NotFound''} then Inr None else Inl (S3Error code)
       | Inl x \<Rightarrow> Inl x)"

definition complete_object :: "multipart \<Rightarrow> upload \<Rightarrow> unit io" where
  "complete_object mp u =
     (case upload_manifest u of
        None \<Rightarrow> raise (TypeError ''NoneType is not iterable'')
      | Some m \<Rightarrow>
          (let ps = map (\<lambda>p. (part_n p, part_etag p)) m
           in do_call (CompleteMultipart (upload_source_key u) (storage_id u) ps)
                (\<lambda>e h. mp_complete mp h (upload_source_key u) (storage_id u) ps)))"

definition sniff :: "multipart \<Rightarrow> string \<Rightarrow> bytes io" where
  "sniff mp key = do_call (GetRange key SNIFF_LENGTH) (\<lambda>e h.
     case mp_range mp h key SNIFF_LENGTH of Inl x \<Rightarrow> Inl x | Inr b \<Rightarrow> Inr (take SNIFF_LENGTH b))"

definition abort_storage :: "multipart \<Rightarrow> upload \<Rightarrow> unit io" where
  "abort_storage mp u =
     bind_io
       (if storage_id u = [] then ret ()
        else catch_io
          (do_call (AbortMultipart (upload_source_key u) (storage_id u)) (\<lambda>e h. mp_abort mp h (upload_source_key u) (storage_id u)))
          (\<lambda>x. case x of S3Error code \<Rightarrow> if code = ''NoSuchUpload'' then ret () else raise x | _ \<Rightarrow> raise x))
       (\<lambda>_. delete_object (upload_source_key u))"

section \<open>Rows\<close>

definition owned :: "uuid \<Rightarrow> uuid \<Rightarrow> upload task" where
  "owned k own = acquire (\<lambda>d. case get_upload k own d of Some u \<Rightarrow> Inr u | None \<Rightarrow> Inl (ApiNotFound ''not found''))"

definition save :: "upload \<Rightarrow> unit task" where
  "save u = commit_now (\<lambda>d. if upload_check u then Inr (put_upload u d) else Inl IntegrityError)"

definition active :: "upload \<Rightarrow> unit task" where
  "active u =
     bind_t clock (\<lambda>now.
       if upload_expires_at u \<le> now then raise_t (HTTPException 410 ''upload expired; start a new upload'')
       else if upload_state u \<noteq> UOpen then raise_t (HTTPException 409 ''upload no longer accepts parts'')
       else ret_t ())"

section \<open>Handlers\<close>

definition upload_lifetime :: instant where
  "upload_lifetime = 24 * 3600 * 1000000"

definition new_upload :: "instant \<Rightarrow> uuid \<Rightarrow> uuid \<Rightarrow> uuid \<Rightarrow> start_upload \<Rightarrow> upload" where
  "new_upload now k jid own r =
     (let filename = safe_filename (Some (su_filename r))
      in \<lparr>upload_id = k, upload_owner_id = own, upload_filename = filename,
          upload_source_key = ''uploads/'' @ uuid_text jid @ ''/'' @ filename, upload_storage_id = None,
          upload_size = su_size r, upload_part_size = PART_SIZE, upload_state = UOpen, upload_max_fps = su_max_fps r,
          upload_manifest = None, upload_job_id = jid, upload_created_at = now, upload_expires_at = now + upload_lifetime\<rparr>)"

definition reserve :: "upload \<Rightarrow> unit task" where
  \<comment> \<open>the owner is locked, the uploads counted and the row committed in one transaction\<close>
  "reserve u = bind_t (acquire (\<lambda>d. Inr ())) (\<lambda>_. commit_now (add_upload u))"

definition start :: "multipart \<Rightarrow> int \<Rightarrow> uuid \<Rightarrow> uuid \<Rightarrow> uuid \<Rightarrow> start_upload \<Rightarrow> (uuid \<times> int \<times> int) task" where
  "start mp max_upload_bytes k jid own r =
     (if max_upload_bytes < su_size r
      then raise_t (HTTPException 413 (''upload exceeds maximum size of '' @ dec_int max_upload_bytes @ '' bytes''))
      else bind_t clock (\<lambda>now.
        bind_t (try_t (reserve (new_upload now k jid own r))) (\<lambda>outcome.
          case outcome of
            Inl UploadLimitReached \<Rightarrow> raise_t (HTTPException 429 ''at most 5 unfinished uploads are allowed'')
          | Inl x \<Rightarrow> raise_t x
          | Inr _ \<Rightarrow>
              bind_t (owned k own) (\<lambda>u.
              bind_t (in_thread (initiate mp (upload_source_key u))) (\<lambda>s.
              bind_t (save (u\<lparr>upload_storage_id := Some s\<rparr>)) (\<lambda>_.
                ret_t (upload_id u, upload_part_size u, part_count u)))))))"

definition sign_parts :: "multipart \<Rightarrow> uuid \<Rightarrow> uuid \<Rightarrow> int list \<Rightarrow> (string \<times> string) list task" where
  "sign_parts mp k own numbers =
     bind_t (owned k own) (\<lambda>u.
     bind_t (active u) (\<lambda>_.
       if storage_id u = []
       then raise_t (HTTPException 409 ''upload initialization is incomplete; start a new upload'')
       else if part_count u < Max (set numbers)
       then raise_t (HTTPException 422 ''part number exceeds this upload's part count'')
       else bind_t clock (\<lambda>now.
         in_thread (sign mp u numbers (max 1 (min 900 ((upload_expires_at u - now) div 1000000)))))))"

definition discard :: "multipart \<Rightarrow> upload \<Rightarrow> unit task" where
  "discard mp u =
     bind_t (save (u\<lparr>upload_state := UAborting\<rparr>)) (\<lambda>_.
     bind_t (owned (upload_id u) (upload_owner_id u)) (\<lambda>u.
     bind_t (in_thread (abort_storage mp u)) (\<lambda>_.
       save (u\<lparr>upload_state := UAborted\<rparr>))))"

definition freeze :: "multipart \<Rightarrow> uuid \<Rightarrow> uuid \<Rightarrow> uploaded_part list \<Rightarrow> upload \<Rightarrow> upload task" where
  \<comment> \<open>the \<open>state == "open"\<close> block of \<open>complete\<close>\<close>
  "freeze mp k own ps u =
     bind_t (active u) (\<lambda>_.
       if storage_id u = [] then raise_t (HTTPException 409 ''upload initialization is incomplete'')
       else
         (let u1 = u\<lparr>upload_manifest := Some (manifest ps)\<rparr>
          in bind_t (in_thread (parts mp u1)) (\<lambda>actual.
             bind_t (lift_t (validate_parts u1 actual)) (\<lambda>_.
             bind_t (save (u1\<lparr>upload_state := UCompleting\<rparr>)) (\<lambda>_. owned k own)))))"

definition settle_object :: "multipart \<Rightarrow> uuid \<Rightarrow> uuid \<Rightarrow> uploaded_part list \<Rightarrow> upload \<Rightarrow> upload task" where
  \<comment> \<open>the \<open>state == "completing"\<close> block of \<open>complete\<close>\<close>
  "settle_object mp k own ps u =
     (if upload_manifest u \<noteq> Some (manifest ps)
      then raise_t (HTTPException 409 ''completion already started with different parts'')
      else
        (let key = upload_source_key u
         in bind_t (in_thread (head_object mp key)) (\<lambda>head.
            bind_t (case head of
                Some n \<Rightarrow> ret_t (Some n)
              | None \<Rightarrow> bind_t (in_thread (complete_object mp u)) (\<lambda>_. in_thread (head_object mp key))) (\<lambda>head.
              case head of
                None \<Rightarrow> raise_t (HTTPException 503 ''uploaded object is not available; retry completion'')
              | Some n \<Rightarrow>
                  if n \<noteq> upload_size u
                  then bind_t (discard mp u) (\<lambda>_.
                    raise_t (HTTPException 422 ''uploaded size does not match the declared size''))
                  else bind_t (in_thread (sniff mp key)) (\<lambda>b.
                    if sniff_video_type b = None
                    then bind_t (discard mp u) (\<lambda>_.
                      raise_t (HTTPException 415 ''file content is not a recognized video format''))
                    else bind_t clock (\<lambda>now.
                         bind_t (commit_now (create_upload_job now u)) (\<lambda>_. owned k own)))))))"

definition queue_ready :: "upload \<Rightarrow> upload task" where
  \<comment> \<open>the \<open>state == "ready"\<close> block of \<open>complete\<close>\<close>
  "queue_ready u =
     bind_t (in_thread (enqueue_job (upload_job_id u))) (\<lambda>_.
     bind_t (save (u\<lparr>upload_state := UCompleted\<rparr>)) (\<lambda>_. ret_t (u\<lparr>upload_state := UCompleted\<rparr>)))"

definition complete :: "multipart \<Rightarrow> uuid \<Rightarrow> uuid \<Rightarrow> uploaded_part list \<Rightarrow> uuid task" where
  "complete mp k own ps =
     bind_t (owned k own) (\<lambda>u.
       if upload_state u = UCompleted then ret_t (upload_job_id u)
       else if upload_state u \<in> {UAborting, UAborted} then raise_t (HTTPException 409 ''upload was cancelled'')
       else
         bind_t (if upload_state u = UOpen then freeze mp k own ps u else ret_t u) (\<lambda>u.
         bind_t (if upload_state u = UCompleting then settle_object mp k own ps u else ret_t u) (\<lambda>u.
         bind_t (if upload_state u = UReady then queue_ready u else ret_t u) (\<lambda>u.
           if upload_state u \<noteq> UCompleted
           then raise_t (HTTPException 409 ''upload cannot be completed in its current state'')
           else ret_t (upload_job_id u)))))"

record upload_progress =
  up_parts_done :: "uploaded_part list"
  up_state :: upload_state
  up_part_size :: int
  up_part_count :: int
  up_job_id :: "uuid option"

definition resume :: "multipart \<Rightarrow> uuid \<Rightarrow> uuid \<Rightarrow> upload_progress task" where
  "resume mp k own =
     bind_t (owned k own) (\<lambda>u.
     bind_t (if upload_state u = UOpen
             then bind_t (active u) (\<lambda>_.
                  bind_t (if storage_id u = [] then ret_t [] else in_thread (parts mp u)) (\<lambda>ps.
                    ret_t (map (\<lambda>p. \<lparr>part_n = sp_n p, part_etag = sp_etag p\<rparr>) ps)))
             else ret_t (case upload_manifest u of Some m \<Rightarrow> m | None \<Rightarrow> [])) (\<lambda>ps.
       ret_t \<lparr>up_parts_done = ps, up_state = upload_state u, up_part_size = upload_part_size u, up_part_count = part_count u,
              up_job_id = (if upload_state u \<in> {UReady, UCompleted} then Some (upload_job_id u) else None)\<rparr>))"

definition abort :: "multipart \<Rightarrow> uuid \<Rightarrow> uuid \<Rightarrow> unit task" where
  "abort mp k own =
     bind_t (owned k own) (\<lambda>u.
       if upload_state u \<in> {UReady, UCompleted}
       then raise_t (HTTPException 409 ''upload already created a job; delete the job instead'')
       else if upload_state u = UCompleting
       then raise_t (HTTPException 409 ''completion has started; retry completion'')
       else if upload_state u \<noteq> UAborted then discard mp u else ret_t ())"

definition upload_route :: "'a task \<Rightarrow> 'a task" where
  \<comment> \<open>\<open>UploadRoute\<close>: what is not an HTTP answer already becomes one\<close>
  "upload_route m =
     bind_t (try_t m) (\<lambda>r. case r of
       Inr a \<Rightarrow> ret_t a
     | Inl (HTTPException code text) \<Rightarrow> raise_t (HTTPException code text)
     | Inl (ApiNotFound text) \<Rightarrow> raise_t (ApiNotFound text)
     | Inl (ApiUnauthorized text) \<Rightarrow> raise_t (ApiUnauthorized text)
     | Inl (ApiForbidden text) \<Rightarrow> raise_t (ApiForbidden text)
     | Inl x \<Rightarrow> raise_t (HTTPException 503 ''upload could not be confirmed; refresh and try again''))"

section \<open>Uploads through the API\<close>

text \<open>\<open>POST /upload\<close> of \<open>app/api/uploads.py\<close>: the file in one request.\<close>

definition MAX_FILE_SIZE :: int where "MAX_FILE_SIZE = 100 * 1024 * 1024"
definition ALLOWED_MAX_FPS :: "int list" where "ALLOWED_MAX_FPS = [30, 60]"

record upload_file =
  uf_filename :: "string option"
  uf_content_type :: "string option"
  uf_body :: bytes

definition declared_type :: "upload_file \<Rightarrow> string" where
  "declared_type f = lower (strip (hd (split_on CHR '';'' (case uf_content_type f of Some s \<Rightarrow> s | None \<Rightarrow> []))))"

definition upload_video ::
  "(call list \<Rightarrow> string \<Rightarrow> exn + unit) \<Rightarrow> uuid \<Rightarrow> uuid \<Rightarrow> upload_file \<Rightarrow> int \<Rightarrow> uuid task"
where
  \<comment> \<open>\<open>put_stream\<close> is what storage answers\<close>
  "upload_video put_stream jid own f max_fps =
     (if max_fps \<notin> set ALLOWED_MAX_FPS then raise_t (HTTPException 422 ''max_fps must be 30 or 60'')
      else if declared_type f \<notin> set ALLOWED_CONTENT_TYPES then raise_t (HTTPException 415 ''unsupported media type'')
      else if MAX_FILE_SIZE < int (length (uf_body f)) then raise_t (HTTPException 413 ''file too large'')
      else case sniff_video_type (take SNIFF_LENGTH (uf_body f)) of
             None \<Rightarrow> raise_t (HTTPException 415 ''file content is not a recognized video format'')
           | Some sniffed_type \<Rightarrow>
               (let filename = safe_filename (uf_filename f);
                    source_key = ''uploads/'' @ uuid_text jid @ ''/'' @ filename
                in bind_t (in_thread (do_call (PutStream source_key (int (length (uf_body f))) sniffed_type)
                       (\<lambda>e h. put_stream h source_key))) (\<lambda>_.
                   bind_t (session (\<lambda>now. create_job now own jid filename source_key max_fps)) (\<lambda>_.
                   bind_t (in_thread (enqueue_job jid)) (\<lambda>_. ret_t jid)))))"

lemma create_job_row:
  assumes "create_job now own k name src fps d = Inr (d', j)"
  shows "find_row job_id k (db_jobs d') = Some (new_job now k own name src None fps)"
proof -
  let ?j = "new_job now k own name src None fps"
  have id: "job_id ?j = k" by (simp add: new_job_def)
  from assms have "db_jobs d' = db_jobs d @ [?j]" "job_id ?j \<notin> job_id ` set (db_jobs d)"
    by (auto simp: create_job_def insert_job_def insert_row_def split: if_splits)
  moreover from this(2) have "find_row job_id k (db_jobs d) = None" by (simp add: find_row_None id)
  moreover have "find_row job_id k [?j] = Some ?j" by (simp add: find_row_def id)
  ultimately show ?thesis by (simp add: find_row_append)
qed

text \<open>What an upload does in order: it stores the file, as what its bytes are, in the folder of its own
  job, then commits the row, then queues it. It stops at the first failure, and does nothing at all
  when it refuses the file.\<close>

definition upload_events :: "uuid \<Rightarrow> uuid \<Rightarrow> upload_file \<Rightarrow> string \<Rightarrow> db \<Rightarrow> event list" where
  "upload_events jid own f ty d1 =
     [Call (PutStream (''uploads/'' @ uuid_text jid @ ''/'' @ safe_filename (uf_filename f)) (int (length (uf_body f))) ty),
      Commit d1, Call (Enqueue PROCESS_JOB_TASK jid), Call (Wake 1)]"

text \<open>C11. An upload through the API does, in this order and stopping at the first failure: store the file
  under its job's folder with the type its bytes have, commit the job's row, queue the job, wake a
  worker. It answers with the job exactly when all were done, and refuses a file that is no video, is
  declared as something else or is too large before doing any of them.\<close>

theorem upload_video_order:
  assumes "upload_video put_stream jid own f max_fps W t d = (r, t', d')"
  shows "\<exists>n d1 ty. t' = t @ take n (upload_events jid own f ty d1)
     \<and> (0 < n \<longrightarrow> sniff_video_type (take SNIFF_LENGTH (uf_body f)) = Some ty \<and> int (length (uf_body f)) \<le> MAX_FILE_SIZE
          \<and> declared_type f \<in> set ALLOWED_CONTENT_TYPES)
     \<and> (r = Inr jid \<longleftrightarrow> n = 4)
     \<and> (1 < n \<longrightarrow> d' = d1 \<and> (\<exists>j. find_row job_id jid (db_jobs d1) = Some j \<and> job_status j = Queued \<and> job_owner_id j = own))"
proof -
  let ?name = "safe_filename (uf_filename f)"
  let ?key = "''uploads/'' @ uuid_text jid @ ''/'' @ ?name"
  consider (refused) x where "r = Inl x" "t' = t"
    | (accepted) ty where "sniff_video_type (take SNIFF_LENGTH (uf_body f)) = Some ty" "int (length (uf_body f)) \<le> MAX_FILE_SIZE"
        "declared_type f \<in> set ALLOWED_CONTENT_TYPES"
        "bind_t (in_thread (do_call (PutStream ?key (int (length (uf_body f))) ty) (\<lambda>e h. put_stream h ?key))) (\<lambda>_.
           bind_t (session (\<lambda>now. create_job now own jid ?name ?key max_fps)) (\<lambda>_.
           bind_t (in_thread (enqueue_job jid)) (\<lambda>_. ret_t jid))) W t d = (r, t', d')"
    using assms unfolding upload_video_def Let_def by (auto split: if_splits option.splits)
  then show ?thesis
  proof cases
    case refused
    then show ?thesis by (intro exI [of _ 0]) simp
  next
    case accepted
    let ?put = "Call (PutStream ?key (int (length (uf_body f))) ty)"
    let ?t1 = "t @ [?put]"
    let ?tx = "create_job (w_now W ?t1) own jid ?name ?key max_fps (w_others W ?t1 d)"
    have put: "in_thread (do_call (PutStream ?key (int (length (uf_body f))) ty) (\<lambda>e h. put_stream h ?key)) W t d
        = (put_stream (calls_of t) ?key, ?t1, d)"
      by (simp add: in_thread_def do_call_def)
    show ?thesis
    proof (cases "put_stream (calls_of t) ?key")
      case (Inl x)
      with accepted(4) put have "r = Inl x" "t' = ?t1" by (auto simp add: bind_t_def)
      with accepted(1-3) show ?thesis
        by (intro exI [of _ 1] exI [of _ d] exI [of _ ty]) (simp add: upload_events_def)
    next
      case (Inr u)
      have stored: "bind_t (session (\<lambda>now. create_job now own jid ?name ?key max_fps)) (\<lambda>_.
          bind_t (in_thread (enqueue_job jid)) (\<lambda>_. ret_t jid)) W ?t1 d = (r, t', d')"
        using accepted(4) Inr unfolding bind_t_eq [where m = "in_thread (do_call (PutStream ?key (int (length (uf_body f))) ty) (\<lambda>e h. put_stream h ?key))"
            and W = W and t = t and d = d, OF put] by (simp only: sum.case)
      show ?thesis
      proof (cases ?tx)
        case (Inl x)
        with stored have "r = Inl x" "t' = ?t1" by (simp_all add: bind_t_def session_def)
        with accepted(1-3) show ?thesis
          by (intro exI [of _ 1] exI [of _ d] exI [of _ ty]) (simp add: upload_events_def)
      next
        case (Inr p)
        obtain d1 j where p: "p = (d1, j)" by fastforce
        with Inr have tx: "?tx = Inr (d1, j)" by simp
        note row = create_job_row [OF tx]
        have run: "bind_t (in_thread (enqueue_job jid)) (\<lambda>_. ret_t jid) W (?t1 @ [Commit d1]) d1 = (r, t', d')"
        proof -
          have "session (\<lambda>now. create_job now own jid ?name ?key max_fps) W ?t1 d = (Inr j, ?t1 @ [Commit d1], d1)"
            unfolding session_def tx by (simp only: sum.case prod.case)
          from stored [unfolded bind_t_Inr [where m = "session (\<lambda>now. create_job now own jid ?name ?key max_fps)" and W = W and t = ?t1 and d = d, OF this]]
          show ?thesis .
        qed
        show ?thesis
        proof (cases "e_enqueue (w_env W) (calls_of ?t1) PROCESS_JOB_TASK jid")
          case (Inl x)
          with run have "r = Inl x" "d' = d1" "t' = ?t1 @ [Commit d1, Call (Enqueue PROCESS_JOB_TASK jid)]"
            by (auto simp add: bind_t_def in_thread_def enqueue_job_def enqueue_def wake_workers_def bind_io_def do_call_def)
          with accepted(1-3) row show ?thesis
            by (intro exI [of _ 3] exI [of _ d1] exI [of _ ty]) (simp add: upload_events_def new_job_def)
        next
          case (Inr v)
          with run have "r = Inr jid" "d' = d1" "t' = ?t1 @ [Commit d1, Call (Enqueue PROCESS_JOB_TASK jid), Call (Wake 1)]"
            by (auto simp add: bind_t_def in_thread_def enqueue_job_def enqueue_def wake_workers_def bind_io_def do_call_def)
          with accepted(1-3) row show ?thesis
            by (intro exI [of _ 4] exI [of _ d1] exI [of _ ty]) (simp add: upload_events_def new_job_def)
        qed
      qed
    qed
  qed
qed

section \<open>Cleanup of expired uploads\<close>

definition cleanup_one :: "multipart \<Rightarrow> uuid \<times> uuid \<Rightarrow> bool task" where
  "cleanup_one mp candidate =
     bind_t (try_t
       (bind_t (acquire (\<lambda>d. Inr (get_upload (fst candidate) (snd candidate) d))) (\<lambda>row.
          case row of
            None \<Rightarrow> ret_t False
          | Some u \<Rightarrow>
              if upload_state u \<notin> {UOpen, UCompleting, UAborting} then ret_t False
              else bind_t (in_thread (abort_storage mp (u\<lparr>upload_state := UAborting\<rparr>))) (\<lambda>_.
                   bind_t (save (u\<lparr>upload_state := UAborted\<rparr>)) (\<lambda>_. ret_t True)))))
       (\<lambda>r. ret_t (case r of Inr b \<Rightarrow> b | Inl _ \<Rightarrow> False))"

definition cleanup_expired :: "multipart \<Rightarrow> nat task" where
  "cleanup_expired mp =
     bind_t clock (\<lambda>now.
     bind_t (acquire (\<lambda>d. Inr (map (\<lambda>u. (upload_id u, upload_owner_id u))
         (filter (\<lambda>u. upload_expires_at u \<le> now \<and> upload_state u \<in> {UOpen, UCompleting, UAborting}) (db_uploads d)))))
       (\<lambda>candidates. counting candidates (cleanup_one mp)))"

section \<open>Requests\<close>

datatype request =
    Start uuid uuid uuid start_upload
  | SignParts uuid uuid "int list"
  | Complete uuid uuid "uploaded_part list"
  | Resume uuid uuid
  | Abort uuid uuid
  | CleanUp

definition unprocessable :: "'a task" where
  "unprocessable = raise_t (HTTPException 422 ''request validation failed'')"

fun serve_upload :: "multipart \<Rightarrow> int \<Rightarrow> request \<Rightarrow> unit task" where
  "serve_upload mp limit (Start k jid own r) =
     (if start_upload_valid r then upload_route (bind_t (start mp limit k jid own r) (\<lambda>_. ret_t ())) else unprocessable)"
| "serve_upload mp limit (SignParts k own ns) =
     (if sign_parts_valid ns then upload_route (bind_t (sign_parts mp k own ns) (\<lambda>_. ret_t ())) else unprocessable)"
| "serve_upload mp limit (Complete k own ps) =
     (if complete_upload_valid ps then upload_route (bind_t (complete mp k own ps) (\<lambda>_. ret_t ())) else unprocessable)"
| "serve_upload mp limit (Resume k own) = upload_route (bind_t (resume mp k own) (\<lambda>_. ret_t ()))"
| "serve_upload mp limit (Abort k own) = upload_route (abort mp k own)"
| "serve_upload mp limit CleanUp = bind_t (cleanup_expired mp) (\<lambda>_. ret_t ())"

end
