(* ===== verification/Upload_Safety.thy ===== *)
theory Upload_Safety
  imports Uploads Tasks
begin

text \<open>
  What the handlers of \<open>Uploads\<close> commit, on every interleaving with the other requests, the cleanup and
  the workers: they are proved to keep within \<open>upload_guarantee\<close>, and the properties follow from it.
\<close>

section \<open>What the handlers commit\<close>

definition head_seen :: "multipart \<Rightarrow> upload \<Rightarrow> call list \<Rightarrow> bool" where
  \<comment> \<open>storage has given the object's size as the declared one\<close>
  "head_seen mp u h \<longleftrightarrow> (\<exists>h1 z. h = h1 @ HeadObject (upload_source_key u) # z
     \<and> mp_head mp h1 (upload_source_key u) = Inr (upload_size u))"

definition content_seen :: "multipart \<Rightarrow> upload \<Rightarrow> call list \<Rightarrow> bool" where
  \<comment> \<open>the object's first bytes have been read, and are a video's\<close>
  "content_seen mp u h \<longleftrightarrow> (\<exists>h1 z b. h = h1 @ GetRange (upload_source_key u) SNIFF_LENGTH # z
     \<and> mp_range mp h1 (upload_source_key u) SNIFF_LENGTH = Inr b \<and> sniff_video_type (take SNIFF_LENGTH b) \<noteq> None)"

definition job_of_upload :: "upload \<Rightarrow> job \<Rightarrow> bool" where
  "job_of_upload u j \<longleftrightarrow> job_id j = upload_job_id u \<and> job_owner_id j = upload_owner_id u
     \<and> job_source_key j = upload_source_key u \<and> job_status j = Queued \<and> job_max_fps j = upload_max_fps u"

definition upload_guarantee :: "multipart \<Rightarrow> guarantee" where
  "upload_guarantee mp t d d' \<longleftrightarrow> service_step d d'
     \<and> (\<forall>j. j \<in> set (db_jobs d') - set (db_jobs d) \<longrightarrow>
          (\<exists>u\<in>set (db_uploads d). upload_state u = UCompleting \<and> job_of_upload u j
             \<and> head_seen mp u (calls_of t) \<and> content_seen mp u (calls_of t)))"

definition others_serve :: "world \<Rightarrow> bool" where
  \<comment> \<open>the other processes change the database by the steps of the service, and \<open>uuid4\<close> repeats no identifier\<close>
  "others_serve W \<longleftrightarrow>
     (\<forall>t d. service_step\<^sup>*\<^sup>* d (w_others W t d)
        \<and> (uploads_inv (db_uploads d) \<longrightarrow> (\<forall>u\<in>set (db_uploads d). \<forall>u'\<in>set (db_uploads (w_others W t d)).
               upload_id u = upload_id u' \<longrightarrow> upload_evolves u u')))"

lemma service_steps_inv: "service_step\<^sup>*\<^sup>* d d' \<Longrightarrow> uploads_inv (db_uploads d) \<Longrightarrow> uploads_inv (db_uploads d')"
  by (induction rule: rtranclp_induct) (auto dest: service_step_inv)

definition holds_row :: "upload \<Rightarrow> event list \<Rightarrow> db \<Rightarrow> bool" where
  "holds_row u t d \<longleftrightarrow> u \<in> set (db_uploads d) \<and> uploads_inv (db_uploads d)"

definition serving :: "world \<Rightarrow> world" where
  \<comment> \<open>the world itself if the others only serve, and otherwise the same without others\<close>
  "serving W = (if others_serve W then W else W\<lparr>w_others := (\<lambda>t d. d)\<rparr>)"

interpretation uploads_kept: kept "serving W" "upload_guarantee mp" "\<lambda>d. uploads_inv (db_uploads d)" for W mp
proof
  fix t and d d' :: db
  assume inv: "uploads_inv (db_uploads d)"
  have "service_step\<^sup>*\<^sup>* d (w_others (serving W) t d)" by (simp add: serving_def others_serve_def)
  then show "uploads_inv (db_uploads (w_others (serving W) t d))" using inv by (rule service_steps_inv)
  assume "upload_guarantee mp t d d'"
  then have "service_step d d'" by (simp add: upload_guarantee_def)
  then show "uploads_inv (db_uploads d')" using inv by (rule service_step_inv)
qed

lemma kept_uploads: "others_serve W \<Longrightarrow> kept W (upload_guarantee mp) (\<lambda>d. uploads_inv (db_uploads d))"
  using uploads_kept.kept_axioms [of W mp] by (simp add: serving_def)

lemma ensures_calls:
  assumes "writes_only K m" and "\<And>t d cs. P t d \<Longrightarrow> P (t @ map Call cs) d"
  shows "ensures W G P (in_thread m) (\<lambda>_. P)"
proof (rule ensures_thread)
  fix t d r h
  assume P: "P t d" and run: "m (w_env W) (calls_of t) = (r, h)"
  obtain cs where "h = calls_of t @ cs" using writes_onlyD [OF assms(1) run] by blast
  with assms(2) [OF P, of cs]
  show "\<exists>cs. h = calls_of t @ cs \<and> (\<forall>a. r = Inr a \<longrightarrow> P (t @ map Call cs) d)"
    by (intro exI [of _ cs]) simp
qed

lemma ensures_clock: "ensures W G P clock (\<lambda>_. P)"
  by (rule ensuresI) (auto simp: clock_def)

lemma ensures_active: "ensures W G P (active u) (\<lambda>_ t d. P t d \<and> upload_state u = UOpen)"
  unfolding active_def by (rule ensures_bind [OF ensures_clock]) (auto intro!: ensure ensures_ret)

lemma get_upload_row: "get_upload k own d = Some u \<Longrightarrow> u \<in> set (db_uploads d) \<and> upload_id u = k \<and> upload_owner_id u = own"
  by (auto simp: get_upload_def find_Some_iff split: option.splits)

lemma ensures_owned:
  assumes "others_serve W"
  shows "ensures W G (\<lambda>t d. uploads_inv (db_uploads d)) (owned k own) (\<lambda>u t d. holds_row u t d \<and> upload_id u = k)"
  unfolding owned_def
proof (rule ensures_acquire)
  fix t d u
  assume "uploads_inv (db_uploads d)"
    and f: "(case get_upload k own (w_others W t d) of Some u \<Rightarrow> Inr u | None \<Rightarrow> Inl (ApiNotFound ''not found'')) = Inr u"
  then have "uploads_inv (db_uploads (w_others W t d))"
    using kept.others_keep [OF kept_uploads [OF assms]] by blast
  with f get_upload_row show "holds_row u t (w_others W t d) \<and> upload_id u = k"
    by (auto simp: holds_row_def split: option.splits)
qed

lemma ensures_owned_again:
  assumes "others_serve W"
  shows "ensures W G (holds_row u) (owned (upload_id u) own) (\<lambda>u2 t d. holds_row u2 t d \<and> upload_evolves u u2)"
  unfolding owned_def
proof (rule ensures_acquire)
  fix t d u2
  assume row: "holds_row u t d"
    and f: "(case get_upload (upload_id u) own (w_others W t d) of Some u \<Rightarrow> Inr u | None \<Rightarrow> Inl (ApiNotFound ''not found'')) = Inr u2"
  then have "uploads_inv (db_uploads (w_others W t d))"
    using kept.others_keep [OF kept_uploads [OF assms]] by (simp add: holds_row_def)
  moreover have "u2 \<in> set (db_uploads (w_others W t d))" "upload_id u2 = upload_id u"
    using f get_upload_row by (auto split: option.splits)
  moreover from this row have "upload_evolves u u2"
    using assms by (auto simp: others_serve_def holds_row_def)
  ultimately show "holds_row u2 t (w_others W t d) \<and> upload_evolves u u2" by (simp add: holds_row_def)
qed

lemma put_upload_row: "u \<in> set (db_uploads d) \<Longrightarrow> upload_id u' = upload_id u \<Longrightarrow> u' \<in> set (db_uploads (put_upload u' d))"
  by (auto simp: put_upload_def)

lemma ensures_save:
  assumes "upload_move u u'"
  shows "ensures W (upload_guarantee mp) (holds_row u) (save u') (\<lambda>_. holds_row u')"
  unfolding save_def
proof (rule ensures_commit)
  fix t d d'
  assume "holds_row u t d" and "(if upload_check u' then Inr (put_upload u' d) else Inl IntegrityError) = Inr d'"
  then have row: "u \<in> set (db_uploads d)" "uploads_inv (db_uploads d)" and d': "d' = put_upload u' d"
    by (auto simp: holds_row_def split: if_splits)
  have step: "service_step d d'" unfolding d' using row(1) assms by (rule service_step.move)
  have "upload_id u' = upload_id u"
    using upload_move_evolves [OF assms] by (simp add: upload_evolves_def fixed_columns_def)
  with put_upload_row [OF row(1)] have "u' \<in> set (db_uploads d')" unfolding d' by blast
  moreover have "db_jobs d' = db_jobs d" by (simp add: d' put_upload_def)
  ultimately show "upload_guarantee mp t d d' \<and> holds_row u' (t @ [Commit d']) d'"
    using step service_step_inv [OF step row(2)] by (simp add: upload_guarantee_def holds_row_def)
qed

lemma holds_row_inv: "holds_row u t d \<Longrightarrow> uploads_inv (db_uploads d)"
  by (simp add: holds_row_def)

lemma holds_row_calls: "holds_row u t d \<Longrightarrow> holds_row u (t @ map Call cs) d"
  by (simp add: holds_row_def)

lemma writes_map_io: "(\<And>x. writes_only K (f x)) \<Longrightarrow> writes_only K (map_io xs f)"
  by (induction xs) (auto intro!: writes)

lemma storage_calls:
  "writes_only (\<lambda>_. True) (initiate mp key)" "writes_only (\<lambda>_. True) (sign mp u ns n)"
  "writes_only (\<lambda>_. True) (parts mp u)" "writes_only (\<lambda>_. True) (complete_object mp u)"
  "writes_only (\<lambda>_. True) (abort_storage mp u)" "writes_only (\<lambda>_. True) (enqueue_job k)"
  unfolding initiate_def sign_def parts_def complete_object_def abort_storage_def enqueue_job_def enqueue_def
    wake_workers_def delete_object_def Let_def
  by (auto intro!: writes writes_call writes_map_io split: option.split exn.split)

lemma ensures_discard:
  assumes W: "others_serve W" and state: "upload_state u \<in> {UOpen, UCompleting, UAborting}"
  shows "ensures W (upload_guarantee mp) (holds_row u) (discard mp u) (\<lambda>_ t d. uploads_inv (db_uploads d))"
  unfolding discard_def
proof (rule ensures_bind [OF ensures_save [OF upload_move.aborting [OF state]]], rule ensures_bind)
  let ?u = "u\<lparr>upload_state := UAborting\<rparr>"
  show "ensures W (upload_guarantee mp) (holds_row ?u) (owned (upload_id u) (upload_owner_id u))
      (\<lambda>u2 t d. holds_row u2 t d \<and> upload_evolves ?u u2)"
    using ensures_owned_again [OF W, of _ ?u "upload_owner_id u"] by simp
  fix u2
  show "ensures W (upload_guarantee mp) (\<lambda>t d. holds_row u2 t d \<and> upload_evolves ?u u2)
      (bind_t (in_thread (abort_storage mp u2)) (\<lambda>_. save (u2\<lparr>upload_state := UAborted\<rparr>)))
      (\<lambda>_ t d. uploads_inv (db_uploads d))"
  proof (rule ensures_bind [OF ensures_calls [OF storage_calls(5)]])
    show "ensures W (upload_guarantee mp) (\<lambda>t d. holds_row u2 t d \<and> upload_evolves ?u u2)
        (save (u2\<lparr>upload_state := UAborted\<rparr>)) (\<lambda>_ t d. uploads_inv (db_uploads d))"
    proof (cases "upload_evolves ?u u2")
      case True
      then have "upload_state u2 \<in> {UOpen, UCompleting, UAborting, UAborted}" by (simp add: upload_evolves_def)
      from ensures_save [OF upload_move.aborted [OF this]] show ?thesis
        by (rule ensures_weaken) (auto simp: holds_row_inv)
    qed (simp add: ensures_def)
  qed (auto intro: holds_row_calls)
qed

lemma ensures_freeze:
  assumes W: "others_serve W" and ps: "complete_upload_valid ps"
  shows "ensures W (upload_guarantee mp) (holds_row u) (freeze mp k own ps u) holds_row"
proof -
  let ?m = "manifest ps" and ?u1 = "u\<lparr>upload_manifest := Some (manifest ps)\<rparr>"
  have fits: "manifest_fits u ?m" if "validate_parts ?u1 actual = Inr ()" for actual
  proof -
    have "int (length ps) = part_count u" using validate_parts_pairs [OF that] by simp
    then show ?thesis
      using manifest_numbers [of ps] ps unfolding manifest_fits_def complete_upload_valid_def by (simp only: simp_thms)
  qed
  have move: "ensures W (upload_guarantee mp) (\<lambda>t d. validate_parts ?u1 actual = Inr a \<and> holds_row u t d \<and> upload_state u = UOpen)
      (save (?u1\<lparr>upload_state := UCompleting\<rparr>)) (\<lambda>_ t d. uploads_inv (db_uploads d))" for actual a
  proof (cases "validate_parts ?u1 actual = Inr () \<and> upload_state u = UOpen")
    case True
    with fits have "manifest_fits u ?m" by blast
    with upload_move.frozen [of u ?m] True have "upload_move u (?u1\<lparr>upload_state := UCompleting\<rparr>)" by simp
    from ensures_save [OF this] show ?thesis by (rule ensures_weaken) (auto simp: holds_row_inv)
  qed (auto simp: ensures_def)
  have again: "ensures W (upload_guarantee mp) (\<lambda>t d. uploads_inv (db_uploads d)) (owned k own) holds_row"
    by (rule ensures_post [OF ensures_owned [OF W]]) simp
  show ?thesis
    unfolding freeze_def Let_def
  proof (rule ensures_bind [OF ensures_active], rule ensures_if, rule ensures_raise, rule ensures_bind)
    show "ensures W (upload_guarantee mp) (\<lambda>t d. holds_row u t d \<and> upload_state u = UOpen) (in_thread (parts mp ?u1))
        (\<lambda>_ t d. holds_row u t d \<and> upload_state u = UOpen)"
      by (rule ensures_calls [OF storage_calls(3)]) (simp add: holds_row_calls)
  qed (rule ensures_bind [OF ensures_lift], rule ensures_bind [OF move again])
qed

definition observed :: "multipart \<Rightarrow> upload \<Rightarrow> int option \<Rightarrow> event list \<Rightarrow> db \<Rightarrow> bool" where
  "observed mp u r t d \<longleftrightarrow> holds_row u t d \<and> (r = Some (upload_size u) \<longrightarrow> head_seen mp u (calls_of t))"

lemma head_seen_more: "head_seen mp u h \<Longrightarrow> head_seen mp u (h @ cs)"
  unfolding head_seen_def by (metis append.assoc append_Cons)

lemma ensures_head:
  "ensures W G (holds_row u) (in_thread (head_object mp (upload_source_key u))) (observed mp u)"
proof (rule ensures_thread)
  fix t d r h
  assume row: "holds_row u t d" and run: "head_object mp (upload_source_key u) (w_env W) (calls_of t) = (r, h)"
  then have h: "h = calls_of t @ [HeadObject (upload_source_key u)]" by (simp add: head_object_def do_call_def)
  moreover have "mp_head mp (calls_of t) (upload_source_key u) = Inr n" if "r = Inr (Some n)" for n
    using run that by (auto simp: head_object_def do_call_def split: sum.splits exn.splits if_splits)
  ultimately show "\<exists>cs. h = calls_of t @ cs \<and> (\<forall>a. r = Inr a \<longrightarrow> observed mp u a (t @ map Call cs) d)"
    using row by (intro exI [of _ "[HeadObject (upload_source_key u)]"]) (auto simp: observed_def head_seen_def holds_row_def)
qed

lemma content_seenI:
  "mp_range mp h (upload_source_key u) SNIFF_LENGTH = Inr c \<Longrightarrow> sniff_video_type (take SNIFF_LENGTH c) \<noteq> None \<Longrightarrow>
     content_seen mp u (h @ [GetRange (upload_source_key u) SNIFF_LENGTH])"
  unfolding content_seen_def by blast

lemma ensures_sniff:
  "ensures W G (\<lambda>t d. holds_row u t d \<and> head_seen mp u (calls_of t)) (in_thread (sniff mp (upload_source_key u)))
     (\<lambda>b t d. holds_row u t d \<and> head_seen mp u (calls_of t) \<and> (sniff_video_type b \<noteq> None \<longrightarrow> content_seen mp u (calls_of t)))"
proof (rule ensures_thread)
  let ?key = "upload_source_key u"
  fix t d r h
  assume row: "holds_row u t d \<and> head_seen mp u (calls_of t)"
    and run: "sniff mp ?key (w_env W) (calls_of t) = (r, h)"
  then have h: "h = calls_of t @ [GetRange ?key SNIFF_LENGTH]" by (simp add: sniff_def do_call_def)
  moreover have "\<exists>c. mp_range mp (calls_of t) ?key SNIFF_LENGTH = Inr c \<and> b = take SNIFF_LENGTH c" if "r = Inr b" for b
    using run that by (auto simp: sniff_def do_call_def split: sum.splits)
  then have "content_seen mp u (calls_of t @ [GetRange ?key SNIFF_LENGTH])" if "r = Inr b" "sniff_video_type b \<noteq> None" for b
    using that content_seenI by blast
  ultimately show "\<exists>cs. h = calls_of t @ cs \<and> (\<forall>a. r = Inr a \<longrightarrow> holds_row u (t @ map Call cs) d
      \<and> head_seen mp u (calls_of (t @ map Call cs))
      \<and> (sniff_video_type a \<noteq> None \<longrightarrow> content_seen mp u (calls_of (t @ map Call cs))))"
    using row by (intro exI [of _ "[GetRange ?key SNIFF_LENGTH]"])
      (simp add: holds_row_def head_seen_more)
qed

lemma ensures_create_job:
  assumes "upload_state u = UCompleting"
  shows "ensures W (upload_guarantee mp)
     (\<lambda>t d. holds_row u t d \<and> head_seen mp u (calls_of t) \<and> content_seen mp u (calls_of t))
     (commit_now (create_upload_job now u)) (\<lambda>_ t d. uploads_inv (db_uploads d))"
proof (rule ensures_commit)
  fix t d d'
  assume pre: "holds_row u t d \<and> head_seen mp u (calls_of t) \<and> content_seen mp u (calls_of t)"
    and c: "create_upload_job now u d = Inr d'"
  then have row: "u \<in> set (db_uploads d)" "uploads_inv (db_uploads d)" by (simp_all add: holds_row_def)
  have step: "service_step d d'" using row(1) assms c by (rule service_step.ready)
  from c obtain d1 j where d1: "create_job now (upload_owner_id u) (upload_job_id u) (upload_filename u)
      (upload_source_key u) (upload_max_fps u) d = Inr (d1, j)" "d' = put_upload (u\<lparr>upload_state := UReady\<rparr>) d1"
    by (rule create_upload_job_rows)
  from d1(1) have "db_jobs d1 = db_jobs d @ [new_job now (upload_job_id u) (upload_owner_id u) (upload_filename u)
      (upload_source_key u) None (upload_max_fps u)]"
    by (auto simp: create_job_def insert_job_def insert_row_def split: if_splits)
  then have "job_of_upload u j'" if "j' \<in> set (db_jobs d') - set (db_jobs d)" for j'
    using that d1(2) by (auto simp: put_upload_def job_of_upload_def new_job_def)
  with step row(1) assms pre service_step_inv [OF step row(2)]
  show "upload_guarantee mp t d d' \<and> uploads_inv (db_uploads d')"
    unfolding upload_guarantee_def by blast
qed

lemma ensures_settle_object:
  assumes W: "others_serve W" and state: "upload_state u = UCompleting"
  shows "ensures W (upload_guarantee mp) (holds_row u) (settle_object mp k own ps u) holds_row"
proof -
  let ?key = "upload_source_key u" and ?G = "upload_guarantee mp"
  have "upload_state u \<in> {UOpen, UCompleting, UAborting}" using state by simp
  note discard = ensures_discard [OF W this]
  have refuse: "ensures W ?G P (bind_t (discard mp u) (\<lambda>_. raise_t x)) holds_row"
    if "\<And>t d. P t d \<Longrightarrow> holds_row u t d" for P x
    by (rule ensures_bind [OF ensures_pre [OF discard] ensures_raise]) (rule that)
  have again: "ensures W ?G (\<lambda>t d. uploads_inv (db_uploads d)) (owned k own) holds_row"
    by (rule ensures_post [OF ensures_owned [OF W]]) simp
  have second: "ensures W ?G (observed mp u head)
      (case head of Some n \<Rightarrow> ret_t (Some n)
       | None \<Rightarrow> bind_t (in_thread (complete_object mp u)) (\<lambda>_. in_thread (head_object mp ?key))) (observed mp u)" for head
  proof (cases head)
    case None
    have "ensures W ?G (holds_row u) (bind_t (in_thread (complete_object mp u)) (\<lambda>_. in_thread (head_object mp ?key))) (observed mp u)"
      by (rule ensures_bind [OF ensures_calls [OF storage_calls(4)] ensures_head]) (rule holds_row_calls)
    then show ?thesis unfolding None option.case by (rule ensures_pre) (simp add: observed_def)
  qed (auto intro: ensures_ret)
  have content: "ensures W ?G (\<lambda>t d. holds_row u t d \<and> head_seen mp u (calls_of t) \<and> (sniff_video_type b \<noteq> None \<longrightarrow> content_seen mp u (calls_of t)))
      (if sniff_video_type b = None then bind_t (discard mp u) (\<lambda>_. raise_t x)
       else bind_t clock (\<lambda>now. bind_t (commit_now (create_upload_job now u)) (\<lambda>_. owned k own))) holds_row" for b x
  proof (rule ensures_if)
    assume "sniff_video_type b \<noteq> None"
    then show "ensures W ?G (\<lambda>t d. holds_row u t d \<and> head_seen mp u (calls_of t) \<and> (sniff_video_type b \<noteq> None \<longrightarrow> content_seen mp u (calls_of t)))
        (bind_t clock (\<lambda>now. bind_t (commit_now (create_upload_job now u)) (\<lambda>_. owned k own))) holds_row"
      by (intro ensures_bind [OF ensures_clock] ensures_bind [OF ensures_pre [OF ensures_create_job [OF state]] again]) simp
  qed (rule refuse, simp)
  show ?thesis
    unfolding settle_object_def Let_def
  proof (rule ensures_if, rule ensures_raise, rule ensures_bind [OF ensures_head], rule ensures_bind [OF second])
    fix head
    show "ensures W ?G (observed mp u head)
        (case head of None \<Rightarrow> raise_t (HTTPException 503 ''uploaded object is not available; retry completion'')
         | Some n \<Rightarrow>
             if n \<noteq> upload_size u
             then bind_t (discard mp u) (\<lambda>_. raise_t (HTTPException 422 ''uploaded size does not match the declared size''))
             else bind_t (in_thread (sniff mp ?key)) (\<lambda>b.
               if sniff_video_type b = None
               then bind_t (discard mp u) (\<lambda>_. raise_t (HTTPException 415 ''file content is not a recognized video format''))
               else bind_t clock (\<lambda>now. bind_t (commit_now (create_upload_job now u)) (\<lambda>_. owned k own)))) holds_row"
    proof (cases head)
      case (Some n)
      have "ensures W ?G (observed mp u head) (bind_t (in_thread (sniff mp ?key)) (\<lambda>b.
               if sniff_video_type b = None
               then bind_t (discard mp u) (\<lambda>_. raise_t (HTTPException 415 ''file content is not a recognized video format''))
               else bind_t clock (\<lambda>now. bind_t (commit_now (create_upload_job now u)) (\<lambda>_. owned k own)))) holds_row"
        if "n = upload_size u"
        by (rule ensures_bind [OF ensures_pre [OF ensures_sniff] content]) (simp add: Some that observed_def)
      moreover have "ensures W ?G (observed mp u head) (bind_t (discard mp u)
          (\<lambda>_. raise_t (HTTPException 422 ''uploaded size does not match the declared size''))) holds_row"
        by (rule refuse) (simp add: observed_def)
      ultimately show ?thesis unfolding Some option.case by (intro ensures_if) (blast+)
    qed (simp add: ensures_raise)
  qed
qed

lemma ensures_queue_ready:
  assumes "upload_state u = UReady"
  shows "ensures W (upload_guarantee mp) (holds_row u) (queue_ready u) holds_row"
  unfolding queue_ready_def
proof (rule ensures_bind [OF ensures_calls [OF storage_calls(6)]])
  show "ensures W (upload_guarantee mp) (holds_row u)
      (bind_t (save (u\<lparr>upload_state := UCompleted\<rparr>)) (\<lambda>_. ret_t (u\<lparr>upload_state := UCompleted\<rparr>))) holds_row"
    by (rule ensures_bind [OF ensures_save [OF upload_move.finished [OF assms]]], rule ensures_ret)
qed (rule holds_row_calls)

lemma ensures_complete:
  assumes W: "others_serve W" and "complete_upload_valid ps"
  shows "ensures W (upload_guarantee mp) (\<lambda>t d. uploads_inv (db_uploads d)) (complete mp k own ps) (\<lambda>_ _ _. True)"
proof -
  have block: "ensures W (upload_guarantee mp) (holds_row u) (if b then m else ret_t u) holds_row"
    if "b \<Longrightarrow> ensures W (upload_guarantee mp) (holds_row u) m holds_row" for b m u
    using that by (intro ensures_if ensures_ret)
  have first: "ensures W (upload_guarantee mp) (\<lambda>t d. uploads_inv (db_uploads d)) (owned k own) holds_row"
    by (rule ensures_post [OF ensures_owned [OF W]]) simp
  show ?thesis
    unfolding complete_def
    by (rule ensures_bind [OF first], intro ensures_if ensures_raise ensures_ret TrueI
        ensures_bind [OF block] ensures_freeze [OF assms] ensures_settle_object [OF W] ensures_queue_ready)
qed

abbreviation inv_uploads :: "event list \<Rightarrow> db \<Rightarrow> bool" where
  "inv_uploads t d \<equiv> uploads_inv (db_uploads d)"

lemma ensures_owned_row: "others_serve W \<Longrightarrow> ensures W G inv_uploads (owned k own) holds_row"
  by (rule ensures_post [OF ensures_owned]) simp_all

lemma ensures_reserve:
  assumes W: "others_serve W" and u: "upload_state u = UOpen" "upload_manifest u = None"
  shows "ensures W (upload_guarantee mp) inv_uploads (reserve u) (\<lambda>_. inv_uploads)"
  unfolding reserve_def
proof (rule ensures_bind)
  show "ensures W (upload_guarantee mp) inv_uploads (acquire (\<lambda>d. Inr ())) (\<lambda>_. inv_uploads)"
    by (rule ensures_acquire) (rule kept.others_keep [OF kept_uploads [OF W]])
  fix a
  show "ensures W (upload_guarantee mp) inv_uploads (commit_now (add_upload u)) (\<lambda>_. inv_uploads)"
  proof (rule ensures_commit)
    fix t d d'
    assume inv: "inv_uploads t d" and d': "add_upload u d = Inr d'"
    then have "service_step d d'" using u service_step.reserve by blast
    moreover have "db_jobs d' = db_jobs d"
      using d' by (auto simp: add_upload_def insert_upload_def split: option.splits if_splits)
    ultimately show "upload_guarantee mp t d d' \<and> inv_uploads (t @ [Commit d']) d'"
      using service_step_inv [OF _ inv] by (simp add: upload_guarantee_def)
  qed
qed

lemma ensures_start:
  assumes W: "others_serve W"
  shows "ensures W (upload_guarantee mp) inv_uploads (start mp limit k jid own r) (\<lambda>_ _ _. True)"
proof -
  have rest: "ensures W (upload_guarantee mp) (holds_row u) (bind_t (in_thread (initiate mp (upload_source_key u))) (\<lambda>s.
      bind_t (save (u\<lparr>upload_storage_id := Some s\<rparr>)) (\<lambda>_. ret_t (upload_id u, upload_part_size u, part_count u)))) (\<lambda>_ _ _. True)" for u
    by (rule ensures_bind [OF ensures_calls [OF storage_calls(1)] ensures_bind [OF ensures_save [OF upload_move.initiated]]])
      (simp_all add: holds_row_calls ensures_ret)
  have new: "upload_state (new_upload now k jid own r) = UOpen" "upload_manifest (new_upload now k jid own r) = None" for now
    by (simp_all add: new_upload_def Let_def)
  show ?thesis
    unfolding start_def
    by (intro ensures_if ensures_raise ensures_bind [OF ensures_clock]
        ensures_bind [OF ensures_try [OF ensures_reserve [OF W new]]])
      (auto split: sum.split exn.split intro!: ensures_raise ensures_bind [OF ensures_owned_row [OF W] rest])
qed

lemma ensures_reads:
  assumes W: "others_serve W"
  shows "ensures W G inv_uploads (sign_parts mp k own ns) (\<lambda>_ _ _. True)"
    and "ensures W G inv_uploads (resume mp k own) (\<lambda>_ _ _. True)"
proof -
  note calls = ensures_calls [OF storage_calls(2)] ensures_calls [OF storage_calls(3)]
  have sign: "ensures W G P (in_thread (sign mp u ns n)) (\<lambda>_ _ _. True)" for P u n
    by (rule ensures_pre [OF calls(1) [where P = "\<lambda>_ _. True"]]) simp_all
  have list: "ensures W G P (in_thread (parts mp u)) (\<lambda>_ _ _. True)" for P u
    by (rule ensures_pre [OF calls(2) [where P = "\<lambda>_ _. True"]]) simp_all
  have done_anyway: "ensures W G P (ret_t x) (\<lambda>_ _ _. True)" for P and x :: 'c by (rule ensures_ret) simp
  show "ensures W G inv_uploads (sign_parts mp k own ns) (\<lambda>_ _ _. True)"
    unfolding sign_parts_def
    by (intro ensures_bind [OF ensures_owned_row [OF W]] ensures_bind [OF ensures_active] ensures_if ensures_raise
        ensures_bind [OF ensures_clock] sign)
  show "ensures W G inv_uploads (resume mp k own) (\<lambda>_ _ _. True)"
    unfolding resume_def
    by (rule ensures_bind [OF ensures_owned_row [OF W]], rule ensures_bind [where Q = "\<lambda>_ _ _. True"],
        intro ensures_if done_anyway ensures_bind [OF ensures_active] ensures_bind [where Q = "\<lambda>_ _ _. True"] list)
      (rule done_anyway)
qed

lemma ensures_abort:
  assumes W: "others_serve W"
  shows "ensures W (upload_guarantee mp) inv_uploads (abort mp k own) (\<lambda>_ _ _. True)"
  unfolding abort_def
proof (rule ensures_bind [OF ensures_owned_row [OF W]], intro ensures_if ensures_raise)
  fix u :: upload
  assume "upload_state u \<notin> {UReady, UCompleted}" "upload_state u \<noteq> UCompleting" "upload_state u \<noteq> UAborted"
  then have "upload_state u \<in> {UOpen, UCompleting, UAborting}" by (cases "upload_state u") simp_all
  from ensures_discard [OF W this] show "ensures W (upload_guarantee mp) (holds_row u) (discard mp u) (\<lambda>_ _ _. True)"
    by (rule ensures_post) simp
qed (simp add: ensures_ret)

lemma ensures_cleanup_one:
  assumes W: "others_serve W"
  shows "ensures W (upload_guarantee mp) inv_uploads (cleanup_one mp candidate) (\<lambda>_. inv_uploads)"
proof -
  let ?G = "upload_guarantee mp"
  have row: "ensures W ?G inv_uploads (acquire (\<lambda>d. Inr (get_upload (fst candidate) (snd candidate) d)))
      (\<lambda>row t d. case row of None \<Rightarrow> True | Some u \<Rightarrow> holds_row u t d)"
    by (rule ensures_acquire)
      (use kept.others_keep [OF kept_uploads [OF W]] in \<open>auto simp: holds_row_def split: option.split dest: get_upload_row\<close>)
  have one: "ensures W ?G (holds_row u) (bind_t (in_thread (abort_storage mp (u\<lparr>upload_state := UAborting\<rparr>)))
      (\<lambda>_. bind_t (save (u\<lparr>upload_state := UAborted\<rparr>)) (\<lambda>_. ret_t True))) (\<lambda>_ _ _. True)"
    if "upload_state u \<in> {UOpen, UCompleting, UAborting}" for u
  proof (rule ensures_bind [OF ensures_calls [OF storage_calls(5)]])
    from that have "upload_state u \<in> {UOpen, UCompleting, UAborting, UAborted}" by blast
    then show "ensures W ?G (holds_row u) (bind_t (save (u\<lparr>upload_state := UAborted\<rparr>)) (\<lambda>_. ret_t True)) (\<lambda>_ _ _. True)"
      by (intro ensures_bind [OF ensures_save [OF upload_move.aborted]] ensures_ret) simp_all
  qed (rule holds_row_calls)
  have body: "ensures W ?G (\<lambda>t d. case row of None \<Rightarrow> True | Some u \<Rightarrow> holds_row u t d)
      (case row of None \<Rightarrow> ret_t False
       | Some u \<Rightarrow> if upload_state u \<notin> {UOpen, UCompleting, UAborting} then ret_t False
           else bind_t (in_thread (abort_storage mp (u\<lparr>upload_state := UAborting\<rparr>)))
             (\<lambda>_. bind_t (save (u\<lparr>upload_state := UAborted\<rparr>)) (\<lambda>_. ret_t True))) (\<lambda>_ _ _. True)" for row
    by (cases row) (auto intro!: ensures_ret one)
  have "ensures W ?G inv_uploads (cleanup_one mp candidate) (\<lambda>_ _ _. True)"
    unfolding cleanup_one_def
    by (rule ensures_bind [OF ensures_try [OF ensures_bind [OF row body]]], rule ensures_ret) simp
  from kept.ensures_inv [OF kept_uploads [OF W], where P = "\<lambda>_ _. True", simplified, OF this] show ?thesis
    by (rule ensures_post) simp
qed

lemma ensures_counting:
  "(\<And>x. ensures W G P (f x) (\<lambda>_. P)) \<Longrightarrow> ensures W G P (counting xs f) (\<lambda>_. P)"
  by (induction xs) (auto intro!: ensures_ret ensures_bind)

lemma ensures_cleanup:
  assumes W: "others_serve W"
  shows "ensures W (upload_guarantee mp) inv_uploads (cleanup_expired mp) (\<lambda>_. inv_uploads)"
  unfolding cleanup_expired_def
  by (rule ensures_bind [OF ensures_clock], rule ensures_bind [OF ensures_acquire [where Q = "\<lambda>_. inv_uploads"]],
      rule kept.others_keep [OF kept_uploads [OF W]], assumption, rule ensures_counting [OF ensures_cleanup_one [OF W]])

lemma ensures_route:
  assumes "ensures W G P m Q"
  shows "ensures W G P (upload_route m) Q"
  unfolding upload_route_def
  by (rule ensures_bind [OF ensures_try [OF assms]])
    (auto split: sum.split exn.split intro!: ensures_raise ensures_ret)

lemma serve_ensures:
  assumes W: "others_serve W"
  shows "ensures W (upload_guarantee mp) inv_uploads (serve_upload mp limit req) (\<lambda>_ _ _. True)"
proof -
  have unit: "ensures W (upload_guarantee mp) inv_uploads (bind_t m (\<lambda>_. ret_t ())) (\<lambda>_ _ _. True)"
    if "ensures W (upload_guarantee mp) inv_uploads m Q" for m :: "'z task" and Q
    by (rule ensures_bind [OF that]) (simp add: ensures_ret)
  show ?thesis
    by (cases req)
      (auto simp: unprocessable_def intro!: ensures_raise ensures_route unit [OF ensures_start [OF W]]
        unit [OF ensures_reads(1) [OF W]] unit [OF ensures_reads(2) [OF W]] unit [OF ensures_complete [OF W]]
        ensures_abort [OF W] unit [OF ensures_cleanup [OF W]])
qed

section \<open>What holds of every run\<close>

definition session_commit :: "db \<Rightarrow> db \<Rightarrow> bool" where
  "session_commit d d' \<longleftrightarrow> service_step d d' \<and> uploads_inv (db_uploads d) \<and> uploads_inv (db_uploads d')
     \<and> (\<forall>x\<in>set (db_uploads d). \<forall>x'\<in>set (db_uploads d'). upload_id x' = upload_id x \<longrightarrow> upload_evolves x x')"

text \<open>C7. However requests interleave, with each other, with the cleanup and with the workers, a run of
  a handler is a sequence of calls, of steps of the others, and of commits that keep every upload
  consistent: identity, owner, key and sizes never change, the state only moves forward, the list of
  parts is frozen from the moment completion starts, and nobody ever has more than five unfinished
  uploads.\<close>

theorem uploads_stay_consistent:
  assumes "others_serve W" and "uploads_inv (db_uploads d)" and "serve_upload mp limit req W t d = (r, t', d')"
  shows "uploads_inv (db_uploads d') \<and> (moves W (\<lambda>t. session_commit))\<^sup>*\<^sup>* (t, d) (t', d')"
proof
  note kept = kept_uploads [OF assms(1), of mp]
  note run = ensuresD(1) [OF serve_ensures [OF assms(1)] assms(2,3)]
  from kept.moves_keep [OF kept run] assms(2) show "uploads_inv (db_uploads d')" by simp
  have "(moves W (\<lambda>t d d'. upload_guarantee mp t d d' \<and> uploads_inv (db_uploads d) \<and> uploads_inv (db_uploads d')))\<^sup>*\<^sup>* (t, d) (t', d')"
    using kept.moves_sound [OF kept run] assms(2) by simp
  then show "(moves W (\<lambda>t. session_commit))\<^sup>*\<^sup>* (t, d) (t', d')"
  proof (rule moves_mono)
    fix t d1 d2
    assume a: "upload_guarantee mp t d1 d2 \<and> uploads_inv (db_uploads d1) \<and> uploads_inv (db_uploads d2)"
    then have step: "service_step d1 d2" by (simp add: upload_guarantee_def)
    with a show "session_commit d1 d2"
      unfolding session_commit_def using service_step_evolves [OF step] by blast
  qed
qed

lemma content_seen_more: "content_seen mp u h \<Longrightarrow> content_seen mp u (h @ cs)"
  unfolding content_seen_def by (metis append.assoc append_Cons)

definition checked_in :: "multipart \<Rightarrow> job \<Rightarrow> call list \<Rightarrow> bool" where
  "checked_in mp j h \<longleftrightarrow> (\<exists>u. job_of_upload u j \<and> head_seen mp u h \<and> content_seen mp u h)"

lemma moves_checked:
  assumes "(moves W (upload_guarantee mp))\<^sup>*\<^sup>* (t, d) (t', d')"
    and "\<And>t d. j \<notin> set (db_jobs d) \<Longrightarrow> j \<notin> set (db_jobs (w_others W t d))"
    and "j \<notin> set (db_jobs d)" and "j \<in> set (db_jobs d')"
  shows "checked_in mp j (calls_of t')"
proof -
  have "j \<in> set (db_jobs (snd s')) \<Longrightarrow> checked_in mp j (calls_of (fst s'))"
    if "(moves W (upload_guarantee mp))\<^sup>*\<^sup>* s s'" "j \<notin> set (db_jobs (snd s))" for s s'
    using that(1)
  proof (induction rule: rtranclp_induct)
    case (step y z)
    have more: "checked_in mp j h \<Longrightarrow> checked_in mp j (h @ cs)" for h cs
      unfolding checked_in_def using head_seen_more content_seen_more by blast
    from step.hyps(2) show ?case
    proof cases
      case (commit t d d')
      show ?thesis
      proof (cases "j \<in> set (db_jobs d)")
        case True
        with step.IH commit show ?thesis by simp
      next
        case False
        with step.prems commit show ?thesis unfolding upload_guarantee_def checked_in_def by auto
      qed
    qed (use step.IH step.prems assms(2) more in auto)
  qed (use that(2) in simp)
  from this [of "(t, d)" "(t', d')"] assms show ?thesis by simp
qed


section \<open>Retrying a completion\<close>

lemma get_upload_put:
  assumes "get_upload k own d = Some u" and "upload_id u' = upload_id u" and "upload_owner_id u' = upload_owner_id u"
  shows "get_upload k own (put_upload u' d) = Some u'"
proof -
  from assms(1) obtain o' where o': "lock_owner own d = Some o'"
    and f: "find (\<lambda>u. upload_id u = k \<and> upload_owner_id u = own) (db_uploads d) = Some u"
    by (auto simp: get_upload_def split: option.splits)
  let ?P = "\<lambda>u. upload_id u = k \<and> upload_owner_id u = own"
  have "?P u" using assms(1) by (auto dest: get_upload_row)
  with assms(2,3) have "find ?P (map (\<lambda>x. if upload_id x = upload_id u' then u' else x) us) = Some u'"
    if "find ?P us = Some u" for us
    using that by (induction us) (auto split: if_splits)
  with f o' show ?thesis by (simp add: get_upload_def put_upload_def lock_owner_def)
qed

lemma owned_now:
  assumes "undisturbed W" and "get_upload k own d = Some u"
  shows "owned k own W t d = (Inr u, t, d)"
  using assms by (simp add: owned_def acquire_def undisturbed_def)

lemma save_now: "upload_check u \<Longrightarrow> save u W t d = (Inr (), t @ [Commit (put_upload u d)], put_upload u d)"
  by (simp add: save_def commit_now_def)

definition object_there :: "multipart \<Rightarrow> upload \<Rightarrow> bool" where
  \<comment> \<open>the object is complete, of the declared size and a video\<close>
  "object_there mp u \<longleftrightarrow> (\<forall>h. mp_head mp h (upload_source_key u) = Inr (upload_size u)
     \<and> (\<exists>b. mp_range mp h (upload_source_key u) SNIFF_LENGTH = Inr b \<and> sniff_video_type (take SNIFF_LENGTH b) \<noteq> None))"

definition queue_answers :: "env \<Rightarrow> bool" where
  "queue_answers e \<longleftrightarrow> (\<forall>h task k. e_enqueue e h task k = Inr ())"

lemma queue_ready_now:
  assumes "queue_answers (w_env W)" and "upload_check u"
  shows "\<exists>t'. queue_ready u W t d
    = (Inr (u\<lparr>upload_state := UCompleted\<rparr>), t', put_upload (u\<lparr>upload_state := UCompleted\<rparr>) d)
    \<and> Enqueue PROCESS_JOB_TASK (upload_job_id u) \<in> set (calls_of t')"
proof -
  let ?cs = "[Enqueue PROCESS_JOB_TASK (upload_job_id u), Wake 1]" and ?u = "u\<lparr>upload_state := UCompleted\<rparr>"
  have "enqueue_job (upload_job_id u) (w_env W) (calls_of t) = (Inr (), calls_of t @ ?cs)"
    using assms(1) by (simp add: enqueue_job_def enqueue_def wake_workers_def bind_io_def do_call_def queue_answers_def)
  then have "in_thread (enqueue_job (upload_job_id u)) W t d = (Inr (), t @ map Call ?cs, d)"
    by (simp add: in_thread_def)
  moreover have "upload_check ?u" using assms(2) by (simp add: upload_check_def)
  ultimately have "queue_ready u W t d = (Inr ?u, (t @ map Call ?cs) @ [Commit (put_upload ?u d)], put_upload ?u d)"
    unfolding queue_ready_def by (simp add: bind_t_def save_now)
  then show ?thesis by simp
qed

lemma settle_object_now:
  assumes W: "undisturbed W" and u: "get_upload k own d = Some u" "upload_check u" "upload_manifest u = Some (manifest ps)"
    and there: "object_there mp u" and fresh: "upload_job_id u \<notin> job_id ` set (db_jobs d)"
  shows "\<exists>t' d' j. settle_object mp k own ps u W t d = (Inr (u\<lparr>upload_state := UReady\<rparr>), t', d')
    \<and> get_upload k own d' = Some (u\<lparr>upload_state := UReady\<rparr>) \<and> db_jobs d' = db_jobs d @ [j] \<and> job_of_upload u j"
proof -
  let ?key = "upload_source_key u" and ?u = "u\<lparr>upload_state := UReady\<rparr>"
  let ?t1 = "t @ [Call (HeadObject ?key)]"
  let ?t2 = "?t1 @ [Call (GetRange ?key SNIFF_LENGTH)]"
  let ?now = "w_now W ?t2"
  let ?j = "new_job ?now (upload_job_id u) (upload_owner_id u) (upload_filename u) ?key None (upload_max_fps u)"
  let ?d = "put_upload ?u (d\<lparr>db_jobs := db_jobs d @ [?j]\<rparr>)"
  have head: "in_thread (head_object mp ?key) W t d = (Inr (Some (upload_size u)), ?t1, d)"
    using there by (simp add: in_thread_def head_object_def do_call_def object_there_def)
  obtain b y where b: "in_thread (sniff mp ?key) W ?t1 d = (Inr b, ?t2, d)" "sniff_video_type b = Some y"
    using there unfolding object_there_def
    by (auto simp: in_thread_def sniff_def do_call_def dest: spec [of _ "calls_of ?t1"])
  from u(1) have owner: "upload_owner_id u \<in> user_id ` set (db_users d)"
    using get_upload_row [OF u(1)] find_row_Some by (force simp: get_upload_def lock_owner_def split: option.splits)
  have "job_check ?j" using u(2) by (simp add: new_job_def job_check_defs upload_check_def)
  then have "insert_job ?j d = Inr (d\<lparr>db_jobs := db_jobs d @ [?j]\<rparr>, ?j)"
    using owner fresh by (simp add: insert_job_def insert_row_def new_job_def)
  then have create: "create_upload_job ?now u d = Inr ?d" by (simp add: create_upload_job_def create_job_def)
  have row: "get_upload k own ?d = Some ?u"
  proof (rule get_upload_put)
    show "get_upload k own (d\<lparr>db_jobs := db_jobs d @ [?j]\<rparr>) = Some u"
      using u(1) by (simp add: get_upload_def lock_owner_def split: option.splits)
  qed simp_all
  have "settle_object mp k own ps u W t d = owned k own W (?t2 @ [Commit ?d]) ?d"
    unfolding settle_object_def Let_def using u(3) head b create
    by (simp add: bind_t_def clock_def commit_now_def)
  then have "settle_object mp k own ps u W t d = (Inr ?u, ?t2 @ [Commit ?d], ?d)"
    using owned_now [OF W row] by (simp only:)
  moreover have "job_of_upload u ?j" by (simp add: job_of_upload_def new_job_def)
  moreover have "db_jobs ?d = db_jobs d @ [?j]" by (simp add: put_upload_def)
  ultimately show ?thesis using row by blast
qed


section \<open>Examples\<close>

definition sample_multipart :: multipart where
  \<comment> \<open>storage that has the two parts, and the object once it has been put together\<close>
  "sample_multipart = \<lparr>mp_create = (\<lambda>h key. Inr ''m1''), mp_sign = (\<lambda>key s n x. Inr ''https://storage/''),
     mp_parts = (\<lambda>h key s. Inr sample_stored),
     mp_head = (\<lambda>h key. if list_ex (\<lambda>c. case c of CompleteMultipart a b ps \<Rightarrow> True | _ \<Rightarrow> False) h then Inr 5 else Inl (S3Error ''404'')),
     mp_complete = (\<lambda>h key s ps. Inr ()), mp_range = (\<lambda>h key n. Inr (ascii_bytes ''0000ftypisom'')),
     mp_abort = (\<lambda>h key s. Inr ())\<rparr>"

definition one_upload :: db where
  "one_upload = one_job\<lparr>db_jobs := [], db_uploads := [sample_upload]\<rparr>"

lemma quiet_world_serves: "others_serve quiet_world"
proof -
  have w: "w_others quiet_world t d = d" for t d by (simp add: quiet_world_def)
  have "uploads_inv us \<Longrightarrow> u \<in> set us \<Longrightarrow> u' \<in> set us \<Longrightarrow> upload_id u = upload_id u' \<Longrightarrow> u = u'" for us and u u' :: upload
    unfolding uploads_inv_def by (blast intro: same_row)
  then show ?thesis unfolding others_serve_def w by (metis rtranclp.rtrancl_refl upload_evolves_refl)
qed

lemma one_upload_inv: "uploads_inv (db_uploads one_upload)"
proof -
  have "length (reserved_by own (db_uploads one_upload)) \<le> MAX_OPEN_UPLOADS" for own
    by (simp add: one_upload_def reserved_by_def MAX_OPEN_UPLOADS_def)
  moreover have "upload_ok sample_upload" by (simp add: upload_ok_def upload_check_def sample_upload_def)
  ultimately show ?thesis by (simp add: uploads_inv_def one_upload_def)
qed

theorem uploads_stay_consistent_witness:
  "\<exists>t' d'. serve_upload sample_multipart 100 (Complete 5 1 sample_parts) quiet_world [] one_upload = (Inr (), t', d')
     \<and> uploads_inv (db_uploads d') \<and> (moves quiet_world (\<lambda>t. session_commit))\<^sup>*\<^sup>* ([], one_upload) (t', d')"
proof -
  let ?run = "serve_upload sample_multipart 100 (Complete 5 1 sample_parts) quiet_world [] one_upload"
  have run: "?run = (fst ?run, fst (snd ?run), snd (snd ?run))" by simp
  moreover have "fst ?run = Inr ()" by code_simp
  ultimately show ?thesis
    using uploads_stay_consistent [OF quiet_world_serves one_upload_inv run] by metis
qed


definition frozen_upload :: upload where
  "frozen_upload = sample_upload\<lparr>upload_manifest := Some (manifest sample_parts), upload_state := UCompleting\<rparr>"


definition sample_file :: upload_file where
  "sample_file = \<lparr>uf_filename = Some ''../a.mov'', uf_content_type = Some ''Video/MP4; x=y'', uf_body = ascii_bytes ''0000ftypisom''\<rparr>"

theorem upload_video_order_witness:
  "\<exists>d1 ty. fst (snd (upload_video (\<lambda>h k. Inr ()) 9 1 sample_file 30 quiet_world [] one_upload)) = upload_events 9 1 sample_file ty d1
     \<and> (\<exists>j. find_row job_id 9 (db_jobs d1) = Some j \<and> job_status j = Queued)"
proof -
  let ?run = "upload_video (\<lambda>h k. Inr ()) 9 1 sample_file 30 quiet_world [] one_upload"
  obtain r t' d' where run: "?run = (r, t', d')" by (metis prod_cases3)
  have "fst ?run = Inr 9" by code_simp
  with run have r: "r = Inr 9" by simp
  from upload_video_order [OF run] obtain n d1 ty where n: "t' = [] @ take n (upload_events 9 1 sample_file ty d1)"
    "r = Inr 9 \<longleftrightarrow> n = 4" "1 < n \<longrightarrow> d' = d1 \<and> (\<exists>j. find_row job_id 9 (db_jobs d1) = Some j \<and> job_status j = Queued \<and> job_owner_id j = 1)"
    by blast
  with r have "t' = upload_events 9 1 sample_file ty d1" by (simp add: upload_events_def)
  moreover from n r have "\<exists>j. find_row job_id 9 (db_jobs d1) = Some j \<and> job_status j = Queued" by auto
  ultimately show ?thesis unfolding run by auto
qed

end
