(* ===== verification/Renditions.thy ===== *)
theory Renditions
  imports Ladder_Pieces
begin

text \<open>
  \<open>app/worker/renditions.py\<close>: the extra AV1 renditions of a finished ladder, what they may spend, how
  they are listed in its master playlist, and the run that builds one. Bit rates are computed in
  binary64 (\<open>fl\<close>), as the code does.
\<close>

section \<open>What to build\<close>

definition KINDS :: "string list" where "KINDS = [''hdr'', ''av1'']"

definition RUNGS :: "(string \<times> int list) list" where
  "RUNGS = [(''hdr'', [1080, 720, 360]), (''av1'', [1080, 720, 360])]"

definition AV1_MAX_SOURCE_HEIGHT :: int where "AV1_MAX_SOURCE_HEIGHT = 1080"

definition CAP_SHARE :: "(string \<times> rat) list" where
  "CAP_SHARE = [(''hdr'', fl (3 / 4)), (''av1'', fl (3 / 5))]"

definition START_RUNG_HEIGHT :: int where "START_RUNG_HEIGHT = 360"
definition START_CEILING :: int where "START_CEILING = 296000"
definition CRF :: int where "CRF = 30"
definition SEGMENT_SECONDS :: int where "SEGMENT_SECONDS = 4"
definition ORDER :: "(string \<times> nat) list" where "ORDER = [(''hdr'', 0), (''av1'', 1)]"

definition TRANSFER_CODE :: "(string \<times> string) list" where
  "TRANSFER_CODE = [(''smpte2084'', ''16''), (''arib-std-b67'', ''18'')]"

definition VIDEO_RANGE :: "(string \<times> string) list" where
  "VIDEO_RANGE = [(''smpte2084'', ''PQ''), (''arib-std-b67'', ''HLG'')]"

record rendition_plan =
  rp_kind :: string
  rp_codecs :: string
  rp_video_range :: string
  rp_filters :: "string list"
  rp_color_args :: "string list"
  rp_crf :: int
  rp_maxrate :: int

definition rungs_for :: "string \<Rightarrow> int \<Rightarrow> exn + int list" where
  "rungs_for kind source_height =
     (case map_of RUNGS kind of
        None \<Rightarrow> Inl (KeyError kind)
      | Some hs \<Rightarrow>
          (let heights = filter (\<lambda>h. h \<le> source_height) hs
           in Inr (if heights = [] then [source_height] else heights)))"

definition bits_of_text :: "string \<Rightarrow> int" where
  \<comment> \<open>\<open>int(text.removesuffix("k")) * 1000\<close> of the ladder's bit rates\<close>
  "bits_of_text s = int (undec (if ends_with s ''k'' then butlast s else s)) * 1000"

definition ceiling :: "string \<Rightarrow> int \<Rightarrow> exn + int" where
  "ceiling kind height =
     (case map_of CAP_SHARE kind of
        None \<Rightarrow> Inl (KeyError kind)
      | Some share \<Rightarrow>
          (let h264 = bits_of_text (ceiling_for height);
               shared = trunc_int (fl (of_int h264 * share))
           in Inr (if height \<le> START_RUNG_HEIGHT then min shared START_CEILING else shared)))"

definition level :: "int \<Rightarrow> string" where
  "level height = (if height \<le> 540 then ''04'' else if height \<le> 720 then ''05'' else ''08'')"

definition transfer_of :: "source_probe \<Rightarrow> string option" where
  "transfer_of probe = (case color_transfer probe of Some (JStr s) \<Rightarrow> Some s | _ \<Rightarrow> None)"

definition plan_rendition :: "string \<Rightarrow> source_probe \<Rightarrow> int \<Rightarrow> int \<Rightarrow> exn + rendition_plan option" where
  "plan_rendition kind probe max_fps height =
     (let scale = [fps_cap_filter max_fps, ''scale=-2:min('' @ dec_int height @ backslash @ '',ih)'']
      in case (if kind \<in> fst ` set CAP_SHARE then ceiling kind height else Inr 0) of
           Inl x \<Rightarrow> Inl x
         | Inr maxrate \<Rightarrow>
             if kind = ''hdr'' then
               (case transfer_of probe of
                  Some transfer \<Rightarrow>
                    (case (map_of TRANSFER_CODE transfer, map_of VIDEO_RANGE transfer) of
                       (Some code, Some shown_range) \<Rightarrow>
                         if \<not> hdr probe then Inr None
                         else Inr (Some \<lparr>rp_kind = ''hdr'',
                                rp_codecs = ''av01.0.'' @ level height @ ''M.10.0.110.09.'' @ code @ ''.09.0'',
                                rp_video_range = shown_range, rp_filters = scale @ [''format=yuv420p10le''],
                                rp_color_args = [''-color_primaries'', ''bt2020'', ''-color_trc'', transfer, ''-colorspace'', ''bt2020nc''],
                                rp_crf = CRF, rp_maxrate = maxrate\<rparr>)
                     | _ \<Rightarrow> Inr None)
                | None \<Rightarrow> Inr None)
             else if kind = ''av1'' then
               (if AV1_MAX_SOURCE_HEIGHT < probe_height probe then Inr None
                else Inr (Some \<lparr>rp_kind = ''av1'', rp_codecs = ''av01.0.'' @ level height @ ''M.08'',
                       rp_video_range = ''SDR'', rp_filters = scale @ sdr_filters (hdr probe),
                       rp_color_args = (if hdr probe then BT709_TAGS else []), rp_crf = CRF, rp_maxrate = maxrate\<rparr>))
             else Inl (ValueError (''unknown rendition '' @ kind)))"

definition rendition_command :: "rendition_plan \<Rightarrow> string \<Rightarrow> string \<Rightarrow> string \<Rightarrow> int \<Rightarrow> string list" where
  "rendition_command plan source_path out_dir ffmpeg_binary max_fps =
     [ffmpeg_binary, ''-hide_banner'', ''-loglevel'', ''error'', ''-i'', source_path,
      ''-map'', ''0:v:0'', ''-an'', ''-vf'', join '','' (rp_filters plan)]
     @ rp_color_args plan
     @ [''-c:v'', ''libsvtav1'', ''-preset'', ''8'', ''-crf'', dec_int (rp_crf plan),
        ''-maxrate'', dec_int (rp_maxrate plan div 1000) @ ''k'', ''-bufsize'', dec_int (rp_maxrate plan div 1000) @ ''k'',
        ''-g'', dec_int (2 * max_fps),
        ''-f'', ''hls'', ''-hls_time'', dec_int SEGMENT_SECONDS, ''-hls_playlist_type'', ''vod'',
        ''-hls_segment_type'', ''fmp4'', ''-hls_fmp4_init_filename'', ''init.mp4'',
        ''-hls_segment_filename'', in_dir out_dir ''seg%05d.m4s'',
        in_dir out_dir ''index.m3u8'']"

definition even_width :: "int \<Rightarrow> int \<Rightarrow> int \<Rightarrow> int" where
  "even_width width height target_height =
     max 2 (round_half_even (fl (fl (of_int (width * target_height) / of_int height) / 2)) * 2)"

section \<open>Its bandwidth\<close>

fun found_after :: "string \<Rightarrow> (char \<Rightarrow> bool) \<Rightarrow> string \<Rightarrow> string list" where
  \<comment> \<open>\<open>re.findall(p + "([class]+)", text)\<close>, for a \<open>p\<close> that holds no character of the class at its end\<close>
  "found_after p cls [] = []"
| "found_after p cls (c # cs) =
     (if starts_with (c # cs) p \<and> takeWhile cls (drop (length p) (c # cs)) \<noteq> []
      then takeWhile cls (drop (length p) (c # cs)) # found_after p cls cs
      else found_after p cls cs)"

definition in_number :: "char \<Rightarrow> bool" where
  "in_number c \<longleftrightarrow> is_digit c \<or> c = CHR ''.''"

definition parse_seconds :: "string \<Rightarrow> exn + rat" where
  "parse_seconds s =
     (case parse_float s of Some (Fin d) \<Rightarrow> Inr d | _ \<Rightarrow> Inl (ValueError (''could not convert string to float'')))"

definition peak_bandwidth :: "string \<Rightarrow> string \<Rightarrow> (int \<times> int) io" where
  "peak_bandwidth playlist segments =
     bind_io (lift (map_ok parse_seconds (found_after ''#EXTINF:'' in_number playlist))) (\<lambda>durations.
       let names = filter (\<lambda>line. ends_with line ''.m4s'') (split_lines playlist) in
       bind_io (map_io (zip names durations) (\<lambda>p. bind_io (file_size (in_dir segments (fst p))) (\<lambda>n. ret (n, snd p)))) (\<lambda>sized.
         let rates = map (\<lambda>p. fl (fl (of_int (fst p * 8)) / snd p)) (filter (\<lambda>p. 0 < snd p) sized);
             total_bytes = sum_list (map fst sized);
             total = float_sum 0 0 durations;
             total_seconds = (if total = 0 then 1 else total)
         in ret (trunc_int (foldr max rates 0), trunc_int (fl (fl (of_int (total_bytes * 8)) / total_seconds)))))"

section \<open>The master playlist\<close>

definition STREAM_INF :: string where "STREAM_INF = ''#EXT-X-STREAM-INF:''"

fun entries_in :: "bool \<Rightarrow> string list \<Rightarrow> string list \<times> (string \<times> string) list" where
  \<comment> \<open>the loop of \<open>_entries\<close>; the flag says that an entry has been seen\<close>
  "entries_in seen [] = ([], [])"
| "entries_in seen [line] = (if seen then [] else [line], [])"
| "entries_in seen (line # uri # rest) =
     (if starts_with line STREAM_INF
      then (case entries_in True rest of (head, entries) \<Rightarrow> (head, (line, uri) # entries))
      else (case entries_in seen (uri # rest) of (head, entries) \<Rightarrow> (if seen then head else line # head, entries)))"

definition entries_of :: "string \<Rightarrow> string list \<times> (string \<times> string) list" where
  "entries_of master = entries_in False (filter (\<lambda>line. strip line \<noteq> []) (split_lines master))"

definition rank :: "string \<Rightarrow> nat" where
  "rank uri = (case map_of ORDER (takeWhile (\<lambda>c. c \<noteq> CHR ''/'') uri) of Some n \<Rightarrow> n | None \<Rightarrow> length ORDER)"

fun quoted_after :: "string \<Rightarrow> string \<Rightarrow> string option" where
  \<comment> \<open>the group of \<open>re.search(p + '"([^"]+)"', text)\<close>\<close>
  "quoted_after p [] = None"
| "quoted_after p (c # cs) =
     (let rest = drop (length p + 1) (c # cs); body = takeWhile (\<lambda>x. x \<noteq> CHR 0x22) rest
      in if starts_with (c # cs) (p @ quote) \<and> body \<noteq> [] \<and> length body < length rest then Some body
         else quoted_after p cs)"

record listing =
  li_plan :: rendition_plan
  li_rung :: int
  li_resolution :: string
  li_bandwidth :: "int \<times> int"

definition rendition_uri :: "listing \<Rightarrow> string" where
  "rendition_uri l = rp_kind (li_plan l) @ ''/'' @ dec_int (li_rung l) @ ''/index.m3u8''"

definition stream_inf :: "listing \<Rightarrow> string \<Rightarrow> string" where
  \<comment> \<open>the new entry's line, with the audio group and the frame rate of the ladder's first video\<close>
  "stream_inf l first =
     (let audio = quoted_after ''AUDIO='' first;
          rate = found_after ''FRAME-RATE='' in_number first;
          audio_codec = (if audio \<noteq> None then '',mp4a.40.2'' else [])
      in STREAM_INF @ join '',''
          ([''BANDWIDTH='' @ dec_int (fst (li_bandwidth l) + 128000),
            ''AVERAGE-BANDWIDTH='' @ dec_int (snd (li_bandwidth l) + 128000),
            ''RESOLUTION='' @ li_resolution l,
            ''CODECS='' @ quote @ rp_codecs (li_plan l) @ audio_codec @ quote,
            ''VIDEO-RANGE='' @ rp_video_range (li_plan l)]
           @ (case audio of Some a \<Rightarrow> [''AUDIO='' @ quote @ a @ quote] | None \<Rightarrow> [])
           @ (case rate of r # _ \<Rightarrow> [''FRAME-RATE='' @ r] | [] \<Rightarrow> [])))"

definition first_video :: "(string \<times> string) list \<Rightarrow> string" where
  "first_video entries =
     (case find (\<lambda>e. contains (fst e) ''RESOLUTION='') entries of Some e \<Rightarrow> fst e | None \<Rightarrow> [])"

definition add_to_master :: "string \<Rightarrow> listing \<Rightarrow> string" where
  "add_to_master master l =
     (let uri = rendition_uri l
      in if contains master uri then master
         else case entries_of master of (head, entries) \<Rightarrow>
           unlines (head @ concat (map (\<lambda>e. [fst e, snd e])
             (sort_key (\<lambda>e. rank (snd e)) (entries @ [(stream_inf l (first_video entries), uri)])))))"

section \<open>The run\<close>

record rendition_builder =
  rb_store :: store
  rb_prober :: "string \<Rightarrow> source_probe io"
  rb_ffmpeg :: string
  rb_timeout :: int
  rb_lock :: "string \<Rightarrow> unit io"
  rb_unlock :: "string \<Rightarrow> unit io"
    \<comment> \<open>entering and leaving \<open>master_lock(ladder_key)\<close>\<close>

definition encode_rung ::
  "rendition_builder \<Rightarrow> string \<Rightarrow> string \<Rightarrow> string \<Rightarrow> source_probe \<Rightarrow> string \<Rightarrow> int \<Rightarrow> int \<Rightarrow> listing io"
where
  \<comment> \<open>one iteration of the loop over the rungs\<close>
  "encode_rung b kind prefix work probe source_path max_fps rung =
     bind_io (lift (plan_rendition kind probe max_fps rung)) (\<lambda>planned.
       let out_dir = in_dir (in_dir work kind) (dec_int rung);
           playlist_path = in_dir out_dir ''index.m3u8'' in
       bind_io (mkdir out_dir) (\<lambda>_.
       case planned of
         None \<Rightarrow> raise (OtherError ''AttributeError'')
       | Some plan \<Rightarrow>
            bind_io (run_process (rendition_command plan source_path out_dir (rb_ffmpeg b) max_fps) (rb_timeout b)) (\<lambda>outcome.
              case outcome of
                RunTimeout \<Rightarrow> raise TimeoutExpired
              | RunInterrupted \<Rightarrow> raise (Interrupted ''the worker is stopping'')
              | Ran code out err \<Rightarrow>
                  bind_io (is_file playlist_path) (\<lambda>there.
                    if code \<noteq> 0 \<or> \<not> there
                    then raise (ObjectStoreError (''FFmpeg failed on the '' @ kind @ '' rendition: '' @ tail 500 (strip err)) UNPROCESSABLE_VIDEO)
                    else
                      bind_io (read_text playlist_path) (\<lambda>playlist.
                      bind_io (ask (\<lambda>e h. e_files e h out_dir)) (\<lambda>names.
                      bind_io (for_io (sort names) (\<lambda>name.
                        st_upload (rb_store b) (prefix @ ''/'' @ kind @ ''/'' @ dec_int rung @ ''/'' @ name)
                          (in_dir out_dir name) (content_type_for name))) (\<lambda>_.
                      bind_io (peak_bandwidth playlist out_dir) (\<lambda>bandwidth.
                        ret \<lparr>li_plan = plan, li_rung = rung,
                             li_resolution = dec_int (even_width (probe_width probe) (probe_height probe) rung) @ ''x'' @ dec_int rung,
                             li_bandwidth = bandwidth\<rparr>))))))))"

definition relist_master :: "rendition_builder \<Rightarrow> string \<Rightarrow> string \<Rightarrow> listing list \<Rightarrow> unit io" where
  \<comment> \<open>the block under the lock\<close>
  "relist_master b ladder_key master_path listed =
     bind_io (rb_lock b ladder_key) (\<lambda>_.
       finally_io
         (bind_io (st_download (rb_store b) ladder_key master_path) (\<lambda>_.
          bind_io (read_text master_path) (\<lambda>master.
          bind_io (write_text master_path (foldl add_to_master master listed)) (\<lambda>_.
            st_upload (rb_store b) ladder_key master_path (content_type_for ''master.m3u8'')))))
         (rb_unlock b ladder_key))"

definition build_in_work :: "rendition_builder \<Rightarrow> string \<Rightarrow> string \<Rightarrow> string \<Rightarrow> int \<Rightarrow> string \<Rightarrow> bool io" where
  \<comment> \<open>the body of the \<open>try\<close>\<close>
  "build_in_work b kind source_key ladder_key max_fps work =
     (let prefix = before_last CHR ''/'' ladder_key; master_path = in_dir work ''master.m3u8''; source_path = in_dir work ''source'' in
      bind_io (st_download (rb_store b) ladder_key master_path) (\<lambda>_.
      bind_io (read_text master_path) (\<lambda>master.
        if contains master (kind @ ''/'') then ret False
        else
          bind_io (st_download (rb_store b) source_key source_path) (\<lambda>_.
          bind_io (rb_prober b source_path) (\<lambda>probe.
          bind_io (lift (plan_rendition kind probe max_fps 1080)) (\<lambda>planned.
            if planned = None then ret False
            else
              bind_io (lift (rungs_for kind (probe_height probe))) (\<lambda>rungs.
              bind_io (map_io rungs (encode_rung b kind prefix work probe source_path max_fps)) (\<lambda>listed.
              bind_io (relist_master b ladder_key master_path listed) (\<lambda>_. ret True)))))))))"

definition rendition_run :: "rendition_builder \<Rightarrow> string \<Rightarrow> string \<Rightarrow> string \<Rightarrow> int \<Rightarrow> bool io" where
  "rendition_run b kind source_key ladder_key max_fps =
     (if kind \<notin> set KINDS then raise (ValueError (''unknown rendition '' @ kind))
      else bind_io (mkdtemp ''flickpond-rendition-'') (\<lambda>work.
             finally_io (build_in_work b kind source_key ladder_key max_fps work) (rmtree work)))"

section \<open>What a rendition may spend\<close>

lemma ceilings:
  "ceiling ''hdr'' 1080 = Inr 3750000" "ceiling ''hdr'' 720 = Inr 2100000" "ceiling ''hdr'' 360 = Inr 296000"
  "ceiling ''av1'' 1080 = Inr 3000000" "ceiling ''av1'' 720 = Inr 1680000" "ceiling ''av1'' 360 = Inr 296000"
  by code_simp+

lemma ladder_ceilings:
  "bits_of_text (ceiling_for 1080) = 5000000" "bits_of_text (ceiling_for 720) = 2800000"
  "bits_of_text (ceiling_for 360) = 800000" "bits_of_text FALLBACK_BITRATE = 800000"
  by code_simp+

lemma shares:
  "trunc_int (fl (of_int 800000 * fl (3 / 4))) = 600000" "trunc_int (fl (of_int 800000 * fl (3 / 5))) = 480000"
  by code_simp+

lemma low_ceilings:
  assumes "r < 360"
  shows "ceiling_for r = FALLBACK_BITRATE" and "ceiling ''hdr'' r = Inr 296000" and "ceiling ''av1'' r = Inr 296000"
proof -
  show f: "ceiling_for r = FALLBACK_BITRATE" using assms(1) by (simp add: ceiling_for_def BITRATES_def)
  have share: "map_of CAP_SHARE ''hdr'' = Some (fl (3 / 4))" "map_of CAP_SHARE ''av1'' = Some (fl (3 / 5))"
    by (simp_all add: CAP_SHARE_def)
  have low: "r \<le> START_RUNG_HEIGHT" using assms by (simp add: START_RUNG_HEIGHT_def)
  show "ceiling ''hdr'' r = Inr 296000" "ceiling ''av1'' r = Inr 296000"
    unfolding ceiling_def share option.case f ladder_ceilings(4) Let_def if_P [OF low] shares
    by (simp_all add: START_CEILING_def)
qed

text \<open>Every rung of a rendition is at most as tall as the source and its ceiling is positive and below
  the ladder's at that height; the last rung's, with a quarter on top for the measured peak and the
  sound, stays under the 500 kbps at which a player picks the family to start in.\<close>

theorem rendition_caps:
  assumes "kind \<in> set KINDS" and "rungs_for kind h = Inr rungs"
  shows "rungs \<noteq> [] \<and> (\<forall>r\<in>set rungs. r \<le> h \<and> (\<exists>c. ceiling kind r = Inr c \<and> 0 < c \<and> c < bits_of_text (ceiling_for r)))
    \<and> (\<exists>c. ceiling kind (last rungs) = Inr c \<and> c * 5 div 4 + 128000 < 500000)"
proof -
  have kind: "kind = ''hdr'' \<or> kind = ''av1''" using assms(1) by (simp add: KINDS_def)
  note facts = ceilings ladder_ceilings low_ceilings
  have rungs: "rungs = (if filter (\<lambda>r. r \<le> h) [1080, 720, 360] = [] then [h] else filter (\<lambda>r. r \<le> h) [1080, 720, 360])"
    using assms(2) kind unfolding rungs_for_def RUNGS_def Let_def by auto
  consider "1080 \<le> h" | "720 \<le> h" "h < 1080" | "360 \<le> h" "h < 720" | "h < 360" by linarith
  then show ?thesis
  proof cases
    case 1
    then have "rungs = [1080, 720, 360]" unfolding rungs by simp
    then show ?thesis using 1 kind by (elim disjE; simp add: facts)
  next
    case 2
    then have "rungs = [720, 360]" unfolding rungs by simp
    then show ?thesis using 2 kind by (elim disjE) (simp_all add: facts)
  next
    case 3
    then have "rungs = [360]" unfolding rungs by simp
    then show ?thesis using 3 kind by (elim disjE) (simp_all add: facts)
  next
    case 4
    then have "rungs = [h]" unfolding rungs by simp
    then show ?thesis using 4 kind by (elim disjE; simp add: facts)
  qed
qed

theorem rendition_caps_witness:
  "\<exists>c. ceiling ''av1'' (last [720, 360]) = Inr c \<and> c * 5 div 4 + 128000 < 500000"
proof -
  have "rungs_for ''av1'' 1000 = Inr [720, 360]" "''av1'' \<in> set KINDS" by code_simp+
  from rendition_caps [OF this(2,1)] show ?thesis by blast
qed

section \<open>Reading the playlist back\<close>

lemma split_lines_acc_no_newline:
  "CHR 0x0A \<notin> set acc \<Longrightarrow> \<forall>l\<in>set (split_lines_acc acc s). CHR 0x0A \<notin> set l"
proof (induction s arbitrary: acc)
  case (Cons c s)
  show ?case using Cons.IH [of "[]"] Cons.IH [of "c # acc"] Cons.prems by simp
qed simp

lemma split_lines_no_newline: "l \<in> set (split_lines s) \<Longrightarrow> CHR 0x0A \<notin> set l"
  unfolding split_lines_def using split_lines_acc_no_newline [of "[]"] by simp

lemma strip_not_blank: "c \<in> set s \<Longrightarrow> \<not> py_space c \<Longrightarrow> strip s \<noteq> []"
proof
  assume c: "c \<in> set s" "\<not> py_space c" and "strip s = []"
  then have "\<forall>x\<in>set (dropWhile py_space s). py_space x"
    by (simp add: strip_def rstrip_def lstrip_def)
  then have "dropWhile py_space s = []" using hd_dropWhile list.set_sel(1) by blast
  then show False using c by auto
qed

lemma entries_in_seen: "fst (entries_in True ls) = []"
  by (induction True ls rule: entries_in.induct) (auto split: prod.splits)

lemma entries_in_shape:
  assumes "entries_in seen ls = (head, entries)"
  shows "set head \<subseteq> set ls \<and> (\<forall>e\<in>set entries. starts_with (fst e) STREAM_INF \<and> fst e \<in> set ls \<and> snd e \<in> set ls)
    \<and> (entries \<noteq> [] \<longrightarrow> (\<forall>l\<in>set head. \<not> starts_with l STREAM_INF))"
  using assms
proof (induction seen ls arbitrary: head entries rule: entries_in.induct)
  case (3 seen line uri rest)
  show ?case
  proof (cases "starts_with line STREAM_INF")
    case True
    obtain h es where e: "entries_in True rest = (h, es)" by (cases "entries_in True rest")
    have h: "h = []" using entries_in_seen [of rest] e by simp
    have "head = []" "entries = (line, uri) # es" using "3.prems" True e h by simp_all
    then show ?thesis using "3.IH"(1) [OF True e] True by auto
  next
    case False
    obtain h es where e: "entries_in seen (uri # rest) = (h, es)" by (cases "entries_in seen (uri # rest)")
    have "head = (if seen then h else line # h)" "entries = es" using "3.prems" False e by (simp_all split: if_splits)
    then show ?thesis using "3.IH"(2) [OF False e] False by (cases seen) auto
  qed
qed auto

lemma entries_in_pairs:
  "\<forall>e\<in>set es. starts_with (fst e) STREAM_INF \<Longrightarrow> entries_in seen (concat (map (\<lambda>e. [fst e, snd e]) es)) = ([], es)"
proof (induction es arbitrary: seen)
  case (Cons e es)
  then show ?case using Cons.IH [of True] by simp
qed simp

lemma entries_in_head:
  assumes "\<forall>l\<in>set head. \<not> starts_with l STREAM_INF" and "rest \<noteq> []"
  shows "entries_in False (head @ rest) = (head @ fst (entries_in False rest), snd (entries_in False rest))"
  using assms(1)
proof (induction head)
  case (Cons l head)
  obtain u more where "head @ rest = u # more" using assms(2) by (cases "head @ rest") auto
  then show ?case using Cons by (simp split: prod.splits)
qed simp

definition plain :: "string \<Rightarrow> bool" where
  \<comment> \<open>a line of a playlist that is not blank\<close>
  "plain l \<longleftrightarrow> CHR 0x0A \<notin> set l \<and> strip l \<noteq> []"

definition render :: "string list \<Rightarrow> (string \<times> string) list \<Rightarrow> string" where
  "render head es = unlines (head @ concat (map (\<lambda>e. [fst e, snd e]) es))"

lemma entries_of_render:
  assumes "\<forall>l\<in>set head. plain l \<and> \<not> starts_with l STREAM_INF"
    and "\<forall>e\<in>set es. starts_with (fst e) STREAM_INF \<and> plain (fst e) \<and> plain (snd e)" and "es \<noteq> []"
  shows "entries_of (render head es) = (head, es)"
proof -
  let ?ls = "head @ concat (map (\<lambda>e. [fst e, snd e]) es)"
  have plain: "plain l" if "l \<in> set ?ls" for l using that assms(1,2) by auto
  then have "split_lines (unlines ?ls) = ?ls" by (intro split_lines_unlines) (auto simp: plain_def)
  moreover have "filter (\<lambda>l. strip l \<noteq> []) ?ls = ?ls" using plain by (intro filter_True) (auto simp: plain_def)
  moreover have pairs: "concat (map (\<lambda>e. [fst e, snd e]) es) \<noteq> []" using assms(3) by (cases es) auto
  moreover have "entries_in False (concat (map (\<lambda>e. [fst e, snd e]) es)) = ([], es)"
    using assms(2) by (intro entries_in_pairs) blast
  moreover from this have "entries_in False ?ls = (head, es)"
    using entries_in_head [OF _ pairs, of head] assms(1) by simp
  ultimately show ?thesis unfolding entries_of_def render_def by simp
qed

lemma entries_of_shape:
  assumes "entries_of master = (head, entries)" and "entries \<noteq> []"
  shows "\<forall>l\<in>set head. plain l \<and> \<not> starts_with l STREAM_INF"
    and "\<forall>e\<in>set entries. starts_with (fst e) STREAM_INF \<and> plain (fst e) \<and> plain (snd e)"
proof -
  let ?ls = "filter (\<lambda>line. strip line \<noteq> []) (split_lines master)"
  have plain: "plain l" if "l \<in> set ?ls" for l using that split_lines_no_newline by (auto simp: plain_def)
  have shape: "set head \<subseteq> set ?ls" "\<forall>e\<in>set entries. starts_with (fst e) STREAM_INF \<and> fst e \<in> set ?ls \<and> snd e \<in> set ?ls"
    "\<forall>l\<in>set head. \<not> starts_with l STREAM_INF"
    using entries_in_shape [OF assms(1) [unfolded entries_of_def]] assms(2) by blast+
  then show "\<forall>l\<in>set head. plain l \<and> \<not> starts_with l STREAM_INF"
    "\<forall>e\<in>set entries. starts_with (fst e) STREAM_INF \<and> plain (fst e) \<and> plain (snd e)"
    using plain by blast+
qed

lemma quoted_after_chars: "quoted_after p s = Some t \<Longrightarrow> set t \<subseteq> set s"
proof (induction s)
  case (Cons c cs)
  show ?case
  proof (cases "t = takeWhile (\<lambda>x. x \<noteq> CHR 0x22) (drop (length p + 1) (c # cs))")
    case True
    then show ?thesis by (metis in_set_dropD set_takeWhileD subsetI)
  next
    case False
    then show ?thesis using Cons by (auto simp: Let_def split: if_splits)
  qed
qed simp

lemma found_after_chars: "t \<in> set (found_after p cls s) \<Longrightarrow> c \<in> set t \<Longrightarrow> cls c"
proof (induction s)
  case (Cons x s)
  then show ?case by (auto split: if_splits dest: set_takeWhileD)
qed simp

definition clean_listing :: "listing \<Rightarrow> bool" where
  \<comment> \<open>its strings hold no line break\<close>
  "clean_listing l \<longleftrightarrow>
     list_all (\<lambda>s. CHR 0x0A \<notin> set s)
       [rp_kind (li_plan l), rp_codecs (li_plan l), rp_video_range (li_plan l), li_resolution l]"

lemma join_chars: "c \<in> set (join sep xs) \<Longrightarrow> c \<in> set sep \<or> (\<exists>x\<in>set xs. c \<in> set x)"
proof (induction xs)
  case (Cons x xs)
  then show ?case by (cases xs) (auto simp: join_def)
qed (simp add: join_def)

lemma stream_inf_entry:
  assumes "clean_listing l" and "CHR 0x0A \<notin> set first"
  shows "starts_with (stream_inf l first) STREAM_INF" and "plain (stream_inf l first)"
proof -
  show "starts_with (stream_inf l first) STREAM_INF" by (simp add: stream_inf_def Let_def)
  have audio: "CHR 0x0A \<notin> set a" if "quoted_after ''AUDIO='' first = Some a" for a
    using quoted_after_chars [OF that] assms(2) by blast
  have rate: "CHR 0x0A \<notin> set r" if "found_after ''FRAME-RATE='' in_number first = r # rs" for r rs
    using found_after_chars [of r "''FRAME-RATE=''" in_number first "CHR 0x0A"] that by (auto simp: in_number_def is_digit_def)
  have "CHR 0x0A \<notin> set (stream_inf l first)"
    using assms(1) unfolding stream_inf_def clean_listing_def Let_def
    by (auto simp: STREAM_INF_def newline_notin_dec_int quote_def dest!: join_chars audio rate split: option.splits list.splits if_splits)
  moreover have "CHR ''#'' \<in> set (stream_inf l first)" by (simp add: stream_inf_def Let_def STREAM_INF_def)
  moreover have "\<not> py_space CHR ''#''" by code_simp
  ultimately show "plain (stream_inf l first)" unfolding plain_def using strip_not_blank by blast
qed

lemma uri_plain: "clean_listing l \<Longrightarrow> plain (rendition_uri l)"
proof -
  assume "clean_listing l"
  then have "CHR 0x0A \<notin> set (rendition_uri l)"
    by (simp add: rendition_uri_def clean_listing_def newline_notin_dec_int)
  moreover have "CHR ''/'' \<in> set (rendition_uri l)" "\<not> py_space CHR ''/''" by (simp add: rendition_uri_def, code_simp)
  ultimately show ?thesis unfolding plain_def using strip_not_blank by blast
qed

lemma contains_append: "contains (s @ p @ t) p"
proof (induction s)
  case Nil
  then show ?case using starts_with_append [of p t] by (cases "p @ t") simp_all
qed simp

lemma contains_line: "l \<in> set ls \<Longrightarrow> contains (unlines ls) l"
proof -
  assume "l \<in> set ls"
  then obtain xs ys where "ls = xs @ l # ys" by (auto simp: in_set_conv_decomp)
  then have "unlines ls = unlines xs @ l @ (newline @ unlines ys)" by (simp add: unlines_def)
  then show ?thesis by (simp only: contains_append)
qed

lemma find_in_set: "find P xs = Some x \<Longrightarrow> x \<in> set xs"
  by (metis find_Some_iff nth_mem)

lemma add_to_master_entries:
  assumes "entries_of master = (head, entries)" and "entries \<noteq> []" and "clean_listing l"
    and "\<not> contains master (rendition_uri l)"
  defines "new \<equiv> (stream_inf l (first_video entries), rendition_uri l)"
  shows "entries_of (add_to_master master l) = (head, sort_key (\<lambda>e. rank (snd e)) (entries @ [new]))"
    and "contains (add_to_master master l) (rendition_uri l)"
proof -
  let ?es = "sort_key (\<lambda>e. rank (snd e)) (entries @ [new])"
  note shape = entries_of_shape [OF assms(1,2)]
  have added: "add_to_master master l = render head ?es"
    using assms(4) unfolding add_to_master_def Let_def assms(1) new_def render_def by simp
  have "CHR 0x0A \<notin> set (first_video entries)"
    using shape(2) by (cases "find (\<lambda>e. contains (fst e) ''RESOLUTION='') entries")
      (auto simp: first_video_def plain_def dest: find_in_set)
  then have "starts_with (fst new) STREAM_INF \<and> plain (fst new) \<and> plain (snd new)"
    using stream_inf_entry [OF assms(3)] uri_plain [OF assms(3)] by (simp add: new_def)
  moreover have "set ?es = insert new (set entries)" by simp
  moreover from this have "?es \<noteq> []" by (metis empty_iff empty_set insertI1)
  ultimately show "entries_of (add_to_master master l) = (head, ?es)"
    unfolding added using shape by (intro entries_of_render) simp_all
  have "new \<in> set ?es" by simp
  then have "rendition_uri l \<in> set (head @ concat (map (\<lambda>e. [fst e, snd e]) ?es))" by (force simp: new_def)
  then show "contains (add_to_master master l) (rendition_uri l)"
    unfolding added render_def by (rule contains_line)
qed


section \<open>The order of a run\<close>

text \<open>\<open>adds m Q\<close>: whatever the environment answers, \<open>m\<close> only adds calls, and its outcome and the added
  calls satisfy \<open>Q\<close>.\<close>

definition adds :: "env \<Rightarrow> 'a io \<Rightarrow> (exn + 'a \<Rightarrow> call list \<Rightarrow> bool) \<Rightarrow> bool" where
  "adds e m Q \<longleftrightarrow> (\<forall>h. \<exists>t. snd (m e h) = h @ t \<and> Q (fst (m e h)) t)"

lemma addsD: "adds e m Q \<Longrightarrow> m e h = (r, h') \<Longrightarrow> \<exists>t. h' = h @ t \<and> Q r t"
  unfolding adds_def by (metis fst_conv snd_conv)

lemma addsI: "(\<And>h r h'. m e h = (r, h') \<Longrightarrow> \<exists>t. h' = h @ t \<and> Q r t) \<Longrightarrow> adds e m Q"
  unfolding adds_def by (metis prod.collapse)

lemma adds_mono: "adds e m P \<Longrightarrow> (\<And>r t. P r t \<Longrightarrow> Q r t) \<Longrightarrow> adds e m Q"
  unfolding adds_def by blast

lemma adds_ret: "Q (Inr x) [] \<Longrightarrow> adds e (ret x) Q"
  by (simp add: adds_def)

lemma adds_raise: "Q (Inl x) [] \<Longrightarrow> adds e (raise x) Q"
  by (simp add: adds_def)

lemma adds_writes: "writes_only K m \<Longrightarrow> adds e m (\<lambda>r t. \<forall>k\<in>set (puts t). K k)"
  unfolding adds_def writes_only_def by blast

lemma adds_bind:
  assumes "adds e m P" and "\<And>x t. P (Inl x) t \<Longrightarrow> Q (Inl x) t"
    and "\<And>x t. P (Inr x) t \<Longrightarrow> adds e (k x) (\<lambda>r t'. Q r (t @ t'))"
  shows "adds e (bind_io m k) Q"
proof (rule addsI)
  fix h r h' assume run: "bind_io m k e h = (r, h')"
  obtain q h1 where m: "m e h = (q, h1)" by fastforce
  from addsD [OF assms(1) m] obtain t where t: "h1 = h @ t" "P q t" by blast
  show "\<exists>t. h' = h @ t \<and> Q r t"
  proof (cases q)
    case (Inl x)
    then show ?thesis using run m t assms(2) by (auto simp: bind_io_def)
  next
    case (Inr x)
    with run m have k: "k x e h1 = (r, h')" by (simp add: bind_io_def)
    from addsD [OF assms(3) k] t Inr obtain t' where "h' = h1 @ t'" "Q r (t @ t')" by blast
    with t(1) show ?thesis by auto
  qed
qed

text \<open>A step that writes nothing to storage, before and after.\<close>

abbreviation unwritten :: "'a io \<Rightarrow> bool" where
  "unwritten m \<equiv> writes_only (\<lambda>_. False) m"

lemma adds_after_quiet:
  assumes "unwritten m" and "\<And>x t. puts t = [] \<Longrightarrow> Q (Inl x) t"
    and "\<And>x. adds e (k x) Q" and "\<And>r t t'. puts t = [] \<Longrightarrow> Q r t' \<Longrightarrow> Q r (t @ t')"
  shows "adds e (bind_io m k) Q"
proof (rule adds_bind [OF adds_writes [OF assms(1)]])
  fix x t assume t: "\<forall>k\<in>set (puts t). False"
  then have none: "puts t = []" by simp
  from assms(2) [OF this] show "Q (Inl x) t" .
  show "adds e (k y) (\<lambda>r t'. Q r (t @ t'))" for y
    by (rule adds_mono [OF assms(3)]) (rule assms(4) [OF none])
qed

lemma adds_finally:
  assumes "adds e m P" and "unwritten f"
    and "\<And>r t t'. P r t \<Longrightarrow> puts t' = [] \<Longrightarrow> Q r (t @ t')"
    and "\<And>r x t t'. P r t \<Longrightarrow> puts t' = [] \<Longrightarrow> Q (Inl x) (t @ t')"
  shows "adds e (finally_io m f) Q"
proof (rule addsI)
  fix h r h' assume run: "finally_io m f e h = (r, h')"
  obtain q h1 where m: "m e h = (q, h1)" by fastforce
  obtain u h2 where f: "f e h1 = (u, h2)" by fastforce
  from addsD [OF assms(1) m] obtain t where t: "h1 = h @ t" "P q t" by blast
  from writes_onlyD [OF assms(2) f] obtain t' where t': "h2 = h1 @ t'" "puts t' = []" by auto
  have "h' = h2" "r = q \<or> (\<exists>x. r = Inl x)" using run m f by (auto simp: finally_io_def split: sum.splits)
  with t t' assms(3,4) show "\<exists>t. h' = h @ t \<and> Q r t" by fastforce
qed

lemma adds_map:
  assumes "\<And>x. x \<in> set xs \<Longrightarrow> adds e (f x) (\<lambda>r t. P t \<and> (\<forall>y. r = Inr y \<longrightarrow> W y t))"
    and "P []" and "\<And>t t'. P t \<Longrightarrow> P t' \<Longrightarrow> P (t @ t')"
    and "\<And>y t t'. W y t \<Longrightarrow> W y (t @ t')" and "\<And>y t t'. W y t \<Longrightarrow> W y (t' @ t)"
  shows "adds e (map_io xs f)
    (\<lambda>r t. P t \<and> (\<forall>ys. r = Inr ys \<longrightarrow> length ys = length xs \<and> (\<forall>y\<in>set ys. W y t)))"
  using assms(1)
proof (induction xs)
  case Nil
  show ?case unfolding map_io.simps by (rule adds_ret) (use assms(2) in simp)
next
  case (Cons x xs)
  have head: "adds e (f x) (\<lambda>r t. P t \<and> (\<forall>y. r = Inr y \<longrightarrow> W y t))" using Cons.prems by simp
  have tail: "adds e (map_io xs f)
      (\<lambda>r t. P t \<and> (\<forall>ys. r = Inr ys \<longrightarrow> length ys = length xs \<and> (\<forall>y\<in>set ys. W y t)))"
    using Cons by simp
  show ?case
    unfolding map_io.simps
    by (rule adds_bind [OF head], simp, rule adds_bind [OF tail], use assms(3) in blast, rule adds_ret)
      (use assms(3,4,5) in auto)
qed

definition quiet_rendition_builder :: "rendition_builder \<Rightarrow> bool" where
  \<comment> \<open>its prober and its lock write nothing to the storage it uses\<close>
  "quiet_rendition_builder b \<longleftrightarrow> rb_store b = minio_object_store
     \<and> (\<forall>path. unwritten (rb_prober b path)) \<and> (\<forall>k. unwritten (rb_lock b k)) \<and> (\<forall>k. unwritten (rb_unlock b k))"

lemma quiet_rendition_builderD:
  assumes "quiet_rendition_builder b"
  shows "rb_store b = minio_object_store" "unwritten (rb_prober b path)" "unwritten (rb_lock b k)" "unwritten (rb_unlock b k)"
  using assms by (simp_all add: quiet_rendition_builder_def)

definition piece_of :: "string \<Rightarrow> string \<Rightarrow> string \<Rightarrow> bool" where
  "piece_of folder kind key \<longleftrightarrow> starts_with key (folder @ ''/'' @ kind @ ''/'')"

lemma plan_rendition_kind: "plan_rendition kind probe fps h = Inr (Some plan) \<Longrightarrow> rp_kind plan = kind"
  by (auto simp: plan_rendition_def Let_def split: if_splits sum.splits option.splits)

lemma upload_sorted:
  "adds e (for_io ns (\<lambda>n. st_upload minio_object_store (key n) (path n) (ctype n)))
     (\<lambda>r t. \<exists>m. puts t = map key (take m ns) \<and> (r = Inr () \<longrightarrow> m = length ns))"
proof (rule addsI)
  let ?m = "for_io ns (\<lambda>n. st_upload minio_object_store (key n) (path n) (ctype n))"
  fix h r h' assume run: "?m e h = (r, h')"
  have "writes_only (\<lambda>_. True) ?m" by (intro writes minio.upload_writes_only) simp
  from writes_onlyD [OF this run] obtain t where t: "h' = h @ t" by blast
  from minio.upload_each [OF run] obtain m where
    "puts h' = puts h @ map key (take m ns)" "r = Inr () \<longrightarrow> m = length ns" by blast
  with t show "\<exists>t. h' = h @ t \<and> (\<exists>m. puts t = map key (take m ns) \<and> (r = Inr () \<longrightarrow> m = length ns))" by auto
qed

definition rung_done :: "string \<Rightarrow> listing \<Rightarrow> call list \<Rightarrow> bool" where
  \<comment> \<open>the rung's playlist has been written to storage\<close>
  "rung_done folder l t \<longleftrightarrow> folder @ ''/'' @ rendition_uri l \<in> set (puts t)"

lemma peak_bandwidth_unwritten: "unwritten (peak_bandwidth playlist d)"
  unfolding peak_bandwidth_def Let_def by (intro writes)

lemma encode_rung_adds:
  assumes b: "quiet_rendition_builder b" and f: "files_listed e"
  shows "adds e (encode_rung b kind folder work probe src fps rung)
    (\<lambda>r t. (\<forall>k\<in>set (puts t). piece_of folder kind k) \<and> (\<forall>l. r = Inr l \<longrightarrow> rung_done folder l t))"
proof (rule addsI)
  fix h r h' assume run: "encode_rung b kind folder work probe src fps rung e h = (r, h')"
  let ?dir = "in_dir (in_dir work kind) (dec_int rung)"
  let ?key = "\<lambda>n. folder @ ''/'' @ kind @ ''/'' @ dec_int rung @ ''/'' @ n"
  note bD = quiet_rendition_builderD [OF b]
  have "writes_only (piece_of folder kind) (encode_rung b kind folder work probe src fps rung)"
    unfolding encode_rung_def Let_def bD(1)
    by (intro writes) (auto split: option.split run_outcome.split intro!: writes minio.upload_writes_only
        writes_mono [OF peak_bandwidth_unwritten] simp: piece_of_def starts_with_def)
  from writes_onlyD [OF this run] obtain t where t: "h' = h @ t" "\<forall>k\<in>set (puts t). piece_of folder kind k" by blast
  have "rung_done folder l t" if l: "r = Inr l" for l
  proof -
    let ?h1 = "h @ [Mkdir ?dir]"
    from run obtain plan where plan: "plan_rendition kind probe fps rung = Inr (Some plan)"
      unfolding l by (auto simp: encode_rung_def Let_def bind_io_Inr split: option.splits)
    let ?cmd = "rendition_command plan src ?dir (rb_ffmpeg b) fps"
    let ?h2 = "?h1 @ [Run ?cmd (rb_timeout b)]"
    note step = run [unfolded l encode_rung_def Let_def, simplified bind_io_Inr lift_eq plan sum.inject,
        simplified bind_io_Inr mkdir_def run_process_def do_call_def bD(1), simplified]
    from step obtain code out err where ran: "e_run e ?h1 ?cmd (rb_timeout b) = Ran code out err"
      by (cases "e_run e ?h1 ?cmd (rb_timeout b)") (auto simp: bind_io_Inr)
    from step have there: "e_is_file e ?h2 (in_dir ?dir ''index.m3u8'')"
      by (auto simp: ran bind_io_Inr is_file_def ask_def split: if_splits)
    from step there obtain playlist h3 bandwidth where
      up: "for_io (sort (e_files e ?h2 ?dir)) (\<lambda>name. st_upload minio_object_store (?key name) (in_dir ?dir name) (content_type_for name)) e ?h2
        = (Inr (), h3)" and
      peak: "peak_bandwidth playlist ?dir e h3 = (Inr bandwidth, h')" and
      l: "li_plan l = plan" "li_rung l = rung"
      by (auto simp: ran bind_io_Inr is_file_def ask_def read_text_def split: if_splits)
    have "puts ?h2 = puts h" by (simp only: puts_append puts_call append_Nil2)
    with minio.upload_each [OF up] have h3: "puts h3 = puts h @ map ?key (sort (e_files e ?h2 ?dir))"
      by (metis take_all_iff order_refl)
    have "''index.m3u8'' \<in> set (e_files e ?h2 ?dir)" using f there unfolding files_listed_def by blast
    then have "folder @ ''/'' @ rendition_uri l \<in> set (map ?key (sort (e_files e ?h2 ?dir)))"
      by (simp add: rendition_uri_def l plan_rendition_kind [OF plan])
    moreover have "puts h' = puts h3"
      using quietD [OF quietI [OF peak_bandwidth_unwritten] peak] .
    ultimately show ?thesis using h3 t(1) by (simp add: rung_done_def)
  qed
  with t show "\<exists>t. h' = h @ t \<and> (\<forall>k\<in>set (puts t). piece_of folder kind k) \<and> (\<forall>l. r = Inr l \<longrightarrow> rung_done folder l t)"
    by blast
qed

definition relisted :: "string \<Rightarrow> string \<Rightarrow> listing list \<Rightarrow> call list \<Rightarrow> bool" where
  \<comment> \<open>nothing, or the master playlist alone, its text written locally with every rendition added\<close>
  "relisted ladder_key path listed t \<longleftrightarrow>
     puts t = [] \<or> puts t = [ladder_key] \<and> (\<exists>master. WriteText path (foldl add_to_master master listed) \<in> set t)"

lemma relist_adds:
  assumes b: "quiet_rendition_builder b"
  shows "adds e (relist_master b ladder_key path listed)
    (\<lambda>r t. relisted ladder_key path listed t \<and> (r = Inr () \<longrightarrow> puts t = [ladder_key]))"
proof -
  let ?Q = "\<lambda>r t. relisted ladder_key path listed t \<and> (r = Inr () \<longrightarrow> puts t = [ladder_key])"
  note bD = quiet_rendition_builderD [OF b]
  have up: "adds e (st_upload minio_object_store ladder_key path c) (\<lambda>r t. puts t = [ladder_key])" for c
    unfolding adds_def using minio.upload_writes by blast
  have wrote: "adds e (write_text path (foldl add_to_master master listed))
      (\<lambda>r t. r = Inr () \<and> t = [WriteText path (foldl add_to_master master listed)])" for master
    by (simp add: adds_def write_text_def do_call_def)
  have body: "adds e (bind_io (write_text path (foldl add_to_master master listed))
      (\<lambda>_. st_upload minio_object_store ladder_key path c)) ?Q" for master c
    by (rule adds_bind [OF wrote], simp, rule adds_mono [OF up]) (auto simp: relisted_def simp flip: append_Cons)
  have after: "adds e (bind_io m k) ?Q" if "unwritten m" "\<And>x. adds e (k x) ?Q" for m :: "'q io" and k
    by (rule adds_after_quiet [OF that(1)]) (use that(2) in \<open>auto simp: relisted_def\<close>)
  show ?thesis
    unfolding relist_master_def bD(1)
  proof (rule after [OF bD(3)], rule adds_finally [where P = ?Q, OF _ bD(4)])
    show "adds e (bind_io (st_download minio_object_store ladder_key path) (\<lambda>_. bind_io (read_text path) (\<lambda>master.
        bind_io (write_text path (foldl add_to_master master listed)) (\<lambda>_.
          st_upload minio_object_store ladder_key path (content_type_for ''master.m3u8''))))) ?Q"
      by (intro after minio.download_writes writes_read body)
  qed (auto simp: relisted_def)
qed

definition rendition_order :: "string \<Rightarrow> string \<Rightarrow> string \<Rightarrow> exn + bool \<Rightarrow> call list \<Rightarrow> bool" where
  \<comment> \<open>the pieces, then at most the master playlist, which lists what has been written\<close>
  "rendition_order folder kind ladder_key r t \<longleftrightarrow>
     (\<exists>ps m. puts t = ps @ m \<and> (\<forall>k\<in>set ps. piece_of folder kind k)
       \<and> (m = [] \<or> m = [ladder_key] \<and> (\<exists>path master listed.
             WriteText path (foldl add_to_master master listed) \<in> set t \<and> listed \<noteq> []
             \<and> (\<forall>l\<in>set listed. folder @ ''/'' @ rendition_uri l \<in> set ps)))
       \<and> (r = Inr True \<longrightarrow> m = [ladder_key]))
     \<and> (r = Inr False \<longrightarrow> puts t = [])"

lemma order_nothing: "puts t = [] \<Longrightarrow> r \<noteq> Inr True \<Longrightarrow> rendition_order folder kind ladder_key r t"
  by (auto simp: rendition_order_def)

lemma order_same:
  assumes "rendition_order folder kind ladder_key r t" and "puts t' = puts t" and "set t \<subseteq> set t'"
  shows "rendition_order folder kind ladder_key r t'"
  using assms(1) unfolding rendition_order_def assms(2) using assms(3) by blast

lemma order_quiet_before:
  "puts t = [] \<Longrightarrow> rendition_order folder kind ladder_key r t' \<Longrightarrow> rendition_order folder kind ladder_key r (t @ t')"
  by (erule order_same) auto

lemma order_quiet_after:
  "rendition_order folder kind ladder_key r t \<Longrightarrow> puts t' = [] \<Longrightarrow> rendition_order folder kind ladder_key r (t @ t')"
  by (erule order_same) auto

lemma order_interrupted:
  "rendition_order folder kind ladder_key r t \<Longrightarrow> rendition_order folder kind ladder_key (Inl x) t"
  unfolding rendition_order_def by blast

lemma order_relisted:
  assumes "\<forall>k\<in>set (puts t). piece_of folder kind k" and "\<forall>l\<in>set listed. rung_done folder l t"
    and "listed \<noteq> []" and "relisted ladder_key path listed t'" and "r = Inr True \<longrightarrow> puts t' = [ladder_key]" and "r \<noteq> Inr False"
  shows "rendition_order folder kind ladder_key r (t @ t')"
  unfolding rendition_order_def
  using assms unfolding relisted_def rung_done_def
  by (intro conjI exI [of _ "puts t"] exI [of _ "puts t'"]) auto

lemma rungs_for_nonempty: "rungs_for kind h = Inr rungs \<Longrightarrow> rungs \<noteq> []"
  by (auto simp: rungs_for_def Let_def split: option.splits if_splits)

lemma build_in_work_adds:
  assumes b: "quiet_rendition_builder b" and f: "files_listed e"
  shows "adds e (build_in_work b kind src ladder_key fps work)
    (rendition_order (before_last CHR ''/'' ladder_key) kind ladder_key)"
proof -
  let ?folder = "before_last CHR ''/'' ladder_key"
  let ?Q = "rendition_order ?folder kind ladder_key"
  note bD = quiet_rendition_builderD [OF b]
  have after: "adds e (bind_io m k) ?Q" if "unwritten m" "\<And>x. adds e (k x) ?Q" for m :: "'q io" and k
    by (rule adds_after_quiet [OF that(1)]) (use that(2) in \<open>simp_all add: order_nothing order_quiet_before\<close>)
  have no: "adds e (ret False) ?Q" by (rule adds_ret) (simp add: order_nothing)
  have rungs: "adds e (bind_io (map_io rungs (encode_rung b kind ?folder work probe path fps)) (\<lambda>listed.
      bind_io (relist_master b ladder_key mp listed) (\<lambda>_. ret True))) ?Q"
    if "rungs \<noteq> []" for rungs probe path mp
  proof (rule adds_bind)
    show "adds e (map_io rungs (encode_rung b kind ?folder work probe path fps))
      (\<lambda>r t. (\<forall>k\<in>set (puts t). piece_of ?folder kind k)
         \<and> (\<forall>ys. r = Inr ys \<longrightarrow> length ys = length rungs \<and> (\<forall>y\<in>set ys. rung_done ?folder y t)))"
      by (rule adds_map [OF encode_rung_adds [OF b f]]) (auto simp: rung_done_def)
  next
    fix listed t assume t: "(\<forall>k\<in>set (puts t). piece_of ?folder kind k)
         \<and> (\<forall>ys. Inr listed = Inr ys \<longrightarrow> length ys = length rungs \<and> (\<forall>y\<in>set ys. rung_done ?folder y t))"
    show "adds e (bind_io (relist_master b ladder_key mp listed) (\<lambda>_. ret True)) (\<lambda>r t'. ?Q r (t @ t'))"
    proof (rule adds_bind [OF relist_adds [OF b]])
      have listed: "listed \<noteq> []" using t that by auto
      show "?Q (Inl x) (t @ t')" if "relisted ladder_key mp listed t' \<and> (Inl x = Inr () \<longrightarrow> puts t' = [ladder_key])" for x :: exn and t'
        by (rule order_relisted [where listed = listed]) (use t that listed in auto)
      show "adds e (ret True) (\<lambda>r t''. ?Q r (t @ t' @ t''))"
        if "relisted ladder_key mp listed t' \<and> (Inr u = Inr () \<longrightarrow> puts t' = [ladder_key])" for u t'
        by (rule adds_ret, rule order_relisted [where listed = listed]) (use t that listed in auto)
    qed
  next
    fix x :: exn and t assume "(\<forall>k\<in>set (puts t). piece_of ?folder kind k)
         \<and> (\<forall>ys. Inl x = Inr ys \<longrightarrow> length ys = length rungs \<and> (\<forall>y\<in>set (ys :: listing list). rung_done ?folder y t))"
    then show "?Q (Inl x) t" unfolding rendition_order_def by auto
  qed
  have lifted: "adds e (bind_io (lift (rungs_for kind h)) k) ?Q" if "\<And>x. x \<noteq> [] \<Longrightarrow> adds e (k x) ?Q" for h k
    using that rungs_for_nonempty [of kind h]
    by (cases "rungs_for kind h") (auto simp: adds_def bind_io_def order_nothing)
  show ?thesis
    unfolding build_in_work_def Let_def bD(1)
    by (intro after minio.download_writes writes_read) (auto intro!: no after minio.download_writes writes bD(2) lifted rungs)
qed


definition sample_rendition_builder :: rendition_builder where
  "sample_rendition_builder = \<lparr>rb_store = minio_object_store,
     rb_prober = (\<lambda>_. ret \<lparr>probe_width = 640, probe_height = 360, duration_seconds = Fin 10, hdr = False,
        frame_rate = None, color_transfer = None\<rparr>),
     rb_ffmpeg = ''ffmpeg'', rb_timeout = 1770, rb_lock = (\<lambda>_. ret ()), rb_unlock = (\<lambda>_. ret ())\<rparr>"


definition sample_master :: string where
  "sample_master = unlines [''#EXTM3U'', ''#EXT-X-STREAM-INF:BANDWIDTH=928000,RESOLUTION=640x360,FRAME-RATE=30.000'',
     ''v0/index.m3u8'']"

definition sample_listing :: listing where
  "sample_listing = \<lparr>li_plan = \<lparr>rp_kind = ''av1'', rp_codecs = ''av01.0.04M.08'', rp_video_range = ''SDR'', rp_filters = [],
     rp_color_args = [], rp_crf = 30, rp_maxrate = 296000\<rparr>, li_rung = 360, li_resolution = ''640x360'',
     li_bandwidth = (300000, 200000)\<rparr>"


end
