(* ===== verification/Jobs_Api.thy ===== *)
theory Jobs_Api
  imports Guarantees Job_Queries Cleanup Queueing Tasks Chunk_Plan
begin

text \<open>
  \<open>app/api/jobs.py\<close> with \<open>app/schemas/job.py\<close> and the reading half of \<open>app/services/progress.py\<close>: the
  requests on a library. A request that only reads sees, at each query, whatever has been committed by
  then. The signer and Redis are what they answer; the error bodies are \<open>Refused\<close>.
\<close>

section \<open>What a job shows\<close>

record api_settings =
  as_public_prefix :: string
  as_trash_days :: int
  as_mp4_max_height :: int

record url_signer =
  sg_url :: "string \<Rightarrow> exn + string"
  sg_inline_url :: "string \<Rightarrow> exn + string"

record edit_options =
  eo_downscale :: "int list"
  eo_upscale :: "int list"

record edit_source =
  es_job_id :: uuid
  es_width :: "int option"
  es_height :: "int option"
  es_duration :: "pyfloat option"

record job_response =
  jr_id :: uuid
  jr_filename :: string
  jr_status :: job_status
  jr_output_url :: "string option"
  jr_hls_url :: "string option"
  jr_hls_status :: hls_status
  jr_width :: "int option"
  jr_height :: "int option"
  jr_duration :: "pyfloat option"
  jr_thumbnail_url :: "string option"
  jr_preview_vtt_url :: "string option"
  jr_max_fps :: int
  jr_edit_source :: "edit_source option"
  jr_edit_options :: "edit_options option"
  jr_progress :: "int option"
  jr_error :: "string option"
  jr_deleted_at :: "instant option"
  jr_purge_at :: "instant option"

definition DEFAULT_PAGE_SIZE :: nat where "DEFAULT_PAGE_SIZE = 50"
definition MAX_PAGE_SIZE :: nat where "MAX_PAGE_SIZE = 200"

definition edit_base :: "job \<Rightarrow> job \<Rightarrow> job" where
  "edit_base j origin = (if job_operations origin = None then origin else j)"

definition editable_height_of :: "api_settings \<Rightarrow> job \<Rightarrow> int option" where
  "editable_height_of st base =
     (if job_operations base = None
      then (case job_height base of Some h \<Rightarrow> if 0 < h then Some h else None | None \<Rightarrow> None)
      else editable_height (job_height base) True (as_mp4_max_height st))"

definition edit_options_of :: "api_settings \<Rightarrow> job \<Rightarrow> job \<Rightarrow> edit_options option" where
  "edit_options_of st j base =
     (if job_status j \<noteq> Done then None
      else case scale_options (editable_height_of st base) of
             None \<Rightarrow> None
           | Some (down, up) \<Rightarrow> Some \<lparr>eo_downscale = down, eo_upscale = up\<rparr>)"

definition edit_source_of :: "job \<Rightarrow> job \<Rightarrow> edit_source option" where
  "edit_source_of j base =
     (if job_status j \<noteq> Done then None
      else Some \<lparr>es_job_id = job_id base, es_width = job_width base, es_height = job_height base,
                 es_duration = job_duration base\<rparr>)"

definition rstrip_slashes :: "string \<Rightarrow> string" where
  \<comment> \<open>\<open>s.rstrip("/")\<close>\<close>
  "rstrip_slashes s = rev (dropWhile (\<lambda>c. c = CHR ''/'') (rev s))"

definition preview_vtt_path :: "uuid \<Rightarrow> string" where
  "preview_vtt_path k = ''/jobs/'' @ uuid_text k @ ''/preview.vtt''"

definition signed_if :: "bool \<Rightarrow> (string \<Rightarrow> exn + string) \<Rightarrow> string option \<Rightarrow> exn + string option" where
  \<comment> \<open>a URL for the key, when it is shown and not empty\<close>
  "signed_if shown url key =
     (case key of
        Some (c # cs) \<Rightarrow> if shown then bind_ok (url (c # cs)) (\<lambda>u. Inr (Some u)) else Inr None
      | _ \<Rightarrow> Inr None)"

definition day :: instant where "day = 86400 * 1000000"

definition to_response ::
  "api_settings \<Rightarrow> url_signer \<Rightarrow> job \<Rightarrow> job option \<Rightarrow> int option \<Rightarrow> exn + job_response"
where
  "to_response st sg j origin progress =
     (let base = edit_base j (case origin of Some r \<Rightarrow> r | None \<Rightarrow> j);
          is_done = (job_status j = Done);
          prefix = rstrip_slashes (as_public_prefix st);
          has_hls = (is_done \<and> truthy (job_hls_key j) \<noteq> [])
      in bind_ok (signed_if is_done (sg_url sg) (job_output_key j)) (\<lambda>output_url.
         bind_ok (signed_if is_done (sg_url sg) (job_thumbnail_key j)) (\<lambda>thumbnail_url.
           Inr \<lparr>jr_id = job_id j, jr_filename = job_filename j, jr_status = job_status j,
             jr_output_url = output_url,
             jr_hls_url = (if has_hls then Some (prefix @ ''/jobs/'' @ uuid_text (job_id j) @ ''/hls/master.m3u8'') else None),
             jr_hls_status = job_hls_status j, jr_width = job_width j, jr_height = job_height j,
             jr_duration = job_duration j, jr_thumbnail_url = thumbnail_url,
             jr_preview_vtt_url = (if has_hls \<and> truthy (job_preview_key j) \<noteq> []
                then Some (prefix @ preview_vtt_path (job_id j)) else None),
             jr_max_fps = job_max_fps j, jr_edit_source = edit_source_of j base,
             jr_edit_options = edit_options_of st j base,
             jr_progress = (if job_status j = Processing then progress else None),
             jr_error = (if job_status j = Failed then job_error j else None),
             jr_deleted_at = job_deleted_at j,
             jr_purge_at = map_option (\<lambda>t. t + day * max 0 (as_trash_days st)) (job_deleted_at j)\<rparr>)))"

section \<open>Progress\<close>

definition get_progress :: "(event list \<Rightarrow> uuid list \<Rightarrow> exn + int option list) \<Rightarrow> uuid list \<Rightarrow> (uuid \<rightharpoonup> int) task" where
  \<comment> \<open>\<open>mget\<close> is what Redis answers, each value read as the number it is\<close>
  "get_progress mget ids =
     (if ids = [] then ret_t Map.empty
      else bind_t (asking (\<lambda>t. mget t ids)) (\<lambda>values.
        case values of
          Inl _ \<Rightarrow> ret_t Map.empty
        | Inr vs \<Rightarrow>
            if length vs \<noteq> length ids then raise_t (ValueError ''zip() argument 2 is not as long as argument 1'')
            else ret_t (later_wins (concat (map2 (\<lambda>k v. case v of Some p \<Rightarrow> [(k, p)] | None \<Rightarrow> []) ids vs)))))"

definition progress_of :: "(event list \<Rightarrow> uuid list \<Rightarrow> exn + int option list) \<Rightarrow> job list \<Rightarrow> (uuid \<rightharpoonup> int) task" where
  "progress_of mget js =
     (let running = map job_id (filter (\<lambda>j. job_status j = Processing) js)
      in if running = [] then ret_t Map.empty else get_progress mget running)"

section \<open>Reading requests\<close>

record jobs_api =
  ja_settings :: api_settings
  ja_signer :: url_signer
  ja_mget :: "event list \<Rightarrow> uuid list \<Rightarrow> exn + int option list"

definition response_of :: "jobs_api \<Rightarrow> (uuid \<rightharpoonup> job) \<Rightarrow> (uuid \<rightharpoonup> int) \<Rightarrow> job \<Rightarrow> exn + job_response" where
  "response_of a roots progress j =
     (case roots (job_id j) of
        None \<Rightarrow> Inl (KeyError (uuid_text (job_id j)))
      | Some origin \<Rightarrow> to_response (ja_settings a) (ja_signer a) j (Some origin) (progress (job_id j)))"

definition show_jobs :: "jobs_api \<Rightarrow> job list \<Rightarrow> job_response list task" where
  "show_jobs a js =
     bind_t (reading (\<lambda>d. resolve_edit_roots d js)) (\<lambda>roots.
     bind_t (progress_of (ja_mget a) js) (\<lambda>progress.
       lift_t (map_ok (response_of a roots progress) js)))"

definition show_without_progress :: "jobs_api \<Rightarrow> job list \<Rightarrow> job_response list task" where
  "show_without_progress a js =
     bind_t (reading (\<lambda>d. resolve_edit_roots d js)) (\<lambda>roots. lift_t (map_ok (response_of a roots Map.empty) js))"

definition get_jobs :: "jobs_api \<Rightarrow> uuid \<Rightarrow> nat \<Rightarrow> nat \<Rightarrow> job_response list task" where
  "get_jobs a own n off = bind_t (reading (\<lambda>d. list_jobs d (Some own) n off)) (show_jobs a)"

definition get_trash :: "jobs_api \<Rightarrow> uuid \<Rightarrow> nat \<Rightarrow> nat \<Rightarrow> job_response list task" where
  "get_trash a own n off = bind_t (reading (\<lambda>d. list_trash d own n off)) (show_without_progress a)"

definition get_job_by_id :: "jobs_api \<Rightarrow> uuid \<Rightarrow> uuid \<Rightarrow> job_response list task" where
  \<comment> \<open>the one response\<close>
  "get_job_by_id a k own =
     bind_t (reading (\<lambda>d. get_job d k (Some own) False)) (\<lambda>found.
       case found of None \<Rightarrow> raise_t (ApiNotFound ''not found'') | Some j \<Rightarrow> show_jobs a [j])"

definition get_all_jobs :: "jobs_api \<Rightarrow> nat \<Rightarrow> nat \<Rightarrow> job_response list task" where
  "get_all_jobs a n off = bind_t (reading (\<lambda>d. list_jobs d None n off)) (show_jobs a)"

section \<open>Changing requests\<close>

datatype reply =
    Shown "job_response list"
  | Accepted uuid
  | NoContent
  | Refused nat string

definition restore_job_by_id :: "jobs_api \<Rightarrow> uuid \<Rightarrow> uuid \<Rightarrow> reply task" where
  "restore_job_by_id a k own =
     bind_t (session (\<lambda>now. restore_job k own)) (\<lambda>restored.
       case restored of
         None \<Rightarrow> raise_t (ApiNotFound ''not found'')
       | Some j \<Rightarrow> bind_t (show_without_progress a [j]) (\<lambda>rs. ret_t (Shown rs)))"

definition delete_job_and_storage :: "uuid \<Rightarrow> uuid option \<Rightarrow> job option task" where
  "delete_job_and_storage k own =
     bind_t (session (\<lambda>now d. Inr (delete_job k own d))) (\<lambda>gone.
       case gone of
         None \<Rightarrow> ret_t None
       | Some j \<Rightarrow> bind_t (in_thread (delete_job_storage True j)) (\<lambda>_. ret_t (Some j)))"

definition no_content_or_404 :: "job option \<Rightarrow> reply task" where
  "no_content_or_404 found = (case found of None \<Rightarrow> raise_t (ApiNotFound ''not found'') | Some _ \<Rightarrow> ret_t NoContent)"

definition delete_job_permanently :: "uuid \<Rightarrow> uuid \<Rightarrow> reply task" where
  "delete_job_permanently k own = bind_t (delete_job_and_storage k (Some own)) no_content_or_404"

definition delete_job_by_id :: "jobs_api \<Rightarrow> uuid \<Rightarrow> uuid \<Rightarrow> reply task" where
  "delete_job_by_id a k own =
     (if 0 < as_trash_days (ja_settings a)
      then bind_t (session (\<lambda>now. trash_job now k own)) no_content_or_404
      else bind_t (delete_job_and_storage k (Some own)) no_content_or_404)"

definition delete_job_by_id_as_operator :: "uuid \<Rightarrow> reply task" where
  "delete_job_by_id_as_operator k = bind_t (delete_job_and_storage k None) no_content_or_404"

definition retry_job_by_id :: "uuid \<Rightarrow> uuid \<Rightarrow> reply task" where
  \<comment> \<open>the update holds the row until the commit\<close>
  "retry_job_by_id k own =
     bind_t clock (\<lambda>now.
     bind_t (try_t (acquire (prepare_retry now k own))) (\<lambda>claimed.
       case claimed of
         Inl JobNotFound \<Rightarrow> raise_t (ApiNotFound ''not found'')
       | Inl (InvalidJobTransition _) \<Rightarrow> ret_t (Refused 409 ''only failed jobs can be retried'')
       | Inl x \<Rightarrow> raise_t x
       | Inr (d', _) \<Rightarrow>
           bind_t (try_t (bind_t (in_thread (enqueue_job k)) (\<lambda>_. commit_now (\<lambda>_. Inr d')))) (\<lambda>queued.
             ret_t (case queued of
                 Inl _ \<Rightarrow> Refused 503 ''retry could not be confirmed; refresh the job and try again''
               | Inr _ \<Rightarrow> Accepted k))))"

definition edit_filename :: "job \<Rightarrow> edit_request \<Rightarrow> string" where
  "edit_filename source request =
     or_else (path_stem (job_filename source)) ''edited-video'' @ ''-edited.''
       @ (case operation_named request ''convert'' of Some (ConvertOperation f) \<Rightarrow> f | _ \<Rightarrow> ''mp4'')"

definition queue_edit :: "uuid \<Rightarrow> uuid \<Rightarrow> string \<Rightarrow> string \<Rightarrow> edit_request \<Rightarrow> int \<Rightarrow> reply task" where
  \<comment> \<open>the row, then its delivery; the row goes again when it cannot be delivered\<close>
  "queue_edit own new_job_id filename source_key request max_fps =
     bind_t (session (\<lambda>now. create_edit_job now own new_job_id filename source_key (stored_operations request) max_fps)) (\<lambda>created.
     bind_t (try_t (in_thread (enqueue_job (job_id created)))) (\<lambda>queued.
       case queued of
         Inl _ \<Rightarrow> bind_t (session (\<lambda>now d. Inr (delete_job (job_id created) (Some own) d))) (\<lambda>_.
                    ret_t (Refused 503 ''edit could not be queued; please try again''))
       | Inr _ \<Rightarrow> ret_t (Accepted (job_id created))))"

definition edit_job_by_id :: "jobs_api \<Rightarrow> uuid \<Rightarrow> uuid \<Rightarrow> edit_request \<Rightarrow> uuid \<Rightarrow> reply task" where
  \<comment> \<open>\<open>new_job_id\<close> is what \<open>uuid4\<close> returns\<close>
  "edit_job_by_id a k own request new_job_id =
     bind_t (reading (\<lambda>d. get_job d k (Some own) False)) (\<lambda>found.
       case found of
         None \<Rightarrow> raise_t (ApiNotFound ''not found'')
       | Some source \<Rightarrow>
           if job_status source \<noteq> Done \<or> truthy (job_output_key source) = []
           then ret_t (Refused 409 ''only completed jobs can be edited'')
           else
             bind_t (reading (\<lambda>d. resolve_edit_roots d [source])) (\<lambda>roots.
               case roots (job_id source) of
                 None \<Rightarrow> raise_t (KeyError (uuid_text (job_id source)))
               | Some origin \<Rightarrow>
                   (let base = edit_base source origin
                    in case check_edit_operations (map (\<lambda>item. (op_name item, op_params item)) request)
                              (editable_height_of (ja_settings a) base) (job_width base) of
                         Inl (MediaRuleError text) \<Rightarrow> ret_t (Refused 422 text)
                       | Inl x \<Rightarrow> raise_t x
                       | Inr _ \<Rightarrow>
                           (case (if job_operations base = None then Some (job_source_key base) else job_output_key base) of
                              None \<Rightarrow> raise_t IntegrityError
                            | Some source_key \<Rightarrow>
                                queue_edit own new_job_id (edit_filename source request) source_key request (job_max_fps base)))))"

section \<open>Requests of an owner\<close>

datatype job_request =
    GetJobs nat nat
  | GetTrash nat nat
  | GetJob uuid
  | RestoreJob uuid
  | DeleteJob uuid
  | DeleteForGood uuid
  | RetryJob uuid
  | EditJob uuid edit_request uuid

fun serve_job :: "jobs_api \<Rightarrow> uuid \<Rightarrow> job_request \<Rightarrow> reply task" where
  "serve_job a own (GetJobs n off) = bind_t (get_jobs a own n off) (\<lambda>rs. ret_t (Shown rs))"
| "serve_job a own (GetTrash n off) = bind_t (get_trash a own n off) (\<lambda>rs. ret_t (Shown rs))"
| "serve_job a own (GetJob k) = bind_t (get_job_by_id a k own) (\<lambda>rs. ret_t (Shown rs))"
| "serve_job a own (RestoreJob k) = restore_job_by_id a k own"
| "serve_job a own (DeleteJob k) = delete_job_by_id a k own"
| "serve_job a own (DeleteForGood k) = delete_job_permanently k own"
| "serve_job a own (RetryJob k) = retry_job_by_id k own"
| "serve_job a own (EditJob k request new_job_id) = edit_job_by_id a k own request new_job_id"

section \<open>An owner's requests stay with the owner\<close>

definition jobs_of_others :: "uuid \<Rightarrow> db \<Rightarrow> job list" where
  "jobs_of_others own d = filter (\<lambda>j. job_owner_id j \<noteq> own) (db_jobs d)"

definition owner_guarantee :: "uuid \<Rightarrow> guarantee" where
  \<comment> \<open>a step of the job repository that touches nothing of anyone else\<close>
  "owner_guarantee own t d d' \<longleftrightarrow> job_step d d' \<and> jobs_of_others own d' = jobs_of_others own d
     \<and> db_users d' = db_users d \<and> db_uploads d' = db_uploads d"

definition shown_of :: "jobs_api \<Rightarrow> uuid \<Rightarrow> job_response \<Rightarrow> bool" where
  \<comment> \<open>the response of a job of this owner, whose edits start from a job of this owner\<close>
  "shown_of a own r \<longleftrightarrow> (\<exists>j origin p. job_owner_id j = own \<and> job_owner_id origin = own
     \<and> to_response (ja_settings a) (ja_signer a) j (Some origin) p = Inr r)"

definition reply_of :: "jobs_api \<Rightarrow> uuid \<Rightarrow> reply \<Rightarrow> bool" where
  "reply_of a own rep \<longleftrightarrow> (\<forall>rs. rep = Shown rs \<longrightarrow> (\<forall>r\<in>set rs. shown_of a own r))"

lemma reply_of_simps [simp]: "reply_of a own (Accepted k)" "reply_of a own NoContent" "reply_of a own (Refused n t)"
  "reply_of a own (Shown rs) \<longleftrightarrow> (\<forall>r\<in>set rs. shown_of a own r)"
  by (simp_all add: reply_of_def)

lemma map_ok_mem: "map_ok f xs = Inr ys \<Longrightarrow> y \<in> set ys \<Longrightarrow> \<exists>x\<in>set xs. f x = Inr y"
  by (induction xs arbitrary: ys) (auto simp: bind_ok_def split: sum.splits)

lemma origins_owned:
  assumes "\<forall>j\<in>set js. job_owner_id j = own" and "resolve_edit_roots d js k = Some r"
  shows "job_owner_id r = own"
proof -
  have "\<forall>(k, c) \<in> set (map (\<lambda>j. (job_id j, j)) (filter (\<lambda>j. job_operations j \<noteq> None) js)). job_owner_id c = own"
    "owned_by (\<lambda>_. own) (later_wins (map (\<lambda>j. (job_id j, j)) js))"
    using assms(1) by (auto simp: owned_by_def dest!: later_wins_mem)
  from hops_owned [OF this, of MAX_EDIT_CHAIN d] assms(2)
  show ?thesis by (auto simp: resolve_edit_roots_def owned_by_def)
qed

lemma responses_owned:
  assumes "\<forall>j\<in>set js. job_owner_id j = own" and "map_ok (response_of a (resolve_edit_roots d js) progress) js = Inr rs"
  shows "\<forall>r\<in>set rs. shown_of a own r"
proof
  fix r assume "r \<in> set rs"
  from map_ok_mem [OF assms(2) this] obtain j where
    j: "j \<in> set js" "response_of a (resolve_edit_roots d js) progress j = Inr r" by blast
  then obtain origin where "resolve_edit_roots d js (job_id j) = Some origin"
    "to_response (ja_settings a) (ja_signer a) j (Some origin) (progress (job_id j)) = Inr r"
    by (auto simp: response_of_def split: option.splits)
  with j(1) assms(1) origins_owned [OF assms(1)] show "shown_of a own r" unfolding shown_of_def by blast
qed

text \<open>What the requests are made of.\<close>

abbreviation always :: "event list \<Rightarrow> db \<Rightarrow> bool" where
  "always t d \<equiv> True"

lemma ensures_reading: "ensures W G always (reading f) (\<lambda>a t d. \<exists>d. a = f d)"
  by (rule ensuresI) (auto intro: moves.others)

lemma ensures_asking: "ensures W G always (asking q) (\<lambda>a t d. True)"
  by (rule ensuresI) (auto simp: asking_def)

lemma ensures_time: "ensures W G always clock (\<lambda>a t d. True)"
  by (rule ensuresI) (auto simp: clock_def)

lemma ensures_session:
  assumes "\<And>now t d d' a. f now d = Inr (d', a) \<Longrightarrow> G t d d' \<and> R a"
  shows "ensures W G always (session f) (\<lambda>a t d. R a)"
proof (rule ensuresI)
  fix t d r t' d' assume run: "session f W t d = (r, t', d')"
  have "moves W G (t, d) (t, w_others W t d)" by (rule moves.others)
  then show "(moves W G)\<^sup>*\<^sup>* (t, d) (t', d') \<and> (\<forall>a. r = Inr a \<longrightarrow> R a)"
    using run by (auto simp: session_def split: sum.splits prod.splits dest!: assms intro: rtranclp.rtrancl_into_rtrancl moves.commit)
qed

lemma ensures_io: "writes_only K m \<Longrightarrow> ensures W G always (in_thread m) (\<lambda>a t d. True)"
  by (rule ensures_thread) (use writes_onlyD in blast)

lemma update_job_others:
  assumes "update_job g c k d = Inr (d', r)"
    and "\<And>j. g j \<Longrightarrow> job_owner_id j = own \<and> job_owner_id (c j) = own"
  shows "jobs_of_others own d' = jobs_of_others own d \<and> db_users d' = db_users d \<and> db_uploads d' = db_uploads d
    \<and> (\<forall>j. r = Some j \<longrightarrow> job_owner_id j = own)"
proof -
  let ?hit = "\<lambda>r. job_id r = k \<and> g r"
  from assms(1) obtain js where js: "update_row job_id job_check g c k (db_jobs d) = Inr (js, r)" "d' = d\<lparr>db_jobs := js\<rparr>"
    by (auto simp: update_job_def split: sum.splits)
  have "js = db_jobs d \<and> r = None \<or> js = map (\<lambda>r. if ?hit r then c r else r) (db_jobs d) \<and> (\<exists>j. ?hit j \<and> r = Some (c j))"
    using js(1) by (auto simp: update_row_def Let_def split: if_splits list.splits dest!: map_eq_Cons_conv [THEN iffD1] filter_eq_ConsD)
  moreover have "filter (\<lambda>j. job_owner_id j \<noteq> own) (map (\<lambda>r. if ?hit r then c r else r) xs) = filter (\<lambda>j. job_owner_id j \<noteq> own) xs" for xs
    using assms(2) by (induction xs) auto
  ultimately show ?thesis using js(2) assms(2) by (auto simp: jobs_of_others_def)
qed

lemma insert_job_others:
  assumes "insert_job j d = Inr (d', r)" and "job_owner_id j = own"
  shows "jobs_of_others own d' = jobs_of_others own d \<and> db_users d' = db_users d \<and> db_uploads d' = db_uploads d"
  using assms by (auto simp: insert_job_def insert_row_def jobs_of_others_def split: if_splits)

lemma delete_job_own:
  assumes "delete_job k (Some own) d = (d', r)"
  shows "jobs_of_others own d' = jobs_of_others own d \<and> db_users d' = db_users d \<and> db_uploads d' = db_uploads d"
  using assms by (auto simp: delete_job_def jobs_of_others_def Let_def) (rule filter_cong [OF refl], auto)

text \<open>The transactions of the handlers.\<close>

lemma owner_trash: "trash_job now k own d = Inr (d', r) \<Longrightarrow> owner_guarantee own t d d'"
  unfolding owner_guarantee_def
  using update_job_others [of "trash_guard own" "\<lambda>j. j\<lparr>job_deleted_at := Some now\<rparr>" k d d' r own] job_step.trash [of now k own d d' r]
  by (simp add: trash_job_def trash_guard_def)

lemma owner_restore: "restore_job k own d = Inr (d', r) \<Longrightarrow> owner_guarantee own t d d' \<and> (\<forall>j. r = Some j \<longrightarrow> job_owner_id j = own)"
  unfolding owner_guarantee_def
  using update_job_others [of "restore_guard own" "\<lambda>j. j\<lparr>job_deleted_at := None\<rparr>" k d d' r own] job_step.restore [of k own d d' r]
  by (simp add: restore_job_def restore_guard_def)

lemma owner_retry: "prepare_retry now k own d = Inr (d', j) \<Longrightarrow> owner_guarantee own t d d'"
  unfolding owner_guarantee_def
  using update_job_others [OF retry_update, of now k own d d' j own] job_step.retry [of now k own d d' j]
  by (simp add: retry_guard_def retry_values_def)

lemma owner_edit: "create_edit_job now own k name src ops fps d = Inr (d', j) \<Longrightarrow> owner_guarantee own t d d' \<and> job_id j = k"
  unfolding owner_guarantee_def
  using insert_job_others [of "new_job now k own name src (Some ops) fps" d d' j own] job_step.create_edit [of now own k name src ops fps d d' j]
  by (auto simp: create_edit_job_def new_job_def insert_job_def insert_row_def split: if_splits)

lemma owner_delete: "delete_job k (Some own) d = (d', r) \<Longrightarrow> owner_guarantee own t d d'"
  unfolding owner_guarantee_def using delete_job_own job_step.delete by blast

text \<open>The requests that show jobs.\<close>

lemma ensures_show: "ensures W G always (lift_t r) (\<lambda>a t d. r = Inr a)"
  by (rule ensures_post [OF ensures_lift]) simp

lemma ensures_progress: "ensures W G always (progress_of mget js) (\<lambda>a t d. True)"
  unfolding progress_of_def get_progress_def Let_def
  by (auto intro!: ensures_ret ensures_bind [OF ensures_asking] ensures_raise split: sum.split)

lemma ensures_show_jobs:
  assumes "\<forall>j\<in>set js. job_owner_id j = own"
  shows "ensures W G always (show_jobs a js) (\<lambda>rs t d. \<forall>r\<in>set rs. shown_of a own r)"
  unfolding show_jobs_def
proof (rule ensures_bind [OF ensures_reading])
  fix origins
  show "ensures W G (\<lambda>t d. \<exists>d. origins = resolve_edit_roots d js)
      (bind_t (progress_of (ja_mget a) js) (\<lambda>progress. lift_t (map_ok (response_of a origins progress) js)))
      (\<lambda>rs t d. \<forall>r\<in>set rs. shown_of a own r)"
  proof (cases "\<exists>d. origins = resolve_edit_roots d js")
    case True
    then obtain d where d: "origins = resolve_edit_roots d js" by blast
    have "ensures W G always (bind_t (progress_of (ja_mget a) js) (\<lambda>progress. lift_t (map_ok (response_of a origins progress) js)))
        (\<lambda>rs t d. \<forall>r\<in>set rs. shown_of a own r)"
      by (rule ensures_bind [OF ensures_progress], rule ensures_post [OF ensures_show])
        (rule responses_owned [OF assms], simp add: d)
    then show ?thesis by (rule ensures_pre) simp
  next
    case False
    then show ?thesis by (simp add: ensures_def)
  qed
qed

lemma ensures_show_without_progress:
  assumes "\<forall>j\<in>set js. job_owner_id j = own"
  shows "ensures W G always (show_without_progress a js) (\<lambda>rs t d. \<forall>r\<in>set rs. shown_of a own r)"
  unfolding show_without_progress_def
proof (rule ensures_bind [OF ensures_reading], rule ensuresI)
  fix origins t d r t' d' assume "\<exists>d. origins = resolve_edit_roots d js"
    and run: "lift_t (map_ok (response_of a origins Map.empty) js) W t d = (r, t', d')"
  then obtain d1 where d1: "origins = resolve_edit_roots d1 js" by blast
  from run have "r = map_ok (response_of a origins Map.empty) js" "t' = t" "d' = d" by (auto simp: lift_t_def)
  with responses_owned [OF assms, of a d1 Map.empty] d1
  show "(moves W G)\<^sup>*\<^sup>* (t, d) (t', d') \<and> (\<forall>rs. r = Inr rs \<longrightarrow> (\<forall>x\<in>set rs. shown_of a own x))" by simp
qed

lemma always_bind:
  assumes "ensures W G always m (\<lambda>x t d. R x)" and "\<And>x. R x \<Longrightarrow> ensures W G always (k x) Q"
  shows "ensures W G always (bind_t m k) Q"
proof (rule ensures_bind [OF assms(1)])
  fix x
  show "ensures W G (\<lambda>t d. R x) (k x) Q"
    using assms(2) [of x] by (cases "R x") (auto simp: ensures_def)
qed

lemma ensures_list:
  assumes "\<And>d. \<forall>j\<in>set (f d). job_owner_id j = own"
  shows "ensures W G always (bind_t (reading f) (show_jobs a)) (\<lambda>rs t d. \<forall>r\<in>set rs. shown_of a own r)"
    and "ensures W G always (bind_t (reading f) (show_without_progress a)) (\<lambda>rs t d. \<forall>r\<in>set rs. shown_of a own r)"
  by (rule always_bind [OF ensures_reading], use assms in \<open>blast intro: ensures_show_jobs ensures_show_without_progress\<close>)+

lemma ensures_shown:
  assumes "ensures W G always m (\<lambda>rs t d. \<forall>r\<in>set rs. shown_of a own r)"
  shows "ensures W G always (bind_t m (\<lambda>rs. ret_t (Shown rs))) (\<lambda>rep t d. reply_of a own rep)"
  by (rule always_bind [OF assms]) (rule ensures_ret, simp)

lemma writes_cleanup: "writes_only (\<lambda>_. True) (delete_job_storage b j)"
proof -
  have "writes_only (\<lambda>_. True) (list_under b ps)" for ps
    by (induction ps) (simp add: writes_only_def, auto simp: list_objects_def intro!: writes writes_call)
  moreover have "writes_only (\<lambda>_. True) (delete_all ks)" for ks
  proof -
    have "\<exists>t. snd (delete_all ks e h) = h @ t" for e h using delete_all_calls [of ks e h] by auto
    then show ?thesis by (simp add: writes_only_def)
  qed
  ultimately show ?thesis unfolding delete_job_storage_def by (auto intro!: writes)
qed

lemma writes_enqueue_job: "writes_only (\<lambda>_. True) (enqueue_job k)"
  unfolding enqueue_job_def by (intro writes)

lemma ensures_delete:
  "ensures W (owner_guarantee own) always (delete_job_and_storage k (Some own)) (\<lambda>x t d. True)"
  unfolding delete_job_and_storage_def
  by (rule always_bind [OF ensures_session [where R = "\<lambda>_. True"]])
    (auto dest: owner_delete split: option.split intro!: ensures_ret always_bind [OF ensures_io [OF writes_cleanup]])

lemma ensures_no_content: "ensures W G always (no_content_or_404 x) (\<lambda>rep t d. reply_of a own rep)"
  unfolding no_content_or_404_def by (auto split: option.split intro: ensures_raise ensures_ret)

lemma ensures_restore: "ensures W (owner_guarantee own) always (restore_job_by_id a k own) (\<lambda>rep t d. reply_of a own rep)"
  unfolding restore_job_by_id_def
  by (rule always_bind [OF ensures_session [where R = "\<lambda>r. \<forall>j. r = Some j \<longrightarrow> job_owner_id j = own"]])
    (auto dest: owner_restore split: option.split intro!: ensures_raise ensures_shown ensures_show_without_progress)

lemma ensures_delete_job: "ensures W (owner_guarantee own) always (delete_job_by_id a k own) (\<lambda>rep t d. reply_of a own rep)"
  unfolding delete_job_by_id_def
  by (auto intro!: always_bind [OF ensures_session [where R = "\<lambda>_. True"]] always_bind [OF ensures_delete] ensures_no_content
      dest: owner_trash)

lemma ensures_delete_permanently:
  "ensures W (owner_guarantee own) always (delete_job_permanently k own) (\<lambda>rep t d. reply_of a own rep)"
  unfolding delete_job_permanently_def by (auto intro!: always_bind [OF ensures_delete] ensures_no_content)

lemma ensures_get_job:
  "ensures W G always (get_job_by_id a k own) (\<lambda>rs t d. \<forall>r\<in>set rs. shown_of a own r)"
  unfolding get_job_by_id_def
  by (rule always_bind [OF ensures_reading])
    (auto simp: get_job_def split: option.splits if_splits intro!: ensures_raise ensures_show_jobs)

lemma ensures_retry: "ensures W (owner_guarantee own) always (retry_job_by_id k own) (\<lambda>rep t d. reply_of a own rep)"
  unfolding retry_job_by_id_def
proof (rule always_bind [OF ensures_time])
  fix now
  let ?P = "\<lambda>r t d. case r of Inl x \<Rightarrow> True | Inr p \<Rightarrow> prepare_retry now k own d = Inr p"
  have claim: "ensures W (owner_guarantee own) always (try_t (acquire (prepare_retry now k own))) ?P"
    by (rule ensures_post [OF ensures_try [OF ensures_acquire [where Q = "\<lambda>p t d. prepare_retry now k own d = Inr p"]]])
      (auto split: sum.splits)
  have queue: "ensures W (owner_guarantee own) (?P (Inr (d1, j)))
      (bind_t (in_thread (enqueue_job k)) (\<lambda>_. commit_now (\<lambda>_. Inr d1))) (\<lambda>u t d. True)" for d1 j
    by (rule ensures_bind [where Q = "\<lambda>u t d. prepare_retry now k own d = Inr (d1, j)"], rule ensures_thread,
        use writes_onlyD [OF writes_enqueue_job] in \<open>fastforce\<close>, rule ensures_commit)
      (auto dest: owner_retry)
  show "ensures W (owner_guarantee own) always (bind_t (try_t (acquire (prepare_retry now k own))) (\<lambda>claimed.
       case claimed of
         Inl JobNotFound \<Rightarrow> raise_t (ApiNotFound ''not found'')
       | Inl (InvalidJobTransition _) \<Rightarrow> ret_t (Refused 409 ''only failed jobs can be retried'')
       | Inl x \<Rightarrow> raise_t x
       | Inr (d', _) \<Rightarrow>
           bind_t (try_t (bind_t (in_thread (enqueue_job k)) (\<lambda>_. commit_now (\<lambda>_. Inr d')))) (\<lambda>queued.
             ret_t (case queued of
                 Inl _ \<Rightarrow> Refused 503 ''retry could not be confirmed; refresh the job and try again''
               | Inr _ \<Rightarrow> Accepted k)))) (\<lambda>rep t d. reply_of a own rep)"
  proof (rule ensures_bind [OF claim])
    fix r
    show "ensures W (owner_guarantee own) (?P r) (case r of
         Inl JobNotFound \<Rightarrow> raise_t (ApiNotFound ''not found'')
       | Inl (InvalidJobTransition _) \<Rightarrow> ret_t (Refused 409 ''only failed jobs can be retried'')
       | Inl x \<Rightarrow> raise_t x
       | Inr (d', _) \<Rightarrow>
           bind_t (try_t (bind_t (in_thread (enqueue_job k)) (\<lambda>_. commit_now (\<lambda>_. Inr d')))) (\<lambda>queued.
             ret_t (case queued of
                 Inl _ \<Rightarrow> Refused 503 ''retry could not be confirmed; refresh the job and try again''
               | Inr _ \<Rightarrow> Accepted k))) (\<lambda>rep t d. reply_of a own rep)"
    proof (cases r)
      case (Inl x)
      then show ?thesis by (cases x) (auto intro: ensures_raise ensures_ret)
    next
      case (Inr p)
      obtain d1 j where p: "p = (d1, j)" by fastforce
      show ?thesis unfolding Inr p sum.case prod.case
        by (rule ensures_bind [OF ensures_try [OF queue [unfolded sum.case]]], rule ensures_ret) (auto split: sum.split)
    qed
  qed
qed

lemma ensures_queue_edit:
  "ensures W (owner_guarantee own) always (queue_edit own new_job_id name src request fps) (\<lambda>rep t d. reply_of a own rep)"
  unfolding queue_edit_def
proof (rule always_bind [OF ensures_session [where R = "\<lambda>j. True"]])
  have given_up: "ensures W (owner_guarantee own) always
      (bind_t (session (\<lambda>now d. Inr (delete_job k (Some own) d))) (\<lambda>_. ret_t (Refused n msg))) (\<lambda>rep t d. reply_of a own rep)" for k n msg
    by (rule always_bind [OF ensures_session [where R = "\<lambda>j. True"]]) (auto dest: owner_delete intro: ensures_ret)
  show "ensures W (owner_guarantee own) always (bind_t (try_t (in_thread (enqueue_job (job_id created)))) (\<lambda>queued.
       case queued of
         Inl _ \<Rightarrow> bind_t (session (\<lambda>now d. Inr (delete_job (job_id created) (Some own) d))) (\<lambda>_.
                    ret_t (Refused 503 ''edit could not be queued; please try again''))
       | Inr _ \<Rightarrow> ret_t (Accepted (job_id created)))) (\<lambda>rep t d. reply_of a own rep)" for created :: job
  proof (rule always_bind [where R = "\<lambda>_. True"])
    show "ensures W (owner_guarantee own) always (try_t (in_thread (enqueue_job (job_id created)))) (\<lambda>x t d. True)"
      by (rule ensures_post [OF ensures_try [OF ensures_io [OF writes_enqueue_job]]]) simp
  qed (auto split: sum.split intro: given_up ensures_ret)
qed (auto dest: owner_edit)

lemma ensures_edit:
  "ensures W (owner_guarantee own) always (edit_job_by_id a k own request new_job_id) (\<lambda>rep t d. reply_of a own rep)"
  unfolding edit_job_by_id_def Let_def
  by (rule always_bind [OF ensures_reading])
    (auto split: option.split sum.split exn.split intro!: ensures_raise ensures_queue_edit ensures_ret always_bind [OF ensures_reading])

lemma serve_job_ensures:
  "ensures W (owner_guarantee own) always (serve_job a own req) (\<lambda>rep t d. reply_of a own rep)"
proof (cases req)
  case (GetJobs n off)
  have "\<forall>j\<in>set (list_jobs d (Some own) n off). job_owner_id j = own" for d
    by (auto simp: list_jobs_def limit_offset_def dest!: in_set_takeD in_set_dropD)
  then show ?thesis unfolding GetJobs serve_job.simps get_jobs_def by (intro ensures_shown ensures_list)
next
  case (GetTrash n off)
  have "\<forall>j\<in>set (list_trash d own n off). job_owner_id j = own" for d
    by (auto simp: list_trash_def limit_offset_def dest!: in_set_takeD in_set_dropD)
  then show ?thesis unfolding GetTrash serve_job.simps get_trash_def by (intro ensures_shown ensures_list)
next
  case (GetJob k)
  then show ?thesis by (simp add: ensures_shown [OF ensures_get_job])
qed (simp_all add: ensures_restore ensures_delete_job ensures_delete_permanently ensures_retry ensures_edit)


section \<open>Retrying and editing\<close>

lemma enqueue_job_run:
  "in_thread (enqueue_job k) W t d =
     (case e_enqueue (w_env W) (calls_of t) PROCESS_JOB_TASK k of
        Inl x \<Rightarrow> (Inl x, t @ [Call (Enqueue PROCESS_JOB_TASK k)], d)
      | Inr u \<Rightarrow> (Inr (), t @ [Call (Enqueue PROCESS_JOB_TASK k), Call (Wake 1)], d))"
  by (simp add: in_thread_def enqueue_job_def enqueue_def wake_workers_def bind_io_def do_call_def split: sum.split)

definition nothing_accepted :: "exn + reply \<Rightarrow> event list \<Rightarrow> event list \<Rightarrow> bool" where
  "nothing_accepted r t t' \<longleftrightarrow> t' = t \<and> (\<forall>k. r \<noteq> Inr (Accepted k))"

text \<open>C18. A retry touches only a failed job of its owner, and puts it on the queue before it commits the row:
  a queued row is never committed for a delivery that the queue refused, and a refused retry leaves the
  failed row as it was.\<close>

theorem retry_queues_before_commit:
  assumes "others_commit W" and "jobs_inv (db_jobs d)" and "retry_job_by_id k own W t d = (r, t', d')"
  shows "nothing_accepted r t t'
    \<or> (\<exists>j0. find_row job_id k (db_jobs (w_others W t d)) = Some j0 \<and> job_status j0 = Failed \<and> job_owner_id j0 = own
        \<and> (r = Inr (Accepted k) \<and> t' = t @ [Call (Enqueue PROCESS_JOB_TASK k), Call (Wake 1), Commit d']
              \<and> prepare_retry (w_now W t) k own (w_others W t d) = Inr (d', retry_values (w_now W t) j0)
           \<or> (\<exists>x msg. e_enqueue (w_env W) (calls_of t) PROCESS_JOB_TASK k = Inl x \<and> r = Inr (Refused 503 msg)
              \<and> t' = t @ [Call (Enqueue PROCESS_JOB_TASK k)] \<and> d' = w_others W t d)))"
proof -
  let ?now = "w_now W t" and ?d = "w_others W t d"
  have run: "retry_job_by_id k own W t d = (case prepare_retry ?now k own ?d of
        Inl x \<Rightarrow> (case x of JobNotFound \<Rightarrow> raise_t (ApiNotFound ''not found'')
           | InvalidJobTransition _ \<Rightarrow> ret_t (Refused 409 ''only failed jobs can be retried'') | x \<Rightarrow> raise_t x) W t ?d
      | Inr (d1, j) \<Rightarrow> (case e_enqueue (w_env W) (calls_of t) PROCESS_JOB_TASK k of
            Inl x \<Rightarrow> (Inr (Refused 503 ''retry could not be confirmed; refresh the job and try again''),
                      t @ [Call (Enqueue PROCESS_JOB_TASK k)], ?d)
          | Inr u \<Rightarrow> (Inr (Accepted k), t @ [Call (Enqueue PROCESS_JOB_TASK k), Call (Wake 1), Commit d1], d1)))"
    by (simp add: retry_job_by_id_def bind_t_def clock_def acquire_def enqueue_job_run commit_now_def
        split: sum.split prod.split exn.split)
  show ?thesis
  proof (cases "prepare_retry ?now k own ?d")
    case (Inl x)
    with assms(3) run show ?thesis by (cases x) (auto simp: nothing_accepted_def)
  next
    case (Inr p)
    obtain d1 j where p: "p = (d1, j)" by fastforce
    obtain j0 where j0: "find_row job_id k (db_jobs ?d) = Some j0" "retry_guard own j0" "j = retry_values ?now j0"
      by (cases rule: retry.job_update_cases [OF others_inv [OF assms(1,2)] retry_update [OF Inr [unfolded p]]]) simp_all
    show ?thesis
    proof (cases "e_enqueue (w_env W) (calls_of t) PROCESS_JOB_TASK k")
      case (Inl x)
      with assms(3) run Inr p j0 show ?thesis by (auto simp: retry_guard_def)
    next
      case (Inr u)
      with assms(3) run \<open>prepare_retry ?now k own ?d = Inr p\<close> p j0 show ?thesis by (auto simp: retry_guard_def)
    qed
  qed
qed

text \<open>What an accepted edit was made from: a finished video of the owner, read with its origin, and the rules
  its operations passed.\<close>

definition edit_of :: "jobs_api \<Rightarrow> uuid \<Rightarrow> uuid \<Rightarrow> edit_request \<Rightarrow> uuid \<Rightarrow> instant \<Rightarrow> job \<Rightarrow> bool" where
  "edit_of a k own request new_job_id now row \<longleftrightarrow>
     (\<exists>d1 d2 source origin source_key. get_job d1 k (Some own) False = Some source \<and> job_status source = Done
       \<and> resolve_edit_roots d2 [source] (job_id source) = Some origin
       \<and> check_edit_operations (map (\<lambda>item. (op_name item, op_params item)) request)
           (editable_height_of (ja_settings a) (edit_base source origin)) (job_width (edit_base source origin)) = Inr ()
       \<and> (if job_operations origin = None then source_key = job_source_key origin else job_output_key source = Some source_key)
       \<and> row = new_job now new_job_id own (edit_filename source request) source_key (Some (stored_operations request))
                 (job_max_fps (edit_base source origin)))"

lemma created_edit:
  assumes "create_edit_job now own k name src ops fps d = Inr (d', j)"
  shows "j = new_job now k own name src (Some ops) fps" and "find_row job_id k (db_jobs d') = Some j"
proof -
  let ?j = "new_job now k own name src (Some ops) fps"
  have id: "job_id ?j = k" by (simp add: new_job_def)
  from assms have d': "j = ?j" "db_jobs d' = db_jobs d @ [?j]" "job_id ?j \<notin> job_id ` set (db_jobs d)"
    by (auto simp: create_edit_job_def insert_job_def insert_row_def split: if_splits)
  then show "j = ?j" by simp
  from d' have "find_row job_id k (db_jobs d) = None" by (simp add: find_row_None id)
  moreover have "find_row job_id k [?j] = Some ?j" by (simp add: find_row_def id)
  ultimately show "find_row job_id k (db_jobs d') = Some j" using d'(1,2) by (simp add: find_row_append)
qed

definition edit_queued :: "uuid \<Rightarrow> uuid \<Rightarrow> world \<Rightarrow> event list \<Rightarrow> job \<Rightarrow> exn + reply \<Rightarrow> event list \<Rightarrow> db \<Rightarrow> bool" where
  \<comment> \<open>the row is committed, then queued; it is deleted again exactly when the queue refuses it\<close>
  "edit_queued own new_job_id W t row r t' d' \<longleftrightarrow>
     (\<exists>d1. find_row job_id new_job_id (db_jobs d1) = Some row
       \<and> (r = Inr (Accepted new_job_id) \<and> d' = d1
            \<and> t' = t @ [Commit d1, Call (Enqueue PROCESS_JOB_TASK new_job_id), Call (Wake 1)]
          \<or> (\<exists>x msg. e_enqueue (w_env W) (calls_of t) PROCESS_JOB_TASK new_job_id = Inl x \<and> r = Inr (Refused 503 msg)
              \<and> t' = t @ [Commit d1, Call (Enqueue PROCESS_JOB_TASK new_job_id), Commit d']
              \<and> (\<forall>j\<in>set (db_jobs d'). \<not> (job_id j = new_job_id \<and> job_owner_id j = own)))))"

lemma queue_edit_run:
  assumes "queue_edit own new_job_id name src request fps W t d = (r, t', d')"
  shows "nothing_accepted r t t' \<or>
    edit_queued own new_job_id W t (new_job (w_now W t) new_job_id own name src (Some (stored_operations request)) fps) r t' d'"
proof (cases "create_edit_job (w_now W t) own new_job_id name src (stored_operations request) fps (w_others W t d)")
  case (Inl x)
  with assms show ?thesis by (auto simp: queue_edit_def bind_t_def session_def nothing_accepted_def)
next
  case (Inr p)
  obtain d1 j where p: "p = (d1, j)" by fastforce
  note row = created_edit [OF Inr [unfolded p]]
  have id: "job_id j = new_job_id" unfolding row(1) by (simp add: new_job_def)
  show ?thesis
  proof (cases "e_enqueue (w_env W) (calls_of t) PROCESS_JOB_TASK new_job_id")
    case (Inr u)
    with assms \<open>create_edit_job _ _ _ _ _ _ _ _ = Inr p\<close> p id have
      "r = Inr (Accepted new_job_id)" "d' = d1" "t' = t @ [Commit d1, Call (Enqueue PROCESS_JOB_TASK new_job_id), Call (Wake 1)]"
      by (auto simp: queue_edit_def bind_t_def session_def enqueue_job_run)
    with row show ?thesis unfolding edit_queued_def by auto
  next
    case (Inl x)
    let ?t1 = "t @ [Commit d1, Call (Enqueue PROCESS_JOB_TASK new_job_id)]"
    obtain d2 gone where del: "delete_job new_job_id (Some own) (w_others W ?t1 d1) = (d2, gone)" by fastforce
    with Inl assms \<open>create_edit_job _ _ _ _ _ _ _ _ = Inr p\<close> p id have
      "r = Inr (Refused 503 ''edit could not be queued; please try again'')" "d' = d2" "t' = ?t1 @ [Commit d2]"
      by (auto simp: queue_edit_def bind_t_def session_def enqueue_job_run)
    moreover have "\<forall>j\<in>set (db_jobs d2). \<not> (job_id j = new_job_id \<and> job_owner_id j = own)"
      using del by (auto simp: delete_job_def Let_def)
    ultimately show ?thesis using row Inl unfolding edit_queued_def by auto
  qed
qed


section \<open>What is shown\<close>

text \<open>C20. A response shows what the job's state allows: URLs of the video, its poster frame, its ladder and its
  preview only when it is done, and a preview only with a ladder; an error exactly when it failed; progress
  only while it is processing; an edit source exactly when it is done; and a purge date exactly in the trash,
  never before the job was put there.\<close>

theorem response_shows_state:
  assumes "lifecycle j" and "to_response st sg j origin p = Inr r"
  shows "jr_id r = job_id j \<and> jr_status r = job_status j
    \<and> (jr_output_url r \<noteq> None \<or> jr_thumbnail_url r \<noteq> None \<longrightarrow> job_status j = Done)
    \<and> (jr_hls_url r \<noteq> None \<longrightarrow> job_status j = Done \<and> jr_hls_status r = HlsReady)
    \<and> (jr_preview_vtt_url r \<noteq> None \<longrightarrow> jr_hls_url r \<noteq> None)
    \<and> ((jr_error r \<noteq> None) = (job_status j = Failed))
    \<and> (jr_progress r \<noteq> None \<longrightarrow> job_status j = Processing)
    \<and> ((jr_edit_source r \<noteq> None) = (job_status j = Done))
    \<and> (jr_edit_options r \<noteq> None \<longrightarrow> job_status j = Done)
    \<and> (case jr_deleted_at r of None \<Rightarrow> jr_purge_at r = None
       | Some put \<Rightarrow> job_deleted_at j = Some put \<and> (\<exists>purge. jr_purge_at r = Some purge \<and> put \<le> purge))"
proof -
  let ?done = "job_status j = Done"
  let ?hls = "?done \<and> truthy (job_hls_key j) \<noteq> []"
  from assms(2) obtain u v where u: "signed_if ?done (sg_url sg) (job_output_key j) = Inr u"
    and v: "signed_if ?done (sg_url sg) (job_thumbnail_key j) = Inr v"
    by (auto simp: to_response_def Let_def bind_ok_def split: sum.splits)
  with assms(2) have r: "jr_id r = job_id j" "jr_status r = job_status j" "jr_output_url r = u" "jr_thumbnail_url r = v"
      "jr_hls_url r \<noteq> None \<longleftrightarrow> ?hls" "jr_hls_status r = job_hls_status j" "jr_preview_vtt_url r \<noteq> None \<longrightarrow> ?hls"
      "jr_error r = (if job_status j = Failed then job_error j else None)"
      "jr_progress r = (if job_status j = Processing then p else None)"
      "jr_edit_source r = edit_source_of j (edit_base j (case origin of Some r \<Rightarrow> r | None \<Rightarrow> j))"
      "jr_edit_options r = edit_options_of st j (edit_base j (case origin of Some r \<Rightarrow> r | None \<Rightarrow> j))"
      "jr_deleted_at r = job_deleted_at j"
      "jr_purge_at r = map_option (\<lambda>t. t + day * max 0 (as_trash_days st)) (job_deleted_at j)"
    by (auto simp: to_response_def Let_def bind_ok_def split: if_splits)
  have hidden: "w = None" if "signed_if False f key = Inr w" for f key w
    using that by (auto simp: signed_if_def split: option.splits list.splits)
  have urls: "u = None \<and> v = None" if "\<not> ?done" using u v that hidden by simp
  have ready: "job_hls_status j = HlsReady" if "truthy (job_hls_key j) \<noteq> []"
    using assms(1) that by (auto simp: lifecycle_def job_check_def ck_jobs_hls_ready_has_key_def truthy_def split: option.splits)
  have failed: "(job_error j \<noteq> None) = (job_status j = Failed)"
    using assms(1) by (auto simp: lifecycle_def job_check_def ck_jobs_error_def split: option.splits)
  have "0 \<le> day * max 0 (as_trash_days st)" by (simp add: day_def)
  then show ?thesis
    using urls ready failed r(5,7)
    by (auto simp: r(1-4) r(6) r(8-13) edit_source_of_def edit_options_of_def split: option.split)
qed

text \<open>The heights a response offers for an edit are exactly the ones the edit request accepts on their own.\<close>

theorem offered_heights_accepted:
  assumes "edit_options_of st j base = Some offered"
  shows "(h \<in> set (eo_downscale offered) \<longleftrightarrow>
       check_edit_operations [(''downscale'', op_params (DownscaleOperation h))] (editable_height_of st base) w = Inr ())
    \<and> (h \<in> set (eo_upscale offered) \<longleftrightarrow>
       check_edit_operations [(''upscale'', op_params (UpscaleOperation h))] (editable_height_of st base) w = Inr ())"
proof -
  have one: "ordered {''downscale''} = [''downscale'']" "ordered {''upscale''} = [''upscale'']"
    by (simp_all add: ordered_def OPERATION_ORDER_def)
  from assms show ?thesis
    by (auto simp: edit_options_of_def scale_options_def check_edit_operations_def one named_of_def scale_rule_def
        check_scale_def known_def not_le split: if_splits option.splits sum.splits)
qed

section \<open>Concrete requests\<close>

definition done_video :: job where
  "done_video = (new_job 3 7 1 ''trip.mov'' ''uploads/a.mov'' None 30)\<lparr>job_status := Done, job_output_key := Some ''outputs/7/a.mp4'',
     job_hls_status := HlsUnavailable, job_width := Some 1280, job_height := Some 720, job_duration := Some (Fin 10)\<rparr>"

definition failed_video :: job where
  "failed_video = (new_job 4 8 1 ''b.mov'' ''uploads/b.mov'' None 30)\<lparr>job_status := Failed, job_error := Some ''no'',
     job_hls_status := HlsUnavailable\<rparr>"

definition two_videos :: db where
  "two_videos = \<lparr>db_users = [one_user], db_jobs = [done_video, failed_video], db_uploads = []\<rparr>"

definition sample_api :: jobs_api where
  "sample_api = \<lparr>ja_settings = \<lparr>as_public_prefix = ''/api'', as_trash_days = 30, as_mp4_max_height = 1080\<rparr>,
     ja_signer = \<lparr>sg_url = (\<lambda>k. Inr (''https://s/'' @ k)), sg_inline_url = (\<lambda>k. Inr (''https://s/'' @ k))\<rparr>,
     ja_mget = (\<lambda>t ks. Inr (map (\<lambda>_. None) ks))\<rparr>"

lemma two_videos_inv: "jobs_inv (db_jobs two_videos)"
  by code_simp


theorem retry_queues_before_commit_witness:
  "\<exists>j0. find_row job_id 8 (db_jobs two_videos) = Some j0 \<and> job_status j0 = Failed \<and> job_owner_id j0 = 1
     \<and> fst (snd (retry_job_by_id 8 1 quiet_world [] two_videos))
        = [Call (Enqueue PROCESS_JOB_TASK 8), Call (Wake 1), Commit (snd (snd (retry_job_by_id 8 1 quiet_world [] two_videos)))]"
proof -
  obtain r t' d' where run: "retry_job_by_id 8 1 quiet_world [] two_videos = (r, t', d')" by (metis prod_cases3)
  have "fst (retry_job_by_id 8 1 quiet_world [] two_videos) = Inr (Accepted 8)" by code_simp
  with run have r: "r = Inr (Accepted 8)" by simp
  have others: "w_others quiet_world [] two_videos = two_videos" by (simp add: quiet_world_def)
  from retry_queues_before_commit [OF quiet_world_commits two_videos_inv run] r others run show ?thesis
    by (auto simp: nothing_accepted_def)
qed


theorem response_shows_state_witness:
  "\<exists>r. to_response (ja_settings sample_api) (ja_signer sample_api) done_video None None = Inr r
     \<and> jr_error r = None \<and> jr_edit_source r \<noteq> None"
proof -
  have "lifecycle done_video" by code_simp
  moreover have "\<not> isl (to_response (ja_settings sample_api) (ja_signer sample_api) done_video None None)" by code_simp
  then obtain r where "to_response (ja_settings sample_api) (ja_signer sample_api) done_video None None = Inr r"
    by (auto simp: isl_def split: sum.splits) (metis sum.exhaust)
  moreover have "job_status done_video = Done" by (simp add: done_video_def)
  ultimately show ?thesis using response_shows_state by fastforce
qed

theorem offered_heights_accepted_witness:
  "check_edit_operations [(''downscale'', op_params (DownscaleOperation 360))]
     (editable_height_of (ja_settings sample_api) done_video) (Some 1280) = Inr ()"
proof -
  have "\<not> Option.is_none (edit_options_of (ja_settings sample_api) done_video done_video)
      \<and> 360 \<in> set (eo_downscale (the (edit_options_of (ja_settings sample_api) done_video done_video)))" by code_simp
  then obtain offered where "edit_options_of (ja_settings sample_api) done_video done_video = Some offered" "360 \<in> set (eo_downscale offered)"
    by (auto simp: Option.is_none_def)
  with offered_heights_accepted show ?thesis by blast
qed

end
