(* ===== verification/Float_Bounds.thy ===== *)
theory Float_Bounds
  imports Py_Format
begin

text \<open>
  What rounding to binary64 can change: never which side of an integer below \<open>2 ^ 53\<close> a number is on,
  and never more than one part in \<open>2 ^ 53\<close> of a normal number.
\<close>

section \<open>Powers of two\<close>

lemma pow2_pos [simp]: "0 < pow2 k"
  by (simp add: pow2_def)

lemma pow2_nonzero [simp]: "pow2 k \<noteq> 0"
  using pow2_pos [of k] by linarith

lemma pow2_nonneg [simp]: "0 \<le> pow2 k" "\<not> pow2 k < 0"
  using pow2_pos [of k] by linarith+

lemma pow2_Suc: "pow2 (k + 1) = 2 * pow2 k"
proof (cases "0 \<le> k")
  case True
  then show ?thesis by (simp add: pow2_def nat_add_distrib)
next
  case False
  have "nat (- k) = Suc (nat (- k - 1))" using False by simp
  then have p: "(2 :: rat) ^ nat (- k) = 2 * 2 ^ nat (- k - 1)" by simp
  show ?thesis
  proof (cases "k = - 1")
    case True
    then show ?thesis by (simp add: pow2_def)
  next
    case k: False
    have "nat (- (k + 1)) = nat (- k - 1)" by simp
    then show ?thesis using False k p by (simp add: pow2_def)
  qed
qed

lemma pow2_add_nat: "pow2 (k + int n) = pow2 k * 2 ^ n"
proof (induction n)
  case (Suc n)
  have "k + int (Suc n) = (k + int n) + 1" by simp
  show ?case unfolding \<open>k + int (Suc n) = _\<close> pow2_Suc Suc by simp
qed simp

lemma pow2_mono: "k \<le> l \<Longrightarrow> pow2 k \<le> pow2 l"
  using pow2_add_nat [of k "nat (l - k)"] pow2_pos [of k] by (simp add: mult_le_cancel_left1)

lemma pow2_diff: "pow2 (a - b) = pow2 a / pow2 b"
proof (cases "b \<le> a")
  case True
  have "pow2 (b + int (nat (a - b))) = pow2 b * 2 ^ nat (a - b)" by (rule pow2_add_nat)
  then show ?thesis using True by (simp add: pow2_def)
next
  case False
  have "pow2 (a + int (nat (b - a))) = pow2 a * 2 ^ nat (b - a)" by (rule pow2_add_nat)
  then show ?thesis using False pow2_pos [of a] by (simp add: pow2_def [of "a - b"])
qed

lemma bits_bounds: "0 < n \<Longrightarrow> pow2 (bits n - 1) \<le> of_int n \<and> of_int n < pow2 (bits n)"
proof (induction n rule: bits.induct)
  case (1 n)
  show ?case
  proof (cases "n = 1")
    case True
    have "bits 1 = 1" by (simp add: bits.simps [of 1] bits.simps [of 0])
    then show ?thesis using True by (simp add: pow2_def)
  next
    case False
    with "1.prems" have half: "0 < n div 2" by simp
    have b: "bits n = bits (n div 2) + 1" using "1.prems" by (simp add: bits.simps [of n])
    have ih: "pow2 (bits (n div 2) - 1) \<le> of_int (n div 2)" "of_int (n div 2) < pow2 (bits (n div 2))"
      using "1.IH" "1.prems" half by simp_all
    have n: "n = 2 * (n div 2) + n mod 2" "0 \<le> n mod 2" "n mod 2 \<le> 1" by simp_all
    have two: "pow2 (bits n - 1) = 2 * pow2 (bits (n div 2) - 1)"
      using pow2_Suc [of "bits (n div 2) - 1"] b by simp
    have top: "pow2 (bits n) = 2 * pow2 (bits (n div 2))" using pow2_Suc [of "bits (n div 2)"] b by simp
    have whole: "\<exists>m :: int. pow2 (bits (n div 2)) = of_int m"
    proof -
      have "0 \<le> bits m" for m :: int by (induction m rule: bits.induct) (subst bits.simps, simp)
      then show ?thesis by (intro exI [of _ "2 ^ nat (bits (n div 2))"]) (simp add: pow2_def)
    qed
    then obtain m :: int where m: "pow2 (bits (n div 2)) = of_int m" by blast
    with ih(2) have "n div 2 + 1 \<le> m" by simp
    then have "n < 2 * m" using n by linarith
    then have "of_int n < (2 * of_int m :: rat)" by (metis of_int_less_iff of_int_mult of_int_numeral)
    moreover have "2 * of_int (n div 2) \<le> (of_int n :: rat)"
      using n(1,2) by (metis add.commute add_le_same_cancel2 le_add_same_cancel2 of_int_le_iff of_int_mult of_int_numeral)
    ultimately show ?thesis using two top m ih(1) by simp
  qed
qed

lemma exponent2_bounds:
  assumes "0 < x"
  shows "pow2 (exponent2 x) \<le> x" and "x < pow2 (exponent2 x + 1)"
proof -
  obtain p q where pq: "quotient_of x = (p, q)" by fastforce
  from quotient_of_denom_pos [OF pq] have q: "0 < q" .
  have x: "x = of_int p / of_int q" using quotient_of_div [OF pq] .
  with assms q have p: "0 < p" by (simp add: zero_less_divide_iff)
  let ?e = "bits p - bits q"
  note bp = bits_bounds [OF p] and bq = bits_bounds [OF q]
  have "x < pow2 (bits p) / pow2 (bits q - 1)"
    unfolding x using bp bq q p by (intro frac_less) (auto)
  moreover have "bits p - (bits q - 1) = ?e + 1" by simp
  ultimately have hi: "x < pow2 (?e + 1)" by (metis pow2_diff)
  have "pow2 (bits p - 1) / pow2 (bits q) \<le> x"
    unfolding x using bp bq q p by (intro frac_le) (auto)
  then have lo: "pow2 (?e - 1) \<le> x" by (simp add: pow2_diff [symmetric] algebra_simps)
  have e: "exponent2 x = (if x < pow2 ?e then ?e - 1 else ?e)" by (simp add: exponent2_def pq Let_def)
  show "pow2 (exponent2 x) \<le> x" using lo by (simp add: e)
  show "x < pow2 (exponent2 x + 1)" using hi by (simp add: e)
qed

section \<open>Rounding\<close>

lemma round_ge: "of_int k \<le> x \<Longrightarrow> k \<le> round_half_even x"
proof -
  assume "of_int k \<le> x"
  then have "k \<le> \<lfloor>x\<rfloor>" by (simp add: le_floor_iff)
  then show ?thesis by (simp add: round_half_even_def Let_def)
qed

lemma round_le: "x \<le> of_int k \<Longrightarrow> round_half_even x \<le> k"
proof -
  assume x: "x \<le> of_int k"
  show ?thesis
  proof (cases "x = of_int k")
    case False
    with x have "\<lfloor>x\<rfloor> < k" by (simp add: floor_less_iff)
    then show ?thesis by (simp add: round_half_even_def Let_def)
  qed simp
qed

definition ulp_of :: "rat \<Rightarrow> rat" where
  "ulp_of x = pow2 (max (exponent2 x) (- 1022) - 52)"

lemma ulp_pos [simp]: "0 < ulp_of x"
  by (simp add: ulp_of_def)

lemma ulp_nonzero [simp]: "ulp_of x \<noteq> 0"
  using ulp_pos [of x] by linarith

lemma fl_pos: "0 < x \<Longrightarrow> fl x = of_int (round_half_even (x / ulp_of x)) * ulp_of x"
  by (simp add: fl_def ulp_of_def Let_def)

text \<open>An integer below \<open>2 ^ 53\<close> is a whole number of units, unless the number is above it anyway.\<close>

lemma whole_units:
  assumes "0 < x" and "x < pow2 53"
  shows "\<exists>m :: int. of_int n / ulp_of x = of_int m"
proof -
  have "exponent2 x \<le> 52"
  proof (rule ccontr)
    assume "\<not> ?thesis"
    then have "pow2 53 \<le> pow2 (exponent2 x)" by (intro pow2_mono) simp
    with exponent2_bounds(1) [OF assms(1)] assms(2) show False by linarith
  qed
  then have e: "max (exponent2 x) (- 1022) - 52 \<le> 0" by simp
  let ?k = "nat (- (max (exponent2 x) (- 1022) - 52))"
  have "ulp_of x = 1 / 2 ^ ?k"
  proof (cases "max (exponent2 x) (- 1022) - 52 = 0")
    case True
    then show ?thesis unfolding ulp_of_def True by (simp add: pow2_def)
  next
    case False
    then show ?thesis using e unfolding ulp_of_def pow2_def by simp
  qed
  then have "of_int n / ulp_of x = (of_int (n * 2 ^ ?k) :: rat)" by simp
  then show ?thesis by blast
qed

lemma fl_ge_int:
  assumes "0 < x" and "of_int n \<le> x" and "of_int n \<le> pow2 53"
  shows "of_int n \<le> fl x"
proof (cases "x < pow2 53")
  case True
  then obtain m :: int where m: "of_int n / ulp_of x = of_int m" using whole_units [OF assms(1)] by blast
  then have "of_int m \<le> x / ulp_of x" using assms(2) by (simp add: divide_right_mono less_imp_le flip: m)
  then have "of_int m \<le> (of_int (round_half_even (x / ulp_of x)) :: rat)" by (simp add: round_ge)
  then have "of_int m * ulp_of x \<le> fl x" by (simp add: fl_pos [OF assms(1)])
  moreover have "of_int m * ulp_of x = of_int n" unfolding m [symmetric] by simp
  ultimately show ?thesis by simp
next
  case False
  have e: "53 \<le> exponent2 x"
  proof (rule ccontr)
    assume "\<not> ?thesis"
    then have "pow2 (exponent2 x + 1) \<le> pow2 53" by (intro pow2_mono) simp
    with exponent2_bounds(2) [OF assms(1)] False show False by linarith
  qed
  then have u: "ulp_of x = pow2 (exponent2 x - 52)" by (simp add: ulp_of_def)
  have big: "pow2 (exponent2 x) = of_int (2 ^ 52) * ulp_of x"
    using pow2_add_nat [of "exponent2 x - 52" 52] by (simp add: u)
  have "of_int (2 ^ 52) \<le> x / ulp_of x" using exponent2_bounds(1) [OF assms(1)] unfolding big by (simp add: pos_le_divide_eq)
  then have "of_int (2 ^ 52) * ulp_of x \<le> fl x" unfolding fl_pos [OF assms(1)]
    by (metis mult_right_mono of_int_le_iff order_less_imp_le round_ge ulp_pos)
  moreover have "pow2 53 \<le> pow2 (exponent2 x)" using e by (rule pow2_mono)
  ultimately show ?thesis using big assms(3) by linarith
qed

lemma fl_le_int:
  assumes "0 < x" and "x \<le> of_int n" and "of_int n < pow2 53"
  shows "fl x \<le> of_int n"
proof -
  from assms(2,3) have "x < pow2 53" by linarith
  then obtain m :: int where m: "of_int n / ulp_of x = of_int m" using whole_units [OF assms(1)] by blast
  then have "x / ulp_of x \<le> of_int m" using assms(2) by (simp add: divide_right_mono less_imp_le flip: m)
  then have "(of_int (round_half_even (x / ulp_of x)) :: rat) \<le> of_int m" by (simp add: round_le)
  then have "fl x \<le> of_int m * ulp_of x" by (simp add: fl_pos [OF assms(1)])
  moreover have "of_int m * ulp_of x = of_int n" unfolding m [symmetric] by simp
  ultimately show ?thesis by simp
qed

lemma fl_of_int [simp]:
  assumes "0 < n" and "of_int n < pow2 53"
  shows "fl (of_int n) = of_int n"
  using fl_ge_int [of "of_int n" n] fl_le_int [of "of_int n" n] assms by (simp add: order_antisym)

lemma fl_error:
  assumes "pow2 (- 1022) \<le> x"
  shows "\<bar>fl x - x\<bar> \<le> x / pow2 53"
proof -
  have pos: "0 < x" using assms pow2_pos [of "- 1022"] by linarith
  have e: "- 1022 \<le> exponent2 x"
  proof (rule ccontr)
    assume "\<not> ?thesis"
    then have "pow2 (exponent2 x + 1) \<le> pow2 (- 1022)" by (intro pow2_mono) simp
    with exponent2_bounds(2) [OF pos] assms show False by linarith
  qed
  then have u: "ulp_of x = pow2 (exponent2 x - 52)" by (simp add: ulp_of_def)
  let ?y = "x / ulp_of x"
  have y: "x = ?y * ulp_of x" by simp
  have "\<bar>of_int (round_half_even ?y) - ?y\<bar> \<le> 1 / 2" using round_half_even_bounds [of ?y] by linarith
  then have "\<bar>of_int (round_half_even ?y) - ?y\<bar> * ulp_of x \<le> 1 / 2 * ulp_of x" by (rule mult_right_mono) (simp add: less_imp_le)
  moreover have "fl x - x = (of_int (round_half_even ?y) - ?y) * ulp_of x"
    unfolding fl_pos [OF pos] by (subst (4) y) (simp add: left_diff_distrib)
  ultimately have "\<bar>fl x - x\<bar> \<le> 1 / 2 * ulp_of x" by (simp only: abs_mult abs_of_pos [OF ulp_pos])
  also have "1 / 2 * ulp_of x = pow2 (exponent2 x) / pow2 53"
    using pow2_Suc [of "exponent2 x - 53"] by (simp add: u pow2_diff [symmetric])
  also have "\<dots> \<le> x / pow2 53" using exponent2_bounds(1) [OF pos] by (simp add: divide_right_mono)
  finally show ?thesis .
qed

end
