(* ===== verification/Preview.thy ===== *)
theory Preview
  imports Float_Bounds Tasks Chunk_Plan
begin

text \<open>
  \<open>app/worker/preview.py\<close>: the seek-bar preview of a finished video, a sheet of small frames and the
  index that names a rectangle of it for every few seconds, and the run that makes, stores and records
  them. FFmpeg, ffprobe and storage are the environment; the record is a transaction.
\<close>

section \<open>The layout\<close>

definition PREVIEW_DIRNAME :: string where "PREVIEW_DIRNAME = ''preview''"
definition SPRITE_FILENAME :: string where "SPRITE_FILENAME = ''sprite.jpg''"
definition VTT_FILENAME :: string where "VTT_FILENAME = ''sprite.vtt''"
definition SPRITE_CONTENT_TYPE :: string where "SPRITE_CONTENT_TYPE = ''image/jpeg''"
definition VTT_CONTENT_TYPE :: string where "VTT_CONTENT_TYPE = ''text/vtt''"
definition COLUMNS :: int where "COLUMNS = 10"
definition MAX_FRAMES :: int where "MAX_FRAMES = 200"

record sprite_layout =
  sl_interval :: int
  sl_frames :: int
  sl_columns :: int
  sl_rows :: int
  sl_tile_width :: int
  sl_tile_height :: int

definition preview_error :: "string \<Rightarrow> exn" where
  "preview_error message = OtherError (''PreviewError: '' @ message)"

definition path_parent :: "string \<Rightarrow> string" where
  \<comment> \<open>\<open>str(PurePosixPath(s).parent)\<close>\<close>
  "path_parent s =
     (let anchor = (if starts_with s ''//'' \<and> \<not> starts_with s ''///'' then ''//''
                    else if starts_with s ''/'' then ''/'' else []);
          parts = filter (\<lambda>p. p \<noteq> [] \<and> p \<noteq> ''.'') (split_on CHR ''/'' s);
          parent = anchor @ join ''/'' (butlast parts)
      in if parent = [] then ''.'' else parent)"

definition preview_prefix_for :: "string \<Rightarrow> string" where
  "preview_prefix_for out = path_parent out @ ''/'' @ PREVIEW_DIRNAME @ ''/''"

fun float_text :: "pyfloat \<Rightarrow> string" where
  "float_text (Fin x) = float_repr x"
| "float_text PInf = ''inf''"
| "float_text NInf = ''-inf''"
| "float_text NaN = ''nan''"

definition int_ratio :: "int \<Rightarrow> int \<Rightarrow> rat" where
  \<comment> \<open>\<open>a / b\<close>, for a positive \<open>b\<close>\<close>
  "int_ratio a b = fl (of_int a / of_int b)"

fun ceil_ratio :: "pyfloat \<Rightarrow> int \<Rightarrow> exn + int" where
  \<comment> \<open>\<open>math.ceil(x / n)\<close>, for a positive \<open>n\<close>\<close>
  "ceil_ratio (Fin x) n = Inr \<lceil>fl (x / fl (of_int n))\<rceil>"
| "ceil_ratio NaN n = Inl (ValueError ''cannot convert float NaN to integer'')"
| "ceil_ratio _ n = Inl (OtherError ''OverflowError: cannot convert float infinity to integer'')"

definition plan_sprite :: "int \<Rightarrow> int \<Rightarrow> pyfloat \<Rightarrow> int \<Rightarrow> int \<Rightarrow> int \<Rightarrow> int \<Rightarrow> exn + sprite_layout" where
  "plan_sprite width height duration interval_seconds tile_width columns max_frames =
     (if width \<le> 0 \<or> height \<le> 0 \<or> float_le duration (Fin 0)
      then Inl (preview_error (''nothing to preview: '' @ dec_int width @ ''x'' @ dec_int height @ '', '' @ float_text duration @ ''s''))
      else if interval_seconds \<le> 0 \<or> tile_width \<le> 0
      then Inl (preview_error (''bad preview settings: every '' @ dec_int interval_seconds @ ''s, '' @ dec_int tile_width @ ''px''))
      else
        bind_ok (ceil_ratio duration max_frames) (\<lambda>widened.
          let interval = max interval_seconds widened in
          bind_ok (ceil_ratio duration interval) (\<lambda>frames.
            let cols = min columns frames;
                tile_height = max 2 (round_half_even (fl (int_ratio (tile_width * height) width / 2)) * 2) in
            if cols = 0 then Inl ZeroDivisionError
            else Inr \<lparr>sl_interval = interval, sl_frames = frames, sl_columns = cols,
                   sl_rows = \<lceil>int_ratio frames cols\<rceil>, sl_tile_width = tile_width, sl_tile_height = tile_height\<rparr>)))"

definition build_sprite_command :: "string \<Rightarrow> string \<Rightarrow> sprite_layout \<Rightarrow> string \<Rightarrow> string list" where
  "build_sprite_command source_path output_path l ffmpeg_binary =
     (let filters = ''fps=1/'' @ dec_int (sl_interval l) @ '',''
            @ ''scale='' @ dec_int (sl_tile_width l) @ '':'' @ dec_int (sl_tile_height l) @ '',setsar=1,''
            @ ''tile='' @ dec_int (sl_columns l) @ ''x'' @ dec_int (sl_rows l)
      in [ffmpeg_binary, ''-hide_banner'', ''-loglevel'', ''error'', ''-i'', source_path, ''-an'', ''-sn'', ''-dn'',
          ''-vf'', filters, ''-frames:v'', ''1'', ''-q:v'', ''5'', ''-y'', output_path])"

section \<open>The index\<close>

definition timestamp :: "int \<Rightarrow> string" where
  \<comment> \<open>\<open>_timestamp\<close>, from the rounded milliseconds on\<close>
  "timestamp millis =
     (let hours = millis div 3600000; m1 = millis mod 3600000;
          minutes = m1 div 60000; m2 = m1 mod 60000;
          secs = m2 div 1000; ms = m2 mod 1000
      in pad0 2 (dec_int hours) @ '':'' @ pad0 2 (dec_int minutes) @ '':'' @ pad0 2 (dec_int secs) @ ''.'' @ pad0 3 (dec_int ms))"

fun millis_of :: "pyfloat \<Rightarrow> exn + int" where
  \<comment> \<open>\<open>round(seconds * 1000)\<close> of a float\<close>
  "millis_of (Fin x) = Inr (round_half_even (fl (x * 1000)))"
| "millis_of NaN = Inl (ValueError ''cannot convert float NaN to integer'')"
| "millis_of _ = Inl (OtherError ''OverflowError: cannot convert float infinity to integer'')"

definition cue_start :: "sprite_layout \<Rightarrow> int \<Rightarrow> int" where
  \<comment> \<open>in milliseconds\<close>
  "cue_start l i = i * sl_interval l * 1000"

definition cue_end :: "sprite_layout \<Rightarrow> pyfloat \<Rightarrow> int \<Rightarrow> exn + int" where
  \<comment> \<open>\<open>min(start + interval, duration)\<close> in milliseconds: an int unless the float is smaller\<close>
  "cue_end l duration i =
     (let whole = i * sl_interval l + sl_interval l
      in if float_less duration (Fin (of_int whole)) then millis_of duration else Inr (whole * 1000))"

definition cue_rectangle :: "sprite_layout \<Rightarrow> int \<Rightarrow> int \<times> int" where
  "cue_rectangle l i = ((i mod sl_columns l) * sl_tile_width l, (i div sl_columns l) * sl_tile_height l)"

definition cue_lines :: "sprite_layout \<Rightarrow> string \<Rightarrow> int \<Rightarrow> int \<Rightarrow> string list" where
  "cue_lines l sprite_name i end_millis =
     (case cue_rectangle l i of (x, y) \<Rightarrow>
        [timestamp (cue_start l i) @ '' --> '' @ timestamp end_millis,
         sprite_name @ ''#xywh='' @ dec_int x @ '','' @ dec_int y @ '','' @ dec_int (sl_tile_width l) @ '','' @ dec_int (sl_tile_height l),
         []])"

definition build_vtt :: "sprite_layout \<Rightarrow> pyfloat \<Rightarrow> string \<Rightarrow> exn + string" where
  "build_vtt l duration sprite_name =
     bind_ok (map_ok (\<lambda>i. bind_ok (cue_end l duration i) (\<lambda>e. Inr (cue_lines l sprite_name i e))) [0..sl_frames l - 1])
       (\<lambda>cues. Inr (join newline ([''WEBVTT'', []] @ concat cues)))"

section \<open>The run\<close>

record preview_sprite =
  ps_store :: store
  ps_prober :: "string \<Rightarrow> source_probe io"
  ps_record :: "uuid \<Rightarrow> string \<Rightarrow> bool task"
  ps_ffmpeg :: string
  ps_interval :: int
  ps_tile_width :: int
  ps_timeout :: int

definition finally_t :: "'a task \<Rightarrow> unit task \<Rightarrow> 'a task" where
  "finally_t m f =
     bind_t (try_t m) (\<lambda>r. bind_t f (\<lambda>_. case r of Inl x \<Rightarrow> raise_t x | Inr a \<Rightarrow> ret_t a))"

definition discard_preview :: "preview_sprite \<Rightarrow> string \<Rightarrow> unit io" where
  "discard_preview s prefix = catch_io (st_delete_prefix (ps_store s) prefix) (\<lambda>_. ret ())"

definition render :: "preview_sprite \<Rightarrow> string \<Rightarrow> string \<Rightarrow> sprite_layout \<Rightarrow> unit io" where
  "render s source_path sprite_path l =
     bind_io (run_process (build_sprite_command source_path sprite_path l (ps_ffmpeg s)) (ps_timeout s)) (\<lambda>outcome.
       case outcome of
         RunTimeout \<Rightarrow> raise (preview_error (''preview timed out after '' @ dec_int (ps_timeout s) @ ''s''))
       | RunInterrupted \<Rightarrow> raise (Interrupted ''the worker is stopping'')
       | Ran code out err \<Rightarrow>
           if code \<noteq> 0
           then raise (preview_error (''preview sheet failed: '' @ or_else (tail 500 (strip err)) ''no FFmpeg error output''))
           else bind_io (is_file sprite_path) (\<lambda>there.
                bind_io (file_size sprite_path) (\<lambda>n.
                  if \<not> there \<or> n = 0 then raise (preview_error ''FFmpeg produced no preview sheet'') else ret ())))"

definition make_sheet :: "preview_sprite \<Rightarrow> string \<Rightarrow> string \<Rightarrow> unit io" where
  \<comment> \<open>everything up to the two files on disk\<close>
  "make_sheet s out work =
     (let source_path = in_dir work ''source.mp4''; sprite_path = in_dir work SPRITE_FILENAME; vtt_path = in_dir work VTT_FILENAME in
      bind_io (st_download (ps_store s) out source_path) (\<lambda>_.
      bind_io (ps_prober s source_path) (\<lambda>probe.
      bind_io (lift (plan_sprite (probe_width probe) (probe_height probe) (duration_seconds probe)
                 (ps_interval s) (ps_tile_width s) COLUMNS MAX_FRAMES)) (\<lambda>l.
      bind_io (render s source_path sprite_path l) (\<lambda>_.
      bind_io (lift (build_vtt l (duration_seconds probe) SPRITE_FILENAME)) (\<lambda>index.
        write_text vtt_path index))))))"

definition store_sheet :: "preview_sprite \<Rightarrow> string \<Rightarrow> string \<Rightarrow> unit io" where
  "store_sheet s prefix work =
     bind_io (st_upload (ps_store s) (prefix @ SPRITE_FILENAME) (in_dir work SPRITE_FILENAME) SPRITE_CONTENT_TYPE) (\<lambda>_.
       st_upload (ps_store s) (prefix @ VTT_FILENAME) (in_dir work VTT_FILENAME) VTT_CONTENT_TYPE)"

definition preview_in_work :: "preview_sprite \<Rightarrow> uuid \<Rightarrow> string \<Rightarrow> string \<Rightarrow> bool task" where
  \<comment> \<open>the body of the \<open>with\<close>\<close>
  "preview_in_work s k out work =
     (let prefix = preview_prefix_for out in
      bind_t (in_thread (make_sheet s out work)) (\<lambda>_.
      bind_t (try_t (bind_t (in_thread (store_sheet s prefix work)) (\<lambda>_. ps_record s k (prefix @ VTT_FILENAME)))) (\<lambda>stored.
        case stored of
          Inl x \<Rightarrow> bind_t (in_thread (discard_preview s prefix)) (\<lambda>_. raise_t x)
        | Inr recorded \<Rightarrow> ret_t recorded)))"

definition preview_run :: "preview_sprite \<Rightarrow> uuid \<Rightarrow> string \<Rightarrow> string option task" where
  "preview_run s k out =
     (let prefix = preview_prefix_for out in
      bind_t (in_thread (mkdtemp (''preview-'' @ uuid_text k @ ''-''))) (\<lambda>work.
      bind_t (finally_t (preview_in_work s k out work) (in_thread (rmtree work))) (\<lambda>recorded.
        if recorded then ret_t (Some (prefix @ VTT_FILENAME))
        else bind_t (in_thread (discard_preview s prefix)) (\<lambda>_. ret_t None))))"

definition record_preview :: "uuid \<Rightarrow> string \<Rightarrow> bool task" where
  "record_preview k key = bind_t (session (\<lambda>now. mark_preview_ready now k key)) (\<lambda>j. ret_t (j \<noteq> None))"

record preview_settings =
  pw_ffprobe :: string
  pw_ffprobe_timeout :: int
  pw_ffmpeg :: string
  pw_interval :: int
  pw_tile_width :: int
  pw_timeout :: int

definition get_preview_sprite :: "preview_settings \<Rightarrow> preview_sprite" where
  "get_preview_sprite ws =
     \<lparr>ps_store = minio_object_store, ps_prober = run_probe (pw_ffprobe ws) (pw_ffprobe_timeout ws),
      ps_record = record_preview, ps_ffmpeg = pw_ffmpeg ws, ps_interval = pw_interval ws,
      ps_tile_width = pw_tile_width ws, ps_timeout = pw_timeout ws\<rparr>"

definition make_preview :: "preview_settings \<Rightarrow> uuid \<Rightarrow> string \<Rightarrow> unit task" where
  "make_preview ws k out = bind_t (preview_run (get_preview_sprite ws) k out) (\<lambda>_. ret_t ())"

section \<open>The plan of a sheet\<close>

lemma pow2_53: "pow2 53 = 9007199254740992"
  by (simp add: pow2_def)

lemma fl_small_error:
  assumes "1 / 1000000000000000 \<le> x"
  shows "x - x / 9007199254740992 \<le> fl x" and "fl x \<le> x + x / 9007199254740992"
proof -
  have "pow2 (- 1022) \<le> pow2 (- 50)" by (rule pow2_mono) simp
  also have "pow2 (- 50) \<le> 1 / 1000000000000000" by (simp add: pow2_def)
  finally have "\<bar>fl x - x\<bar> \<le> x / pow2 53" using assms by (intro fl_error) linarith
  then show "x - x / 9007199254740992 \<le> fl x" "fl x \<le> x + x / 9007199254740992"
    unfolding pow2_53 by linarith+
qed

lemma fl_positive: "1 / 1000000000000000 \<le> x \<Longrightarrow> 0 < fl x"
  using fl_small_error(1) [of x] by linarith

lemma fl_above: "q + 1 / 10 \<le> x \<Longrightarrow> 1 \<le> x \<Longrightarrow> x \<le> 201 \<Longrightarrow> q < fl x"
  using fl_small_error(1) [of x] by linarith

lemma int_div_mult: "0 < (c :: int) \<Longrightarrow> n div c * c \<le> n"
  using div_mult_mod_eq [of n c] pos_mod_sign [of c n] by linarith

lemma int_div_next: "0 < (c :: int) \<Longrightarrow> n < c * (n div c + 1)"
proof -
  assume c: "0 < c"
  have "c * (n div c + 1) = n div c * c + c" by (simp add: distrib_left mult.commute)
  then show ?thesis using div_mult_mod_eq [of n c] pos_mod_bound [OF c, of n] by linarith
qed

definition planned_sheet :: "int \<Rightarrow> int \<Rightarrow> int \<Rightarrow> int \<Rightarrow> rat \<Rightarrow> sprite_layout \<Rightarrow> bool" where
  \<comment> \<open>a sheet as it is planned for a video of a plausible length\<close>
  "planned_sheet w h iv tw d l \<longleftrightarrow> plan_sprite w h (Fin d) iv tw COLUMNS MAX_FRAMES = Inr l
     \<and> 1 / 1000 \<le> d \<and> d \<le> 1000000000 \<and> iv \<le> 1000000000"

lemma planned_sheetD:
  assumes "planned_sheet w h iv tw d l"
  shows "plan_sprite w h (Fin d) iv tw COLUMNS MAX_FRAMES = Inr l" and "1 / 1000 \<le> d" and "d \<le> 1000000000" and "iv \<le> 1000000000"
  using assms by (simp_all add: planned_sheet_def)

lemma sheet_shape:
  assumes sheet: "planned_sheet w h iv tw d l"
  obtains "0 < tw" "iv \<le> sl_interval l" "\<lceil>fl (d / 200)\<rceil> \<le> sl_interval l" "0 < sl_interval l"
    "sl_interval l \<le> 1000000000" "sl_frames l = \<lceil>fl (d / of_int (sl_interval l))\<rceil>" "sl_columns l = min 10 (sl_frames l)"
    "sl_rows l = \<lceil>int_ratio (sl_frames l) (sl_columns l)\<rceil>" "sl_tile_width l = tw" "2 \<le> sl_tile_height l"
proof -
  note plan = planned_sheetD(1) [OF sheet] and lengths = planned_sheetD(2-4) [OF sheet]
  have two: "fl 200 = 200" using fl_of_int [of 200] by (simp add: pow2_53)
  let ?i = "max iv \<lceil>fl (d / 200)\<rceil>"
  have iv: "0 < iv" "0 < tw" using plan by (auto simp: plan_sprite_def bind_ok_def split: if_splits)
  have "fl (d / 200) \<le> of_int 1000000000" using lengths by (intro fl_le_int) (simp_all add: pow2_53)
  then have i: "0 < ?i" "?i \<le> 1000000000" using iv lengths(3) by (simp_all add: ceiling_le_iff)
  then have exact: "fl (of_int ?i) = of_int ?i" by (intro fl_of_int) (simp_all add: pow2_53)
  from plan have "l = \<lparr>sl_interval = ?i, sl_frames = \<lceil>fl (d / fl (of_int ?i))\<rceil>, sl_columns = min 10 \<lceil>fl (d / fl (of_int ?i))\<rceil>,
      sl_rows = \<lceil>int_ratio \<lceil>fl (d / fl (of_int ?i))\<rceil> (min 10 \<lceil>fl (d / fl (of_int ?i))\<rceil>)\<rceil>, sl_tile_width = tw,
      sl_tile_height = max 2 (round_half_even (fl (int_ratio (tw * h) w / 2)) * 2)\<rparr>"
    by (simp add: plan_sprite_def bind_ok_def Let_def MAX_FRAMES_def COLUMNS_def two split: if_splits)
  with i iv exact show thesis by (intro that) simp_all
qed

lemma sheet_interval_pos:
  assumes sheet: "planned_sheet w h iv tw d l"
  shows "0 < sl_interval l" and "\<not> sl_interval l \<le> 0"
  using sheet_shape [OF sheet] by fastforce+

lemma sheet_interval_nonzero:
  assumes sheet: "planned_sheet w h iv tw d l"
  shows "sl_interval l \<noteq> 0"
  using sheet_interval_pos(1) [OF sheet] by linarith

lemma sheet_steps_bounds:
  assumes sheet: "planned_sheet w h iv tw d l"
  shows "1 \<le> sl_frames l" and "sl_frames l \<le> 201"
    and "i < sl_frames l \<Longrightarrow> of_int (i * sl_interval l) < d"
    and "d \<le> of_int (sl_frames l * sl_interval l) + d / 9007199254740992"
proof -
  note [simp] = sheet_interval_pos [OF sheet] sheet_interval_nonzero [OF sheet]
  note plan = planned_sheetD(1) [OF sheet] and lengths = planned_sheetD(2-4) [OF sheet]
  let ?v = "sl_interval l" and ?x = "d / of_int (sl_interval l)"
  obtain v: "\<lceil>fl (d / 200)\<rceil> \<le> ?v" "?v \<le> 1000000000" "sl_frames l = \<lceil>fl ?x\<rceil>" by (rule sheet_shape [OF sheet])
  have pos: "0 < (of_int ?v :: rat)" "(of_int ?v :: rat) \<le> 1000000000"
    using v(2) by simp_all
  have "1 / 1000 / 1000000000 \<le> ?x" using lengths(1) pos by (intro frac_le) auto
  then have small: "1 / 1000000000000000 \<le> ?x" by linarith
  then have xpos: "0 < ?x" by linarith
  note err = fl_small_error [OF small]
  have "0 < fl ?x" by (rule fl_positive [OF small])
  then show "1 \<le> sl_frames l" unfolding v(3) by simp
  show "of_int (i * ?v) < d" if "i < sl_frames l" for i
  proof (rule ccontr)
    assume "\<not> ?thesis"
    then have "?x \<le> of_int i" using pos by (simp add: pos_divide_le_eq)
    moreover have "of_int i < pow2 53"
    proof -
      have "?x \<le> d" using pos(1) lengths(1) by (simp add: pos_divide_le_eq mult_le_cancel_left1) (metis int_one_le_iff_zero_less sheet_interval_pos(1) [OF sheet] of_int_1_le_iff)
      then have "fl ?x \<le> of_int 1000000001" using xpos lengths(2) by (intro fl_le_int) (simp_all add: pow2_53)
      with that have "i \<le> 1000000001" unfolding v(3) by (simp add: less_ceiling_iff)
      then have "of_int i \<le> (of_int 1000000001 :: rat)" by (simp only: of_int_le_iff)
      then show ?thesis by (simp add: pow2_53)
    qed
    ultimately have "fl ?x \<le> of_int i" using xpos by (intro fl_le_int)
    with that show False unfolding v(3) by (simp add: less_ceiling_iff)
  qed
  have "fl ?x \<le> of_int (sl_frames l)" unfolding v(3) by simp
  with err(1) have "?x - ?x / 9007199254740992 \<le> of_int (sl_frames l)" by linarith
  then have "(?x - ?x / 9007199254740992) * of_int ?v \<le> of_int (sl_frames l) * of_int ?v" using sheet_interval_pos(1) [OF sheet] by (intro mult_right_mono) (simp_all add: less_imp_le)
  moreover have "(?x - ?x / 9007199254740992) * of_int ?v = d - d / 9007199254740992" using pos(1) by (simp add: field_simps)
  ultimately show "d \<le> of_int (sl_frames l * ?v) + d / 9007199254740992" by simp
  have "1 / 1000000000000000 \<le> d / 200" using lengths(1) by simp
  note half = fl_small_error(1) [OF this]
  have "fl (d / 200) \<le> of_int ?v" using v(1) by (simp add: ceiling_le_iff)
  with half have "d / 200 \<le> of_int ?v * (1 + 1 / 1000)" using lengths(1) pos by (simp add: field_simps)
  then have "d \<le> 200.2 * of_int ?v" by simp
  with pos(1) have "d \<le> 201 * of_int ?v" by linarith
  then have "?x \<le> of_int 201" using pos by (simp add: pos_divide_le_eq)
  then have "fl ?x \<le> of_int 201" using xpos by (intro fl_le_int) (simp_all add: pow2_53)
  then show "sl_frames l \<le> 201" unfolding v(3) by (simp add: ceiling_le_iff)
qed

lemma sheet_last_cue_ends:
  assumes sheet: "planned_sheet w h iv tw d l" and "of_int (sl_frames l * sl_interval l) \<le> d"
  shows "millis_of (Fin d) = Inr (sl_frames l * sl_interval l * 1000)"
proof -
  note [simp] = sheet_interval_pos [OF sheet] sheet_interval_nonzero [OF sheet]
  note plan = planned_sheetD(1) [OF sheet] and lengths = planned_sheetD(2-4) [OF sheet]
  let ?n = "sl_frames l * sl_interval l * 1000"
  have n: "of_int ?n \<le> d * 1000" using assms by simp
  have near: "d * 1000 \<le> of_int ?n + 1 / 1000" using sheet_steps_bounds(4) [OF sheet] lengths(2) by simp
  have small: "1 / 1000000000000000 \<le> d * 1000" using lengths(1) by simp
  have "of_int ?n \<le> fl (d * 1000)"
    using n near lengths by (intro fl_ge_int) (simp_all add: pow2_53)
  moreover have "fl (d * 1000) \<le> of_int ?n + 1 / 4" using fl_small_error(2) [OF small] near lengths(2) by simp
  ultimately have "\<lfloor>fl (d * 1000)\<rfloor> = ?n \<and> fl (d * 1000) - of_int ?n < 1 / 2" by (simp add: floor_eq_iff)
  then show ?thesis by (simp add: round_half_even_def Let_def)
qed

lemma sheet_cue_bounds:
  assumes sheet: "planned_sheet w h iv tw d l" and "0 \<le> i" and "i < sl_frames l"
  shows "cue_end l (Fin d) i = (if i + 1 < sl_frames l then Inr (cue_start l (i + 1)) else millis_of (Fin d))"
proof (cases "i + 1 < sl_frames l")
  case True
  have "of_int ((i + 1) * sl_interval l) < d" using sheet_steps_bounds(3) [OF sheet True] .
  then show ?thesis using True by (simp add: cue_end_def cue_start_def Let_def algebra_simps)
next
  case False
  with assms have last: "sl_frames l = i + 1" by simp
  have whole: "i * sl_interval l + sl_interval l = sl_frames l * sl_interval l" by (simp add: last algebra_simps)
  show ?thesis
  proof (cases "d < of_int (sl_frames l * sl_interval l)")
    case True
    then show ?thesis using last by (simp add: cue_end_def whole Let_def)
  next
    case low: False
    then have "millis_of (Fin d) = Inr (sl_frames l * sl_interval l * 1000)" by (intro sheet_last_cue_ends [OF sheet]) simp
    with low show ?thesis using last by (simp add: cue_end_def whole Let_def)
  qed
qed

lemma sheet_last_cue_ordered:
  assumes sheet: "planned_sheet w h iv tw d l"
  obtains e where "millis_of (Fin d) = Inr e" and "cue_start l (sl_frames l - 1) \<le> e"
proof -
  note [simp] = sheet_interval_pos [OF sheet] sheet_interval_nonzero [OF sheet]
  note plan = planned_sheetD(1) [OF sheet] and lengths = planned_sheetD(2-4) [OF sheet]
  let ?i = "sl_frames l - 1"
  have "of_int (?i * sl_interval l) < d" by (rule sheet_steps_bounds(3) [OF sheet]) simp
  then have "of_int (cue_start l ?i) \<le> d * 1000" by (simp add: cue_start_def)
  moreover have "of_int (cue_start l ?i) \<le> pow2 53" using calculation lengths(2) by (simp add: pow2_53)
  ultimately have "of_int (cue_start l ?i) \<le> fl (d * 1000)" using lengths(1) by (intro fl_ge_int) simp_all
  then have "cue_start l ?i \<le> round_half_even (fl (d * 1000))" by (rule round_ge)
  then show thesis using that by simp
qed

lemma sheet_columns_bounds:
  assumes sheet: "planned_sheet w h iv tw d l"
  shows "1 \<le> sl_columns l" and "sl_columns l \<le> 10" and "sl_columns l \<le> sl_frames l"
  using sheet_shape [OF sheet] sheet_steps_bounds(1) [OF sheet] by fastforce+

lemma sheet_rows_enough:
  assumes sheet: "planned_sheet w h iv tw d l"
  shows "sl_frames l \<le> sl_columns l * sl_rows l"
proof -
  note [simp] = sheet_interval_pos [OF sheet] sheet_interval_nonzero [OF sheet]
  note plan = planned_sheetD(1) [OF sheet] and lengths = planned_sheetD(2-4) [OF sheet]
  let ?c = "sl_columns l" and ?n = "sl_frames l"
  let ?q = "(?n - 1) div ?c"
  let ?x = "of_int ?n / of_int ?c :: rat"
  note c = sheet_columns_bounds [OF sheet] sheet_steps_bounds(1,2) [OF sheet]
  have rows: "sl_rows l = \<lceil>fl ?x\<rceil>" by (rule sheet_shape [OF sheet]) (simp add: int_ratio_def)
  have x: "1 \<le> ?x" "?x \<le> 201" using c by (simp_all add: pos_le_divide_eq pos_divide_le_eq)
  have "?q * ?c \<le> ?n - 1" using c(1) by (intro int_div_mult) simp
  then have "of_int (?q * ?c) + 1 \<le> (of_int ?n :: rat)" by (metis add.commute add_le_cancel_left le_diff_eq of_int_1 of_int_add of_int_le_iff)
  then have "(of_int ?q + 1 / of_int ?c) * of_int ?c \<le> (of_int ?n :: rat)" using c(1) by (simp add: distrib_right)
  then have "of_int ?q + 1 / of_int ?c \<le> ?x" using c(1) by (subst pos_le_divide_eq) simp_all
  moreover have "1 / 10 \<le> 1 / (of_int ?c :: rat)" using c(1,2) by (simp add: pos_divide_le_eq field_simps)
  ultimately have "of_int ?q + 1 / 10 \<le> ?x" by linarith
  then have "of_int ?q < fl ?x" using x by (rule fl_above)
  then have "?q < sl_rows l" unfolding rows by (subst less_ceiling_iff)
  then have "?q + 1 \<le> sl_rows l" by simp
  then have "?c * (?q + 1) \<le> ?c * sl_rows l" using c(1) by (intro mult_left_mono) simp_all
  moreover have "?n \<le> ?c * (?q + 1)"
    using int_div_next [of ?c "?n - 1"] c(1) by linarith
  ultimately show ?thesis by linarith
qed

lemma sheet_tiles:
  assumes sheet: "planned_sheet w h iv tw d l" and "0 \<le> i" and "i < sl_frames l" and "cue_rectangle l i = (x, y)"
  shows "0 \<le> x \<and> x + sl_tile_width l \<le> sl_columns l * sl_tile_width l
    \<and> 0 \<le> y \<and> y + sl_tile_height l \<le> sl_rows l * sl_tile_height l"
proof -
  note [simp] = sheet_interval_pos [OF sheet] sheet_interval_nonzero [OF sheet]
  note plan = planned_sheetD(1) [OF sheet] and lengths = planned_sheetD(2-4) [OF sheet]
  obtain t: "0 < sl_tile_width l" "2 \<le> sl_tile_height l" by (rule sheet_shape [OF sheet]) simp
  note c = sheet_columns_bounds [OF sheet]
  have "i mod sl_columns l + 1 \<le> sl_columns l" "0 \<le> i mod sl_columns l" using c(1) by (simp_all add: add1_zle_eq)
  then have "(i mod sl_columns l + 1) * sl_tile_width l \<le> sl_columns l * sl_tile_width l" "0 \<le> (i mod sl_columns l) * sl_tile_width l"
    using t by (simp_all add: mult_right_mono)
  moreover have "i < sl_rows l * sl_columns l" using assms(3) sheet_rows_enough [OF sheet] by (simp add: mult.commute)
  then have "i div sl_columns l < sl_rows l" 
    using int_div_mult [of "sl_columns l" i] c(1) by (smt (verit) mult_right_mono)
  then have "(i div sl_columns l + 1) * sl_tile_height l \<le> sl_rows l * sl_tile_height l" using t by (intro mult_right_mono) simp_all
  moreover have "0 \<le> i div sl_columns l" using assms(2) c(1) by (simp add: pos_imp_zdiv_nonneg_iff)
  ultimately show ?thesis using assms(4) t by (auto simp: cue_rectangle_def algebra_simps)
qed

lemma sheet_tiles_distinct:
  assumes sheet: "planned_sheet w h iv tw d l" and "0 \<le> i" "0 \<le> j" and "cue_rectangle l i = cue_rectangle l j"
  shows "i = j"
proof -
  note [simp] = sheet_interval_pos [OF sheet] sheet_interval_nonzero [OF sheet]
  note plan = planned_sheetD(1) [OF sheet] and lengths = planned_sheetD(2-4) [OF sheet]
  obtain t: "0 < sl_tile_width l" "2 \<le> sl_tile_height l" by (rule sheet_shape [OF sheet]) simp
  have "i mod sl_columns l = j mod sl_columns l" "i div sl_columns l = j div sl_columns l"
    using assms(4) t by (simp_all add: cue_rectangle_def)
  then show ?thesis by (metis div_mult_mod_eq)
qed

lemma map_ok_all: "(\<And>x. x \<in> set xs \<Longrightarrow> f x = Inr (g x)) \<Longrightarrow> map_ok f xs = Inr (map g xs)"
  by (induction xs) (simp_all add: bind_ok_def)

text \<open>C31. The cues of a preview follow one another without a gap from the start of the video to its end, one
  for each frame, and each names a tile of its own that lies inside the sheet. The sheet never has more than
  one frame over its limit.\<close>

theorem preview_index_exact:
  assumes "plan_sprite w h (Fin d) iv tw COLUMNS MAX_FRAMES = Inr l"
    and "1 / 1000 \<le> d" and "d \<le> 1000000000" and "iv \<le> 1000000000"
  shows "\<exists>T :: int \<Rightarrow> int. build_vtt l (Fin d) sprite_name
        = Inr (join newline ([''WEBVTT'', []] @ concat (map (\<lambda>i. cue_lines l sprite_name i (T (i + 1))) [0..sl_frames l - 1])))
    \<and> T 0 = 0 \<and> millis_of (Fin d) = Inr (T (sl_frames l))
    \<and> (\<forall>i. 0 \<le> i \<and> i < sl_frames l \<longrightarrow> T i = cue_start l i \<and> T i \<le> T (i + 1))
    \<and> (\<forall>i j. 0 \<le> i \<and> i < sl_frames l \<and> 0 \<le> j \<and> j < sl_frames l \<and> cue_rectangle l i = cue_rectangle l j \<longrightarrow> i = j)
    \<and> (\<forall>i x y. 0 \<le> i \<and> i < sl_frames l \<and> cue_rectangle l i = (x, y) \<longrightarrow>
         0 \<le> x \<and> x + sl_tile_width l \<le> sl_columns l * sl_tile_width l
       \<and> 0 \<le> y \<and> y + sl_tile_height l \<le> sl_rows l * sl_tile_height l)
    \<and> 1 \<le> sl_frames l \<and> sl_frames l \<le> MAX_FRAMES + 1 \<and> iv \<le> sl_interval l"
proof -
  from assms have sheet: "planned_sheet w h iv tw d l" by (simp add: planned_sheet_def)
  note facts = sheet_steps_bounds(1,2) [OF sheet]
  obtain e where e: "millis_of (Fin d) = Inr e" "cue_start l (sl_frames l - 1) \<le> e"
    by (rule sheet_last_cue_ordered [OF sheet])
  let ?T = "\<lambda>i. if i < sl_frames l then cue_start l i else e"
  have pos: "0 < sl_interval l" by (rule sheet_interval_pos(1) [OF sheet])
  have ends: "cue_end l (Fin d) i = Inr (?T (i + 1))" if "0 \<le> i" "i < sl_frames l" for i
    using sheet_cue_bounds [OF sheet that] e(1) by simp
  have rendered: "build_vtt l (Fin d) sprite_name
      = Inr (join newline ([''WEBVTT'', []] @ concat (map (\<lambda>i. cue_lines l sprite_name i (?T (i + 1))) [0..sl_frames l - 1])))"
    unfolding build_vtt_def
    by (subst map_ok_all [where g = "\<lambda>i. cue_lines l sprite_name i (?T (i + 1))"]) (simp_all add: bind_ok_def ends)
  have order: "?T i \<le> ?T (i + 1)" if "0 \<le> i" "i < sl_frames l" for i
  proof (cases "i + 1 < sl_frames l")
    case False
    with that have "i = sl_frames l - 1" by simp
    with e(2) False show ?thesis by simp
  qed (use pos in \<open>simp add: cue_start_def\<close>)
  have times: "\<forall>i. 0 \<le> i \<and> i < sl_frames l \<longrightarrow> ?T i = cue_start l i \<and> ?T i \<le> ?T (i + 1)" using order by simp
  have distinct: "\<forall>i j. 0 \<le> i \<and> i < sl_frames l \<and> 0 \<le> j \<and> j < sl_frames l \<and> cue_rectangle l i = cue_rectangle l j \<longrightarrow> i = j"
    using sheet_tiles_distinct [OF sheet] by blast
  have inside: "\<forall>i x y. 0 \<le> i \<and> i < sl_frames l \<and> cue_rectangle l i = (x, y) \<longrightarrow>
         0 \<le> x \<and> x + sl_tile_width l \<le> sl_columns l * sl_tile_width l
       \<and> 0 \<le> y \<and> y + sl_tile_height l \<le> sl_rows l * sl_tile_height l"
    using sheet_tiles [OF sheet] by blast
  have bounds: "iv \<le> sl_interval l" "sl_frames l \<le> MAX_FRAMES + 1" "?T 0 = 0" "millis_of (Fin d) = Inr (?T (sl_frames l))"
    using sheet_shape [OF sheet] facts e(1) by (simp_all add: cue_start_def MAX_FRAMES_def)
  show ?thesis
    by (intro exI [of _ ?T] conjI) (fact rendered times distinct inside bounds facts)+
qed

section \<open>What a run leaves behind\<close>

lemma thread_adds:
  assumes "writes_only K m"
  obtains r cs where "in_thread m W t d = (r, t @ map Call cs, d)" and "\<forall>k\<in>set (puts cs). K k"
proof -
  obtain r h where m: "m (w_env W) (calls_of t) = (r, h)" by fastforce
  from writes_onlyD [OF assms this] obtain cs where "h = calls_of t @ cs" "\<forall>k\<in>set (puts cs). K k" by blast
  with m show thesis using that by (simp add: in_thread_def)
qed

lemma thread_quiet:
  assumes "writes_only (\<lambda>_. False) m"
  obtains r cs where "in_thread m W t d = (r, t @ map Call cs, d)" and "puts cs = []"
proof -
  obtain r cs where cs: "in_thread m W t d = (r, t @ map Call cs, d)" "\<forall>k\<in>set (puts cs). False"
    by (rule thread_adds [OF assms])
  from cs(2) have "puts cs = []" by (cases "puts cs") auto
  with cs(1) show thesis by (rule that)
qed

lemma sheet_unwritten: "writes_only (\<lambda>_. False) (make_sheet (get_preview_sprite ws) out work)"
  unfolding make_sheet_def render_def Let_def
  by (simp add: get_preview_sprite_def)
    (intro writes minio.download_writes; auto split: run_outcome.split intro!: writes)

lemma discard_lists:
  obtains cs where "in_thread (discard_preview (get_preview_sprite ws) folder) W t d = (Inr (), t @ map Call (ListObjects folder # cs), d)"
    and "puts cs = []"
proof -
  let ?e = "w_env W" and ?h = "calls_of t @ [ListObjects folder]"
  let ?drop = "\<lambda>names. for_io names (\<lambda>k. do_call (RemoveObject k) (\<lambda>e h. e_remove e h k))"
  have quiet: "writes_only (\<lambda>_. False) (?drop names)" for names by (intro writes writes_call) simp
  have "\<exists>cs. discard_preview (get_preview_sprite ws) folder ?e (calls_of t) = (Inr (), ?h @ cs) \<and> puts cs = []"
  proof (cases "e_list ?e (calls_of t) folder")
    case (Inl x)
    then show ?thesis by (auto simp: discard_preview_def get_preview_sprite_def minio_object_store_def
        minio_delete_prefix_def on_s3_error_def io_defs do_call_def split: exn.split)
  next
    case (Inr names)
    obtain r h where run: "?drop names ?e ?h = (r, h)" by fastforce
    from writes_onlyD [OF quiet run] obtain cs where cs: "h = ?h @ cs" "\<forall>k\<in>set (puts cs). False" by blast
    from cs(2) have "puts cs = []" by (cases "puts cs") auto
    moreover have "discard_preview (get_preview_sprite ws) folder ?e (calls_of t) = (Inr (), h)"
      using Inr run by (auto simp: discard_preview_def get_preview_sprite_def minio_object_store_def
        minio_delete_prefix_def on_s3_error_def io_defs do_call_def split: exn.split sum.split)
    ultimately show ?thesis using cs(1) by blast
  qed
  then obtain cs where "discard_preview (get_preview_sprite ws) folder ?e (calls_of t) = (Inr (), ?h @ cs)" "puts cs = []" by blast
  then show thesis using that by (simp add: in_thread_def)
qed

lemma sheet_stored:
  obtains r cs where "in_thread (store_sheet (get_preview_sprite ws) folder work) W t d = (r, t @ map Call cs, d)"
    and "r = Inr () \<longrightarrow> puts cs = [folder @ SPRITE_FILENAME, folder @ VTT_FILENAME]"
proof -
  let ?put = "\<lambda>n c. st_upload minio_object_store (folder @ n) (in_dir work n) c" and ?e = "w_env W"
  obtain r1 h1 where one: "?put SPRITE_FILENAME SPRITE_CONTENT_TYPE ?e (calls_of t) = (r1, h1)" by fastforce
  then obtain c1 where c1: "h1 = calls_of t @ c1" "puts c1 = [folder @ SPRITE_FILENAME]"
    using minio.upload_writes by (metis snd_conv)
  obtain r2 h2 where two: "?put VTT_FILENAME VTT_CONTENT_TYPE ?e h1 = (r2, h2)" by fastforce
  then obtain c2 where c2: "h2 = h1 @ c2" "puts c2 = [folder @ VTT_FILENAME]"
    using minio.upload_writes by (metis snd_conv)
  have run: "store_sheet (get_preview_sprite ws) folder work ?e (calls_of t) = (case r1 of Inl x \<Rightarrow> (Inl x, h1) | Inr _ \<Rightarrow> (r2, h2))"
    using one two by (simp add: store_sheet_def get_preview_sprite_def bind_io_def split: sum.split)
  show thesis
    by (rule that [of "case r1 of Inl x \<Rightarrow> Inl x | Inr _ \<Rightarrow> r2" "case r1 of Inl x \<Rightarrow> c1 | Inr _ \<Rightarrow> c1 @ c2"])
      (use run c1 c2 in \<open>auto simp: in_thread_def split: sum.splits\<close>)
qed

definition preview_recorded :: "uuid \<Rightarrow> string \<Rightarrow> db \<Rightarrow> bool" where
  "preview_recorded k key d \<longleftrightarrow> (\<exists>j\<in>set (db_jobs d). job_id j = k \<and> job_preview_key j = Some key)"

lemma record_outcome:
  assumes "record_preview k key W t d = (r, t', d')"
  shows "(case r of Inl x \<Rightarrow> t' = t
    | Inr True \<Rightarrow> t' = t @ [Commit d'] \<and> preview_recorded k key d'
    | Inr False \<Rightarrow> t' = t @ [Commit d'] \<and> (\<forall>j\<in>set (db_jobs d'). \<not> (job_id j = k \<and> has_ladder j)))"
proof (cases "mark_preview_ready (w_now W t) k key (w_others W t d)")
  case (Inl x)
  with assms show ?thesis by (auto simp: record_preview_def bind_t_def session_def)
next
  case (Inr p)
  obtain d1 row where p: "p = (d1, row)" by fastforce
  with Inr assms have run: "r = Inr (row \<noteq> None)" "t' = t @ [Commit d']" "d' = d1"
    by (auto simp: record_preview_def bind_t_def session_def)
  have upd: "update_job has_ladder (\<lambda>j. j\<lparr>job_preview_key := Some key, job_updated_at := w_now W t\<rparr>) k (w_others W t d) = Inr (d1, row)"
    using Inr p by (simp add: mark_preview_ready_def split: if_splits)
  have "if row = None then \<forall>j\<in>set (db_jobs d1). \<not> (job_id j = k \<and> has_ladder j) else preview_recorded k key d1"
    using upd by (auto simp: update_job_def update_row_def Let_def preview_recorded_def filter_empty_conv split: sum.splits if_splits list.splits
        dest!: filter_eq_ConsD map_eq_Cons_conv [THEN iffD1])
  with run show ?thesis by (cases row) simp_all
qed

definition cleaned_up :: "string \<Rightarrow> call list \<Rightarrow> bool" where
  \<comment> \<open>nothing was stored, or the folder was emptied after the last object was\<close>
  "cleaned_up folder cs \<longleftrightarrow> puts cs = [] \<or> (\<exists>pre post. cs = pre @ ListObjects folder # post \<and> puts post = [])"

lemma cleaned_append:
  assumes "puts post = []" and "cleaned_up folder cs"
  shows "cleaned_up folder (cs @ post)"
proof (cases "puts cs = []")
  case False
  with assms(2) obtain a b where "cs = a @ ListObjects folder # b" "puts b = []" by (auto simp: cleaned_up_def)
  with assms(1) have "cs @ post = a @ ListObjects folder # (b @ post)" "puts (b @ post) = []" by simp_all
  then show ?thesis unfolding cleaned_up_def by blast
qed (use assms(1) in \<open>simp add: cleaned_up_def\<close>)

lemma cleaned_before:
  assumes "puts pre = []" and "cleaned_up folder cs"
  shows "cleaned_up folder (pre @ cs)"
proof (cases "puts cs = []")
  case False
  with assms(2) obtain a b where "pre @ cs = (pre @ a) @ ListObjects folder # b" "puts b = []" by (auto simp: cleaned_up_def)
  then show ?thesis unfolding cleaned_up_def by blast
qed (use assms(1) in \<open>simp add: cleaned_up_def\<close>)

lemma cleaned_listing: "puts cs = [] \<Longrightarrow> cleaned_up folder (pre @ ListObjects folder # cs)"
  unfolding cleaned_up_def by blast

lemma in_work_outcome:
  assumes "preview_in_work (get_preview_sprite ws) k out work W t d = (r, t', d')"
  shows "\<exists>ev. t' = t @ ev \<and> (case r of
      Inl x \<Rightarrow> cleaned_up (preview_prefix_for out) (calls_of ev) \<and> commits_of ev = []
    | Inr True \<Rightarrow> (\<exists>pre. ev = map Call pre @ [Commit d']
        \<and> puts pre = [preview_prefix_for out @ SPRITE_FILENAME, preview_prefix_for out @ VTT_FILENAME])
        \<and> preview_recorded k (preview_prefix_for out @ VTT_FILENAME) d'
    | Inr False \<Rightarrow> commits_of ev = [d'] \<and> (\<forall>j\<in>set (db_jobs d'). \<not> (job_id j = k \<and> has_ladder j)))"
proof -
  let ?s = "get_preview_sprite ws" and ?p = "preview_prefix_for out"
  let ?index = "?p @ VTT_FILENAME"
  obtain r1 c1 where make: "in_thread (make_sheet ?s out work) W t d = (r1, t @ map Call c1, d)" and c1: "puts c1 = []"
    by (rule thread_quiet [OF sheet_unwritten])
  let ?t1 = "t @ map Call c1"
  obtain r2 c2 where store: "in_thread (store_sheet ?s ?p work) W ?t1 d = (r2, ?t1 @ map Call c2, d)"
    and c2: "r2 = Inr () \<longrightarrow> puts c2 = [?p @ SPRITE_FILENAME, ?index]" by (rule sheet_stored)
  let ?t2 = "?t1 @ map Call c2"
  obtain r3 t3 d3 where rec: "record_preview k ?index W ?t2 d = (r3, t3, d3)" by (metis prod_cases3)
  have recorder: "ps_record ?s = record_preview" by (simp add: get_preview_sprite_def)
  consider (unmade) x where "r1 = Inl x" | (unstored) x where "r1 = Inr ()" "r2 = Inl x"
    | (unrecorded) x where "r1 = Inr ()" "r2 = Inr ()" "r3 = Inl x" | (settled) b where "r1 = Inr ()" "r2 = Inr ()" "r3 = Inr b"
    by (cases r1; cases r2; cases r3) auto
  then show ?thesis
  proof cases
    case unmade
    with make assms have "r = Inl x" "t' = ?t1" by (simp_all add: preview_in_work_def Let_def bind_t_def)
    with c1 show ?thesis by (auto simp: cleaned_up_def)
  next
    case unstored
    obtain c3 where drop: "in_thread (discard_preview ?s ?p) W ?t2 d = (Inr (), ?t2 @ map Call (ListObjects ?p # c3), d)" and c3: "puts c3 = []"
      by (rule discard_lists)
    with unstored make store assms have "r = Inl x" "t' = t @ map Call (c1 @ c2 @ ListObjects ?p # c3)"
      by (simp_all add: preview_in_work_def Let_def bind_t_def)
    with cleaned_listing [OF c3, of ?p "c1 @ c2"] show ?thesis by (intro exI [of _ "map Call (c1 @ c2 @ ListObjects ?p # c3)"]) (simp del: map_append)
  next
    case unrecorded
    from record_outcome [OF rec] unrecorded have "t3 = ?t2" by simp
    obtain c3 where drop: "in_thread (discard_preview ?s ?p) W ?t2 d3 = (Inr (), ?t2 @ map Call (ListObjects ?p # c3), d3)" and c3: "puts c3 = []"
      by (rule discard_lists)
    with unrecorded make store rec recorder \<open>t3 = ?t2\<close> assms have "r = Inl x" "t' = t @ map Call (c1 @ c2 @ ListObjects ?p # c3)"
      by (simp_all add: preview_in_work_def Let_def bind_t_def)
    with cleaned_listing [OF c3, of ?p "c1 @ c2"] show ?thesis by (intro exI [of _ "map Call (c1 @ c2 @ ListObjects ?p # c3)"]) (simp del: map_append)
  next
    case settled
    with make store rec recorder assms have run: "r = Inr b" "t' = t3" "d' = d3" by (simp_all add: preview_in_work_def Let_def bind_t_def)
    from record_outcome [OF rec] settled(3) have "t3 = ?t2 @ [Commit d3]" by (cases b) simp_all
    with run record_outcome [OF rec] settled c1 c2 show ?thesis
      by (cases b) (auto intro!: exI [of _ "c1 @ c2"])
  qed
qed


section \<open>A concrete preview\<close>

definition small_sheet :: sprite_layout where
  "small_sheet = \<lparr>sl_interval = 5, sl_frames = 3, sl_columns = 3, sl_rows = 1, sl_tile_width = 160, sl_tile_height = 90\<rparr>"

lemma small_sheet_planned: "plan_sprite 640 360 (Fin (25 / 2)) 5 160 COLUMNS MAX_FRAMES = Inr small_sheet"
  by code_simp

theorem preview_index_exact_witness:
  "\<exists>T :: int \<Rightarrow> int. build_vtt small_sheet (Fin (25 / 2)) SPRITE_FILENAME
      = Inr (join newline ([''WEBVTT'', []] @ concat (map (\<lambda>i. cue_lines small_sheet SPRITE_FILENAME i (T (i + 1))) [0..2])))
    \<and> T 0 = 0 \<and> millis_of (Fin (25 / 2)) = Inr (T 3)"
  using preview_index_exact [OF small_sheet_planned, of SPRITE_FILENAME] by (auto simp: small_sheet_def)

definition laddered_video :: db where
  "laddered_video = \<lparr>db_users = [one_user],
     db_jobs = [(new_job 3 7 1 ''trip.mov'' ''uploads/a.mov'' None 30)\<lparr>job_status := Done, job_output_key := Some ''outputs/7/a.mp4'',
       job_hls_status := HlsReady, job_hls_key := Some ''hls/7/master.m3u8''\<rparr>], db_uploads = []\<rparr>"

definition sample_preview :: preview_settings where
  "sample_preview = \<lparr>pw_ffprobe = ''ffprobe'', pw_ffprobe_timeout = 30, pw_ffmpeg = ''ffmpeg'', pw_interval = 5,
     pw_tile_width = 160, pw_timeout = 180\<rparr>"


end
