(* ===== verification/Playback.thy ===== *)
theory Playback
  imports Jobs_Api Preview Renditions
begin

text \<open>
  \<open>app/api/hls.py\<close>, \<open>app/api/preview.py\<close> and \<open>app/services/output_urls.py\<close>: what a player is given. A
  ladder's playlists are read from storage and answered, its other parts are redirected to a signed URL;
  a preview's index is answered with its sheet signed. The path a caller sends is matched against a pattern
  of shapes before it becomes part of a key.
\<close>

section \<open>Patterns\<close>

datatype pattern =
    Lit string
  | Chars string nat "nat option"
    \<comment> \<open>\<open>[...]{lo,hi}\<close>, without an upper bound for \<open>None\<close>\<close>
  | Seq pattern pattern
  | Or pattern pattern

fun rests :: "pattern \<Rightarrow> string \<Rightarrow> string list" where
  \<comment> \<open>what can be left of a string after a match at its start\<close>
  "rests (Lit w) s = (if starts_with s w then [drop (length w) s] else [])"
| "rests (Chars cs lo hi) s =
     (let n = length (takeWhile (\<lambda>c. c \<in> set cs) s);
          top = (case hi of None \<Rightarrow> n | Some m \<Rightarrow> min n m)
      in map (\<lambda>k. drop k s) [lo..<Suc top])"
| "rests (Seq p q) s = concat (map (rests q) (rests p s))"
| "rests (Or p q) s = rests p s @ rests q s"

definition fullmatch :: "pattern \<Rightarrow> string \<Rightarrow> bool" where
  "fullmatch p s \<longleftrightarrow> [] \<in> set (rests p s)"

definition DIGITS :: string where "DIGITS = ''0123456789''"

definition WORD :: string where
  "WORD = ''ABCDEFGHIJKLMNOPQRSTUVWXYZabcdefghijklmnopqrstuvwxyz0123456789_-''"

definition HLS_PATH :: pattern where
  "HLS_PATH =
     Or (Seq (Or (Seq (Lit ''v'') (Seq (Chars DIGITS 1 (Some 2)) (Lit ''/''))) (Lit []))
          (Seq (Chars WORD 1 None) (Seq (Lit ''.'') (Or (Lit ''m3u8'') (Lit ''ts'')))))
        (Seq (Or (Lit ''hdr'') (Lit ''av1'')) (Seq (Lit ''/'') (Seq (Chars DIGITS 3 (Some 4)) (Seq (Lit ''/'')
          (Or (Lit ''index.m3u8'') (Or (Lit ''init.mp4'') (Seq (Lit ''seg'') (Seq (Chars DIGITS 1 (Some 6)) (Lit ''.m4s''))))))))) "

definition safe_hls_path :: "string \<Rightarrow> exn + string" where
  "safe_hls_path path = (if fullmatch HLS_PATH path then Inr path else Inl (ApiNotFound ''not found''))"

section \<open>The signers\<close>

definition minio_signer :: "(string \<Rightarrow> bool \<Rightarrow> exn + string) \<Rightarrow> url_signer" where
  \<comment> \<open>\<open>presign key forced\<close>: a signed URL, with the disposition that forces a download\<close>
  "minio_signer presign = \<lparr>sg_url = (\<lambda>k. presign k True), sg_inline_url = (\<lambda>k. presign k False)\<rparr>"

definition percent_encode :: "string \<Rightarrow> string" where
  \<comment> \<open>\<open>urllib.parse.quote\<close> of ASCII text\<close>
  "percent_encode s =
     concat (map (\<lambda>c. if c \<in> set WORD \<or> c \<in> set ''.~/'' then [c]
        else let n = of_char c :: nat; hex = ''0123456789ABCDEF'' in [CHR ''%'', hex ! (n div 16), hex ! (n mod 16)]) s)"

definition cloudfront_signer :: "url_signer \<Rightarrow> string \<Rightarrow> (string \<Rightarrow> exn + string) \<Rightarrow> url_signer" where
  \<comment> \<open>\<open>sign\<close>: the canned policy's signature on a URL\<close>
  "cloudfront_signer storage domain sign =
     (let base = ''https://'' @ rstrip_slashes (strip domain)
      in \<lparr>sg_url = sg_url storage, sg_inline_url = (\<lambda>k. sign (base @ ''/'' @ percent_encode k))\<rparr>)"

record signer_settings =
  ss_domain :: "string option"
  ss_key_pair_id :: "string option"
  ss_private_key :: "string option"

definition get_output_url_signer ::
  "signer_settings \<Rightarrow> (string \<Rightarrow> bool \<Rightarrow> exn + string) \<Rightarrow> (string \<Rightarrow> exn + string) \<Rightarrow> exn + url_signer"
where
  "get_output_url_signer st presign sign =
     (case truthy (ss_domain st) of
        [] \<Rightarrow> Inr (minio_signer presign)
      | domain # _ \<Rightarrow>
          if truthy (ss_key_pair_id st) = [] \<or> truthy (ss_private_key st) = []
          then Inl (OtherError ''RuntimeError: CLOUDFRONT_DOMAIN is set without its key pair id and private key'')
          else Inr (cloudfront_signer (minio_signer presign) domain sign))"

section \<open>The routes\<close>

record player_api =
  pa_signer :: url_signer
  pa_read :: "call list \<Rightarrow> string \<Rightarrow> exn + string"
    \<comment> \<open>\<open>read_object\<close>, and the decoding of a preview's index\<close>
  pa_incr :: "call list \<Rightarrow> exn + int"
  pa_popular :: int

datatype played = Playlist string | RedirectTo string

definition count_play :: "player_api \<Rightarrow> uuid \<Rightarrow> bool io" where
  "count_play a k =
     (if pa_popular a \<le> 0 then ret False
      else bind_io (do_call (CountPlay k) (\<lambda>e h. Inr (pa_incr a h)))
             (\<lambda>incremented. record_play (pa_popular a) incremented enqueue_rendition k))"

definition read_object :: "player_api \<Rightarrow> string \<Rightarrow> string io" where
  "read_object a key = do_call (ReadObject key) (\<lambda>e h. pa_read a h key)"

definition part_key :: "string \<Rightarrow> string \<Rightarrow> string" where
  "part_key ladder_key path = before_last CHR ''/'' ladder_key @ ''/'' @ path"

definition get_hls_part :: "player_api \<Rightarrow> uuid \<Rightarrow> string \<Rightarrow> uuid \<Rightarrow> played task" where
  "get_hls_part a k path own =
     bind_t (reading (\<lambda>d. get_job d k (Some own) False)) (\<lambda>found.
       case (case found of None \<Rightarrow> None | Some j \<Rightarrow> job_hls_key j) of
         None \<Rightarrow> raise_t (ApiNotFound ''not found'')
       | Some ladder_key \<Rightarrow>
           bind_t (lift_t (safe_hls_path path)) (\<lambda>safe.
           bind_t (if safe = ''master.m3u8'' then in_thread (count_play a k) else ret_t False) (\<lambda>_.
             if ends_with safe ''.m3u8''
             then bind_t (try_t (in_thread (read_object a (part_key ladder_key safe)))) (\<lambda>body.
                    case body of Inl _ \<Rightarrow> raise_t (ApiNotFound ''not found'') | Inr b \<Rightarrow> ret_t (Playlist b))
             else bind_t (lift_t (sg_inline_url (pa_signer a) (part_key ladder_key safe))) (\<lambda>u. ret_t (RedirectTo u)))))"

definition sheet_name :: "string \<Rightarrow> string option" where
  \<comment> \<open>the match of \<open>_SHEET_CUE\<close> at the start of a line: the run of name characters cannot end earlier, for a dot follows\<close>
  "sheet_name line =
     (let n = takeWhile (\<lambda>c. c \<in> set WORD) line
      in if 1 \<le> length n \<and> length n \<le> 64 \<and> starts_with (drop (length n) line) ''.jpg#xywh='' then Some (n @ ''.jpg'') else None)"

definition sign_line :: "(string \<times> string) list \<Rightarrow> string \<Rightarrow> string" where
  "sign_line signed line =
     (case sheet_name line of
        None \<Rightarrow> line
      | Some n \<Rightarrow> (case map_of signed n of None \<Rightarrow> line | Some u \<Rightarrow> u @ drop (length n) line))"

definition sign_index :: "url_signer \<Rightarrow> string \<Rightarrow> string \<Rightarrow> exn + string" where
  \<comment> \<open>the two passes over the body, for the sheets of a folder\<close>
  "sign_index sg folder body =
     (let ls = split_on CHR 0x0A body
      in bind_ok (map_ok (\<lambda>n. bind_ok (sg_inline_url sg (folder @ ''/'' @ n)) (\<lambda>u. Inr (n, u)))
                  (uniq (concat (map (\<lambda>l. case sheet_name l of None \<Rightarrow> [] | Some n \<Rightarrow> [n]) ls))))
           (\<lambda>signed. Inr (join newline (map (sign_line signed) ls))))"

definition get_preview_index :: "player_api \<Rightarrow> uuid \<Rightarrow> uuid \<Rightarrow> string task" where
  "get_preview_index a k own =
     bind_t (reading (\<lambda>d. get_job d k (Some own) False)) (\<lambda>found.
       case (case found of None \<Rightarrow> [] | Some j \<Rightarrow> if job_status j = Done then truthy (job_preview_key j) else []) of
         [] \<Rightarrow> raise_t (ApiNotFound ''not found'')
       | key # _ \<Rightarrow>
           bind_t (try_t (in_thread (read_object a key))) (\<lambda>body.
             case body of
               Inl _ \<Rightarrow> raise_t (ApiNotFound ''not found'')
             | Inr b \<Rightarrow> lift_t (sign_index (pa_signer a) (before_last CHR ''/'' key) b)))"

section \<open>What a pattern accepts\<close>

fun accepts :: "pattern \<Rightarrow> string \<Rightarrow> bool" where
  "accepts (Lit w) v \<longleftrightarrow> v = w"
| "accepts (Chars cs lo hi) v \<longleftrightarrow> set v \<subseteq> set cs \<and> lo \<le> length v \<and> (case hi of None \<Rightarrow> True | Some m \<Rightarrow> length v \<le> m)"
| "accepts (Seq p q) v \<longleftrightarrow> (\<exists>a b. v = a @ b \<and> accepts p a \<and> accepts q b)"
| "accepts (Or p q) v \<longleftrightarrow> accepts p v \<or> accepts q v"

lemma rests_accepts: "r \<in> set (rests p s) \<longleftrightarrow> (\<exists>w. s = w @ r \<and> accepts p w)"
proof (induction p arbitrary: s r)
  case (Lit w)
  have "starts_with s w \<longleftrightarrow> s = w @ drop (length w) s" unfolding starts_with_def by (metis append_eq_conv_conj)
  then show ?case by (auto simp: starts_with_append)
next
  case (Chars cs lo hi)
  let ?n = "length (takeWhile (\<lambda>c. c \<in> set cs) s)"
  have run: "k \<le> ?n \<longleftrightarrow> k \<le> length s \<and> set (take k s) \<subseteq> set cs" for k
  proof
    assume k: "k \<le> ?n"
    have "takeWhile (\<lambda>c. c \<in> set cs) s = take ?n s" by (rule takeWhile_eq_take)
    moreover have "take k s = take k (take ?n s)" using k by (simp add: min_absorb1)
    ultimately have "take k s = take k (takeWhile (\<lambda>c. c \<in> set cs) s)" by simp
    then show "k \<le> length s \<and> set (take k s) \<subseteq> set cs"
      using k length_takeWhile_le [of "\<lambda>c. c \<in> set cs" s] by (auto dest!: in_set_takeD set_takeWhileD)
  next
    assume k: "k \<le> length s \<and> set (take k s) \<subseteq> set cs"
    then have "takeWhile (\<lambda>c. c \<in> set cs) (take k s @ drop k s) = take k s @ takeWhile (\<lambda>c. c \<in> set cs) (drop k s)"
      by (intro takeWhile_append2) blast
    then have "?n = length (take k s) + length (takeWhile (\<lambda>c. c \<in> set cs) (drop k s))"
      by (metis append_take_drop_id length_append)
    with k show "k \<le> ?n" by simp
  qed
  have "r \<in> set (rests (Chars cs lo hi) s) \<longleftrightarrow> (\<exists>k. lo \<le> k \<and> k \<le> ?n \<and> (case hi of None \<Rightarrow> True | Some m \<Rightarrow> k \<le> m) \<and> r = drop k s)"
    by (cases hi) (auto simp: Let_def image_iff less_Suc_eq_le simp del: upt_Suc)
  also have "\<dots> \<longleftrightarrow> (\<exists>w. s = w @ r \<and> accepts (Chars cs lo hi) w)"
  proof
    assume "\<exists>k. lo \<le> k \<and> k \<le> ?n \<and> (case hi of None \<Rightarrow> True | Some m \<Rightarrow> k \<le> m) \<and> r = drop k s"
    then obtain k where "lo \<le> k" "k \<le> ?n" "case hi of None \<Rightarrow> True | Some m \<Rightarrow> k \<le> m" "r = drop k s" by blast
    then show "\<exists>w. s = w @ r \<and> accepts (Chars cs lo hi) w" using run [of k] by (intro exI [of _ "take k s"]) (auto split: option.splits)
  next
    assume "\<exists>w. s = w @ r \<and> accepts (Chars cs lo hi) w"
    then obtain w where "s = w @ r" "accepts (Chars cs lo hi) w" by blast
    then show "\<exists>k. lo \<le> k \<and> k \<le> ?n \<and> (case hi of None \<Rightarrow> True | Some m \<Rightarrow> k \<le> m) \<and> r = drop k s"
      using run [of "length w"] by (intro exI [of _ "length w"]) simp
  qed
  finally show ?case .
next
  case (Seq p q)
  show ?case by (auto simp: Seq.IH) (metis append_assoc)+
next
  case (Or p q)
  show ?case by (auto simp: Or.IH)
qed

lemma fullmatch_accepts: "fullmatch p s \<longleftrightarrow> accepts p s"
  by (simp add: fullmatch_def rests_accepts)

definition plain_path :: "string \<Rightarrow> bool" where
  \<comment> \<open>relative, at most three deep, and no segment is empty or names a folder above\<close>
  "plain_path s \<longleftrightarrow> length (split_on CHR ''/'' s) \<le> 3
     \<and> (\<forall>seg\<in>set (split_on CHR ''/'' s). seg \<noteq> [] \<and> seg \<noteq> ''.'' \<and> seg \<noteq> ''..'')"

lemma marks_not_named: "CHR ''/'' \<notin> set WORD" "CHR ''.'' \<notin> set WORD" "CHR ''/'' \<notin> set DIGITS" "CHR ''.'' \<notin> set DIGITS"
  by (simp_all add: WORD_def DIGITS_def)

lemma named_segment:
  assumes "set w \<subseteq> set cs" and "w \<noteq> []" and "CHR ''.'' \<notin> set cs"
  shows "w @ u \<noteq> [] \<and> w @ u \<noteq> ''.'' \<and> w @ u \<noteq> ''..''"
  using assms by (cases w) auto

abbreviation ladder_file :: "string \<Rightarrow> bool" where
  "ladder_file v \<equiv> \<exists>w e. v = w @ ''.'' @ e \<and> set w \<subseteq> set WORD \<and> w \<noteq> [] \<and> (e = ''m3u8'' \<or> e = ''ts'')"

abbreviation rendition_file :: "string \<Rightarrow> bool" where
  "rendition_file v \<equiv> v = ''index.m3u8'' \<or> v = ''init.mp4'' \<or> (\<exists>d. set d \<subseteq> set DIGITS \<and> v = ''seg'' @ d @ ''.m4s'')"

lemma hls_path_cases:
  assumes "fullmatch HLS_PATH s"
  obtains (flat) "ladder_file s"
    | (rung) d v where "s = (''v'' @ d) @ ''/'' @ v" "set d \<subseteq> set DIGITS" "ladder_file v"
    | (family) f d v where "s = f @ ''/'' @ d @ ''/'' @ v" "f = ''hdr'' \<or> f = ''av1''" "set d \<subseteq> set DIGITS" "3 \<le> length d" "rendition_file v"
proof -
  have words: "accepts (Seq (Chars WORD 1 None) (Seq (Lit ''.'') (Or (Lit ''m3u8'') (Lit ''ts'')))) v \<Longrightarrow> ladder_file v" for v
    by (simp only: accepts.simps option.case) force
  have leaves: "accepts (Or (Lit ''index.m3u8'') (Or (Lit ''init.mp4'') (Seq (Lit ''seg'') (Seq (Chars DIGITS 1 (Some 6)) (Lit ''.m4s''))))) v
      \<Longrightarrow> rendition_file v" for v
    by (simp only: accepts.simps option.case) blast
  let ?folder = "Seq (Lit ''v'') (Seq (Chars DIGITS 1 (Some 2)) (Lit ''/''))"
  let ?file = "Seq (Chars WORD 1 None) (Seq (Lit ''.'') (Or (Lit ''m3u8'') (Lit ''ts'')))"
  let ?leafp = "Or (Lit ''index.m3u8'') (Or (Lit ''init.mp4'') (Seq (Lit ''seg'') (Seq (Chars DIGITS 1 (Some 6)) (Lit ''.m4s''))))"
  from assms have "accepts (Seq (Or ?folder (Lit [])) ?file) s
      \<or> accepts (Seq (Or (Lit ''hdr'') (Lit ''av1'')) (Seq (Lit ''/'') (Seq (Chars DIGITS 3 (Some 4)) (Seq (Lit ''/'') ?leafp)))) s"
    unfolding fullmatch_accepts HLS_PATH_def by (simp only: accepts.simps(4))
  then show thesis
  proof
    assume "accepts (Seq (Or ?folder (Lit [])) ?file) s"
    then obtain a b where ab: "s = a @ b" "accepts ?folder a \<or> a = []" "accepts ?file b" by (simp only: accepts.simps(1,3,4)) blast
    show thesis
    proof (cases "a = []")
      case True
      then show thesis using flat words [OF ab(3)] ab(1) by simp
    next
      case False
      with ab(2) obtain d where "a = ''v'' @ d @ ''/''" "set d \<subseteq> set DIGITS" by (simp only: accepts.simps option.case) blast
      then show thesis using rung [of d b] words [OF ab(3)] ab(1) by (simp only: append_assoc)
    qed
  next
    assume "accepts (Seq (Or (Lit ''hdr'') (Lit ''av1'')) (Seq (Lit ''/'') (Seq (Chars DIGITS 3 (Some 4)) (Seq (Lit ''/'') ?leafp)))) s"
    then obtain f d v where f: "s = f @ ''/'' @ d @ ''/'' @ v" "f = ''hdr'' \<or> f = ''av1''"
      and d: "set d \<subseteq> set DIGITS" "3 \<le> length d" and v: "accepts ?leafp v"
      by (simp only: accepts.simps(1) accepts.simps(2) accepts.simps(3) accepts.simps(4) [of "Lit ''hdr''"] option.case) blast
    show thesis by (rule family [OF f d leaves [OF v]])
  qed
qed

lemma file_segment:
  "ladder_file v \<Longrightarrow> CHR ''/'' \<notin> set v \<and> v \<noteq> [] \<and> v \<noteq> ''.'' \<and> v \<noteq> ''..''"
  "rendition_file v \<Longrightarrow> CHR ''/'' \<notin> set v \<and> v \<noteq> [] \<and> v \<noteq> ''.'' \<and> v \<noteq> ''..''"
proof -
  show "ladder_file v \<Longrightarrow> CHR ''/'' \<notin> set v \<and> v \<noteq> [] \<and> v \<noteq> ''.'' \<and> v \<noteq> ''..''"
    using marks_not_named named_segment by fastforce
  show "rendition_file v \<Longrightarrow> CHR ''/'' \<notin> set v \<and> v \<noteq> [] \<and> v \<noteq> ''.'' \<and> v \<noteq> ''..''"
    using marks_not_named by auto
qed

lemma split_three:
  "CHR ''/'' \<notin> set f \<Longrightarrow> CHR ''/'' \<notin> set d \<Longrightarrow> CHR ''/'' \<notin> set v \<Longrightarrow> split_on CHR ''/'' (f @ ''/'' @ d @ ''/'' @ v) = [f, d, v]"
  using split_on_append [of "CHR ''/''" f "d @ ''/'' @ v"] split_on_append [of "CHR ''/''" d v] by (simp add: split_on_notin)

lemma hls_path_segments:
  assumes "fullmatch HLS_PATH s"
  obtains (flat) "split_on CHR ''/'' s = [s]" "ladder_file s"
    | (rung) d v where "split_on CHR ''/'' s = [''v'' @ d, v]" "ladder_file v"
    | (family) f d v where "split_on CHR ''/'' s = [f, d, v]" "f = ''hdr'' \<or> f = ''av1''" "set d \<subseteq> set DIGITS" "3 \<le> length d" "rendition_file v"
  using assms
proof (cases rule: hls_path_cases)
  case f: flat
  with file_segment(1) [OF f] flat show thesis by (simp add: split_on_notin)
next
  case r: (rung d v)
  have "CHR ''/'' \<notin> set (''v'' @ d)" using r(2) marks_not_named by auto
  from split_on_append [OF this, of v] have "split_on CHR ''/'' s = [''v'' @ d, v]"
    using file_segment(1) [OF r(3)] r(1) by (simp add: split_on_notin)
  with rung r show thesis by blast
next
  case f: (family g d v)
  have "CHR ''/'' \<notin> set g" "CHR ''/'' \<notin> set d" using f(2,3) marks_not_named by auto
  with f(1) file_segment(2) [OF f(5)] have "split_on CHR ''/'' s = [g, d, v]" using split_three [of g d v] by metis
  with family f show thesis by blast
qed

lemma hls_path_plain:
  assumes "fullmatch HLS_PATH s"
  shows "plain_path s"
  using assms
proof (cases rule: hls_path_segments)
  case flat
  then show ?thesis using file_segment(1) [OF flat(2)] by (simp add: plain_path_def)
next
  case (rung d v)
  then show ?thesis using file_segment(1) [OF rung(2)] by (simp add: plain_path_def)
next
  case (family f d v)
  have "d \<noteq> []" using family(4) by auto
  with family show ?thesis using file_segment(2) [OF family(5)] named_segment [OF family(3), of "[]"] marks_not_named
    by (auto simp: plain_path_def)
qed

section \<open>A player reaches only its owner's ladder\<close>

definition owned_part :: "uuid \<Rightarrow> uuid \<Rightarrow> string \<Rightarrow> db \<Rightarrow> string \<Rightarrow> bool" where
  \<comment> \<open>a key inside the ladder of a video that is this owner's and not in the trash\<close>
  "owned_part own k path d key \<longleftrightarrow> (\<exists>j ladder_key. find_row job_id k (db_jobs d) = Some j \<and> job_owner_id j = own
     \<and> job_deleted_at j = None \<and> job_hls_key j = Some ladder_key \<and> plain_path path \<and> key = part_key ladder_key path)"

lemma count_play_calls:
  "\<exists>r es. count_play a k e h = (Inr r, h @ es) \<and> set es \<subseteq> {CountPlay k, Enqueue (BUILD_RENDITION_TASK @ '':av1'') k}"
  by (cases "pa_popular a \<le> 0"; cases "pa_incr a h")
    (auto simp: count_play_def record_play_def bind_io_def do_call_def catch_io_def enqueue_rendition_def enqueue_def split: sum.split)

lemma counted_thread:
  obtains r es where "(if b then in_thread (count_play a k) else ret_t False) W t d = (Inr r, t @ map Call es, d)"
    and "set es \<subseteq> {CountPlay k, Enqueue (BUILD_RENDITION_TASK @ '':av1'') k}" and "\<not> b \<longrightarrow> es = []"
proof (cases b)
  case True
  obtain r es where "count_play a k (w_env W) (calls_of t) = (Inr r, calls_of t @ es)"
    and "set es \<subseteq> {CountPlay k, Enqueue (BUILD_RENDITION_TASK @ '':av1'') k}" using count_play_calls by blast
  with True show thesis using that [of r es] by (simp add: in_thread_def)
qed (use that [of False "[]"] in simp)

lemma read_thread:
  "in_thread (read_object a key) W t d = (pa_read a (calls_of t) key, t @ [Call (ReadObject key)], d)"
  by (simp add: in_thread_def read_object_def do_call_def)

text \<open>C27. Whatever path a caller sends, the route reads or signs a key only inside the ladder of a video that
  is the caller's own and not in the trash: the part of the key the caller chose names no folder above it.
  A play is counted only for the master playlist, only playlists are answered and only other parts are
  redirected, and a request changes no row.\<close>

theorem hls_part_confined:
  assumes "get_hls_part a k path own W t d = (r, t', d')"
  shows "d' = w_others W t d \<and> (\<exists>es. t' = t @ map Call es
    \<and> (\<forall>key. ReadObject key \<in> set es \<longrightarrow> owned_part own k path d' key \<and> ends_with path ''.m3u8'')
    \<and> (\<forall>q. CountPlay q \<in> set es \<longrightarrow> q = k \<and> path = ''master.m3u8'')
    \<and> (\<forall>u. r = Inr (RedirectTo u) \<longrightarrow> \<not> ends_with path ''.m3u8''
         \<and> (\<exists>key. owned_part own k path d' key \<and> sg_inline_url (pa_signer a) key = Inr u))
    \<and> (\<forall>b. r = Inr (Playlist b) \<longrightarrow> (\<exists>key. ReadObject key \<in> set es)))"
proof (cases "case get_job (w_others W t d) k (Some own) False of None \<Rightarrow> None | Some j \<Rightarrow> job_hls_key j")
  case None
  with assms show ?thesis by (auto simp: get_hls_part_def bind_t_def)
next
  case (Some ladder_key)
  then obtain j where j: "get_job (w_others W t d) k (Some own) False = Some j" "job_hls_key j = Some ladder_key"
    by (auto split: option.splits)
  then have own: "find_row job_id k (db_jobs (w_others W t d)) = Some j" "job_owner_id j = own" "job_deleted_at j = None"
    by (auto simp: get_job_def split: option.splits if_splits)
  show ?thesis
  proof (cases "fullmatch HLS_PATH path")
    case False
    with assms Some show ?thesis by (auto simp: get_hls_part_def bind_t_def safe_hls_path_def lift_t_def)
  next
    case True
    let ?key = "part_key ladder_key path"
    have safe: "owned_part own k path (w_others W t d) ?key"
      using own j(2) hls_path_plain [OF True] unfolding owned_part_def by blast
    obtain b es where counted: "(if path = ''master.m3u8'' then in_thread (count_play a k) else ret_t False) W t (w_others W t d)
        = (Inr b, t @ map Call es, w_others W t d)"
      and es: "set es \<subseteq> {CountPlay k, Enqueue (BUILD_RENDITION_TASK @ '':av1'') k}" "path \<noteq> ''master.m3u8'' \<longrightarrow> es = []"
      by (rule counted_thread)
    have run: "(if ends_with path ''.m3u8''
          then bind_t (try_t (in_thread (read_object a ?key))) (\<lambda>body.
                 case body of Inl _ \<Rightarrow> raise_t (ApiNotFound ''not found'') | Inr b \<Rightarrow> ret_t (Playlist b))
          else bind_t (lift_t (sg_inline_url (pa_signer a) ?key)) (\<lambda>u. ret_t (RedirectTo u))) W (t @ map Call es) (w_others W t d)
        = (r, t', d')"
      using assms Some True counted by (simp add: get_hls_part_def bind_t_def safe_hls_path_def lift_t_def)
    show ?thesis
    proof (cases "ends_with path ''.m3u8''")
      case list: True
      with run have "t' = t @ map Call (es @ [ReadObject ?key])" "d' = w_others W t d" "\<forall>u. r \<noteq> Inr (RedirectTo u)"
        by (auto simp: bind_t_def read_thread split: sum.splits)
      with safe es list show ?thesis by (intro conjI exI [of _ "es @ [ReadObject ?key]"]) auto
    next
      case False
      with run have "t' = t @ map Call es" "d' = w_others W t d" "r = (case sg_inline_url (pa_signer a) ?key of Inl x \<Rightarrow> Inl x | Inr u \<Rightarrow> Inr (RedirectTo u))"
        by (auto simp: bind_t_def lift_t_def split: sum.splits)
      with safe es False show ?thesis by (intro conjI exI [of _ es]) (auto split: sum.splits)
    qed
  qed
qed

lemma dec_length:
  assumes "n < 10000"
  shows "length (dec n) = (if n < 10 then 1 else if n < 100 then 2 else if n < 1000 then 3 else 4)"
proof -
  have one: "length (dec m) = 1" if "m < 10" for m using that by (simp add: dec.simps [of m])
  have two: "length (dec m) = 2" if "10 \<le> m" "m < 100" for m using that one [of "m div 10"] by (simp add: dec.simps [of m])
  have three: "length (dec m) = 3" if "100 \<le> m" "m < 1000" for m using that two [of "m div 10"] by (simp add: dec.simps [of m])
  have four: "length (dec m) = 4" if "1000 \<le> m" "m < 10000" for m using that three [of "m div 10"] by (simp add: dec.simps [of m])
  show ?thesis using assms one two three four by simp
qed

lemma digits_of_dec: "set (dec n) \<subseteq> set DIGITS"
  using dec_digits by (auto simp: is_digit_def DIGITS_def)

lemma rendition_path_accepted:
  assumes "kind = ''hdr'' \<or> kind = ''av1''" and "set d \<subseteq> set DIGITS" and "3 \<le> length d" "length d \<le> 4"
  shows "fullmatch HLS_PATH (kind @ ''/'' @ d @ ''/index.m3u8'')"
proof -
  have rung: "accepts (Chars DIGITS 3 (Some 4)) d" using assms(2-4) by simp
  have leaf: "accepts (Or (Lit ''index.m3u8'') q) ''index.m3u8''" for q by simp
  have seq: "accepts (Seq p q) (u @ v)" if "accepts p u" "accepts q v" for p q u v
    using that by (simp only: accepts.simps) blast
  have fam: "accepts (Or (Lit ''hdr'') (Lit ''av1'')) kind" using assms(1) by simp
  have slash: "accepts (Lit ''/'') ''/''" by simp
  have main: "accepts (Or p (Seq (Or (Lit ''hdr'') (Lit ''av1'')) (Seq (Lit ''/'') (Seq (Chars DIGITS 3 (Some 4)) (Seq (Lit ''/'') (Or (Lit ''index.m3u8'') q))))))
      (kind @ ''/'' @ d @ ''/'' @ ''index.m3u8'')" for p q
    unfolding accepts.simps(4) [of p] by (rule disjI2) (intro seq rung leaf fam slash)
  have "fullmatch HLS_PATH (kind @ ''/'' @ d @ ''/'' @ ''index.m3u8'')" unfolding fullmatch_accepts HLS_PATH_def by (rule main)
  then show ?thesis by simp
qed

lemma rendition_path_rungs:
  assumes "kind = ''hdr'' \<or> kind = ''av1''" and "set d \<subseteq> set DIGITS" and "fullmatch HLS_PATH (kind @ ''/'' @ d @ ''/index.m3u8'')"
  shows "3 \<le> length d"
proof -
  have "CHR ''/'' \<notin> set kind" "CHR ''/'' \<notin> set d" using assms(1,2) marks_not_named by auto
  from split_three [OF this, of "''index.m3u8''"] have parts: "split_on CHR ''/'' (kind @ ''/'' @ d @ ''/index.m3u8'') = [kind, d, ''index.m3u8'']" by simp
  show ?thesis using assms(3) by (cases rule: hls_path_segments) (use parts in simp_all)
qed

text \<open>C28. The playlist of a rendition is served exactly when the video is at least a hundred pixels tall: the
  pattern asks for three digits, and a shorter video's only rung, its own height, has fewer.\<close>

theorem rendition_served_when_tall:
  assumes "kind \<in> set KINDS" and "0 < h" and "rungs_for kind h = Inr rungs" and "li_rung l \<in> set rungs" and "rp_kind (li_plan l) = kind"
  shows "safe_hls_path (rendition_uri l) = (if 100 \<le> h then Inr (rendition_uri l) else Inl (ApiNotFound ''not found''))"
proof -
  have kind: "kind = ''hdr'' \<or> kind = ''av1''" using assms(1) by (simp add: KINDS_def)
  have rungs: "rungs = (if filter (\<lambda>r. r \<le> h) [1080, 720, 360] = [] then [h] else filter (\<lambda>r. r \<le> h) [1080, 720, 360])"
    using assms(3) kind unfolding rungs_for_def RUNGS_def Let_def by auto
  let ?r = "li_rung l" and ?d = "dec (nat (li_rung l))"
  have r: "?r = h \<and> h < 360 \<or> 360 \<le> h \<and> ?r \<in> {1080, 720, 360}" using assms(4) rungs by (auto split: if_splits)
  then have "0 < ?r" "?r < 10000" "100 \<le> h \<longleftrightarrow> 100 \<le> ?r" using assms(2) by auto
  then have d: "100 \<le> h \<longleftrightarrow> 3 \<le> length ?d" "length ?d \<le> 4" using dec_length [of "nat ?r"] by (auto split: if_splits)
  have uri: "rendition_uri l = kind @ ''/'' @ ?d @ ''/index.m3u8''"
    using assms(5) \<open>0 < ?r\<close> by (simp add: rendition_uri_def dec_int_def)
  have "fullmatch HLS_PATH (rendition_uri l) \<longleftrightarrow> 100 \<le> h"
    unfolding uri d(1) using rendition_path_accepted [OF kind digits_of_dec _ d(2)] rendition_path_rungs [OF kind digits_of_dec] by blast
  then show ?thesis by (simp add: safe_hls_path_def)
qed

section \<open>A stored preview is served with its sheet signed\<close>

lemma split_join_lines:
  assumes "ls \<noteq> []" and "\<forall>l\<in>set ls. CHR 0x0A \<notin> set l"
  shows "split_on CHR 0x0A (join newline ls) = ls"
  using assms
proof (induction ls rule: induct_list012)
  case (2 l)
  then show ?case by (simp add: join_def split_on_notin)
next
  case (3 l m ls)
  have "join newline (l # m # ls) = l @ CHR 0x0A # join newline (m # ls)" by (simp add: join_def newline_def)
  with 3 show ?case by (simp add: split_on_append)
qed simp

lemma timestamp_line: "CHR 0x0A \<notin> set (timestamp m)"
  by (auto simp: timestamp_def Let_def pad0_def newline_notin_dec_int)

lemma word_newline: "CHR 0x0A \<notin> set WORD"
  by (simp add: WORD_def)

lemma sheet_of_cue: "sheet_name (SPRITE_FILENAME @ ''#xywh='' @ u) = Some SPRITE_FILENAME"
proof -
  have "takeWhile (\<lambda>c. c \<in> set WORD) (''sprite'' @ ''.jpg#xywh='' @ u) = ''sprite''"
  proof (subst takeWhile_append2)
    show "c \<in> set WORD" if "c \<in> set ''sprite''" for c
    proof -
      have "\<forall>c\<in>set ''sprite''. c \<in> set WORD" by code_simp
      with that show ?thesis by blast
    qed
  qed (simp add: WORD_def)
  then show ?thesis by (simp add: sheet_name_def SPRITE_FILENAME_def starts_with_def)
qed

lemma dec_int_word: "set (dec_int i) \<subseteq> set WORD"
proof -
  have "set DIGITS \<subseteq> set WORD" "CHR ''-'' \<in> set WORD" by (simp_all add: DIGITS_def WORD_def)
  with digits_of_dec show ?thesis unfolding dec_int_def by (cases "i < 0") auto
qed

lemma sheet_of_time: "sheet_name (timestamp m @ u) = None"
proof -
  let ?h = "pad0 2 (dec_int (m div 3600000))"
  have "CHR ''0'' \<in> set WORD" by (simp add: WORD_def)
  then have h: "c \<in> set WORD" if "c \<in> set ?h" for c using that dec_int_word unfolding pad0_def by auto
  obtain v where m: "timestamp m @ u = ?h @ CHR '':'' # v" by (simp add: timestamp_def Let_def)
  have "CHR '':'' \<notin> set WORD" by (simp add: WORD_def)
  then have "takeWhile (\<lambda>c. c \<in> set WORD) (?h @ CHR '':'' # v) = ?h" using h by (subst takeWhile_append2) auto
  then show ?thesis unfolding m by (simp add: sheet_name_def starts_with_def)
qed

lemma sheet_of_header: "sheet_name ''WEBVTT'' = None" "sheet_name [] = None"
  by code_simp+

definition vtt_lines :: "sprite_layout \<Rightarrow> string \<Rightarrow> (int \<times> int) list \<Rightarrow> string list" where
  "vtt_lines l name cues = [''WEBVTT'', []] @ concat (map (\<lambda>(i, e). cue_lines l name i e) cues)"

lemma built_lines:
  assumes "build_vtt l d name = Inr body"
  obtains cues where "\<forall>n. build_vtt l d n = Inr (join newline (vtt_lines l n cues))"
proof -
  have cues: "\<exists>es. map fst es = is \<and> (\<forall>n. map_ok (\<lambda>i. bind_ok (cue_end l d i) (\<lambda>e. Inr (cue_lines l n i e))) is
        = Inr (map (\<lambda>(i, e). cue_lines l n i e) es))"
    if "map_ok (\<lambda>i. bind_ok (cue_end l d i) (\<lambda>e. Inr (cue_lines l name i e))) is = Inr cs" for "is" cs
    using that
  proof (induction "is" arbitrary: cs)
    case (Cons i "is")
    from Cons.prems obtain e cs' where e: "cue_end l d i = Inr e"
      and cs': "map_ok (\<lambda>i. bind_ok (cue_end l d i) (\<lambda>e. Inr (cue_lines l name i e))) is = Inr cs'"
      by (auto simp: bind_ok_def split: sum.splits)
    from Cons.IH [OF cs'] obtain es where "map fst es = is"
      "\<forall>n. map_ok (\<lambda>i. bind_ok (cue_end l d i) (\<lambda>e. Inr (cue_lines l n i e))) is = Inr (map (\<lambda>(i, e). cue_lines l n i e) es)" by blast
    with e show ?case by (intro exI [of _ "(i, e) # es"]) (simp add: bind_ok_def)
  qed simp
  from assms obtain cs where "map_ok (\<lambda>i. bind_ok (cue_end l d i) (\<lambda>e. Inr (cue_lines l name i e))) [0..sl_frames l - 1] = Inr cs"
    by (auto simp: build_vtt_def bind_ok_def split: sum.splits)
  from cues [OF this] obtain es where "\<forall>n. map_ok (\<lambda>i. bind_ok (cue_end l d i) (\<lambda>e. Inr (cue_lines l n i e))) [0..sl_frames l - 1]
      = Inr (map (\<lambda>(i, e). cue_lines l n i e) es)" by blast
  then show thesis by (intro that [of es]) (simp add: build_vtt_def bind_ok_def vtt_lines_def)
qed

lemma cue_lines_eq:
  "cue_lines l name i e = [timestamp (cue_start l i) @ '' --> '' @ timestamp e,
     name @ ''#xywh='' @ dec_int (fst (cue_rectangle l i)) @ '','' @ dec_int (snd (cue_rectangle l i)) @ '',''
       @ dec_int (sl_tile_width l) @ '','' @ dec_int (sl_tile_height l), []]"
  by (simp add: cue_lines_def split: prod.split)

lemma vtt_newlines: "\<forall>ln\<in>set (vtt_lines l SPRITE_FILENAME cues). CHR 0x0A \<notin> set ln"
  by (auto simp: vtt_lines_def cue_lines_eq timestamp_line newline_notin_dec_int SPRITE_FILENAME_def)

lemma vtt_signed:
  "map (sign_line [(SPRITE_FILENAME, u)]) (vtt_lines l SPRITE_FILENAME cues) = vtt_lines l u cues"
  by (induction cues)
    (auto simp: vtt_lines_def cue_lines_eq sign_line_def sheet_of_time sheet_of_header sheet_of_cue [simplified])

lemma remdups_same: "set xs \<subseteq> {x} \<Longrightarrow> remdups xs = (if xs = [] then [] else [x])"
  by (induction xs) (auto simp: subset_singleton_iff)

lemma vtt_sheets:
  "uniq (concat (map (\<lambda>l. case sheet_name l of None \<Rightarrow> [] | Some n \<Rightarrow> [n]) (vtt_lines l SPRITE_FILENAME cues)))
     = (if cues = [] then [] else [SPRITE_FILENAME])" (is "uniq ?names = _")
proof -
  have "?names = replicate (length cues) SPRITE_FILENAME"
    by (induction cues) (auto simp: vtt_lines_def cue_lines_eq sheet_of_time sheet_of_header sheet_of_cue [simplified])
  then show ?thesis by (simp add: uniq_def remdups_same [where x = SPRITE_FILENAME])
qed

text \<open>C29. A stored index is answered with every sheet in it signed and nothing else changed: it is the index
  the worker would have written had the sheet been named by that URL.\<close>

theorem stored_preview_signed:
  assumes "build_vtt l d SPRITE_FILENAME = Inr body" and "sg_inline_url sg (folder @ ''/'' @ SPRITE_FILENAME) = Inr u"
  shows "sign_index sg folder body = build_vtt l d u"
proof -
  obtain cues where built: "\<forall>n. build_vtt l d n = Inr (join newline (vtt_lines l n cues))"
    by (rule built_lines [OF assms(1)])
  have body: "body = join newline (vtt_lines l SPRITE_FILENAME cues)" using assms(1) built by simp
  have ls: "split_on CHR 0x0A body = vtt_lines l SPRITE_FILENAME cues"
    unfolding body by (rule split_join_lines [OF _ vtt_newlines]) (simp add: vtt_lines_def)
  have none: "map (sign_line []) (vtt_lines l SPRITE_FILENAME []) = vtt_lines l u []"
    by (simp add: vtt_lines_def sign_line_def sheet_of_header)
  show ?thesis
    unfolding sign_index_def Let_def ls vtt_sheets built [THEN spec]
    using assms(2) vtt_signed none by (cases "cues = []") (simp_all add: bind_ok_def)
qed

section \<open>Concrete requests of a player\<close>

definition sample_player :: player_api where
  "sample_player = \<lparr>pa_signer = minio_signer (\<lambda>k forced. Inr (''https://s/'' @ k)), pa_read = (\<lambda>h k. Inr ''WEBVTT''),
     pa_incr = (\<lambda>h. Inr 1), pa_popular = 3\<rparr>"

theorem hls_part_confined_witness:
  "\<exists>key. owned_part 1 7 ''v0/index.m3u8'' laddered_video key"
proof -
  let ?run = "get_hls_part sample_player 7 ''v0/index.m3u8'' 1 quiet_world [] laddered_video"
  obtain r t' d' where run: "?run = (r, t', d')" by (metis prod_cases3)
  have "fst ?run = Inr (Playlist ''WEBVTT'')" by code_simp
  with run have r: "r = Inr (Playlist ''WEBVTT'')" by simp
  have quiet: "w_others quiet_world [] laddered_video = laddered_video" by (simp add: quiet_world_def)
  from hls_part_confined [OF run] r quiet show ?thesis by metis
qed

definition low_listing :: listing where
  "low_listing = \<lparr>li_plan = \<lparr>rp_kind = ''av1'', rp_codecs = ''av01'', rp_video_range = ''SDR'', rp_filters = [],
     rp_color_args = [], rp_crf = 30, rp_maxrate = 296000\<rparr>, li_rung = 90,
     li_resolution = ''160x90'', li_bandwidth = (1, 1)\<rparr>"

theorem rendition_served_when_tall_witness:
  "safe_hls_path ''av1/90/index.m3u8'' = Inl (ApiNotFound ''not found'')"
proof -
  have "rungs_for ''av1'' 90 = Inr [90]" "''av1'' \<in> set KINDS" "rendition_uri low_listing = ''av1/90/index.m3u8''" by code_simp+
  with rendition_served_when_tall [of "''av1''" 90 "[90]" low_listing] show ?thesis by (simp add: low_listing_def)
qed

theorem stored_preview_signed_witness:
  "\<exists>body. build_vtt small_sheet (Fin (25 / 2)) SPRITE_FILENAME = Inr body
     \<and> sign_index (pa_signer sample_player) ''outputs/7/preview'' body
        = build_vtt small_sheet (Fin (25 / 2)) ''https://s/outputs/7/preview/sprite.jpg''"
proof -
  have "\<not> isl (build_vtt small_sheet (Fin (25 / 2)) SPRITE_FILENAME)" by code_simp
  then obtain body where body: "build_vtt small_sheet (Fin (25 / 2)) SPRITE_FILENAME = Inr body"
    by (metis sum.collapse(2))
  have "sg_inline_url (pa_signer sample_player) (''outputs/7/preview'' @ ''/'' @ SPRITE_FILENAME)
      = Inr ''https://s/outputs/7/preview/sprite.jpg''" by code_simp
  from stored_preview_signed [OF body this] body show ?thesis by blast
qed

end
