(* ===== verification/Access.thy ===== *)
theory Access
  imports Uploads Chunk_Plan
begin

text \<open>
  \<open>app/services/security.py\<close>, \<open>app/repositories/users.py\<close>, \<open>app/schemas/user.py\<close>, \<open>app/api/deps.py\<close>,
  \<open>app/api/auth.py\<close>, \<open>app/api/limits.py\<close> and the handlers of \<open>app/main.py\<close>: accounts, passwords,
  tokens and who is asking. PyJWT and bcrypt are parameters; what is relied on is \<open>jwt_sound\<close> and
  \<open>bcrypt_sound\<close>.
\<close>

section \<open>Texts\<close>

type_synonym code_points = "nat list"

fun utf8_char :: "nat \<Rightarrow> nat list" where
  "utf8_char c =
     (if c < 128 then [c]
      else if c < 2048 then [192 + c div 64, 128 + c mod 64]
      else if c < 65536 then [224 + c div 4096, 128 + c div 64 mod 64, 128 + c mod 64]
      else [240 + c div 262144, 128 + c div 4096 mod 64, 128 + c div 64 mod 64, 128 + c mod 64])"

definition utf8 :: "code_points \<Rightarrow> nat list" where
  "utf8 s = concat (map utf8_char s)"

definition hex_index :: "char \<Rightarrow> nat" where
  "hex_index c = length (takeWhile (\<lambda>d. d \<noteq> c) ''0123456789abcdef'')"

definition uuid_of_text :: "string \<Rightarrow> uuid option" where
  \<comment> \<open>\<open>UUID(text)\<close> of hexadecimal digits and hyphens; no token here has one of its other spellings\<close>
  "uuid_of_text s =
     (let h = filter (\<lambda>c. c \<noteq> CHR ''-'') (lower s)
      in if length h = 32 \<and> list_all (\<lambda>c. c \<in> set ''0123456789abcdef'') h
         then Some (foldl (\<lambda>n c. 16 * n + hex_index c) 0 h) else None)"

section \<open>Tokens and passwords\<close>

definition COOKIE_NAME :: string where "COOKIE_NAME = ''access_token''"
definition MIN_SECRET_BYTES :: nat where "MIN_SECRET_BYTES = 32"

record security_settings =
  sec_secret :: string
  sec_algorithm :: string
  sec_ttl :: int

record claims =
  cl_sub :: string
  cl_role :: string
  cl_iat :: instant
  cl_exp :: instant

record jwt =
  jw_encode :: "claims \<Rightarrow> string \<Rightarrow> string \<Rightarrow> string"
  jw_decode :: "instant \<Rightarrow> string \<Rightarrow> string \<Rightarrow> string list \<Rightarrow> (string \<times> string) list option"
    \<comment> \<open>the text claims of a token that verifies at an instant, \<open>None\<close> for any \<open>PyJWTError\<close>\<close>

definition payload_of :: "claims \<Rightarrow> (string \<times> string) list" where
  "payload_of c = [(''sub'', cl_sub c), (''role'', cl_role c)]"

definition jwt_unforgeable :: "jwt \<Rightarrow> bool" where
  \<comment> \<open>only an unexpired token that was encoded with the secret verifies\<close>
  "jwt_unforgeable jw \<longleftrightarrow> (\<forall>now token secret algs p. jw_decode jw now token secret algs = Some p \<longrightarrow>
     (\<exists>c alg. alg \<in> set algs \<and> token = jw_encode jw c secret alg \<and> p = payload_of c \<and> now < cl_exp c))"

definition jwt_accepts :: "jwt \<Rightarrow> bool" where
  \<comment> \<open>a token verifies from its issue to the whole second before its expiry, and is not empty\<close>
  "jwt_accepts jw \<longleftrightarrow> (\<forall>now c secret alg. jw_encode jw c secret alg \<noteq> [] \<and>
     (cl_iat c \<le> now \<and> now + 1000000 \<le> cl_exp c \<longrightarrow>
        jw_decode jw now (jw_encode jw c secret alg) secret [alg] = Some (payload_of c)))"

definition jwt_sound :: "jwt \<Rightarrow> bool" where
  "jwt_sound jw \<longleftrightarrow> jwt_unforgeable jw \<and> jwt_accepts jw"

definition invalid_token :: exn where "invalid_token = OtherError ''InvalidTokenError''"

definition checked_settings :: "security_settings \<Rightarrow> exn + unit" where
  "checked_settings st =
     (if sec_secret st = [] then Inl (OtherError ''RuntimeError: JWT_SECRET is not set'')
      else if length (sec_secret st) < MIN_SECRET_BYTES
      then Inl (OtherError (''RuntimeError: JWT_SECRET must be at least 32 bytes; '' @ ''generate one with `openssl rand -base64 48`''))
      else Inr ())"

definition issue_token :: "jwt \<Rightarrow> security_settings \<Rightarrow> instant \<Rightarrow> uuid \<Rightarrow> string \<Rightarrow> exn + string" where
  "issue_token jw st now k role =
     bind_ok (checked_settings st) (\<lambda>_.
       Inr (jw_encode jw \<lparr>cl_sub = uuid_text k, cl_role = role, cl_iat = now, cl_exp = now + sec_ttl st * 1000000\<rparr>
              (sec_secret st) (sec_algorithm st)))"

definition read_token :: "jwt \<Rightarrow> security_settings \<Rightarrow> instant \<Rightarrow> string \<Rightarrow> exn + (uuid \<times> string)" where
  "read_token jw st now token =
     bind_ok (checked_settings st) (\<lambda>_.
       case jw_decode jw now token (sec_secret st) [sec_algorithm st] of
         None \<Rightarrow> Inl invalid_token
       | Some payload \<Rightarrow>
           (case map_of payload ''sub'' of
              None \<Rightarrow> Inl invalid_token
            | Some sub \<Rightarrow>
                (case uuid_of_text sub of
                   None \<Rightarrow> Inl invalid_token
                 | Some k \<Rightarrow> (case map_of payload ''role'' of None \<Rightarrow> Inl invalid_token | Some role \<Rightarrow> Inr (k, role)))))"

record bcrypt =
  bc_hash :: "nat list \<Rightarrow> string \<Rightarrow> string"
  bc_check :: "nat list \<Rightarrow> string \<Rightarrow> bool option"
    \<comment> \<open>\<open>None\<close> for a hash it cannot read\<close>

definition bcrypt_sound :: "bcrypt \<Rightarrow> bool" where
  "bcrypt_sound bc \<longleftrightarrow> (\<forall>password salt. length password \<le> 72 \<longrightarrow> bc_check bc password (bc_hash bc password salt) = Some True)"

definition hash_password :: "bcrypt \<Rightarrow> string \<Rightarrow> code_points \<Rightarrow> exn + string" where
  "hash_password bc salt password =
     (let encoded = utf8 password
      in if 72 < length encoded then Inl (ValueError ''password must be at most 72 bytes'')
         else Inr (bc_hash bc encoded salt))"

definition verify_password :: "bcrypt \<Rightarrow> code_points \<Rightarrow> string \<Rightarrow> bool" where
  "verify_password bc password password_hash =
     (case bc_check bc (utf8 password) password_hash of Some b \<Rightarrow> b | None \<Rightarrow> False)"

section \<open>Accounts\<close>

fun role_text :: "user_role \<Rightarrow> string" where
  "role_text UserRole = ''user''"
| "role_text OperatorRole = ''operator''"

definition normal_email :: "string \<Rightarrow> string" where
  "normal_email email = lower (strip email)"

definition create_user :: "instant \<Rightarrow> uuid \<Rightarrow> string \<Rightarrow> string \<Rightarrow> user_role \<Rightarrow> db \<Rightarrow> user tx" where
  \<comment> \<open>the insert under the primary key and the unique index on \<open>email\<close>\<close>
  "create_user now k email password_hash role d =
     (let u = \<lparr>user_id = k, user_email = normal_email email, user_password_hash = password_hash, user_role = role, user_created_at = now\<rparr>
      in if k \<in> user_id ` set (db_users d) \<or> user_email u \<in> user_email ` set (db_users d)
         then Inl EmailAlreadyRegistered
         else Inr (d\<lparr>db_users := db_users d @ [u]\<rparr>, u))"

definition get_user_by_email :: "string \<Rightarrow> db \<Rightarrow> exn + user option" where
  "get_user_by_email email d =
     (case filter (\<lambda>u. user_email u = normal_email email) (db_users d) of
        [] \<Rightarrow> Inr None | [u] \<Rightarrow> Inr (Some u) | _ \<Rightarrow> Inl (OtherError ''MultipleResultsFound''))"

definition get_user :: "uuid \<Rightarrow> db \<Rightarrow> user option" where
  "get_user k d = find_row user_id k (db_users d)"

record credentials =
  cr_email :: string
  cr_password :: code_points

definition parse_credentials :: "(string \<Rightarrow> exn + string) \<Rightarrow> string \<Rightarrow> code_points \<Rightarrow> exn + credentials" where
  \<comment> \<open>\<open>email_str\<close> is pydantic's \<open>EmailStr\<close>\<close>
  "parse_credentials email_str email password =
     bind_ok (email_str email) (\<lambda>e.
       if 8 \<le> length password \<and> length password \<le> 72 then Inr \<lparr>cr_email = e, cr_password = password\<rparr>
       else Inl (ValueError ''password''))"

section \<open>Signing in\<close>

record cookie =
  ck_name :: string
  ck_value :: string
  ck_max_age :: int
  ck_http_only :: bool
  ck_same_site :: string
  ck_secure :: bool
  ck_path :: string

definition set_cookie :: "security_settings \<Rightarrow> string \<Rightarrow> cookie" where
  "set_cookie st token =
     \<lparr>ck_name = COOKIE_NAME, ck_value = token, ck_max_age = sec_ttl st, ck_http_only = True, ck_same_site = ''strict'',
      ck_secure = True, ck_path = ''/''\<rparr>"

datatype signed_in = SignedIn (account: user) (session_cookie: cookie) | AddressTaken

definition sign_in :: "jwt \<Rightarrow> security_settings \<Rightarrow> user \<Rightarrow> signed_in task" where
  "sign_in jw st u =
     bind_t clock (\<lambda>now. bind_t (lift_t (issue_token jw st now (user_id u) (role_text (user_role u)))) (\<lambda>token.
       ret_t (SignedIn u (set_cookie st token))))"

definition register :: "jwt \<Rightarrow> security_settings \<Rightarrow> bcrypt \<Rightarrow> credentials \<Rightarrow> string \<Rightarrow> uuid \<Rightarrow> signed_in task" where
  \<comment> \<open>\<open>salt\<close> and \<open>new_id\<close> are what \<open>gensalt\<close> and \<open>uuid4\<close> return\<close>
  "register jw st bc c salt new_id =
     bind_t (lift_t (hash_password bc salt (cr_password c))) (\<lambda>hashed.
     bind_t (try_t (session (\<lambda>now. create_user now new_id (cr_email c) hashed UserRole))) (\<lambda>r.
       case r of
         Inl EmailAlreadyRegistered \<Rightarrow> ret_t AddressTaken
       | Inl x \<Rightarrow> raise_t x
       | Inr u \<Rightarrow> sign_in jw st u))"

definition DUMMY_HASH :: string where
  "DUMMY_HASH = ''$2b$12$'' @ replicate 53 CHR ''.''"

definition login :: "jwt \<Rightarrow> security_settings \<Rightarrow> bcrypt \<Rightarrow> credentials \<Rightarrow> signed_in task" where
  "login jw st bc c =
     bind_t (reading (get_user_by_email (cr_email c))) (\<lambda>r.
     bind_t (lift_t r) (\<lambda>found.
       let candidate = (case found of Some u \<Rightarrow> user_password_hash u | None \<Rightarrow> DUMMY_HASH);
           matches = verify_password bc (cr_password c) candidate in
       case found of
         Some u \<Rightarrow> if matches then sign_in jw st u else raise_t (ApiUnauthorized ''invalid email or password'')
       | None \<Rightarrow> raise_t (ApiUnauthorized ''invalid email or password'')))"

definition logout :: cookie where
  \<comment> \<open>the cookie that takes the other's place and has expired\<close>
  "logout = \<lparr>ck_name = COOKIE_NAME, ck_value = [], ck_max_age = 0, ck_http_only = True, ck_same_site = ''strict'',
     ck_secure = True, ck_path = ''/''\<rparr>"

section \<open>Who is asking\<close>

definition current_user :: "jwt \<Rightarrow> security_settings \<Rightarrow> (string \<times> string) list \<Rightarrow> user task" where
  "current_user jw st cookies =
     (case map_of cookies COOKIE_NAME of
        Some (ch # cs) \<Rightarrow>
          bind_t clock (\<lambda>now.
            case read_token jw st now (ch # cs) of
              Inl x \<Rightarrow> raise_t (if x = invalid_token then ApiUnauthorized ''not authenticated'' else x)
            | Inr (k, role) \<Rightarrow>
                bind_t (reading (get_user k)) (\<lambda>found.
                  case found of None \<Rightarrow> raise_t (ApiUnauthorized ''not authenticated'') | Some u \<Rightarrow> ret_t u))
      | _ \<Rightarrow> raise_t (ApiUnauthorized ''not authenticated''))"

definition operator_user :: "user \<Rightarrow> exn + user" where
  "operator_user u = (if user_role u \<noteq> OperatorRole then Inl (ApiForbidden ''operator role required'') else Inr u)"

section \<open>The application\<close>

fun error_response :: "exn \<Rightarrow> (nat \<times> string) option" where
  \<comment> \<open>the registered handlers; \<open>None\<close> is left to the framework, a 500\<close>
  "error_response (ApiNotFound message) = Some (404, message)"
| "error_response (ApiUnauthorized message) = Some (401, message)"
| "error_response (ApiForbidden message) = Some (403, message)"
| "error_response _ = None"

definition reject_oversized_bodies :: "string option \<Rightarrow> bool" where
  \<comment> \<open>whether a request is refused by its \<open>Content-Length\<close>, in ASCII digits\<close>
  "reject_oversized_bodies declared =
     (case declared of
        None \<Rightarrow> False
      | Some s \<Rightarrow> s \<noteq> [] \<and> list_all is_digit s \<and> MAX_FILE_SIZE < int (undec s))"

record limits_response =
  lr_max_duration :: int
  lr_max_edit_height :: int
  lr_max_upload_bytes :: int
  lr_trash_days :: int

definition get_limits :: "int \<Rightarrow> int \<Rightarrow> int \<Rightarrow> limits_response" where
  "get_limits max_duration max_upload_bytes trash_days =
     \<lparr>lr_max_duration = max 0 max_duration, lr_max_edit_height = MAX_SCALE_HEIGHT, lr_max_upload_bytes = max_upload_bytes,
      lr_trash_days = max 0 trash_days\<rparr>"

section \<open>Addresses\<close>

lemma code_of_lower:
  "of_char (lower_char c) = (let n = of_char c :: nat
     in if 65 \<le> n \<and> n \<le> 90 \<or> 192 \<le> n \<and> n \<le> 222 \<and> n \<noteq> 215 then n + 32 else n)"
  by (auto simp: lower_char_def Let_def of_char_of)

lemma space_lower: "py_space (lower_char c) = py_space c"
  unfolding py_space_def Let_def code_of_lower by auto

lemma lower_lower: "lower_char (lower_char c) = lower_char c"
  unfolding lower_char_def [of "lower_char c"] Let_def code_of_lower by auto

lemma dropWhile_lower: "dropWhile py_space (map lower_char s) = map lower_char (dropWhile py_space s)"
  by (induction s) (simp_all add: space_lower)

lemma strip_lower: "strip (lower s) = lower (strip s)"
  by (simp add: strip_def lstrip_def rstrip_def lower_def rev_map dropWhile_lower)

lemma dropWhile_twice: "dropWhile P (dropWhile P s) = dropWhile P s"
  by (induction s) simp_all

lemma lstrip_rstrip: "dropWhile P (rev (dropWhile P (rev (dropWhile P s)))) = rev (dropWhile P (rev (dropWhile P s)))"
proof (cases "dropWhile P s")
  case (Cons c cs)
  then have c: "\<not> P c" by (metis dropWhile_eq_Cons_conv)
  have "dropWhile P (rev cs @ [c]) = dropWhile P (rev cs) @ [c]" using c by (simp add: dropWhile_append3)
  with Cons c show ?thesis by simp
next
  case Nil
  then show ?thesis unfolding Nil by simp
qed

lemma strip_strip: "strip (strip s) = strip s"
  by (simp add: strip_def lstrip_def rstrip_def lstrip_rstrip dropWhile_twice)

lemma normal_email_idem [simp]: "normal_email (normal_email e) = normal_email e"
  by (simp add: normal_email_def strip_lower strip_strip) (simp add: lower_def lower_lower comp_def)

definition users_ok :: "db \<Rightarrow> bool" where
  "users_ok d \<longleftrightarrow> distinct (map user_id (db_users d)) \<and> distinct (map user_email (db_users d))
     \<and> list_all (\<lambda>u. normal_email (user_email u) = user_email u) (db_users d)"

lemma account_created:
  assumes "create_user now k email password_hash role d = Inr (d', u)"
  shows "db_jobs d' = db_jobs d" and "db_uploads d' = db_uploads d" and "user_id u = k" and "user_email u = normal_email email"
    and "users_ok d \<Longrightarrow> users_ok d'"
    and "get_user_by_email e d' = (if normal_email e = normal_email email then Inr (Some u) else get_user_by_email e d)"
    and "get_user i d' = (if i = k then Some u else get_user i d)"
proof -
  from assms have new: "k \<notin> user_id ` set (db_users d)" "normal_email email \<notin> user_email ` set (db_users d)"
    and d': "d' = d\<lparr>db_users := db_users d @ [u]\<rparr>" and u: "user_id u = k" "user_email u = normal_email email"
    by (auto simp: create_user_def Let_def split: if_splits)
  show "db_jobs d' = db_jobs d" "db_uploads d' = db_uploads d" "user_id u = k" "user_email u = normal_email email" using u by (simp_all add: d')
  show "users_ok d'" if "users_ok d" using that new u by (auto simp: users_ok_def d' simp flip: set_map)
  have "filter (\<lambda>x. user_email x = normal_email email) (db_users d) = []" using new(2) unfolding filter_empty_conv by (metis image_eqI)
  then show "get_user_by_email e d' = (if normal_email e = normal_email email then Inr (Some u) else get_user_by_email e d)"
    by (simp add: get_user_by_email_def d' u)
  have "find_row user_id k (db_users d) = None" "find_row user_id i [u] = (if i = k then Some u else None)"
    using new(1) u by (simp_all add: find_row_None) (simp add: find_row_def)
  then show "get_user i d' = (if i = k then Some u else get_user i d)"
    by (auto simp: get_user_def d' find_row_append split: option.split)
qed

text \<open>C23. However an address is spelled, it has one account: a registration keeps identifiers and addresses
  unique and in their normal form, the new account is what the address then finds, every other lookup is as
  it was, and no later registration of the address succeeds.\<close>

theorem one_account_per_address:
  assumes "users_ok d" and "create_user now k email password_hash role d = Inr (d', u)"
  shows "users_ok d' \<and> db_jobs d' = db_jobs d \<and> db_uploads d' = db_uploads d
    \<and> (\<forall>e. get_user_by_email e d' = (if normal_email e = normal_email email then Inr (Some u) else get_user_by_email e d))
    \<and> (\<forall>i. get_user i d' = (if i = k then Some u else get_user i d))
    \<and> (\<forall>now' k' e h' role'. normal_email e = normal_email email \<longrightarrow> create_user now' k' e h' role' d' = Inl EmailAlreadyRegistered)"
proof -
  note new = account_created [OF assms(2)]
  have "normal_email email \<in> user_email ` set (db_users d')"
    using assms(2) new(4) by (auto simp: create_user_def Let_def split: if_splits)
  then have "create_user now' k' e h' role' d' = Inl EmailAlreadyRegistered" if "normal_email e = normal_email email" for now' k' e h' role'
    using that by (simp add: create_user_def Let_def)
  with new(1,2) new(5) [OF assms(1)] show ?thesis by (simp add: new(6,7))
qed

section \<open>Tokens\<close>

lemma hex_round: "d < 16 \<Longrightarrow> hex_index (hex_digit d) = d"
proof -
  assume d: "d < 16"
  have "list_all (\<lambda>d. hex_index (hex_digit d) = d) [0..<16]" by code_simp
  then show ?thesis using d by (simp only: list_all_iff set_upt) simp
qed

lemma hex_value: "foldl (\<lambda>n c. 16 * n + hex_index c) 0 (hex_digits k n) = n mod 16 ^ k"
proof (induction k arbitrary: n)
  case (Suc k)
  have "n mod 16 ^ Suc k = 16 * (n div 16 mod 16 ^ k) + n mod 16" by (simp add: mod_mult2_eq)
  with Suc show ?case by (simp add: hex_round)
qed simp

lemma uuid_round:
  assumes "u < 2 ^ 128"
  shows "uuid_of_text (uuid_text u) = Some u"
proof -
  let ?h = "hex_digits 32 u"
  have parts: "take 8 h @ take 4 (drop 8 h) @ take 4 (drop 12 h) @ take 4 (drop 16 h) @ drop 20 h = h" for h :: string
    using append_take_drop_id [of 8 h] append_take_drop_id [of 4 "drop 8 h"]
      append_take_drop_id [of 4 "drop 12 h"] append_take_drop_id [of 4 "drop 16 h"] by simp
  have hex: "c \<in> set ''0123456789abcdef''" if "c \<in> set ?h" for c using that hex_digits_set by blast
  have low: "lower_char c = c" if "c \<in> set ''0123456789abcdef''" for c
  proof -
    have "list_all (\<lambda>c. lower_char c = c) ''0123456789abcdef''" by code_simp
    with that show ?thesis unfolding list_all_iff by blast
  qed
  have plain: "filter (\<lambda>c. c \<noteq> CHR ''-'') xs = xs" "map lower_char xs = xs" if "set xs \<subseteq> set ?h" for xs
    using that hex low by (auto intro!: filter_True map_idI)
  have sub: "set (take n (drop m ?h)) \<subseteq> set ?h" "set (drop m ?h) \<subseteq> set ?h" "set (take n ?h) \<subseteq> set ?h" for n m
    by (auto dest: in_set_takeD in_set_dropD)
  have dash: "lower_char CHR ''-'' = CHR ''-''" by code_simp
  have "filter (\<lambda>c. c \<noteq> CHR ''-'') (lower (uuid_text u)) = ?h"
    unfolding uuid_text_def Let_def lower_def by (simp add: dash plain sub parts)
  moreover have "list_all (\<lambda>c. c \<in> set ''0123456789abcdef'') ?h" using hex by (simp only: list_all_iff) blast
  moreover have "u mod 16 ^ 32 = u" using assms by (intro mod_less) simp
  ultimately show ?thesis by (simp add: uuid_of_text_def hex_value)
qed

lemma jwt_verified:
  assumes "jwt_sound jw" and "jw_decode jw now token secret [alg] = Some p"
  shows "\<exists>c. token = jw_encode jw c secret alg \<and> p = payload_of c \<and> now < cl_exp c"
proof -
  from assms obtain c a where "a \<in> set [alg]" "token = jw_encode jw c secret a" "p = payload_of c" "now < cl_exp c"
    unfolding jwt_sound_def jwt_unforgeable_def by blast
  then show ?thesis by auto
qed

lemma jwt_accepted:
  assumes "jwt_sound jw" and "cl_iat c \<le> now" and "now + 1000000 \<le> cl_exp c"
  shows "jw_decode jw now (jw_encode jw c secret alg) secret [alg] = Some (payload_of c)"
  using assms unfolding jwt_sound_def jwt_accepts_def by blast

lemma jwt_token: "jwt_sound jw \<Longrightarrow> jw_encode jw c secret alg \<noteq> []"
  unfolding jwt_sound_def jwt_accepts_def by blast

lemma get_user_id: "get_user k d = Some u \<Longrightarrow> user_id u = k"
  by (auto simp: get_user_def find_row_def find_Some_iff)


section \<open>Signing up and in\<close>

abbreviation token_of :: "jwt \<Rightarrow> security_settings \<Rightarrow> instant \<Rightarrow> user \<Rightarrow> string" where
  "token_of jw st now u \<equiv> jw_encode jw \<lparr>cl_sub = uuid_text (user_id u), cl_role = role_text (user_role u), cl_iat = now,
     cl_exp = now + sec_ttl st * 1000000\<rparr> (sec_secret st) (sec_algorithm st)"

lemma sign_in_run:
  "sign_in jw st u W t d = (case checked_settings st of
     Inl x \<Rightarrow> (Inl x, t, d) | Inr _ \<Rightarrow> (Inr (SignedIn u (set_cookie st (token_of jw st (w_now W t) u))), t, d))"
  by (simp add: sign_in_def bind_t_def clock_def lift_t_def issue_token_def bind_ok_def split: sum.split)

lemma registered:
  assumes "register jw st bc c salt new_id W t d = (Inr (SignedIn u ck), t1, d1)"
  shows "checked_settings st = Inr () \<and> length (utf8 (cr_password c)) \<le> 72 \<and> t1 = t @ [Commit d1]
    \<and> create_user (w_now W t) new_id (cr_email c) (bc_hash bc (utf8 (cr_password c)) salt) UserRole (w_others W t d) = Inr (d1, u)"
proof (cases "72 < length (utf8 (cr_password c))")
  case True
  with assms show ?thesis by (simp add: register_def bind_t_def lift_t_def hash_password_def Let_def)
next
  case False
  then have hash: "hash_password bc salt (cr_password c) = Inr (bc_hash bc (utf8 (cr_password c)) salt)" by (simp add: hash_password_def Let_def)
  show ?thesis
  proof (cases "create_user (w_now W t) new_id (cr_email c) (bc_hash bc (utf8 (cr_password c)) salt) UserRole (w_others W t d)")
    case (Inl x)
    with assms hash show ?thesis by (auto simp: register_def bind_t_def lift_t_def session_def split: exn.splits)
  next
    case (Inr p)
    obtain d' v where p: "p = (d', v)" by fastforce
    from assms hash Inr p have "sign_in jw st v W (t @ [Commit d']) d' = (Inr (SignedIn u ck), t1, d1)"
      by (simp add: register_def bind_t_def lift_t_def session_def)
    then have "checked_settings st = Inr ()" "v = u" "t1 = t @ [Commit d']" "d1 = d'" by (auto simp: sign_in_run split: sum.splits)
    with False Inr p show ?thesis by simp
  qed
qed

lemma token_read:
  assumes "jwt_sound jw" and "checked_settings st = Inr ()" and "user_id u < 2 ^ 128"
    and "issued \<le> now" and "now + 1000000 \<le> issued + sec_ttl st * 1000000"
  shows "read_token jw st now (token_of jw st issued u) = Inr (user_id u, role_text (user_role u))"
proof -
  let ?c = "\<lparr>cl_sub = uuid_text (user_id u), cl_role = role_text (user_role u), cl_iat = issued, cl_exp = issued + sec_ttl st * 1000000\<rparr>"
  have "jw_decode jw now (jw_encode jw ?c (sec_secret st) (sec_algorithm st)) (sec_secret st) [sec_algorithm st] = Some (payload_of ?c)"
    using assms(4,5) by (intro jwt_accepted [OF assms(1)]) simp_all
  then show ?thesis using assms(2) uuid_round [OF assms(3)] by (simp add: read_token_def bind_ok_def payload_of_def)
qed

text \<open>C25. An account that was registered can be signed in to, with its password and any spelling of its address,
  and the cookie of that answer is then its user, until the second before the token expires. It is a plain
  user's account, and its cookie is kept from scripts, other sites and plain connections.\<close>

theorem register_then_login:
  assumes "jwt_sound jw" and "bcrypt_sound bc" and "undisturbed W" and "users_ok d" and "new_id < 2 ^ 128"
    and "register jw st bc c salt new_id W t d = (Inr (SignedIn u ck), t1, d1)"
    and "normal_email e = normal_email (cr_email c)"
    and "undisturbed W2" and "w_now W t1 \<le> w_now W2 t2" and "w_now W2 t2 + 1000000 \<le> w_now W t1 + sec_ttl st * 1000000"
  shows "user_role u = UserRole \<and> (\<exists>ck'. login jw st bc \<lparr>cr_email = e, cr_password = cr_password c\<rparr> W t1 d1 = (Inr (SignedIn u ck'), t1, d1)
    \<and> ck_http_only ck' \<and> ck_secure ck' \<and> ck_same_site ck' = ''strict''
    \<and> current_user jw st [(ck_name ck', ck_value ck')] W2 t2 d1 = (Inr u, t2, d1))"
proof -
  let ?pw = "utf8 (cr_password c)" and ?token = "token_of jw st (w_now W t1) u"
  from registered [OF assms(6)] assms(3) have reg: "checked_settings st = Inr ()" "length ?pw \<le> 72"
    "create_user (w_now W t) new_id (cr_email c) (bc_hash bc ?pw salt) UserRole d = Inr (d1, u)" by (simp_all add: undisturbed_def)
  from reg(3) have u: "user_id u = new_id" "user_role u = UserRole" "user_password_hash u = bc_hash bc ?pw salt"
    by (auto simp: create_user_def Let_def split: if_splits)
  from account_created(6,7) [OF reg(3)] assms(7) have found: "get_user_by_email e d1 = Inr (Some u)" "get_user new_id d1 = Some u" by simp_all
  have matches: "verify_password bc (cr_password c) (user_password_hash u)"
    using assms(2) reg(2) u(3) by (simp add: bcrypt_sound_def verify_password_def)
  have others: "w_others W x y = y" "w_others W2 x y = y" for x y using assms(3,8) by (simp_all add: undisturbed_def)
  have log: "login jw st bc \<lparr>cr_email = e, cr_password = cr_password c\<rparr> W t1 d1 = (Inr (SignedIn u (set_cookie st ?token)), t1, d1)"
    using found(1) matches reg(1) by (simp add: login_def bind_t_def lift_t_def others Let_def sign_in_run)
  have read: "read_token jw st (w_now W2 t2) ?token = Inr (new_id, role_text (user_role u))"
    using token_read [OF assms(1) reg(1) _ assms(9,10), of u] assms(5) u(1) by simp
  obtain ch cs where tok: "?token = ch # cs" using jwt_token [OF assms(1)] by (metis neq_Nil_conv)
  have "current_user jw st [(COOKIE_NAME, ?token)] W2 t2 d1 = (Inr u, t2, d1)"
    unfolding current_user_def using read found(2) unfolding tok by (simp add: bind_t_def clock_def others)
  with log u(2) show ?thesis by (intro conjI exI [of _ "set_cookie st ?token"]) (simp_all add: set_cookie_def)
qed

text \<open>The schema counts characters and bcrypt counts bytes: a password of 72 characters can be refused by
  \<open>hash_password\<close>, which no handler answers.\<close>

lemma long_password_fails:
  "parse_credentials Inr ''a@b.c'' (replicate 40 233) = Inr \<lparr>cr_email = ''a@b.c'', cr_password = replicate 40 233\<rparr>
    \<and> fst (register jw st bc \<lparr>cr_email = ''a@b.c'', cr_password = replicate 40 233\<rparr> salt k W t d)
        = Inl (ValueError ''password must be at most 72 bytes'')
    \<and> error_response (ValueError ''password must be at most 72 bytes'') = None"
proof -
  have "length (utf8 (replicate 40 233)) = 80" by code_simp
  then show ?thesis by (simp add: parse_credentials_def bind_ok_def register_def bind_t_def lift_t_def hash_password_def Let_def)
qed

text \<open>A sign-in that is refused reads the same for an unknown address and for a wrong password.\<close>

lemma login_refused:
  assumes "login jw st bc c W t d = (Inl x, t', d')" and "checked_settings st = Inr ()" and "users_ok (w_others W t d)"
  shows "x = ApiUnauthorized ''invalid email or password'' \<and> t' = t"
proof -
  have "get_user_by_email (cr_email c) (w_others W t d) \<noteq> Inl y" for y
  proof -
    have "distinct (map user_email us) \<Longrightarrow> length (filter (\<lambda>u. user_email u = k) us) \<le> 1" for us k
      by (induction us) (auto simp: filter_empty_conv, metis image_eqI)
    from this [of "db_users (w_others W t d)" "normal_email (cr_email c)"] assms(3) show ?thesis
      by (auto simp: get_user_by_email_def users_ok_def split: list.splits)
  qed
  with assms(1,2) show ?thesis
    by (auto simp: login_def bind_t_def lift_t_def Let_def sign_in_run split: sum.splits option.splits if_splits)
qed

section \<open>A concrete account\<close>

definition field :: "string \<Rightarrow> string" where
  "field s = concat (map (\<lambda>c. [CHR ''.'', c]) s) @ ''|''"

fun read_fields :: "string \<Rightarrow> string \<Rightarrow> string list" where
  "read_fields acc [] = []"
| "read_fields acc [c] = [rev acc]"
| "read_fields acc (c # x # s) = (if c = CHR ''.'' then read_fields (x # acc) s else rev acc # read_fields [] (x # s))"

lemma read_field: "read_fields acc (field s @ t) = (rev acc @ s) # read_fields [] t"
proof (induction s arbitrary: acc)
  case Nil
  then show ?case by (cases t) (simp_all add: field_def)
next
  case (Cons c s)
  from Cons.IH [of "c # acc"] show ?case by (simp add: field_def)
qed

definition int_text :: "string \<Rightarrow> int" where
  "int_text s = (case s of c # cs \<Rightarrow> if c = CHR ''-'' then - int (undec cs) else int (undec s) | [] \<Rightarrow> 0)"

lemma int_text_dec [simp]: "int_text (dec_int i) = i"
proof (cases "i < 0")
  case False
  obtain c cs where dec: "dec (nat i) = c # cs" using dec_nonempty by (metis neq_Nil_conv)
  have "c \<noteq> CHR ''-''"
  proof
    assume "c = CHR ''-''"
    with dec dec_digits [of "CHR ''-''" "nat i"] show False by (simp add: is_digit_def)
  qed
  with False dec undec_dec [of "nat i"] show ?thesis by (simp add: dec_int_def int_text_def)
qed (simp add: dec_int_def int_text_def)

definition plain_encode :: "claims \<Rightarrow> string \<Rightarrow> string \<Rightarrow> string" where
  \<comment> \<open>in place of a signature, the secret itself\<close>
  "plain_encode c secret alg = field (cl_sub c) @ field (cl_role c) @ field (dec_int (cl_exp c)) @ field secret @ field alg"

definition plain_decode :: "instant \<Rightarrow> string \<Rightarrow> string \<Rightarrow> string list \<Rightarrow> (string \<times> string) list option" where
  "plain_decode now token secret algs =
     (case read_fields [] token of
        [sub, role, ex, key, alg] \<Rightarrow>
          (let c = \<lparr>cl_sub = sub, cl_role = role, cl_iat = 0, cl_exp = int_text ex\<rparr>
           in if key = secret \<and> alg \<in> set algs \<and> now < int_text ex \<and> token = plain_encode c secret alg then Some (payload_of c) else None)
      | _ \<Rightarrow> None)"

definition plain_jwt :: jwt where
  "plain_jwt = \<lparr>jw_encode = plain_encode, jw_decode = plain_decode\<rparr>"

lemma plain_fields: "read_fields [] (plain_encode c secret alg) = [cl_sub c, cl_role c, dec_int (cl_exp c), secret, alg]"
  using read_field [of "[]" alg "[]"] by (simp add: plain_encode_def read_field)

lemma plain_jwt_sound: "jwt_sound plain_jwt"
  unfolding jwt_sound_def
proof
  show "jwt_unforgeable plain_jwt"
    unfolding jwt_unforgeable_def
  proof (intro allI impI)
    fix now token secret algs p assume "jw_decode plain_jwt now token secret algs = Some p"
    then obtain c alg where "alg \<in> set algs" "token = plain_encode c secret alg" "p = payload_of c" "now < cl_exp c"
      by (auto simp: plain_jwt_def plain_decode_def Let_def split: list.splits if_splits)
    then show "\<exists>c alg. alg \<in> set algs \<and> token = jw_encode plain_jwt c secret alg \<and> p = payload_of c \<and> now < cl_exp c"
      by (auto simp: plain_jwt_def)
  qed
  show "jwt_accepts plain_jwt"
    unfolding jwt_accepts_def
    by (auto simp: plain_jwt_def plain_decode_def plain_fields Let_def payload_of_def) (simp_all add: plain_encode_def field_def)
qed

definition plain_bcrypt :: bcrypt where
  "plain_bcrypt = \<lparr>bc_hash = (\<lambda>p salt. replicate (length p) CHR ''x''), bc_check = (\<lambda>p h. Some (h = replicate (length p) CHR ''x''))\<rparr>"

lemma plain_bcrypt_sound: "bcrypt_sound plain_bcrypt"
  by (simp add: bcrypt_sound_def plain_bcrypt_def)

definition sample_security :: security_settings where
  "sample_security = \<lparr>sec_secret = replicate 32 CHR ''k'', sec_algorithm = ''HS256'', sec_ttl = 3600\<rparr>"

definition at_home :: "instant \<Rightarrow> world" where
  \<comment> \<open>a world where nobody else commits, at an instant\<close>
  "at_home now = \<lparr>w_env = sample_env, w_others = (\<lambda>t d. d), w_now = (\<lambda>t. now), w_stopped = (\<lambda>t. False)\<rparr>"

lemma at_home_simps [simp]: "undisturbed (at_home n)" "w_now (at_home n) t = n" "w_others (at_home n) t d = d"
  by (simp_all add: at_home_def undisturbed_def)

definition nobody :: db where
  "nobody = \<lparr>db_users = [], db_jobs = [], db_uploads = []\<rparr>"

definition ann :: user where
  "ann = \<lparr>user_id = 9, user_email = ''a'', user_password_hash = ''xxxxxxxx'', user_role = UserRole, user_created_at = 5\<rparr>"

abbreviation home :: db where "home \<equiv> nobody\<lparr>db_users := [ann]\<rparr>"

lemma nobody_ok: "users_ok nobody"
  by (simp add: users_ok_def nobody_def)

lemma lower_a: "char_of (97 :: nat) = CHR ''a''"
  by code_simp

lemma addresses: "normal_email ''a'' = ''a''" "normal_email '' A'' = ''a''"
  by (simp_all add: lower_a normal_email_def strip_def lstrip_def rstrip_def lower_def py_space_def lower_char_def)

lemma ann_created: "create_user 5 9 ''a'' ''xxxxxxxx'' UserRole nobody = Inr (home, ann)"
  by (simp add: create_user_def addresses nobody_def ann_def Let_def)

theorem one_account_per_address_witness:
  "get_user_by_email '' A'' home = Inr (Some ann) \<and> create_user 7 8 '' A'' ''h'' UserRole home = Inl EmailAlreadyRegistered"
  using one_account_per_address [OF nobody_ok ann_created] by (simp add: addresses)

lemma ann_registered:
  "register plain_jwt sample_security plain_bcrypt \<lparr>cr_email = ''a'', cr_password = replicate 8 97\<rparr> ''s'' 9 (at_home 5) [] nobody
     = (Inr (SignedIn ann (set_cookie sample_security (token_of plain_jwt sample_security 5 ann))), [Commit home], home)"
proof -
  have "length (utf8 (replicate 8 97)) = 8" by code_simp
  then have hash: "hash_password plain_bcrypt ''s'' (replicate 8 97) = Inr ''xxxxxxxx''"
    by (simp add: hash_password_def plain_bcrypt_def Let_def eval_nat_numeral)
  have "checked_settings sample_security = Inr ()" by (simp add: checked_settings_def sample_security_def MIN_SECRET_BYTES_def)
  then show ?thesis using ann_created by (simp add: register_def bind_t_def lift_t_def hash session_def sign_in_run)
qed

theorem register_then_login_witness:
  "\<exists>ck. login plain_jwt sample_security plain_bcrypt \<lparr>cr_email = '' A'', cr_password = replicate 8 97\<rparr> (at_home 5) [Commit home] home
      = (Inr (SignedIn ann ck), [Commit home], home)
    \<and> current_user plain_jwt sample_security [(ck_name ck, ck_value ck)] (at_home 1000) [] home = (Inr ann, [], home)"
proof -
  have "normal_email '' A'' = normal_email (cr_email \<lparr>cr_email = ''a'', cr_password = replicate 8 97\<rparr>)" by (simp add: addresses)
  from register_then_login [OF plain_jwt_sound plain_bcrypt_sound _ nobody_ok _ ann_registered this, of "at_home 1000" "[]"]
  show ?thesis by (simp add: sample_security_def) blast
qed


end
