(* ===== verification/Accounts.thy ===== *)
theory Accounts
  imports Access Jobs_Api Upload_Safety
begin

text \<open>
  \<open>app/api/admin_users.py\<close>, \<open>app/repositories/admin_users.py\<close> and \<open>app/schemas/admin_user.py\<close>: an
  operator's view of the accounts, and the deletion of one: every object of the account first, its
  rows last. The owner's row is locked from the first statement on, which keeps new jobs and uploads
  of the account out, and its jobs and uploads are locked with it.
\<close>

section \<open>Rows\<close>

record admin_user_response =
  au_id :: uuid
  au_email :: string
  au_role :: user_role
  au_job_count :: nat

definition list_users_with_job_counts :: "db \<Rightarrow> nat \<Rightarrow> nat \<Rightarrow> admin_user_response list" where
  "list_users_with_job_counts d n off =
     limit_offset n off
       (map (\<lambda>u. \<lparr>au_id = user_id u, au_email = user_email u, au_role = user_role u,
                  au_job_count = length (filter (\<lambda>j. job_owner_id j = user_id u) (db_jobs d))\<rparr>)
         (sort_key (\<lambda>u. Page_Key (user_created_at u) (user_id u)) (db_users d)))"

definition account_contents :: "uuid \<Rightarrow> db \<Rightarrow> job list \<times> upload list" where
  "account_contents k d =
     (sort_key job_id (filter (\<lambda>j. job_owner_id j = k) (db_jobs d)), filter (\<lambda>u. upload_owner_id u = k) (db_uploads d))"

section \<open>Requests\<close>

definition list_accounts :: "nat \<Rightarrow> nat \<Rightarrow> admin_user_response list task" where
  "list_accounts n off = reading (\<lambda>d. list_users_with_job_counts d n off)"

definition clear_upload :: "multipart \<Rightarrow> uuid set \<Rightarrow> upload \<Rightarrow> unit io" where
  \<comment> \<open>the body of the loop over the uploads\<close>
  "clear_upload mp job_ids u =
     (if upload_state u \<notin> {UReady, UCompleted, UAborted} then abort_storage mp u
      else if upload_state u \<in> {UReady, UCompleted} \<and> upload_job_id u \<notin> job_ids then delete_object (upload_source_key u)
      else ret ())"

definition clear_storage :: "multipart \<Rightarrow> job list \<Rightarrow> upload list \<Rightarrow> unit io" where
  "clear_storage mp jobs uploads =
     bind_io (for_io uploads (clear_upload mp (job_id ` set jobs))) (\<lambda>_. for_io jobs (delete_job_storage False))"

definition delete_account :: "multipart \<Rightarrow> uuid \<Rightarrow> user \<Rightarrow> reply task" where
  "delete_account mp k operator =
     (if k = user_id operator then ret_t (Refused 409 ''an operator cannot delete their own account'')
      else
        bind_t (try_t
          (bind_t (acquire (\<lambda>d. if lock_owner k d = None then Inl (ApiNotFound ''not found'') else Inr (account_contents k d)))
             (\<lambda>(jobs, uploads).
           bind_t (in_thread (clear_storage mp jobs uploads)) (\<lambda>_.
           commit_now (\<lambda>d. Inr (delete_account_rows k d))))))
        (\<lambda>r. case r of
            Inr _ \<Rightarrow> ret_t NoContent
          | Inl (ApiNotFound m) \<Rightarrow> raise_t (ApiNotFound m)
          | Inl _ \<Rightarrow> ret_t (Refused 503 ''account deletion could not be confirmed; please try again'')))"

section \<open>What was confirmed\<close>

text \<open>\<open>confirmed e n h key\<close>: after the first \<open>n\<close> calls storage was asked to remove \<open>key\<close> and said it
  had. \<open>emptied e n h folder\<close>: the folder was listed, and everything it held was removed.\<close>

definition confirmed :: "env \<Rightarrow> nat \<Rightarrow> call list \<Rightarrow> string \<Rightarrow> bool" where
  "confirmed e n h key \<longleftrightarrow> (\<exists>p s. h = p @ RemoveObject key # s \<and> n \<le> length p \<and> e_remove e p key = Inr ())"

definition emptied :: "env \<Rightarrow> nat \<Rightarrow> call list \<Rightarrow> string \<Rightarrow> bool" where
  "emptied e n h folder \<longleftrightarrow>
     (\<exists>p s names. h = p @ ListObjects folder # s \<and> n \<le> length p \<and> e_list e p folder = Inr names \<and> list_all (confirmed e n h) names)"

definition removed_job :: "env \<Rightarrow> nat \<Rightarrow> call list \<Rightarrow> job \<Rightarrow> bool" where
  "removed_job e n h j \<longleftrightarrow> list_all (confirmed e n h) (job_keys j) \<and> list_all (emptied e n h) (job_prefixes j)"

definition removed_upload :: "env \<Rightarrow> nat \<Rightarrow> call list \<Rightarrow> uuid set \<Rightarrow> upload \<Rightarrow> bool" where
  "removed_upload e n h job_ids u \<longleftrightarrow>
     confirmed e n h (upload_source_key u) \<or> upload_state u = UAborted
       \<or> (upload_state u \<in> {UReady, UCompleted} \<and> upload_job_id u \<in> job_ids)"

lemma confirmed_later: "confirmed e n h key \<Longrightarrow> m \<le> n \<Longrightarrow> confirmed e m (h @ t) key"
  unfolding confirmed_def by force

lemma emptied_later:
  assumes "emptied e n h folder" and "m \<le> n"
  shows "emptied e m (h @ t) folder"
proof -
  from assms(1) obtain p s names where "h = p @ ListObjects folder # s" "n \<le> length p" "e_list e p folder = Inr names"
    "list_all (confirmed e n h) names" unfolding emptied_def by blast
  moreover from this(4) have "list_all (confirmed e m (h @ t)) names"
    by (rule list.pred_mono_strong) (rule confirmed_later [OF _ assms(2)])
  ultimately show ?thesis unfolding emptied_def using assms(2)
    by (intro exI [of _ p] exI [of _ "s @ t"] exI [of _ names] conjI) simp_all
qed

lemma removed_job_later: "removed_job e n h j \<Longrightarrow> m \<le> n \<Longrightarrow> removed_job e m (h @ t) j"
  by (auto simp: removed_job_def list_all_iff intro: confirmed_later emptied_later)

lemma removed_upload_later: "removed_upload e n h ks u \<Longrightarrow> m \<le> n \<Longrightarrow> removed_upload e m (h @ t) ks u"
  by (auto simp: removed_upload_def intro: confirmed_later)

lemma confirmed_object: "delete_object key e h = (Inr u, h') \<Longrightarrow> h' = h @ [RemoveObject key] \<and> confirmed e (length h) h' key"
  by (auto simp: delete_object_def do_call_def confirmed_def)

lemma confirmed_all:
  assumes "delete_all keys e h = (Inr rs, h')" and "first_error rs = Inr ()" and "key \<in> set keys"
  shows "confirmed e (length h) h' key"
  using assms
proof (induction keys arbitrary: h rs)
  case (Cons k ks)
  obtain rs' h2 where rest: "delete_all ks e (h @ [RemoveObject k]) = (Inr rs', h2)" using delete_all_calls by blast
  with Cons.prems(1) have rs: "rs = e_remove e h k # rs'" "h2 = h'"
    by (auto simp: delete_all_def bind_io_def delete_object_def do_call_def)
  note rest = rest [unfolded rs(2)]
  have ok: "e_remove e h k = Inr ()" "first_error rs' = Inr ()"
    using Cons.prems(2) unfolding rs(1) by (cases "e_remove e h k"; simp)+
  have "h' = (h @ [RemoveObject k]) @ map RemoveObject ks" using rest delete_all_calls [of ks e "h @ [RemoveObject k]"] by auto
  with ok(1) have "confirmed e (length h) h' k" by (auto simp: confirmed_def)
  moreover have "confirmed e (length h) h' key" if "key \<in> set ks"
    using confirmed_later [OF Cons.IH [OF rest ok(2) that], of "length h" "[]"] by simp
  ultimately show ?case using Cons.prems(3) by auto
qed simp

lemma list_under_writes: "writes_only (\<lambda>_. True) (list_under b ps)"
proof (induction ps)
  case Nil
  show ?case unfolding list_under.simps by (rule writes_ret)
next
  case (Cons p ps)
  show ?case unfolding list_under.simps list_objects_def
    by (intro writes_bind writes_ret Cons.IH) (auto intro!: writes_catch writes_call writes_ret)
qed

lemma listed_under:
  assumes "list_under False ps e h = (Inr names, h')" and "folder \<in> set ps"
  shows "\<exists>p s xs. h' = p @ ListObjects folder # s \<and> length h \<le> length p \<and> e_list e p folder = Inr xs \<and> set xs \<subseteq> set names"
  using assms
proof (induction ps arbitrary: h names)
  case (Cons q qs)
  from Cons.prems(1) obtain xs rest where one: "e_list e h q = Inr xs"
    and more: "list_under False qs e (h @ [ListObjects q]) = (Inr rest, h')" and names: "names = xs @ rest"
    by (auto simp: list_objects_def do_call_def bind_io_def split: prod.splits sum.splits)
  show ?case
  proof (cases "folder = q")
    case True
    from writes_onlyD [OF list_under_writes more] obtain t where "h' = (h @ [ListObjects q]) @ t" by blast
    with True one names show ?thesis by (intro exI [of _ h] exI [of _ t] exI [of _ xs]) simp
  next
    case False
    with Cons.prems(2) have "folder \<in> set qs" by simp
    from Cons.IH [OF more this] obtain p s ys where "h' = p @ ListObjects folder # s" "length (h @ [ListObjects q]) \<le> length p"
      "e_list e p folder = Inr ys" "set ys \<subseteq> set rest" by blast
    with names show ?thesis by (intro exI [of _ p] exI [of _ s] exI [of _ ys]) auto
  qed
qed simp

lemma job_removed:
  assumes "delete_job_storage False j e h = (Inr u, h')"
  shows "removed_job e (length h) h' j"
proof -
  from assms obtain listed h1 rs where l: "list_under False (job_prefixes j) e h = (Inr listed, h1)"
    and del: "delete_all (uniq (job_keys j @ listed)) e h1 = (Inr rs, h')" and ok: "first_error rs = Inr ()"
    by (auto simp: delete_job_storage_def bind_io_def split: prod.splits sum.splits)
  from writes_onlyD [OF list_under_writes l] have longer: "length h \<le> length h1" by auto
  have gone: "confirmed e (length h) h' key" if "key \<in> set (job_keys j) \<union> set listed" for key
    using confirmed_later [OF confirmed_all [OF del ok, of key] longer, of "[]"] that by simp
  have "emptied e (length h) h' folder" if "folder \<in> set (job_prefixes j)" for folder
  proof -
    from listed_under [OF l that] obtain p s xs where "h1 = p @ ListObjects folder # s" "length h \<le> length p"
      "e_list e p folder = Inr xs" "set xs \<subseteq> set listed" by blast
    moreover have "h' = h1 @ map RemoveObject (uniq (job_keys j @ listed))" using del delete_all_calls by (metis prod.inject)
    ultimately show ?thesis using gone unfolding emptied_def
      by (intro exI [of _ p] exI [of _ "s @ map RemoveObject (uniq (job_keys j @ listed))"] exI [of _ xs]) (auto simp: list_all_iff)
  qed
  with gone show ?thesis by (auto simp: removed_job_def list_all_iff)
qed

lemma upload_removed:
  assumes "clear_upload mp ks u e h = (Inr v, h')"
  shows "removed_upload e (length h) h' ks u"
proof (cases "upload_state u \<notin> {UReady, UCompleted, UAborted}")
  case True
  with assms obtain h1 where "delete_object (upload_source_key u) e h1 = (Inr v, h')" and "length h \<le> length h1"
    by (auto simp: clear_upload_def abort_storage_def bind_io_Inr catch_io_def do_call_def raise_def ret_def split: if_splits sum.splits exn.splits)
  with confirmed_object confirmed_later [of _ _ _ _ _ "[]"] show ?thesis unfolding removed_upload_def by (metis append_Nil2)
next
  case False
  with assms show ?thesis by (auto simp: clear_upload_def removed_upload_def dest: confirmed_object split: if_splits)
qed

lemma storage_writes:
  "writes_only (\<lambda>_. True) (clear_upload mp ks u)" "writes_only (\<lambda>_. True) (delete_job_storage b j)"
proof -
  show "writes_only (\<lambda>_. True) (clear_upload mp ks u)"
    by (auto simp: clear_upload_def delete_object_def intro!: writes writes_call storage_calls)
  have "writes_only (\<lambda>_. True) (delete_all ks)" for ks
    unfolding writes_only_def using delete_all_calls by (metis snd_conv)
  then show "writes_only (\<lambda>_. True) (delete_job_storage b j)"
    unfolding delete_job_storage_def by (intro writes_bind list_under_writes) (simp_all add: writes_ret writes_lift)
qed

lemma each_done:
  assumes "for_io xs f e h = (Inr u, h')" and "x \<in> set xs" and "\<And>x. writes_only (\<lambda>_. True) (f x)"
    and "\<And>x h h' v. f x e h = (Inr v, h') \<Longrightarrow> P (length h) h' x"
    and "\<And>n m h t x. P n h x \<Longrightarrow> m \<le> n \<Longrightarrow> P m (h @ t) x"
  shows "P (length h) h' x"
  using assms(1,2)
proof (induction xs arbitrary: h)
  case (Cons y ys)
  from Cons.prems(1) obtain v h1 where one: "f y e h = (Inr v, h1)" and rest: "for_io ys f e h1 = (Inr u, h')"
    by (auto simp: bind_io_Inr)
  from writes_onlyD [OF assms(3) one] have longer: "length h \<le> length h1" by auto
  from writes_onlyD [OF writes_for [OF assms(3)] rest] obtain t where t: "h' = h1 @ t" by blast
  show ?case
  proof (cases "x = y")
    case True
    with assms(5) [OF assms(4) [OF one], of "length h" t] t show ?thesis by simp
  next
    case False
    with Cons.prems(2) have "x \<in> set ys" by simp
    from assms(5) [OF Cons.IH [OF rest this] longer, of "[]"] show ?thesis by simp
  qed
qed simp


text \<open>C26. An operator deletes an account last and only when nothing of it is left: the one commit comes after
  storage has confirmed the removal of every object of every job, of everything under their folders, and of
  every upload that no job of the account took over, and it removes exactly the rows of that account. On any
  other answer nothing was committed. An operator's own account is never deleted.\<close>

theorem account_deleted_last:
  assumes "delete_account mp k operator W t d = (r, t', d')"
  shows "if r = Inr NoContent
    then k \<noteq> user_id operator
      \<and> (\<exists>cs. t' = t @ map Call cs @ [Commit d']
           \<and> list_all (\<lambda>j. job_owner_id j = k \<longrightarrow> removed_job (w_env W) (length (calls_of t)) (calls_of t @ cs) j) (db_jobs (w_others W t d))
           \<and> list_all (\<lambda>u. upload_owner_id u = k \<longrightarrow> removed_upload (w_env W) (length (calls_of t)) (calls_of t @ cs)
                 {job_id j |j. j \<in> set (db_jobs (w_others W t d)) \<and> job_owner_id j = k} u) (db_uploads (w_others W t d)))
      \<and> db_users d' = filter (\<lambda>u. user_id u \<noteq> k) (db_users (w_others W t d))
      \<and> db_jobs d' = filter (\<lambda>j. job_owner_id j \<noteq> k) (db_jobs (w_others W t d))
      \<and> db_uploads d' = filter (\<lambda>u. upload_owner_id u \<noteq> k) (db_uploads (w_others W t d))
    else commits_of t' = commits_of t"
proof -
  let ?d = "w_others W t d" and ?h = "calls_of t" and ?e = "w_env W"
  obtain jobs ups where cont: "account_contents k ?d = (jobs, ups)" by fastforce
  then have sets: "set jobs = {j \<in> set (db_jobs ?d). job_owner_id j = k}" "set ups = {u \<in> set (db_uploads ?d). upload_owner_id u = k}"
    by (auto simp: account_contents_def)
  obtain r1 h1 where clear: "clear_storage mp jobs ups ?e ?h = (r1, h1)" by fastforce
  have "writes_only (\<lambda>_. True) (clear_storage mp jobs ups)"
    unfolding clear_storage_def by (intro writes_bind writes_for storage_writes)
  from writes_onlyD [OF this clear] obtain cs where cs: "h1 = ?h @ cs" by blast
  consider (own) "k = user_id operator" | (missing) "k \<noteq> user_id operator" "lock_owner k ?d = None"
    | (failed) x where "k \<noteq> user_id operator" "lock_owner k ?d \<noteq> None" "r1 = Inl x"
    | (deleted) "k \<noteq> user_id operator" "lock_owner k ?d \<noteq> None" "r1 = Inr ()"
    by (cases r1) auto
  then show ?thesis
  proof cases
    case deleted
    from assms deleted cont clear cs have end': "r = Inr NoContent" "t' = t @ map Call cs @ [Commit d']" "d' = delete_account_rows k ?d"
      by (auto simp: delete_account_def bind_t_def acquire_def in_thread_def commit_now_def split: prod.splits)
    from clear deleted obtain h0 u v where ups: "for_io ups (clear_upload mp (job_id ` set jobs)) ?e ?h = (Inr u, h0)"
      and jobs: "for_io jobs (delete_job_storage False) ?e h0 = (Inr v, h1)"
      by (auto simp: clear_storage_def bind_io_Inr)
    from writes_onlyD [OF writes_for [OF storage_writes(2)] jobs] obtain s where s: "h1 = h0 @ s" by blast
    from writes_onlyD [OF writes_for [OF storage_writes(1)] ups] have longer: "length ?h \<le> length h0" by auto
    have "removed_upload ?e (length ?h) h1 (job_id ` set jobs) x" if "x \<in> set ups" for x
      unfolding s using each_done [of _ _ _ _ _ _ _ "\<lambda>n h. removed_upload ?e n h (job_id ` set jobs)", OF ups that storage_writes(1)]
        upload_removed removed_upload_later by (metis order_refl)
    moreover have "removed_job ?e (length ?h) h1 x" if "x \<in> set jobs" for x
      using each_done [of _ _ _ _ _ _ _ "removed_job ?e", OF jobs that storage_writes(2) job_removed removed_job_later]
        removed_job_later [OF _ longer, of _ _ _ "[]"] by simp
    moreover have "job_id ` set jobs = {job_id j |j. j \<in> set (db_jobs ?d) \<and> job_owner_id j = k}" using sets(1) by auto
    ultimately show ?thesis using end' deleted(1) sets cs by (auto simp: delete_account_rows_def list_all_iff)
  qed (use assms cont clear cs in \<open>auto simp: delete_account_def bind_t_def acquire_def in_thread_def split: exn.splits\<close>)
qed

section \<open>A concrete account\<close>

definition full_account :: db where
  "full_account = two_videos\<lparr>db_uploads := [sample_upload]\<rparr>"

theorem account_deleted_last_witness:
  "\<exists>cs d'. delete_account sample_multipart 1 ann quiet_world [] full_account = (Inr NoContent, map Call cs @ [Commit d'], d')
     \<and> confirmed sample_env 0 cs ''outputs/7/a.mp4'' \<and> confirmed sample_env 0 cs (upload_source_key sample_upload)
     \<and> db_users d' = [] \<and> db_jobs d' = [] \<and> db_uploads d' = []"
proof -
  obtain r t' d' where run: "delete_account sample_multipart 1 ann quiet_world [] full_account = (r, t', d')" by (metis prod_cases3)
  have "fst (delete_account sample_multipart 1 ann quiet_world [] full_account) = Inr NoContent" by code_simp
  with run have r: "r = Inr NoContent" by simp
  have w: "w_others quiet_world [] full_account = full_account" "w_env quiet_world = sample_env" by (simp_all add: quiet_world_def)
  have rows: "done_video \<in> set (db_jobs full_account)" "sample_upload \<in> set (db_uploads full_account)" "job_owner_id done_video = 1"
    "upload_owner_id sample_upload = 1" "''outputs/7/a.mp4'' \<in> set (job_keys done_video)" "upload_state sample_upload = UOpen"
    by code_simp+
  have gone: "filter (\<lambda>u. user_id u \<noteq> 1) (db_users full_account) = []" "filter (\<lambda>j. job_owner_id j \<noteq> 1) (db_jobs full_account) = []"
    "filter (\<lambda>u. upload_owner_id u \<noteq> 1) (db_uploads full_account) = []" by code_simp+
  from account_deleted_last [OF run] r rows gone obtain cs where "t' = map Call cs @ [Commit d']"
    "removed_job sample_env 0 cs done_video" "confirmed sample_env 0 cs (upload_source_key sample_upload)"
    "db_users d' = []" "db_jobs d' = []" "db_uploads d' = []"
    by (auto simp: w list_all_iff removed_upload_def)
  with run r rows(5) show ?thesis by (auto simp: removed_job_def list_all_iff)
qed

end
