(* ===== verification/Queue_Depth.thy ===== *)
theory Queue_Depth
  imports Configuration Queueing
begin

text \<open>
  \<open>app/metrics/queue_depth.py\<close>: how many jobs wait and run on every queue, published for the scaling
  of the workers. Redis and CloudWatch are what they answer in each pass; a run of the publisher is
  its list of passes, and one that is still running after them has no result.
\<close>

section \<open>Depths\<close>

definition QUEUED_METRIC :: string where "QUEUED_METRIC = ''QueuedJobs''"
definition RUNNING_METRIC :: string where "RUNNING_METRIC = ''RunningJobs''"

record queue_depth =
  qd_queue :: string
  qd_queued :: int
  qd_running :: int

text \<open>What Redis holds of each queue: its length, and its started registry, the jobs with the time each
  entry expires.\<close>

record queue_view =
  qv_count :: "string \<Rightarrow> exn + int"
  qv_started :: "string \<Rightarrow> exn + (string \<times> rat) list"

definition running :: "queue_view \<Rightarrow> string \<Rightarrow> rat \<Rightarrow> exn + int" where
  "running view queue now =
     bind_ok (qv_started view queue) (\<lambda>entries. Inr (int (length (filter (\<lambda>e. now < snd e) entries))))"

definition measured_queues :: "settings \<Rightarrow> queue_name list" where
  "measured_queues s =
     [get_queue (redis_queue s) (worker_job_timeout_seconds s), get_chunk_queue (redis_queue s) (worker_job_timeout_seconds s),
      get_ladder_queue (redis_queue s) (worker_ladder_timeout_seconds s)]"

definition read_depths :: "settings \<Rightarrow> queue_view \<Rightarrow> rat \<Rightarrow> exn + queue_depth list" where
  "read_depths s view now =
     map_ok (\<lambda>queue.
        bind_ok (qv_count view (queue_named queue)) (\<lambda>queued.
        bind_ok (running view (queue_named queue) now) (\<lambda>run.
          Inr \<lparr>qd_queue = queue_named queue, qd_queued = queued, qd_running = run\<rparr>))) (measured_queues s)"

section \<open>Data points\<close>

record datum =
  md_name :: string
  md_dimensions :: "(string \<times> string) list"
  md_value :: int
  md_unit :: string

definition metric_datum :: "string \<Rightarrow> string \<Rightarrow> int \<Rightarrow> (string \<times> string) list \<Rightarrow> datum" where
  "metric_datum environment name value dimensions =
     \<lparr>md_name = name, md_dimensions = (''Environment'', environment) # dimensions, md_value = value, md_unit = ''Count''\<rparr>"

definition metric_data :: "queue_depth list \<Rightarrow> string \<Rightarrow> datum list" where
  "metric_data depths environment =
     concat (map (\<lambda>d. [metric_datum environment QUEUED_METRIC (qd_queued d) [(''Queue'', qd_queue d)],
                       metric_datum environment RUNNING_METRIC (qd_running d) [(''Queue'', qd_queue d)]]) depths)
     @ [metric_datum environment QUEUED_METRIC (sum_list (map qd_queued depths)) [],
        metric_datum environment RUNNING_METRIC (sum_list (map qd_running depths)) []]"

section \<open>Passes\<close>

datatype publish_event = PutMetrics string "datum list" | Slept int

record pass =
  pa_view :: queue_view
  pa_now :: rat
  pa_put :: "string \<Rightarrow> datum list \<Rightarrow> exn + unit"

definition publish_once :: "settings \<Rightarrow> pass \<Rightarrow> (exn + queue_depth list) \<times> publish_event list" where
  "publish_once s p =
     (case read_depths s (pa_view p) (pa_now p) of
        Inl x \<Rightarrow> (Inl x, [])
      | Inr depths \<Rightarrow>
          (let points = metric_data depths (metrics_environment s)
           in (bind_ok (pa_put p (metrics_namespace s) points) (\<lambda>_. Inr depths), [PutMetrics (metrics_namespace s) points])))"

fun publisher :: "settings \<Rightarrow> bool \<Rightarrow> pass list \<Rightarrow> (exn + unit) option \<times> publish_event list" where
  \<comment> \<open>\<open>run\<close>, for as many passes as are given\<close>
  "publisher s once [] = (None, [])"
| "publisher s once (p # ps) =
     (case publish_once s p of (r, sent) \<Rightarrow>
        if once then (Some (bind_ok r (\<lambda>_. Inr ())), sent)
        else (case publisher s once ps of (r', rest) \<Rightarrow> (r', sent @ Slept (metrics_interval_seconds s) # rest)))"

definition printing_client :: "string \<Rightarrow> datum list \<Rightarrow> exn + unit" where
  \<comment> \<open>\<open>PrintingClient\<close>: never refuses\<close>
  "printing_client namespace points = Inr ()"

definition publisher_main :: "settings \<Rightarrow> bool \<Rightarrow> bool \<Rightarrow> pass list \<Rightarrow> (exn + unit) option \<times> publish_event list" where
  \<comment> \<open>\<open>main\<close> with its two switches\<close>
  "publisher_main s once dry_run passes =
     (if dry_run then publisher s once (map (\<lambda>p. p\<lparr>pa_put := printing_client\<rparr>) passes)
      else if metrics_region s = [] then (Some (Inl (OtherError ''SystemExit'')), [])
      else publisher s once passes)"

section \<open>What is published\<close>

lemma read_depths_queue:
  assumes "read_depths s view now = Inr depths"
  shows "map qd_queue depths = map queue_named (measured_queues s)"
    and "d \<in> set depths \<Longrightarrow> qv_count view (qd_queue d) = Inr (qd_queued d) \<and> running view (qd_queue d) now = Inr (qd_running d)"
proof -
  have rows: "map qd_queue ds = map queue_named qs
      \<and> (\<forall>d\<in>set ds. qv_count view (qd_queue d) = Inr (qd_queued d) \<and> running view (qd_queue d) now = Inr (qd_running d))"
    if "map_ok (\<lambda>queue.
        bind_ok (qv_count view (queue_named queue)) (\<lambda>queued.
        bind_ok (running view (queue_named queue) now) (\<lambda>run.
          Inr \<lparr>qd_queue = queue_named queue, qd_queued = queued, qd_running = run\<rparr>))) qs = Inr ds" for qs ds
    using that by (induction qs arbitrary: ds) (auto simp: bind_ok_def split: sum.splits)
  from rows [OF assms [unfolded read_depths_def]]
  show "map qd_queue depths = map queue_named (measured_queues s)"
    "d \<in> set depths \<Longrightarrow> qv_count view (qd_queue d) = Inr (qd_queued d) \<and> running view (qd_queue d) now = Inr (qd_running d)" by simp_all
qed

lemma queue_names_distinct: "distinct (map queue_named (measured_queues s))"
  by (simp add: measured_queues_def get_queue_def get_chunk_queue_def get_ladder_queue_def CHUNK_QUEUE_SUFFIX_def LADDER_QUEUE_SUFFIX_def)

lemma series_distinct:
  assumes "distinct (map qd_queue depths)"
  shows "distinct (map (\<lambda>m. (md_name m, md_dimensions m)) (metric_data depths env))"
proof -
  have "distinct (map (\<lambda>m. (md_name m, md_dimensions m))
      (concat (map (\<lambda>d. [metric_datum env QUEUED_METRIC (qd_queued d) [(''Queue'', qd_queue d)],
                       metric_datum env RUNNING_METRIC (qd_running d) [(''Queue'', qd_queue d)]]) depths)))"
    using assms by (induction depths) (auto simp: metric_datum_def QUEUED_METRIC_def RUNNING_METRIC_def)
  then show ?thesis by (auto simp: metric_data_def metric_datum_def QUEUED_METRIC_def RUNNING_METRIC_def)
qed

lemma datum_of_queue:
  assumes "d \<in> set depths"
  shows "metric_datum env ''QueuedJobs'' (qd_queued d) [(''Queue'', qd_queue d)] \<in> set (metric_data depths env)"
    and "metric_datum env ''RunningJobs'' (qd_running d) [(''Queue'', qd_queue d)] \<in> set (metric_data depths env)"
  using assms by (auto simp: metric_data_def QUEUED_METRIC_def RUNNING_METRIC_def)

text \<open>A pass that can read Redis sends every queue of the service once: for each of them the jobs that wait
  and the jobs that run by a worker still alive, as series that are all different, so no point is counted
  twice, and the two totals over the queues as series of their own. Nothing of the queues is changed.\<close>

theorem publishes_every_queue:
  assumes "read_depths s (pa_view p) (pa_now p) = Inr depths"
  shows "snd (publish_once s p) = [PutMetrics (metrics_namespace s) (metric_data depths (metrics_environment s))]
    \<and> map qd_queue depths = [redis_queue s, redis_queue s @ ''-chunks'', redis_queue s @ ''-ladder'']
    \<and> distinct (map (\<lambda>m. (md_name m, md_dimensions m)) (metric_data depths (metrics_environment s)))
    \<and> list_all (\<lambda>d. qv_count (pa_view p) (qd_queue d) = Inr (qd_queued d)
         \<and> (\<exists>started. qv_started (pa_view p) (qd_queue d) = Inr started
              \<and> qd_running d = int (length (filter (\<lambda>e. pa_now p < snd e) started)))
         \<and> metric_datum (metrics_environment s) ''QueuedJobs'' (qd_queued d) [(''Queue'', qd_queue d)] \<in> set (metric_data depths (metrics_environment s))
         \<and> metric_datum (metrics_environment s) ''RunningJobs'' (qd_running d) [(''Queue'', qd_queue d)] \<in> set (metric_data depths (metrics_environment s))) depths
    \<and> drop 6 (metric_data depths (metrics_environment s))
        = [metric_datum (metrics_environment s) ''QueuedJobs'' (sum_list (map qd_queued depths)) [],
           metric_datum (metrics_environment s) ''RunningJobs'' (sum_list (map qd_running depths)) []]"
proof -
  note rows = read_depths_queue [OF assms]
  have names: "map qd_queue depths = [redis_queue s, redis_queue s @ ''-chunks'', redis_queue s @ ''-ladder'']"
    using rows(1) by (simp add: measured_queues_def get_queue_def get_chunk_queue_def get_ladder_queue_def CHUNK_QUEUE_SUFFIX_def LADDER_QUEUE_SUFFIX_def)
  then obtain a b c where three: "depths = [a, b, c]" by (auto simp: map_eq_Cons_conv)
  have different: "distinct (map qd_queue depths)" unfolding rows(1) by (rule queue_names_distinct)
  have "\<exists>started. qv_started (pa_view p) (qd_queue d) = Inr started
      \<and> qd_running d = int (length (filter (\<lambda>e. pa_now p < snd e) started))" if "d \<in> set depths" for d
    using rows(2) [OF that] by (auto simp: running_def bind_ok_def split: sum.splits)
  with rows(2) have "list_all (\<lambda>d. qv_count (pa_view p) (qd_queue d) = Inr (qd_queued d)
         \<and> (\<exists>started. qv_started (pa_view p) (qd_queue d) = Inr started
              \<and> qd_running d = int (length (filter (\<lambda>e. pa_now p < snd e) started)))
         \<and> metric_datum (metrics_environment s) ''QueuedJobs'' (qd_queued d) [(''Queue'', qd_queue d)] \<in> set (metric_data depths (metrics_environment s))
         \<and> metric_datum (metrics_environment s) ''RunningJobs'' (qd_running d) [(''Queue'', qd_queue d)] \<in> set (metric_data depths (metrics_environment s))) depths"
    unfolding list_all_iff by (blast intro: datum_of_queue)
  moreover have "drop 6 (metric_data depths (metrics_environment s))
        = [metric_datum (metrics_environment s) ''QueuedJobs'' (sum_list (map qd_queued depths)) [],
           metric_datum (metrics_environment s) ''RunningJobs'' (sum_list (map qd_running depths)) []]"
    by (simp add: metric_data_def three QUEUED_METRIC_def RUNNING_METRIC_def)
  moreover have "snd (publish_once s p) = [PutMetrics (metrics_namespace s) (metric_data depths (metrics_environment s))]"
    using assms by (simp add: publish_once_def Let_def)
  ultimately show ?thesis using names series_distinct [OF different] by blast
qed

text \<open>With \<open>--once\<close> the publisher makes one pass and ends as it did; without, no failed pass ends it, and it
  sleeps after every one.\<close>

lemma publisher_once: "publisher s True (p # ps) = (Some (bind_ok (fst (publish_once s p)) (\<lambda>_. Inr ())), snd (publish_once s p))"
  by (simp split: prod.split)

lemma publisher_goes_on:
  "publisher s False ps = (None, concat (map (\<lambda>p. snd (publish_once s p) @ [Slept (metrics_interval_seconds s)]) ps))"
  by (induction ps) (simp_all split: prod.split)

lemma dry_run_never_fails:
  "read_depths s (pa_view p) (pa_now p) = Inr depths \<Longrightarrow> fst (publisher_main s True True (p # ps)) = Some (Inr ())"
  by (simp add: publisher_main_def publish_once_def printing_client_def Let_def bind_ok_def)

definition sample_view :: queue_view where
  "sample_view = \<lparr>qv_count = (\<lambda>q. Inr (int (length q))), qv_started = (\<lambda>q. Inr [(''j1'', 5), (''j2'', 20)])\<rparr>"

theorem publishes_every_queue_witness:
  "\<exists>depths. read_depths default_settings sample_view 10 = Inr depths \<and> map qd_running depths = [1, 1, 1]
     \<and> snd (publish_once default_settings \<lparr>pa_view = sample_view, pa_now = 10, pa_put = printing_client\<rparr>)
        = [PutMetrics ''Flickpond'' (metric_data depths ''local'')]"
proof -
  let ?p = "\<lparr>pa_view = sample_view, pa_now = 10, pa_put = printing_client\<rparr>"
  obtain depths where d: "read_depths default_settings sample_view 10 = Inr depths" "map qd_running depths = [1, 1, 1]"
    by (simp add: read_depths_def sample_view_def running_def bind_ok_def measured_queues_def)
  with publishes_every_queue [of default_settings ?p depths] show ?thesis
    by (intro exI [of _ depths]) (simp add: default_settings_def)
qed

end
