(* ===== verification/Worker_Entry.thy ===== *)
theory Worker_Entry
  imports Tasks Renditions Queue_Depth
begin

text \<open>
  \<open>app/worker/__main__.py\<close>, and the entry points of \<open>app/worker/tasks.py\<close> that belong to no row: how
  a worker is put together, what follows a finished ladder, and the tasks that help to encode or add
  a rendition. RQ runs them; \<open>turns\<close> bounds the pieces one helper takes.
\<close>

section \<open>The worker\<close>

datatype worker_class = GiveBackWorker | SimpleWorker

record rq_worker =
  wk_class :: worker_class
  wk_queues :: "string list"

definition build_worker :: "settings \<Rightarrow> bool \<Rightarrow> bool \<Rightarrow> rq_worker" where
  \<comment> \<open>\<open>has_fork\<close> is \<open>hasattr(os, "fork")\<close>\<close>
  "build_worker s has_fork burst_safe =
     \<lparr>wk_class = (if has_fork \<and> \<not> burst_safe then GiveBackWorker else SimpleWorker),
      wk_queues = [redis_queue s, queue_named (get_chunk_queue (redis_queue s) (worker_job_timeout_seconds s)),
        queue_named (get_ladder_queue (redis_queue s) (worker_ladder_timeout_seconds s))]\<rparr>"

datatype shutdown_event = RqWarmShutdown | SignalHorse nat

definition handle_warm_shutdown_request :: "nat \<Rightarrow> shutdown_event list" where
  \<comment> \<open>\<open>horse_pid\<close> is 0 while no job runs; a horse that is gone is no error\<close>
  "handle_warm_shutdown_request horse_pid = RqWarmShutdown # (if horse_pid = 0 then [] else [SignalHorse horse_pid])"

section \<open>After a ladder\<close>

type_synonym ladder_hook = "uuid \<Rightarrow> string \<Rightarrow> unit io"

definition register_hook :: "ladder_hook \<Rightarrow> ladder_hook list \<Rightarrow> ladder_hook list" where
  "register_hook hook hooks = hooks @ [hook]"

definition queue_keep_hdr :: ladder_hook where
  "queue_keep_hdr k out = enqueue_rendition k ''hdr''"

definition register_hooks :: "settings \<Rightarrow> ladder_hook \<Rightarrow> ladder_hook list \<Rightarrow> ladder_hook list" where
  \<comment> \<open>\<open>sheet\<close> is \<open>make_preview\<close>\<close>
  "register_hooks s sheet hooks =
     (let hooks1 = (if worker_keep_hdr s then register_hook queue_keep_hdr hooks else hooks)
      in if worker_preview_sprite s then register_hook sheet hooks1 else hooks1)"

section \<open>Tasks that belong to no row\<close>

definition helper_result :: "string \<Rightarrow> nat option io \<Rightarrow> string task" where
  \<comment> \<open>the \<open>try\<close> of \<open>help_encode\<close> and \<open>help_ladder\<close>, and their answer\<close>
  "helper_result what helping =
     bind_t (try_t (in_thread helping)) (\<lambda>r.
       case r of
         Inr (Some encoded) \<Rightarrow> ret_t (''encoded '' @ dec encoded @ what)
       | Inr None \<Rightarrow> raise_t (OtherError ''still going'')
       | Inl x \<Rightarrow>
           (case x of
              Interrupted m \<Rightarrow> bind_t stop_requested (\<lambda>stopped. if stopped then ret_t ''stopped; piece given back'' else raise_t x)
            | ObjectStoreError m u \<Rightarrow> bind_t stop_requested (\<lambda>stopped. if stopped then ret_t ''stopped; piece given back'' else raise_t x)
            | _ \<Rightarrow> raise_t x))"

definition help_encode_entry :: "nat \<Rightarrow> settings \<Rightarrow> uuid \<Rightarrow> string task" where
  "help_encode_entry turns s k =
     helper_result '' pieces''
       (help_encode turns minio_object_store (worker_output_prefix s) (worker_ffmpeg_binary s) (worker_ffmpeg_timeout_seconds s) k)"

definition help_ladder_entry :: "nat \<Rightarrow> settings \<Rightarrow> uuid \<Rightarrow> string task" where
  "help_ladder_entry turns s k =
     helper_result '' ladder pieces''
       (help_ladder turns minio_object_store (worker_output_prefix s) (worker_ffmpeg_binary s) (worker_ladder_timeout_seconds s - 30) k)"

record lock_request =
  lock_name :: string
  lock_timeout :: int
  lock_blocking_timeout :: int

definition MASTER_LOCK_KEY :: "string \<Rightarrow> string" where
  "MASTER_LOCK_KEY ladder_key = ''flickpond:master-lock:'' @ ladder_key"

definition master_lock :: "string \<Rightarrow> lock_request" where
  "master_lock ladder_key = \<lparr>lock_name = MASTER_LOCK_KEY ladder_key, lock_timeout = 60, lock_blocking_timeout = 300\<rparr>"

definition rendition_builder_of :: "settings \<Rightarrow> (lock_request \<Rightarrow> unit io) \<Rightarrow> (lock_request \<Rightarrow> unit io) \<Rightarrow> rendition_builder" where
  \<comment> \<open>\<open>enter\<close> and \<open>leave\<close> are what Redis makes of its lock\<close>
  "rendition_builder_of s enter leave =
     \<lparr>rb_store = minio_object_store, rb_prober = run_probe (worker_ffprobe_binary s) (worker_ffprobe_timeout_seconds s),
      rb_ffmpeg = worker_ffmpeg_binary s, rb_timeout = worker_ladder_timeout_seconds s - 30,
      rb_lock = (\<lambda>key. enter (master_lock key)), rb_unlock = (\<lambda>key. leave (master_lock key))\<rparr>"

definition build_rendition :: "settings \<Rightarrow> (lock_request \<Rightarrow> unit io) \<Rightarrow> (lock_request \<Rightarrow> unit io) \<Rightarrow> uuid \<Rightarrow> string \<Rightarrow> string task" where
  "build_rendition s enter leave k kind =
     bind_t (reading (\<lambda>d. get_job d k None False)) (\<lambda>found.
       case found of
         None \<Rightarrow> ret_t ''skipped: no ladder''
       | Some j \<Rightarrow>
           (case job_hls_key j of
              None \<Rightarrow> ret_t ''skipped: no ladder''
            | Some ladder_key \<Rightarrow>
                (case ladder_input j of
                   None \<Rightarrow> raise_t (TypeError ''key'')
                 | Some source \<Rightarrow>
                     bind_t (in_thread (rendition_run (rendition_builder_of s enter leave) kind source ladder_key (job_max_fps j))) (\<lambda>built.
                       ret_t (kind @ '' rendition '' @ (if built then ''added'' else ''not needed''))))))"

section \<open>What they leave\<close>

text \<open>A worker takes the videos someone waits for first, then pieces of them, then ladders, from the very
  queues whose depth is published.\<close>

lemma worker_takes_measured_queues:
  "wk_queues (build_worker s has_fork burst_safe) = map queue_named (measured_queues s)"
  by (simp add: build_worker_def measured_queues_def get_queue_def)

text \<open>The hooks run in the order they are registered, each of them whatever became of those before it: the
  HDR rendition is queued before the sheet is made, and neither fails the ladder.\<close>

lemma hooks_after_ladder:
  "after_ladder_run (register_hooks s sheet []) k out e h
     = (Inr (), (if worker_preview_sprite s
          then snd (sheet k out e (if worker_keep_hdr s then h @ [Enqueue (BUILD_RENDITION_TASK @ '':hdr'') k] else h))
          else if worker_keep_hdr s then h @ [Enqueue (BUILD_RENDITION_TASK @ '':hdr'') k] else h))"
  by (simp add: after_ladder_run_def register_hooks_def register_hook_def Let_def queue_keep_hdr_def enqueue_rendition_def
      enqueue_def do_call_def bind_io_def catch_io_def split: prod.split sum.split)

lemma helper_result_cases:
  assumes "helper_result what helping W t d = (r, t', d')"
  obtains (encoded) h n where "helping (w_env W) (calls_of t) = (Inr (Some n), h)" and "r = Inr (''encoded '' @ dec n @ what)"
      and "t' = t @ map Call (drop (length (calls_of t)) h)" and "d' = d"
  | (running) h where "helping (w_env W) (calls_of t) = (Inr None, h)" and "r = Inl (OtherError ''still going'')"
      and "t' = t @ map Call (drop (length (calls_of t)) h)" and "d' = d"
  | (stopped) h x where "helping (w_env W) (calls_of t) = (Inl x, h)" and "w_stopped W t'" and "r = Inr ''stopped; piece given back''"
      and "t' = t @ map Call (drop (length (calls_of t)) h)" and "d' = d"
  | (failed) h x where "helping (w_env W) (calls_of t) = (Inl x, h)" and "r = Inl x"
      and "\<not> (w_stopped W t' \<and> (\<exists>m u. x = Interrupted m \<or> x = ObjectStoreError m u))"
      and "t' = t @ map Call (drop (length (calls_of t)) h)" and "d' = d"
proof -
  obtain a h where run: "helping (w_env W) (calls_of t) = (a, h)" by fastforce
  let ?t = "t @ map Call (drop (length (calls_of t)) h)"
  have out: "t' = ?t" "d' = d" and r: "r = (case a of Inr (Some n) \<Rightarrow> Inr (''encoded '' @ dec n @ what)
      | Inr None \<Rightarrow> Inl (OtherError ''still going'')
      | Inl x \<Rightarrow> (if w_stopped W ?t \<and> (\<exists>m u. x = Interrupted m \<or> x = ObjectStoreError m u) then Inr ''stopped; piece given back'' else Inl x))"
    using assms run by (auto simp: helper_result_def bind_t_def in_thread_def split: sum.splits option.splits exn.splits if_splits)
  show thesis
  proof (cases a)
    case (Inl x)
    note run = run [unfolded this]
    show thesis
    proof (cases "w_stopped W ?t \<and> (\<exists>m u. x = Interrupted m \<or> x = ObjectStoreError m u)")
      case True
      with Inl r out have "w_stopped W t'" "r = Inr ''stopped; piece given back''" by simp_all
      with run out show thesis by (intro stopped)
    next
      case False
      with Inl r have "r = Inl x" by simp
      with run out False show thesis by (intro failed) simp_all
    qed
  next
    case (Inr b)
    with run r out encoded running show thesis by (cases b) simp_all
  qed
qed

lemma given_back_suffix:
  assumes "h @ cs = h0 @ [a, b]" and "length h + 2 \<le> length (h @ cs)"
  shows "\<exists>cs0. cs = cs0 @ [a, b]"
proof -
  from assms(1) obtain us where "h = h0 @ us \<and> us @ cs = [a, b] \<or> h @ us = h0 \<and> cs = us @ [a, b]"
    by (auto simp: append_eq_append_conv2)
  moreover have "us = []" if "us @ cs = [a, b]"
  proof -
    from that have "length us + length cs = 2" by (metis length_append length_Cons list.size(3) numeral_2_eq_2)
    moreover have "2 \<le> length cs" using assms(2) by simp
    ultimately have "length us = 0" by linarith
    then show ?thesis by simp
  qed
  ultimately show ?thesis by auto
qed

lemma failing_helper_calls:
  assumes "help_encode turns minio_object_store prefix ff timeout k e h = (Inl x, h')" and "e_redis e = (\<lambda>h. Inr ())"
  shows "length h + 2 \<le> length h'"
proof -
  from assms obtain plan d where
    run: "finally_io (help_loop turns minio_object_store prefix ff timeout k plan d 0) (rmtree d) e (h @ [Mkdtemp ''flickpond-piece-'']) = (Inl x, h')"
    by (auto simp: help_encode_def bind_io_Inl board_read_def split: option.splits plan.splits)
  then obtain h1 where loop: "help_loop turns minio_object_store prefix ff timeout k plan d 0 e (h @ [Mkdtemp ''flickpond-piece-'']) = (Inl x, h1)"
    and "h' = h1 @ [Rmtree d]" by (auto simp: finally_rmtree)
  with writes_onlyD [OF writes_help_loop loop] show ?thesis by auto
qed

text \<open>C38. A helper never touches a row and writes nothing but pieces of its job. When it ends with a piece in hand,
  for whatever reason, giving that piece back is the last thing it does with the board, and its files are
  removed. A worker that was told to stop ends quietly, and any other failure is raised.\<close>

theorem helper_gives_back:
  assumes "e_redis (w_env W) = (\<lambda>h. Inr ())" and "help_encode_entry turns s k W t d = (r, t', d')"
  shows "d' = d \<and> (\<exists>cs. t' = t @ map Call cs
     \<and> list_all (\<lambda>key. starts_with key (pieces_prefix (worker_output_prefix s) k)) (puts cs)
     \<and> ((\<exists>n. r = Inr (''encoded '' @ dec n @ '' pieces'')) \<or> r = Inl (OtherError ''still going'')
        \<or> (\<exists>cs0 i dir. cs = cs0 @ [Board (uuid_text k) (GiveBack i), Rmtree dir])))
     \<and> \<not> (w_stopped W t' \<and> (\<exists>m u. r = Inl (Interrupted m) \<or> r = Inl (ObjectStoreError m u)))
     \<and> (r = Inr ''stopped; piece given back'' \<longrightarrow> w_stopped W t')"
proof -
  let ?enc = "help_encode turns minio_object_store (worker_output_prefix s) (worker_ffmpeg_binary s) (worker_ffmpeg_timeout_seconds s) k"
  have pieces: "\<exists>cs. h = calls_of t @ cs \<and> list_all (\<lambda>key. starts_with key (pieces_prefix (worker_output_prefix s) k)) (puts cs)"
    if "?enc (w_env W) (calls_of t) = (a, h)" for a h
    using helper_writes_pieces [OF that] by (auto simp: list_all_iff)
  from assms(2) [unfolded help_encode_entry_def] show ?thesis
  proof (cases rule: helper_result_cases)
    case (stopped h x)
    with pieces obtain cs where cs: "h = calls_of t @ cs" "list_all (\<lambda>key. starts_with key (pieces_prefix (worker_output_prefix s) k)) (puts cs)" by blast
    from failing_helper_gives_back [OF assms(1) stopped(1)] cs(1) obtain h0 i dir where
      "calls_of t @ cs = h0 @ [Board (uuid_text k) (GiveBack i), Rmtree dir]" by metis
    from given_back_suffix [OF this] failing_helper_calls [OF stopped(1) assms(1)] cs(1)
    have "\<exists>cs0 i dir. cs = cs0 @ [Board (uuid_text k) (GiveBack i), Rmtree dir]" by blast
    moreover have "t' = t @ map Call cs" using stopped(4) cs(1) by simp
    moreover have "d' = d" "\<not> (w_stopped W t' \<and> (\<exists>m u. r = Inl (Interrupted m) \<or> r = Inl (ObjectStoreError m u)))"
      "r = Inr ''stopped; piece given back'' \<longrightarrow> w_stopped W t'" using stopped by auto
    ultimately show ?thesis using cs(2) by blast
  next
    case (failed h x)
    with pieces obtain cs where cs: "h = calls_of t @ cs" "list_all (\<lambda>key. starts_with key (pieces_prefix (worker_output_prefix s) k)) (puts cs)" by blast
    from failing_helper_gives_back [OF assms(1) failed(1)] cs(1) obtain h0 i dir where
      "calls_of t @ cs = h0 @ [Board (uuid_text k) (GiveBack i), Rmtree dir]" by metis
    from given_back_suffix [OF this] failing_helper_calls [OF failed(1) assms(1)] cs(1)
    have "\<exists>cs0 i dir. cs = cs0 @ [Board (uuid_text k) (GiveBack i), Rmtree dir]" by blast
    moreover have "t' = t @ map Call cs" using failed(4) cs(1) by simp
    moreover have "d' = d" "\<not> (w_stopped W t' \<and> (\<exists>m u. r = Inl (Interrupted m) \<or> r = Inl (ObjectStoreError m u)))"
      "r = Inr ''stopped; piece given back'' \<longrightarrow> w_stopped W t'" using failed by auto
    ultimately show ?thesis using cs(2) by blast
  qed (use pieces in \<open>fastforce+\<close>)
qed


definition stopping_world :: world where
  \<comment> \<open>storage refuses the source, and the worker has been told to stop\<close>
  "stopping_world = quiet_world\<lparr>w_env := no_source, w_stopped := (\<lambda>t. True)\<rparr>"

theorem helper_gives_back_witness:
  "\<exists>cs0 i dir. help_encode_entry 1 default_settings 1 stopping_world [] one_job
     = (Inr ''stopped; piece given back'', map Call (cs0 @ [Board (uuid_text 1) (GiveBack i), Rmtree dir]), one_job)"
proof -
  obtain r t' d' where run: "help_encode_entry 1 default_settings 1 stopping_world [] one_job = (r, t', d')" by (metis prod_cases3)
  have "fst (help_encode_entry 1 default_settings 1 stopping_world [] one_job) = Inr ''stopped; piece given back''" by code_simp
  with run have r: "r = Inr ''stopped; piece given back''" by simp
  have "e_redis (w_env stopping_world) = (\<lambda>h. Inr ())" by (simp add: stopping_world_def no_source_def sample_env_def)
  from helper_gives_back [OF this run] r run show ?thesis by auto
qed

end
