(* ===== verification/Direct_Client.thy ===== *)
theory Direct_Client
  imports Uploads
begin

text \<open>
  \<open>upload_and_resume\<close> of \<open>deploy/verify_direct_upload.py\<close>: the client of a direct upload, from a new
  or an earlier session to the completed job. What the API and storage answer to each request is a
  function of everything sent so far. The evidence file is the checkpoints it is told; the command
  line around it is left out.
\<close>

section \<open>What is sent\<close>

type_synonym headers = "(string \<times> string) list"

datatype client_event =
    GetSession uuid
  | StartSession
  | SignPart uuid int
  | Preflight string
  | PutPart int "nat list"
  | CompleteSession uuid "uploaded_part list"
  | Checkpoint string

record service =
  sv_session :: "client_event list \<Rightarrow> uuid \<Rightarrow> exn + upload_progress"
  sv_start :: "client_event list \<Rightarrow> exn + (uuid \<times> int \<times> int)"
  sv_sign :: "client_event list \<Rightarrow> uuid \<Rightarrow> int \<Rightarrow> exn + string"
  sv_preflight :: "client_event list \<Rightarrow> string \<Rightarrow> exn + headers"
  sv_put :: "client_event list \<Rightarrow> string \<Rightarrow> nat list \<Rightarrow> exn + headers"
  sv_complete :: "client_event list \<Rightarrow> uuid \<Rightarrow> uploaded_part list \<Rightarrow> exn + uuid"

type_synonym 'a client = "client_event list \<Rightarrow> (exn + 'a) \<times> client_event list"

definition ret_c :: "'a \<Rightarrow> 'a client" where
  "ret_c x = (\<lambda>h. (Inr x, h))"

definition bind_c :: "'a client \<Rightarrow> ('a \<Rightarrow> 'b client) \<Rightarrow> 'b client" where
  "bind_c m k = (\<lambda>h. case m h of (Inl x, h') \<Rightarrow> (Inl x, h') | (Inr a, h') \<Rightarrow> k a h')"

definition lift_c :: "exn + 'a \<Rightarrow> 'a client" where
  "lift_c r = (\<lambda>h. (r, h))"

definition ask_c :: "client_event \<Rightarrow> (client_event list \<Rightarrow> exn + 'a) \<Rightarrow> 'a client" where
  "ask_c ev answer = (\<lambda>h. (answer h, h @ [ev]))"

definition checkpoint :: "string \<Rightarrow> unit client" where
  "checkpoint name = (\<lambda>h. (Inr (), h @ [Checkpoint name]))"

section \<open>The client\<close>

definition cors :: "headers \<Rightarrow> string \<Rightarrow> exn + unit" where
  \<comment> \<open>of an answer that is no error\<close>
  "cors response origin =
     (if map_of response ''access-control-allow-origin'' \<in> {Some origin, Some ''*''} then Inr ()
      else Inl (OtherError ''storage does not allow the browser origin''))"

record client_session =
  cs_uid :: uuid
  cs_state :: upload_state
  cs_manifest :: "uploaded_part list"
  cs_part_size :: int
  cs_part_count :: int
  cs_job_id :: "uuid option"

definition open_session :: "service \<Rightarrow> uuid option \<Rightarrow> client_session client" where
  "open_session sv session_id =
     (case session_id of
        Some uid \<Rightarrow>
          bind_c (ask_c (GetSession uid) (\<lambda>h. sv_session sv h uid)) (\<lambda>p.
            let s = \<lparr>cs_uid = uid, cs_state = up_state p, cs_manifest = up_parts_done p, cs_part_size = up_part_size p,
                     cs_part_count = up_part_count p, cs_job_id = up_job_id p\<rparr>
            in if up_state p = UCompleted then ret_c s
               else if up_state p \<notin> {UOpen, UCompleting, UReady}
               then lift_c (Inl (OtherError ''upload is cancelled; start a new verification''))
               else bind_c (checkpoint ''resumed_parts'') (\<lambda>_. ret_c s))
      | None \<Rightarrow>
          bind_c (ask_c StartSession (sv_start sv)) (\<lambda>(uid, part_size, n).
          bind_c (checkpoint ''upload_id'') (\<lambda>_.
            ret_c \<lparr>cs_uid = uid, cs_state = UOpen, cs_manifest = [], cs_part_size = part_size, cs_part_count = n, cs_job_id = None\<rparr>)))"

definition part_bytes :: "int \<Rightarrow> nat list \<Rightarrow> int \<Rightarrow> nat list" where
  \<comment> \<open>\<open>seek((number - 1) * part_size)\<close>, then \<open>read(part_size)\<close>\<close>
  "part_bytes part_size video number = take (nat part_size) (drop (nat ((number - 1) * part_size)) video)"

definition check_preflight :: "service \<Rightarrow> string \<Rightarrow> string \<Rightarrow> unit client" where
  \<comment> \<open>methods are compared without case\<close>
  "check_preflight sv origin url =
     bind_c (ask_c (Preflight url) (\<lambda>h. sv_preflight sv h url)) (\<lambda>preflight.
     bind_c (lift_c (cors preflight origin)) (\<lambda>_.
       if contains (lower (case map_of preflight ''access-control-allow-methods'' of Some s \<Rightarrow> s | None \<Rightarrow> [])) ''put'' then ret_c ()
       else lift_c (Inl (OtherError ''storage CORS does not allow PUT''))))"

definition transfer_part :: "service \<Rightarrow> string \<Rightarrow> bool \<Rightarrow> uuid \<Rightarrow> int \<Rightarrow> nat list \<Rightarrow> string client" where
  \<comment> \<open>a signed URL, the check of CORS unless it was \<open>checked\<close>, the \<open>PUT\<close> and the \<open>ETag\<close> of its answer\<close>
  "transfer_part sv origin checked uid number content =
     bind_c (ask_c (SignPart uid number) (\<lambda>h. sv_sign sv h uid number)) (\<lambda>url.
     bind_c (if checked then ret_c () else check_preflight sv origin url) (\<lambda>_.
     bind_c (ask_c (PutPart number content) (\<lambda>h. sv_put sv h url content)) (\<lambda>response.
     bind_c (lift_c (cors response origin)) (\<lambda>_.
       if ''etag'' \<notin> (\<lambda>x. lower (strip x)) ` set (split_on CHR '','' (case map_of response ''access-control-expose-headers'' of Some s \<Rightarrow> s | None \<Rightarrow> []))
       then lift_c (Inl (OtherError ''storage CORS must explicitly expose ETag''))
       else lift_c (case map_of response ''etag'' of None \<Rightarrow> Inl (KeyError ''etag'') | Some etag \<Rightarrow> Inr etag)))))"

definition confirm_first :: "service \<Rightarrow> bool \<Rightarrow> uuid \<Rightarrow> uploaded_part list \<Rightarrow> uploaded_part list client" where
  \<comment> \<open>the block under \<open>number == 1\<close>\<close>
  "confirm_first sv stop_after_first uid mani =
     bind_c (ask_c (GetSession uid) (\<lambda>h. sv_session sv h uid)) (\<lambda>p.
       if up_parts_done p \<noteq> mani
       then lift_c (Inl (OtherError ''resume did not recover the first part and its ETag''))
       else bind_c (checkpoint ''resumed_after_part'') (\<lambda>_.
              if stop_after_first then lift_c (Inl (OtherError ''UploadPaused'')) else ret_c (up_parts_done p)))"

definition put_part ::
  "service \<Rightarrow> string \<Rightarrow> bool \<Rightarrow> nat list \<Rightarrow> client_session \<Rightarrow> int \<Rightarrow> uploaded_part list \<times> bool \<Rightarrow> (uploaded_part list \<times> bool) client"
where
  \<comment> \<open>one number of the loop that is not done yet; the state is the manifest and whether CORS was checked\<close>
  "put_part sv origin stop_after_first video s number st =
     bind_c (transfer_part sv origin (snd st) (cs_uid s) number (part_bytes (cs_part_size s) video number)) (\<lambda>etag.
     bind_c (checkpoint ''cors_etag_verified'') (\<lambda>_.
     let mani = fst st @ [\<lparr>part_n = number, part_etag = etag\<rparr>] in
     bind_c (if number = 1 then confirm_first sv stop_after_first (cs_uid s) mani else ret_c mani) (\<lambda>mani.
       ret_c (mani, True))))"

fun put_parts ::
  "service \<Rightarrow> string \<Rightarrow> bool \<Rightarrow> nat list \<Rightarrow> client_session \<Rightarrow> int list \<Rightarrow> uploaded_part list \<times> bool \<Rightarrow> uploaded_part list client"
where
  \<comment> \<open>\<open>done\<close> is what the session listed before the loop\<close>
  "put_parts sv origin stop_after_first video s [] st = ret_c (fst st)"
| "put_parts sv origin stop_after_first video s (number # numbers) st =
     (if number \<in> part_n ` set (cs_manifest s) then put_parts sv origin stop_after_first video s numbers st
      else bind_c (put_part sv origin stop_after_first video s number st)
             (put_parts sv origin stop_after_first video s numbers))"

definition upload_and_resume ::
  "service \<Rightarrow> string \<Rightarrow> bool \<Rightarrow> nat list \<Rightarrow> uuid option \<Rightarrow> (uuid option \<times> uuid \<times> int) client"
where
  "upload_and_resume sv origin stop_after_first video session_id =
     bind_c (open_session sv session_id) (\<lambda>s.
       if cs_state s = UCompleted then ret_c (cs_job_id s, cs_uid s, cs_part_count s)
       else
         bind_c (if cs_state s = UOpen
                 then put_parts sv origin stop_after_first video s [1..cs_part_count s] (cs_manifest s, False)
                 else ret_c (cs_manifest s)) (\<lambda>mani.
           let parts = sort_key part_n mani in
           bind_c (ask_c (CompleteSession (cs_uid s) parts) (\<lambda>h. sv_complete sv h (cs_uid s) parts)) (\<lambda>jid.
             ret_c (Some jid, cs_uid s, cs_part_count s))))"

section \<open>What a run sends\<close>

definition puts_of :: "client_event list \<Rightarrow> (int \<times> nat list) list" where
  "puts_of h = concat (map (\<lambda>ev. case ev of PutPart n content \<Rightarrow> [(n, content)] | _ \<Rightarrow> []) h)"

definition completions_of :: "client_event list \<Rightarrow> uploaded_part list list" where
  "completions_of h = concat (map (\<lambda>ev. case ev of CompleteSession k ps \<Rightarrow> [ps] | _ \<Rightarrow> []) h)"

lemma sent_append [simp]:
  "puts_of (g @ h) = puts_of g @ puts_of h" "completions_of (g @ h) = completions_of g @ completions_of h"
  by (simp_all add: puts_of_def completions_of_def)

lemma sent_one [simp]:
  "puts_of [] = []" "completions_of [] = []"
  "puts_of (PutPart n content # h) = (n, content) # puts_of h" "completions_of (PutPart n content # h) = completions_of h"
  "puts_of (CompleteSession k ps # h) = puts_of h" "completions_of (CompleteSession k ps # h) = ps # completions_of h"
  "puts_of (GetSession k # h) = puts_of h" "completions_of (GetSession k # h) = completions_of h"
  "puts_of (StartSession # h) = puts_of h" "completions_of (StartSession # h) = completions_of h"
  "puts_of (SignPart k n # h) = puts_of h" "completions_of (SignPart k n # h) = completions_of h"
  "puts_of (Preflight u # h) = puts_of h" "completions_of (Preflight u # h) = completions_of h"
  "puts_of (Checkpoint f # h) = puts_of h" "completions_of (Checkpoint f # h) = completions_of h"
  by (simp_all add: puts_of_def completions_of_def)

lemma bind_c_Inr: "bind_c m k h = (Inr b, h') \<longleftrightarrow> (\<exists>a h1. m h = (Inr a, h1) \<and> k a h1 = (Inr b, h'))"
  by (auto simp: bind_c_def split: prod.splits sum.splits)

lemma bind_c_step: "m h = (Inr a, h1) \<Longrightarrow> bind_c m k h = k a h1"
  by (simp add: bind_c_def)

lemma client_steps [simp]:
  "ret_c x h = (Inr x, h)" "lift_c r h = (r, h)" "ask_c ev answer h = (answer h, h @ [ev])" "checkpoint name h = (Inr (), h @ [Checkpoint name])"
  by (simp_all add: ret_c_def lift_c_def ask_c_def checkpoint_def)

lemma check_preflight_sends:
  "check_preflight sv origin url h = (Inr x, h') \<Longrightarrow> h' = h @ [Preflight url]"
  by (auto simp: check_preflight_def bind_c_Inr split: if_splits)

definition sends :: "client_event list \<Rightarrow> client_event list \<Rightarrow> (int \<times> nat list) list \<Rightarrow> bool" where
  \<comment> \<open>from \<open>h\<close> to \<open>h'\<close> exactly these parts were put, and nothing was completed\<close>
  "sends h h' ps \<longleftrightarrow> (\<exists>es. h' = h @ es \<and> puts_of es = ps \<and> completions_of es = [])"

lemma sends_trans: "sends h h1 ps \<Longrightarrow> sends h1 h' qs \<Longrightarrow> sends h h' (ps @ qs)"
  unfolding sends_def by force

lemma sends_nothing: "puts_of es = [] \<Longrightarrow> completions_of es = [] \<Longrightarrow> sends h (h @ es) []"
  by (auto simp: sends_def)

definition sending :: "(int \<times> nat list) list \<Rightarrow> 'a client \<Rightarrow> bool" where
  \<comment> \<open>what a step puts whenever it returns\<close>
  "sending ps m \<longleftrightarrow> (\<forall>h a h'. m h = (Inr a, h') \<longrightarrow> sends h h' ps)"

lemma sendingD: "sending ps m \<Longrightarrow> m h = (Inr a, h') \<Longrightarrow> sends h h' ps"
  unfolding sending_def by blast

lemma sending_steps: "sending [] (ret_c x)" "sending [] (lift_c r)" "sending [] (checkpoint name)"
  "sending [(n, content)] (ask_c (PutPart n content) f)" "sending [] (ask_c (SignPart k n) g)"
  "sending [] (ask_c (Preflight u) f)" "sending [] (ask_c (GetSession k) f')"
  using sends_nothing [of "[]"] unfolding sending_def by (auto simp: sends_def)

lemma sending_bind:
  assumes "sending ps m" and "\<And>a. sending qs (k a)"
  shows "sending (ps @ qs) (bind_c m k)"
  using assms sends_trans unfolding sending_def by (fastforce simp: bind_c_Inr)

lemma sending_quiet_bind: "sending [] m \<Longrightarrow> (\<And>a. sending qs (k a)) \<Longrightarrow> sending qs (bind_c m k)"
  using sending_bind [of "[]" m qs k] by simp

lemma sending_last_bind: "sending ps m \<Longrightarrow> (\<And>a. sending [] (k a)) \<Longrightarrow> sending ps (bind_c m k)"
  using sending_bind [of ps m "[]" k] by simp

lemma sending_if: "sending ps m \<Longrightarrow> sending ps n \<Longrightarrow> sending ps (if b then m else n)"
  by simp

lemma sending_transfer: "sending [(number, content)] (transfer_part sv origin checked uid number content)"
  unfolding transfer_part_def
proof (rule sending_quiet_bind [OF sending_steps(5)], rule sending_quiet_bind)
  fix url
  show "sending [] (if checked then ret_c () else check_preflight sv origin url)"
    unfolding check_preflight_def by (intro sending_if sending_quiet_bind sending_steps)
qed (intro sending_last_bind sending_quiet_bind sending_if sending_steps)

lemma confirm_first_sends:
  "confirm_first sv stop uid mani h = (Inr m, h') \<Longrightarrow> m = mani \<and> sends h h' []"
  by (auto simp: confirm_first_def bind_c_Inr sends_def split: if_splits)

lemma put_part_sends:
  assumes "put_part sv origin stop video s number st h = (Inr st', h')"
  shows "\<exists>etag. sends h h' [(number, part_bytes (cs_part_size s) video number)] \<and> fst st' = fst st @ [\<lparr>part_n = number, part_etag = etag\<rparr>]"
proof -
  let ?mani = "\<lambda>etag. fst st @ [\<lparr>part_n = number, part_etag = etag\<rparr>]"
  from assms obtain etag h1 where t: "transfer_part sv origin (snd st) (cs_uid s) number (part_bytes (cs_part_size s) video number) h = (Inr etag, h1)"
    and rest: "bind_c (checkpoint ''cors_etag_verified'') (\<lambda>_.
       bind_c (if number = 1 then confirm_first sv stop (cs_uid s) (?mani etag) else ret_c (?mani etag)) (\<lambda>m. ret_c (m, True))) h1 = (Inr st', h')"
    unfolding put_part_def Let_def bind_c_Inr [of "transfer_part sv origin (snd st) (cs_uid s) number (part_bytes (cs_part_size s) video number)"] by blast
  from rest have "fst st' = ?mani etag \<and> sends (h1 @ [Checkpoint ''cors_etag_verified'']) h' []"
    using confirm_first_sends sends_nothing [of "[]"] by (cases "number = 1") (fastforce simp: bind_c_Inr)+
  with sends_trans [OF sendingD [OF sending_transfer t], of h' "[]"] sends_trans [OF sends_nothing [of "[Checkpoint ''cors_etag_verified'']" h1], of h' "[]"]
  show ?thesis by auto
qed

lemma put_parts_send:
  assumes "put_parts sv origin stop video s numbers st h = (Inr m, h')"
  shows "sends h h' (map (\<lambda>k. (k, part_bytes (cs_part_size s) video k)) (filter (\<lambda>k. k \<notin> part_n ` set (cs_manifest s)) numbers))
    \<and> map part_n m = map part_n (fst st) @ filter (\<lambda>k. k \<notin> part_n ` set (cs_manifest s)) numbers"
  using assms
proof (induction numbers arbitrary: st h)
  case Nil
  with sends_nothing [of "[]" h] show ?case by simp
next
  case (Cons k ks)
  show ?case
  proof (cases "k \<in> part_n ` set (cs_manifest s)")
    case True
    with Cons show ?thesis by simp
  next
    case False
    with Cons.prems obtain st1 h1 where one: "put_part sv origin stop video s k st h = (Inr st1, h1)"
      and rest: "put_parts sv origin stop video s ks st1 h1 = (Inr m, h')" by (auto simp: bind_c_Inr)
    from put_part_sends [OF one] obtain etag where p: "sends h h1 [(k, part_bytes (cs_part_size s) video k)]"
      "fst st1 = fst st @ [\<lparr>part_n = k, part_etag = etag\<rparr>]" by blast
    from Cons.IH [OF rest] sends_trans [OF p(1)] p(2) False show ?thesis by simp
  qed
qed


section \<open>The parts of a file\<close>

lemma part_bytes_join:
  assumes "0 \<le> ps"
  shows "concat (map (part_bytes ps video) [1..int k]) = take (nat ps * k) video"
proof (induction k)
  case (Suc k)
  have "[1..int (Suc k)] = [1..int k] @ [int k + 1]" by (simp add: upto_rec2 algebra_simps)
  moreover have "nat ((int k + 1 - 1) * ps) = nat ps * k" using assms by (simp add: nat_mult_distrib mult.commute)
  ultimately have last: "part_bytes ps video (int k + 1) = take (nat ps) (drop (nat ps * k) video)" "[1..int (Suc k)] = [1..int k] @ [int k + 1]"
    by (simp_all only: part_bytes_def)
  have "concat (map (part_bytes ps video) [1..int (Suc k)]) = take (nat ps * k) video @ take (nat ps) (drop (nat ps * k) video)"
    unfolding last(2) using Suc last(1) by simp
  also have "\<dots> = take (nat ps * k + nat ps) video" by (rule take_add [symmetric])
  finally show ?case by (simp add: add.commute)
qed simp

lemma part_bytes_length:
  assumes "0 < ps" and "1 \<le> k" and "(k - 1) * ps < int (length video)"
  shows "int (length (part_bytes ps video k)) = min ps (int (length video) - (k - 1) * ps)"
proof -
  define off where "off = nat ((k - 1) * ps)"
  have off: "int off = (k - 1) * ps" using assms(1,2) by (simp add: off_def)
  have "int (length (part_bytes ps video k)) = min ps (int (length video) - int off)"
    using assms(1,3) off by (simp add: part_bytes_def flip: off_def)
  then show ?thesis by (simp only: off)
qed

section \<open>The client and the server\<close>

lemma open_sessions_new:
  assumes "open_session sv None h = (Inr s, h1)"
  shows "sv_start sv h = Inr (cs_uid s, cs_part_size s, cs_part_count s) \<and> h1 = h @ [StartSession, Checkpoint ''upload_id'']
    \<and> cs_state s = UOpen \<and> cs_manifest s = []"
  using assms by (auto simp: open_session_def bind_c_Inr split: prod.splits)

text \<open>What a session that returns has sent: the numbers that were missing, in order and once each, and then one
  completion with all the parts in order; a session that was already being completed puts nothing again.\<close>

lemma session_sends:
  assumes "open_session sv session_id h = (Inr s, h1)" and "cs_state s \<noteq> UCompleted"
    and "upload_and_resume sv origin stop video session_id h = (Inr (jid, uid, n), h')"
  shows "\<exists>es m. h' = h1 @ es @ [CompleteSession (cs_uid s) (sort_key part_n m)] \<and> uid = cs_uid s \<and> n = cs_part_count s \<and> completions_of es = []
    \<and> (if cs_state s = UOpen
       then puts_of es = map (\<lambda>k. (k, part_bytes (cs_part_size s) video k)) (filter (\<lambda>k. k \<notin> part_n ` set (cs_manifest s)) [1..n])
         \<and> map part_n m = map part_n (cs_manifest s) @ filter (\<lambda>k. k \<notin> part_n ` set (cs_manifest s)) [1..n]
       else puts_of es = [] \<and> m = cs_manifest s)"
proof -
  let ?loop = "if cs_state s = UOpen then put_parts sv origin stop video s [1..cs_part_count s] (cs_manifest s, False) else ret_c (cs_manifest s)"
  let ?finish = "\<lambda>mani. let parts = sort_key part_n mani in
           bind_c (ask_c (CompleteSession (cs_uid s) parts) (\<lambda>h. sv_complete sv h (cs_uid s) parts)) (\<lambda>jid.
             ret_c (Some jid, cs_uid s, cs_part_count s))"
  have "bind_c ?loop ?finish h1 = (Inr (jid, uid, n), h')"
    using assms(3) unfolding upload_and_resume_def bind_c_step [where m = "open_session sv session_id", OF assms(1)] using assms(2) by (simp only: if_False)
  then obtain m h2 where loop: "?loop h1 = (Inr m, h2)" and finish: "?finish m h2 = (Inr (jid, uid, n), h')"
    unfolding bind_c_Inr [of ?loop] by blast
  from finish have out: "h' = h2 @ [CompleteSession (cs_uid s) (sort_key part_n m)]" "uid = cs_uid s" "n = cs_part_count s"
    by (auto simp: bind_c_Inr Let_def)
  show ?thesis
  proof (cases "cs_state s = UOpen")
    case True
    with loop have "put_parts sv origin stop video s [1..cs_part_count s] (cs_manifest s, False) h1 = (Inr m, h2)" by simp
    from put_parts_send [OF this] obtain es where es: "h2 = h1 @ es" "completions_of es = []"
      "puts_of es = map (\<lambda>k. (k, part_bytes (cs_part_size s) video k)) (filter (\<lambda>k. k \<notin> part_n ` set (cs_manifest s)) [1..cs_part_count s])"
      and m: "map part_n m = map part_n (cs_manifest s) @ filter (\<lambda>k. k \<notin> part_n ` set (cs_manifest s)) [1..cs_part_count s]"
      unfolding sends_def fst_conv by blast
    have "h' = h1 @ es @ [CompleteSession (cs_uid s) (sort_key part_n m)]" using out(1) es(1) by simp
    with True out(2,3) es(2,3) m show ?thesis by (intro exI [of _ es] exI [of _ m]) (simp only: if_True simp_thms)
  next
    case False
    with loop out show ?thesis by (intro exI [of _ "[]"] exI [of _ m]) simp
  qed
qed


lemma missing_and_listed:
  assumes "distinct (map part_n ps)" and "set (map part_n ps) \<subseteq> {1..n}"
    and "map part_n m = map part_n ps @ filter (\<lambda>k. k \<notin> part_n ` set ps) [1..n]"
  shows "sort (map part_n m) = [1..n]"
proof (rule sorted_distinct_set_unique)
  show "distinct (sort (map part_n m))" using assms(1,3) by auto
  show "set (sort (map part_n m)) = set [1..n]" using assms(2) unfolding set_sort assms(3) by auto
qed simp_all

lemma puts_are_accepted:
  assumes "upload_check u" and "int (length video) = upload_size u" and "map part_n m = [1..part_count u]"
  shows "validate_parts (u\<lparr>upload_manifest := Some (manifest m)\<rparr>)
      (map (\<lambda>p. \<lparr>sp_n = part_n p, sp_etag = part_etag p, sp_size = int (length (part_bytes (upload_part_size u) video (part_n p)))\<rparr>) m) = Inr ()"
proof -
  let ?f = "\<lambda>p. \<lparr>sp_n = part_n p, sp_etag = part_etag p, sp_size = int (length (part_bytes (upload_part_size u) video (part_n p)))\<rparr>"
  let ?u = "u\<lparr>upload_manifest := Some (manifest m)\<rparr>"
  have pos: "0 < upload_part_size u" using assms(1) by (simp add: upload_check_def)
  note bounds = part_count_bounds [OF assms(1)]
  have sorted: "sorted (map part_n m)" unfolding assms(3) by simp
  then have m: "manifest m = m" unfolding manifest_def by (rule sort_key_id_if_sorted)
  have "map sp_n (map ?f m) = map part_n m" by simp
  with sorted have f: "sort_key sp_n (map ?f m) = map ?f m" by (intro sort_key_id_if_sorted) (simp only:)
  have len: "int (length m) = part_count u" using arg_cong [OF assms(3), of length] bounds by simp
  have "part_matches ?u (p, ?f p)" if "p \<in> set m" for p
  proof -
    have k: "part_n p \<in> set [1..part_count u]" using that unfolding assms(3) [symmetric] by simp
    then have "(part_n p - 1) * upload_part_size u \<le> (part_count u - 1) * upload_part_size u" using pos by (intro mult_right_mono) auto
    with bounds have "(part_n p - 1) * upload_part_size u < int (length video)" using assms(2) by linarith
    with k pos part_bytes_length [of "upload_part_size u" "part_n p" video] assms(2) show ?thesis by (simp add: part_matches_def)
  qed
  then have "list_all (part_matches ?u) (zip m (map ?f m))" by (auto simp: list_all_iff in_set_zip)
  moreover have "part_count ?u = part_count u" by (simp add: part_count_def)
  ultimately show ?thesis unfolding validate_parts_def by (simp add: m f len del: map_map)
qed

text \<open>C10. A client that uploads a file, in a new session or by taking an earlier one up again, puts each part the
  session does not have exactly once, in order, and completes with every part; the parts are the file, and once
  storage holds them the server's check of the completion accepts it.\<close>

theorem client_meets_server:
  assumes "upload_check u" and "int (length video) = upload_size u"
    and "open_session sv session_id h = (Inr s, h1)" and "cs_state s = UOpen"
    and "cs_part_size s = upload_part_size u" and "cs_part_count s = part_count u"
    and "distinct (map part_n (cs_manifest s))" and "set (map part_n (cs_manifest s)) \<subseteq> {1..part_count u}"
    and "upload_and_resume sv origin stop video session_id h = (Inr (jid, uid, n), h')"
  shows "\<exists>es m. h' = h1 @ es @ [CompleteSession uid m] \<and> completions_of es = []
    \<and> puts_of es = map (\<lambda>k. (k, part_bytes (upload_part_size u) video k))
         (filter (\<lambda>k. k \<notin> part_n ` set (cs_manifest s)) [1..part_count u])
    \<and> concat (map (part_bytes (upload_part_size u) video) [1..part_count u]) = video
    \<and> contiguous_parts m \<and> int (length m) = part_count u
    \<and> validate_parts (u\<lparr>upload_manifest := Some (manifest m)\<rparr>)
        (map (\<lambda>p. \<lparr>sp_n = part_n p, sp_etag = part_etag p, sp_size = int (length (part_bytes (upload_part_size u) video (part_n p)))\<rparr>) m) = Inr ()"
proof -
  have "cs_state s \<noteq> UCompleted" using assms(4) by simp
  from session_sends [OF assms(3) this assms(9)] assms(4,5,6) obtain es m where
    h': "h' = h1 @ es @ [CompleteSession uid (sort_key part_n m)]" "completions_of es = []"
    and puts: "puts_of es = map (\<lambda>k. (k, part_bytes (upload_part_size u) video k)) (filter (\<lambda>k. k \<notin> part_n ` set (cs_manifest s)) [1..part_count u])"
    and m: "map part_n m = map part_n (cs_manifest s) @ filter (\<lambda>k. k \<notin> part_n ` set (cs_manifest s)) [1..part_count u]" by auto
  have numbers: "map part_n (sort_key part_n m) = [1..part_count u]"
    unfolding map_sort_key by (rule missing_and_listed [OF assms(7,8) m])
  note bounds = part_count_bounds [OF assms(1)]
  have len: "int (length (sort_key part_n m)) = part_count u" using arg_cong [OF numbers, of length] bounds by simp
  then have "contiguous_parts (sort_key part_n m)" using numbers by (simp add: contiguous_parts_def map_sort_key)
  moreover have "concat (map (part_bytes (upload_part_size u) video) [1..part_count u]) = video"
  proof -
    obtain c where c: "part_count u = int c" using bounds by (metis nonneg_int_cases dual_order.trans zero_le_one)
    have pos: "0 < upload_part_size u" using assms(1) by (simp add: upload_check_def)
    then have "int (length video) \<le> int (nat (upload_part_size u) * c)" using bounds assms(2) c by (simp add: mult.commute)
    with part_bytes_join [of "upload_part_size u" video c] pos c show ?thesis by simp
  qed
  ultimately show ?thesis using h' puts puts_are_accepted [OF assms(1,2) numbers] len by blast
qed

section \<open>A concrete run\<close>

definition sample_service :: service where
  \<comment> \<open>a session of two parts; storage answers every part with the same tag\<close>
  "sample_service =
     \<lparr>sv_session = (\<lambda>h k. Inr \<lparr>up_parts_done = map (\<lambda>p. \<lparr>part_n = fst p, part_etag = ''t''\<rparr>) (puts_of h), up_state = UOpen,
        up_part_size = 3, up_part_count = 2, up_job_id = None\<rparr>),
      sv_start = (\<lambda>h. Inr (5, 3, 2)), sv_sign = (\<lambda>h k n. Inr ''https://storage/''),
      sv_preflight = (\<lambda>h u. Inr [(''access-control-allow-origin'', ''*''), (''access-control-allow-methods'', ''PUT'')]),
      sv_put = (\<lambda>h u content. Inr [(''access-control-allow-origin'', ''*''), (''access-control-expose-headers'', ''ETag''), (''etag'', ''t'')]),
      sv_complete = (\<lambda>h k ps. Inr 7)\<rparr>"

lemma header_texts: "lower (strip ''ETag'') = ''etag''" "lower ''PUT'' = ''put''"
  by (simp_all add: lower_def lower_char_def strip_def lstrip_def rstrip_def py_space_def) code_simp+

lemma sample_run:
  "fst (upload_and_resume sample_service ''https://site'' False [1, 2, 3, 4, 5] None []) = Inr (Some 7, 5, 2)"
  by (simp add: upload_and_resume_def open_session_def bind_c_def sample_service_def put_part_def transfer_part_def
      check_preflight_def cors_def confirm_first_def header_texts Let_def upto_rec2 part_bytes_def starts_with_def)

theorem client_meets_server_witness:
  "\<exists>es m. snd (upload_and_resume sample_service ''https://site'' False [1, 2, 3, 4, 5] None [])
      = [StartSession, Checkpoint ''upload_id''] @ es @ [CompleteSession 5 m]
     \<and> puts_of es = [(1, [1, 2, 3]), (2, [4, 5])] \<and> contiguous_parts m"
proof -
  let ?s = "\<lparr>cs_uid = 5, cs_state = UOpen, cs_manifest = [], cs_part_size = 3, cs_part_count = 2, cs_job_id = None\<rparr>"
  obtain r h' where run: "upload_and_resume sample_service ''https://site'' False [1, 2, 3, 4, 5] None [] = (r, h')" by fastforce
  with sample_run have r: "r = Inr (Some 7, 5, 2)" by simp
  have open': "open_session sample_service None [] = (Inr ?s, [StartSession, Checkpoint ''upload_id''])"
    by (simp add: open_session_def bind_c_def sample_service_def)
  have u: "upload_check sample_upload" "upload_size sample_upload = 5" "upload_part_size sample_upload = 3" "part_count sample_upload = 2"
    by (simp_all add: sample_upload_def upload_check_def part_count_def)
  from client_meets_server [OF u(1) _ open' _ _ _ _ _ run [unfolded r]] obtain es m where
    "h' = [StartSession, Checkpoint ''upload_id''] @ es @ [CompleteSession 5 m]" "contiguous_parts m"
    "puts_of es = map (\<lambda>k. (k, part_bytes 3 [1, 2, 3, 4, 5] k)) [1..2]" by (auto simp: u)
  with run show ?thesis by (intro exI [of _ es] exI [of _ m]) (simp add: part_bytes_def upto_rec2)
qed

end
