(* ===== verification/Spec2Isabelle.thy ===== *)
theory Spec2Isabelle
  imports Validation Job_Queries Piece_Race Ladder_Pieces Tasks Interruption Queueing Cleanup Reaper Upload_Safety Renditions Jobs_Api Preview Playback Access Accounts Configuration Queue_Depth Worker_Entry Direct_Client
begin

text \<open>
  A verification library for the media service under \<open>app/\<close>.
\<close>

end
